(* ===== verification/Prelude.thy ===== *)
theory Prelude
  imports Main "HOL-Library.Sublist" "HOL-Library.Multiset"
begin

text \<open>
  Shared ground of the development: the collections of hints that the component theories fill,
  results as sums, and the insertion-ordered maps (\<open>IndexMap\<close>, and the \<open>HashMap\<close>s whose
  iteration order the code never looks at) as association lists with distinct keys.
\<close>

section \<open>Hint collections\<close>

named_theorems model_defs \<open>definitions that the component proofs unfold together\<close>
named_theorems inv_intros \<open>facts of the form: an operation keeps an invariant\<close>

section \<open>Results\<close>

text \<open>
  A Rust \<open>Result\<close> is a sum with the error on the left. \<open>and_then_r\<close> is the \<open>?\<close> operator.
\<close>

type_synonym ('e, 'a) res = "'e + 'a"

definition and_then_r :: "('e, 'a) res \<Rightarrow> ('a \<Rightarrow> ('e, 'b) res) \<Rightarrow> ('e, 'b) res" where
  "and_then_r r f = (case r of Inl e \<Rightarrow> Inl e | Inr a \<Rightarrow> f a)"

lemma and_then_r_simps [simp]:
  "and_then_r (Inl e) f = Inl e"
  "and_then_r (Inr a) f = f a"
  by (simp_all add: and_then_r_def)

lemma and_then_r_Inr_iff:
  "and_then_r r f = Inr b \<longleftrightarrow> (\<exists>a. r = Inr a \<and> f a = Inr b)"
  by (cases r) auto

definition ok_or :: "'e \<Rightarrow> 'a option \<Rightarrow> ('e, 'a) res" where
  "ok_or e x = (case x of None \<Rightarrow> Inl e | Some a \<Rightarrow> Inr a)"

definition ok_of :: "('e, 'a) res \<Rightarrow> 'a option" where
  "ok_of r = (case r of Inl _ \<Rightarrow> None | Inr a \<Rightarrow> Some a)"

lemma ok_or_simps [simp]:
  "ok_or e None = Inl e" "ok_or e (Some a) = Inr a"
  "ok_of (Inl e) = None" "ok_of (Inr a) = Some a"
  by (simp_all add: ok_or_def ok_of_def)

definition unwrap_or :: "'a option \<Rightarrow> 'a \<Rightarrow> 'a" where
  "unwrap_or x d = (case x of None \<Rightarrow> d | Some a \<Rightarrow> a)"

definition or_else :: "'a option \<Rightarrow> 'a option \<Rightarrow> 'a option" where
  "or_else x y = (case x of None \<Rightarrow> y | Some a \<Rightarrow> Some a)"

lemma option_simps [simp]:
  "unwrap_or None d = d" "unwrap_or (Some a) d = a"
  "or_else None y = y" "or_else (Some a) y = Some a"
  by (simp_all add: unwrap_or_def or_else_def)

lemma or_else_None_iff: "or_else x y = None \<longleftrightarrow> x = None \<and> y = None"
  by (cases x) auto

section \<open>Insertion-ordered maps\<close>

text \<open>
  \<open>im_insert\<close> overwrites in place when the key is present and appends otherwise, as
  \<open>IndexMap::insert\<close> does; look-up is \<open>map_of\<close>.
\<close>

type_synonym ('k, 'v) imap = "('k \<times> 'v) list"

fun im_insert :: "'k \<Rightarrow> 'v \<Rightarrow> ('k, 'v) imap \<Rightarrow> ('k, 'v) imap" where
  "im_insert k v [] = [(k, v)]"
| "im_insert k v ((k', v') # m) = (if k' = k then (k, v) # m else (k', v') # im_insert k v m)"

definition im_remove :: "'k \<Rightarrow> ('k, 'v) imap \<Rightarrow> ('k, 'v) imap" where
  "im_remove k m = filter (\<lambda>p. fst p \<noteq> k) m"

definition im_values :: "('k, 'v) imap \<Rightarrow> 'v list" where
  "im_values m = map snd m"

definition im_wf :: "('k, 'v) imap \<Rightarrow> bool" where
  "im_wf m = distinct (map fst m)"

lemma im_wf_simps [simp]:
  "im_wf []" "im_wf ((k, v) # m) \<longleftrightarrow> k \<notin> fst ` set m \<and> im_wf m"
  by (simp_all add: im_wf_def)

lemma im_values_simps [simp]:
  "im_values [] = []" "im_values ((k, v) # m) = v # im_values m"
  by (simp_all add: im_values_def)

lemma im_remove_simps [simp]:
  "im_remove k [] = []"
  "im_remove k ((k', v) # m) = (if k' = k then im_remove k m else (k', v) # im_remove k m)"
  by (simp_all add: im_remove_def)

lemma map_of_im_insert [simp]: "map_of (im_insert k v m) = (map_of m)(k \<mapsto> v)"
  by (induction m rule: im_insert.induct) (auto simp: fun_eq_iff)

lemma keys_im_insert [simp]: "fst ` set (im_insert k v m) = insert k (fst ` set m)"
  by (induction k v m rule: im_insert.induct) auto

lemma im_wf_insert [simp, inv_intros]: "im_wf m \<Longrightarrow> im_wf (im_insert k v m)"
  by (induction k v m rule: im_insert.induct) auto

lemma map_of_im_remove [simp]: "map_of (im_remove k m) = (map_of m)(k := None)"
  by (induction m) (auto simp: fun_eq_iff)

lemma im_remove_id: "k \<notin> fst ` set m \<Longrightarrow> im_remove k m = m"
  by (induction m) auto

lemma keys_im_remove [simp]: "fst ` set (im_remove k m) = fst ` set m - {k}"
  by (auto simp: im_remove_def)

lemma im_wf_remove [simp, inv_intros]: "im_wf m \<Longrightarrow> im_wf (im_remove k m)"
  by (induction m) (auto simp: image_iff)

text \<open>What an update does to the bag of values: the two facts the tool-call bookkeeping rests on.\<close>

lemma mset_im_insert_le:
  "mset (im_values (im_insert k v m)) \<subseteq># add_mset v (mset (im_values m))"
proof (induction k v m rule: im_insert.induct)
  case (2 k v k' v' m)
  then show ?case
    by (cases "k' = k") (auto simp: add_mset_commute [of v v'])
qed simp

lemma mset_im_remove:
  assumes "im_wf m" and "map_of m k = Some v"
  shows "mset (im_values m) = add_mset v (mset (im_values (im_remove k m)))"
  using assms
proof (induction m)
  case (Cons p m)
  obtain k' v' where p: "p = (k', v')" by (cases p)
  show ?case
  proof (cases "k' = k")
    case True
    with Cons.prems p have "v' = v" "im_remove k m = m" by (auto intro: im_remove_id)
    with True p show ?thesis by simp
  next
    case False
    with Cons p show ?thesis by simp
  qed
qed simp

lemma map_of_in_values: "map_of m k = Some v \<Longrightarrow> v \<in> set (im_values m)"
  by (induction m) (auto split: if_splits)

section \<open>Lists\<close>

lemma find_Some_memb: "find P xs = Some x \<Longrightarrow> x \<in> set xs \<and> P x"
  by (induction xs) (auto split: if_splits)

lemma find_append: "find P (xs @ ys) = or_else (find P xs) (find P ys)"
  by (induction xs) auto

text \<open>The first index whose element satisfies a predicate (\<open>Iterator::position\<close>).\<close>

fun position :: "('a \<Rightarrow> bool) \<Rightarrow> 'a list \<Rightarrow> nat option" where
  "position P [] = None"
| "position P (x # xs) = (if P x then Some 0 else map_option Suc (position P xs))"

lemma position_None_iff: "position P xs = None \<longleftrightarrow> (\<forall>x \<in> set xs. \<not> P x)"
  by (induction xs) auto

lemma position_SomeD:
  "position P xs = Some i \<Longrightarrow>
     i < length xs \<and> P (xs ! i) \<and> (\<forall>x \<in> set (take i xs). \<not> P x)"
proof (induction xs arbitrary: i)
  case (Cons x xs)
  then show ?case by (cases i) (auto split: if_splits)
qed simp

lemma position_append_Cons:
  "(\<forall>x \<in> set xs. \<not> P x) \<Longrightarrow> P y \<Longrightarrow> position P (xs @ y # ys) = Some (length xs)"
  by (induction xs) auto

end
