(* ===== verification/Rust_Str.thy ===== *)
theory Rust_Str
  imports Prelude
begin

text \<open>
  Rust's \<open>String\<close> as the list of its UTF-8 bytes, and the standard-library operations the code
  uses on it. Operations that look for an ASCII delimiter, measure \<open>len()\<close> or compare for
  equality are exact on bytes, because no byte of a multi-byte sequence is ASCII. \<open>trim\<close> knows
  every Unicode \<open>White_Space\<close> character by its encoding. Only the case mappings are restricted:
  they map the ASCII letters and leave all other bytes alone, so they are exact on ASCII strings.
\<close>

section \<open>Characters\<close>

definition byte :: "char \<Rightarrow> nat" where
  "byte c = of_char c"

definition is_digit :: "char \<Rightarrow> bool" where
  "is_digit c \<longleftrightarrow> 48 \<le> byte c \<and> byte c \<le> 57"

definition is_upper :: "char \<Rightarrow> bool" where
  "is_upper c \<longleftrightarrow> 65 \<le> byte c \<and> byte c \<le> 90"

definition is_lower :: "char \<Rightarrow> bool" where
  "is_lower c \<longleftrightarrow> 97 \<le> byte c \<and> byte c \<le> 122"

definition is_alnum :: "char \<Rightarrow> bool" where
  "is_alnum c \<longleftrightarrow> is_digit c \<or> is_upper c \<or> is_lower c"

definition is_ascii :: "char \<Rightarrow> bool" where
  "is_ascii c \<longleftrightarrow> byte c < 128"

definition ascii_lower :: "char \<Rightarrow> char" where
  "ascii_lower c = (if is_upper c then char_of (byte c + 32) else c)"

definition ascii_upper :: "char \<Rightarrow> char" where
  "ascii_upper c = (if is_lower c then char_of (byte c - 32) else c)"

lemma byte_inj [simp]: "byte c = byte d \<longleftrightarrow> c = d"
  by (simp add: byte_def)

lemma byte_lt_256: "byte c < 256"
  by (simp add: byte_def)

lemma byte_char_of: "n < 256 \<Longrightarrow> byte (char_of n) = n"
  by (simp add: byte_def)

definition to_lowercase :: "string \<Rightarrow> string" where
  "to_lowercase = map ascii_lower"

definition to_uppercase :: "string \<Rightarrow> string" where
  "to_uppercase = map ascii_upper"

lemma ascii_lower_not_upper: "\<not> is_upper (ascii_lower c)"
proof (cases "is_upper c")
  case True
  then have "byte (ascii_lower c) = byte c + 32"
    by (simp add: ascii_lower_def is_upper_def byte_char_of)
  with True show ?thesis by (simp add: is_upper_def)
qed (simp add: ascii_lower_def)

lemma ascii_lower_idem [simp]: "ascii_lower (ascii_lower c) = ascii_lower c"
  using ascii_lower_not_upper [of c] by (simp add: ascii_lower_def [of "ascii_lower c"])

lemma to_lowercase_idem [simp]: "to_lowercase (to_lowercase s) = to_lowercase s"
  by (simp add: to_lowercase_def)

lemma to_lowercase_append [simp]: "to_lowercase (s @ t) = to_lowercase s @ to_lowercase t"
  by (simp add: to_lowercase_def)

lemma length_to_lowercase [simp]: "length (to_lowercase s) = length s"
  by (simp add: to_lowercase_def)

text \<open>The text of a format string's \<open>'{}'\<close>, and of a double quote.\<close>

definition quoted :: "string \<Rightarrow> string" where
  "quoted s = [CHR 0x27] @ s @ [CHR 0x27]"

definition dquote :: char where
  "dquote = CHR 0x22"

section \<open>White space and trimming\<close>

text \<open>The UTF-8 encodings of the characters with the Unicode property \<open>White_Space\<close>.\<close>

definition ws_encodings :: "string list" where
  "ws_encodings =
     [[CHR 0x09], [CHR 0x0A], [CHR 0x0B], [CHR 0x0C], [CHR 0x0D], [CHR 0x20],
      [CHR 0xC2, CHR 0x85], [CHR 0xC2, CHR 0xA0],
      [CHR 0xE1, CHR 0x9A, CHR 0x80],
      [CHR 0xE2, CHR 0x80, CHR 0x80], [CHR 0xE2, CHR 0x80, CHR 0x81],
      [CHR 0xE2, CHR 0x80, CHR 0x82], [CHR 0xE2, CHR 0x80, CHR 0x83],
      [CHR 0xE2, CHR 0x80, CHR 0x84], [CHR 0xE2, CHR 0x80, CHR 0x85],
      [CHR 0xE2, CHR 0x80, CHR 0x86], [CHR 0xE2, CHR 0x80, CHR 0x87],
      [CHR 0xE2, CHR 0x80, CHR 0x88], [CHR 0xE2, CHR 0x80, CHR 0x89],
      [CHR 0xE2, CHR 0x80, CHR 0x8A],
      [CHR 0xE2, CHR 0x80, CHR 0xA8], [CHR 0xE2, CHR 0x80, CHR 0xA9],
      [CHR 0xE2, CHR 0x80, CHR 0xAF], [CHR 0xE2, CHR 0x81, CHR 0x9F],
      [CHR 0xE3, CHR 0x80, CHR 0x80]]"

text \<open>The length of a leading encoding from the list, 0 when there is none.\<close>

definition lead_len :: "string list \<Rightarrow> string \<Rightarrow> nat" where
  "lead_len ws s = (case find (\<lambda>w. prefix w s) ws of None \<Rightarrow> 0 | Some w \<Rightarrow> length w)"

function trim_with :: "string list \<Rightarrow> string \<Rightarrow> string" where
  "trim_with ws s =
     (if lead_len ws s = 0 \<or> s = [] then s else trim_with ws (drop (lead_len ws s) s))"
  by pat_completeness auto
termination
  by (relation "measure (\<lambda>(ws, s). length s)") auto

declare trim_with.simps [simp del]

definition trim_start :: "string \<Rightarrow> string" where
  "trim_start s = trim_with ws_encodings s"

definition trim_end :: "string \<Rightarrow> string" where
  "trim_end s = rev (trim_with (map rev ws_encodings) (rev s))"

definition trim :: "string \<Rightarrow> string" where
  "trim s = trim_end (trim_start s)"

lemma trim_with_Nil [simp]: "trim_with ws [] = []"
  by (subst trim_with.simps) simp

lemma trim_with_suffix: "suffix (trim_with ws s) s"
proof (induction ws s rule: trim_with.induct)
  case (1 ws s)
  show ?case
  proof (cases "lead_len ws s = 0 \<or> s = []")
    case True
    then show ?thesis by (subst trim_with.simps) simp
  next
    case False
    with 1 have "suffix (trim_with ws (drop (lead_len ws s) s)) (drop (lead_len ws s) s)" by simp
    moreover have "suffix (drop (lead_len ws s) s) s" by (rule suffix_drop)
    ultimately show ?thesis
      using False by (subst trim_with.simps) (auto intro: suffix_order.trans)
  qed
qed

lemma lead_len_trim_with: "lead_len ws (trim_with ws s) = 0 \<or> trim_with ws s = []"
proof (induction ws s rule: trim_with.induct)
  case (1 ws s)
  then show ?case
    by (cases "lead_len ws s = 0 \<or> s = []") (simp_all add: trim_with.simps [of ws s])
qed

lemma trim_with_fix: "lead_len ws s = 0 \<Longrightarrow> trim_with ws s = s"
  by (subst trim_with.simps) simp

lemma trim_with_idem [simp]: "trim_with ws (trim_with ws s) = trim_with ws s"
  using lead_len_trim_with [of ws s] by (auto simp: trim_with_fix)

lemma lead_len_0_iff:
  assumes "[] \<notin> set ws"
  shows "lead_len ws s = 0 \<longleftrightarrow> (\<forall>w \<in> set ws. \<not> prefix w s)"
proof (cases "find (\<lambda>w. prefix w s) ws")
  case None
  then have "lead_len ws s = 0" by (simp add: lead_len_def)
  moreover from None have "\<forall>w \<in> set ws. \<not> prefix w s" by (auto simp: find_None_iff)
  ultimately show ?thesis by blast
next
  case (Some w)
  then have "w \<in> set ws" "prefix w s" by (auto dest: find_Some_memb)
  with assms Some show ?thesis by (auto simp: lead_len_def)
qed

lemma lead_len_prefix:
  assumes "[] \<notin> set ws" and "lead_len ws s = 0" and "prefix t s"
  shows "lead_len ws t = 0"
  using assms by (auto simp: lead_len_0_iff dest: prefix_order.trans)

lemma ws_encodings_nonempty [simp]: "[] \<notin> set ws_encodings"
  by (simp add: ws_encodings_def)

lemma ws_encodings_rev_nonempty [simp]: "[] \<notin> set (map rev ws_encodings)"
  by (simp add: ws_encodings_def)

lemma trim_start_Nil [simp]: "trim_start [] = []"
  by (simp add: trim_start_def)

lemma trim_end_Nil [simp]: "trim_end [] = []"
  by (simp add: trim_end_def)

lemma trim_Nil [simp]: "trim [] = []"
  by (simp add: trim_def)

lemma trim_end_prefix: "prefix (trim_end s) s"
  using trim_with_suffix [of "map rev ws_encodings" "rev s"]
  by (simp add: trim_end_def suffix_to_prefix)

lemma trim_start_suffix: "suffix (trim_start s) s"
  by (simp add: trim_start_def trim_with_suffix)

text \<open>A string without white space at either end, which is what trimming returns.\<close>

definition trimmed :: "string \<Rightarrow> bool" where
  "trimmed s \<longleftrightarrow> lead_len ws_encodings s = 0 \<and> lead_len (map rev ws_encodings) (rev s) = 0"

lemma lead_len_Nil: "[] \<notin> set ws \<Longrightarrow> lead_len ws [] = 0"
  by (metis lead_len_0_iff prefix_Nil)

lemma trimmed_trim [simp]: "trimmed (trim s)"
proof -
  have "lead_len ws_encodings (trim_start s) = 0"
    using lead_len_trim_with [of ws_encodings s] lead_len_Nil [OF ws_encodings_nonempty]
    by (auto simp: trim_start_def)
  then have "lead_len ws_encodings (trim s) = 0"
    unfolding trim_def
    by (rule lead_len_prefix [OF ws_encodings_nonempty]) (rule trim_end_prefix)
  moreover have "lead_len (map rev ws_encodings) (rev (trim s)) = 0"
    using lead_len_trim_with [of "map rev ws_encodings" "rev (trim_start s)"]
      lead_len_Nil [OF ws_encodings_rev_nonempty]
    by (auto simp: trim_def trim_end_def)
  ultimately show ?thesis by (simp add: trimmed_def)
qed

lemma trim_trimmed: "trimmed s \<Longrightarrow> trim s = s"
  by (simp add: trimmed_def trim_def trim_start_def trim_end_def trim_with_fix)

lemma trim_idem [simp]: "trim (trim s) = trim s"
  by (simp add: trim_trimmed)

lemma trimmed_Nil [simp]: "trimmed []"
  using trimmed_trim [of "[]"] by simp

lemma length_trim_le: "length (trim s) \<le> length s"
proof -
  have "length (trim s) \<le> length (trim_start s)"
    unfolding trim_def by (rule prefix_length_le) (rule trim_end_prefix)
  also have "\<dots> \<le> length s" by (rule suffix_length_le) (rule trim_start_suffix)
  finally show ?thesis .
qed

text \<open>
  The end of a string decides whether it is trimmed there: glueing a non-empty string that is
  trimmed at its end behind a string keeps its end trimmed (and likewise at the start).
\<close>

definition ascii_ws :: "string" where
  "ascii_ws = [CHR 0x09, CHR 0x0A, CHR 0x0B, CHR 0x0C, CHR 0x0D, CHR 0x20]"

lemma hd_ws_encodings:
  "\<forall>w \<in> set ws_encodings. w \<noteq> [] \<and> (hd w \<in> set ascii_ws \<or> 128 \<le> byte (hd w))"
  by (simp add: ws_encodings_def ascii_ws_def byte_def)

lemma last_ws_encodings:
  "\<forall>w \<in> set ws_encodings. w \<noteq> [] \<and> (last w \<in> set ascii_ws \<or> 128 \<le> byte (last w))"
  by (simp add: ws_encodings_def ascii_ws_def byte_def)

lemma ascii_nonspace_start:
  assumes "byte c < 128" and "c \<notin> set ascii_ws"
  shows "lead_len ws_encodings (c # s) = 0"
proof -
  have "\<not> prefix w (c # s)" if w: "w \<in> set ws_encodings" for w
  proof
    assume "prefix w (c # s)"
    moreover have "w \<noteq> []" using hd_ws_encodings w by blast
    ultimately have "hd w = c" by (cases w) auto
    with w hd_ws_encodings assms show False by force
  qed
  then show ?thesis by (simp add: lead_len_0_iff)
qed

lemma trim_start_nonspace:
  "byte c < 128 \<Longrightarrow> c \<notin> set ascii_ws \<Longrightarrow> trim_start (c # s) = c # s"
  unfolding trim_start_def by (rule trim_with_fix) (rule ascii_nonspace_start)

lemma trim_start_space [simp]: "trim_start (CHR '' '' # s) = trim_start s"
proof -
  have "lead_len ws_encodings (CHR '' '' # s) = 1"
    by (simp add: lead_len_def ws_encodings_def)
  then show ?thesis by (simp add: trim_start_def trim_with.simps [of ws_encodings "CHR '' '' # s"])
qed

lemma ascii_nonspace_end:
  assumes "byte c < 128" and "c \<notin> set ascii_ws"
  shows "lead_len (map rev ws_encodings) (rev (s @ [c])) = 0"
proof -
  have "\<not> prefix (rev w) (c # rev s)" if w: "w \<in> set ws_encodings" for w
  proof
    assume "prefix (rev w) (c # rev s)"
    moreover have ne: "w \<noteq> []" using hd_ws_encodings w by blast
    ultimately have "hd (rev w) = c" by (cases "rev w") auto
    with ne have "last w = c" by (simp add: hd_rev)
    with w last_ws_encodings assms show False by force
  qed
  then have "\<forall>w \<in> set (map rev ws_encodings). \<not> prefix w (rev (s @ [c]))" by simp
  then show ?thesis using lead_len_0_iff [OF ws_encodings_rev_nonempty] by blast
qed

lemma trimmed_ascii:
  assumes "byte (hd s) < 128" "hd s \<notin> set ascii_ws" "byte (last s) < 128" "last s \<notin> set ascii_ws"
    and "s \<noteq> []"
  shows "trimmed s"
proof -
  have "lead_len ws_encodings (hd s # tl s) = 0"
    using assms by (intro ascii_nonspace_start) auto
  moreover have "lead_len (map rev ws_encodings) (rev (butlast s @ [last s])) = 0"
    using assms by (intro ascii_nonspace_end) auto
  ultimately show ?thesis using \<open>s \<noteq> []\<close> by (simp add: trimmed_def)
qed

lemma ws_encodings_multibyte:
  "\<forall>w \<in> set ws_encodings. 2 \<le> length w \<longrightarrow> (\<forall>c \<in> set w. 128 \<le> byte c)"
  by (simp add: ws_encodings_def byte_def)

text \<open>No encoding reaches back across an ASCII character, so only the last piece matters.\<close>

lemma trimmed_end_append:
  assumes "trimmed w" and "w \<noteq> []" and "byte c < 128"
  shows "lead_len (map rev ws_encodings) (rev w @ c # s) = 0"
proof -
  have "\<not> prefix (rev e) (rev w @ c # s)" if e: "e \<in> set ws_encodings" for e
  proof
    assume pre: "prefix (rev e) (rev w @ c # s)"
    have no: "\<not> prefix (rev e) (rev w)"
      using assms(1) e lead_len_0_iff [OF ws_encodings_rev_nonempty] by (auto simp: trimmed_def)
    have len: "length w < length e"
    proof (rule ccontr)
      assume "\<not> length w < length e"
      with pre have "prefix (rev e) (rev w)"
        by (intro prefix_length_prefix [of "rev e" "rev w @ c # s" "rev w"]) auto
      with no show False ..
    qed
    from pre obtain r where "rev w @ c # s = rev e @ r" by (auto elim: prefixE)
    then have "(rev w @ c # s) ! length w = (rev e @ r) ! length w" by simp
    then have "rev e ! length w = c" using len by (simp add: nth_append)
    then have "c \<in> set e" using len by (metis length_rev nth_mem set_rev)
    moreover have "2 \<le> length e" using len \<open>w \<noteq> []\<close> by (cases w) auto
    ultimately show False using ws_encodings_multibyte e assms(3) by force
  qed
  then have "\<forall>e \<in> set (map rev ws_encodings). \<not> prefix e (rev w @ c # s)" by simp
  then show ?thesis using lead_len_0_iff [OF ws_encodings_rev_nonempty] by blast
qed

lemma set_trim_subset: "set (trim s) \<subseteq> set s"
  using set_mono_prefix [OF trim_end_prefix [of "trim_start s"]]
    set_mono_suffix [OF trim_start_suffix [of s]]
  by (auto simp: trim_def)

section \<open>Searching, splitting, joining\<close>

definition strip_prefix :: "string \<Rightarrow> string \<Rightarrow> string option" where
  "strip_prefix p s = (if prefix p s then Some (drop (length p) s) else None)"

lemma strip_prefix_Some_iff: "strip_prefix p s = Some t \<longleftrightarrow> s = p @ t"
  by (auto simp: strip_prefix_def elim: prefixE)

lemma strip_prefix_None_iff: "strip_prefix p s = None \<longleftrightarrow> \<not> prefix p s"
  by (simp add: strip_prefix_def)

lemma strip_prefix_append [simp]: "strip_prefix p (p @ t) = Some t"
  by (simp add: strip_prefix_Some_iff)

text \<open>\<open>str_find s p\<close> is \<open>s.find(p)\<close>: the byte offset of the first occurrence.\<close>

fun str_find :: "string \<Rightarrow> string \<Rightarrow> nat option" where
  "str_find [] p = (if p = [] then Some 0 else None)"
| "str_find (c # s) p = (if prefix p (c # s) then Some 0 else map_option Suc (str_find s p))"

definition str_contains :: "string \<Rightarrow> string \<Rightarrow> bool" where
  "str_contains s p \<longleftrightarrow> str_find s p \<noteq> None"

lemma str_find_Some:
  "str_find s p = Some i \<Longrightarrow> i + length p \<le> length s \<and> s = take i s @ p @ drop (i + length p) s"
proof (induction s arbitrary: i)
  case (Cons c s)
  show ?case
  proof (cases "prefix p (c # s)")
    case True
    with Cons.prems show ?thesis by (auto elim: prefixE dest: prefix_length_le)
  next
    case False
    with Cons.prems obtain j where "i = Suc j" "str_find s p = Some j" by auto
    with Cons.IH [of j] show ?thesis by simp
  qed
qed (simp split: if_splits)

lemma str_find_None_iff: "str_find s p = None \<longleftrightarrow> \<not> sublist p s"
  by (induction s) (auto simp: sublist_Cons_right)

lemma str_contains_iff: "str_contains s p \<longleftrightarrow> sublist p s"
  by (simp add: str_contains_def str_find_None_iff del: not_None_eq)

lemma str_find_append:
  "str_find s p = Some i \<Longrightarrow> str_find (s @ t) p = Some i"
proof (induction s arbitrary: i)
  case Nil
  then have "p = []" "i = 0" by (auto split: if_splits)
  then show ?case by (cases t) auto
next
  case (Cons c s)
  show ?case
  proof (cases "prefix p (c # s)")
    case True
    then have "prefix p ((c # s) @ t)" by (rule prefix_prefix)
    with True Cons.prems show ?thesis by simp
  next
    case False
    with Cons.prems obtain j where j: "i = Suc j" "str_find s p = Some j" by auto
    then have "j + length p \<le> length s" by (blast dest: str_find_Some)
    then have "prefix p ((c # s) @ t) \<longleftrightarrow> prefix p (c # s)"
      by (intro iffI prefix_prefix)
        (rule prefix_length_prefix [of _ "(c # s) @ t"], auto simp del: append_Cons)
    with False j Cons.IH [of j] show ?thesis by simp
  qed
qed

lemma str_find_first:
  assumes "\<not> sublist p (pre @ butlast p)"
  shows "str_find (pre @ p @ rest) p = Some (length pre)"
proof -
  have "p \<noteq> []" using assms by auto
  have "\<not> sublist p (pre @ butlast p) \<Longrightarrow> str_find (pre @ p @ rest) p = Some (length pre)"
  proof (induction pre)
    case Nil
    show ?case using \<open>p \<noteq> []\<close> by (cases p) auto
  next
    case (Cons c pre)
    have "\<not> prefix p (c # pre @ p @ rest)"
    proof
      assume "prefix p (c # pre @ p @ rest)"
      moreover have "prefix (c # pre @ butlast p) (c # pre @ p @ rest)"
        using \<open>p \<noteq> []\<close> by (auto simp: prefix_def) (metis append.assoc append_butlast_last_id)
      moreover have "length p \<le> length (c # pre @ butlast p)" by simp
      ultimately have "prefix p (c # pre @ butlast p)" by (blast intro: prefix_length_prefix)
      then show False using Cons.prems by auto
    qed
    moreover have "\<not> sublist p (pre @ butlast p)" using Cons.prems by (auto simp: sublist_Cons_right)
    ultimately show ?case using Cons.IH by simp
  qed
  then show ?thesis using assms by blast
qed

text \<open>An occurrence cannot reach across characters that the pattern does not have.\<close>

lemma sublist_across:
  assumes "sublist p (x @ ds @ y)" and "set ds \<inter> set p = {}" and "ds \<noteq> []"
  shows "sublist p x \<or> sublist p y"
  using assms
proof (induction ds arbitrary: x)
  case (Cons d ds)
  have d: "d \<notin> set p" using Cons.prems by auto
  have one: "sublist p x \<or> sublist p z" if "sublist p (x @ d # z)" for z
    using that d unfolding sublist_append by (auto simp: sublist_Cons_right prefix_Cons)
  show ?case
  proof (cases "ds = []")
    case True
    then show ?thesis using one Cons.prems by simp
  next
    case False
    with Cons.IH [of "[]"] Cons.prems one [of "ds @ y"] show ?thesis by auto
  qed
qed simp

text \<open>\<open>split\<close> on an ASCII character and \<open>join\<close>.\<close>

fun str_split :: "char \<Rightarrow> string \<Rightarrow> string list" where
  "str_split d [] = [[]]"
| "str_split d (c # s) =
     (if c = d then [] # str_split d s
      else (case str_split d s of [] \<Rightarrow> [[c]] | w # ws \<Rightarrow> (c # w) # ws))"

fun str_join :: "string \<Rightarrow> string list \<Rightarrow> string" where
  "str_join sep [] = []"
| "str_join sep [w] = w"
| "str_join sep (w # v # ws) = w @ sep @ str_join sep (v # ws)"

lemma str_join_snoc: "ws \<noteq> [] \<Longrightarrow> str_join sep (ws @ [w]) = str_join sep ws @ sep @ w"
proof (induction sep ws rule: str_join.induct)
  case (2 sep v)
  then show ?case by simp
next
  case (3 sep v u us)
  then show ?case by (cases "us @ [w]") auto
qed simp

lemma str_split_nonempty [simp]: "str_split d s \<noteq> []"
  by (induction s) (auto split: list.splits)

lemma str_join_split [simp]: "str_join [d] (str_split d s) = s"
proof (induction s)
  case (Cons c s)
  obtain w ws where "str_split d s = w # ws" by (cases "str_split d s") auto
  with Cons show ?case by (cases ws) auto
qed simp

lemma str_split_no_delim: "w \<in> set (str_split d s) \<Longrightarrow> d \<notin> set w"
proof (induction s arbitrary: w)
  case (Cons c s)
  obtain v vs where "str_split d s = v # vs" by (cases "str_split d s") auto
  with Cons show ?case by (auto split: if_splits)
qed simp

lemma str_split_id: "d \<notin> set w \<Longrightarrow> str_split d w = [w]"
  by (induction w) auto

lemma str_split_append: "d \<notin> set w \<Longrightarrow> str_split d (w @ d # s) = w # str_split d s"
  by (induction w) auto

lemma str_split_append_delim: "str_split d (a @ d # s) = str_split d a @ str_split d s"
proof (induction a)
  case (Cons c a)
  obtain w ws where "str_split d a = w # ws" by (cases "str_split d a") auto
  with Cons show ?case by simp
qed simp

lemma str_split_snoc:
  "x \<noteq> d \<Longrightarrow> str_split d (a @ [x]) = butlast (str_split d a) @ [last (str_split d a) @ [x]]"
proof (induction a)
  case (Cons c a)
  obtain w ws where "str_split d a = w # ws" by (cases "str_split d a") auto
  with Cons show ?case by (auto simp: append_eq_Cons_conv split: if_splits)
qed simp

lemma last_str_split_Nil: "last (str_split d s) = [] \<longleftrightarrow> s = [] \<or> last s = d"
proof (cases s rule: rev_cases)
  case (snoc a x)
  then show ?thesis
    using str_split_snoc [of x d a] str_split_append_delim [of d a "[]"] by (cases "x = d") auto
qed simp

lemma str_split_join:
  assumes "ws \<noteq> []" and "\<forall>w \<in> set ws. d \<notin> set w"
  shows "str_split d (str_join [d] ws) = ws"
  using assms by (induction "[d]" ws rule: str_join.induct) (auto simp: str_split_id str_split_append)

text \<open>
  \<open>lines\<close>: pieces ended by a line feed, each without its line feed and without a carriage
  return right before it; an unterminated last piece is kept as it is, an empty one is not a line.
\<close>

definition newline :: char where
  "newline = CHR 0x0A"

definition carriage_return :: char where
  "carriage_return = CHR 0x0D"

definition strip_cr :: "string \<Rightarrow> string" where
  "strip_cr w = (if w \<noteq> [] \<and> last w = carriage_return then butlast w else w)"

definition str_lines :: "string \<Rightarrow> string list" where
  "str_lines s =
     (let ps = str_split newline s
      in map strip_cr (butlast ps) @ (if last ps = [] then [] else [last ps]))"

lemma str_lines_Nil [simp]: "str_lines [] = []"
  by (simp add: str_lines_def)

lemma str_lines_single: "newline \<notin> set w \<Longrightarrow> w \<noteq> [] \<Longrightarrow> str_lines w = [w]"
  by (simp add: str_lines_def str_split_id)

lemma str_lines_Cons:
  "newline \<notin> set w \<Longrightarrow> str_lines (w @ newline # s) = strip_cr w # str_lines s"
  by (simp add: str_lines_def str_split_append Let_def)

lemma strip_cr_id: "carriage_return \<notin> set w \<Longrightarrow> strip_cr w = w"
  by (auto simp: strip_cr_def dest: last_in_set)

lemma str_split_subset: "w \<in> set (str_split d s) \<Longrightarrow> set w \<subseteq> set s"
proof (induction s arbitrary: w)
  case (Cons c s)
  obtain v vs where "str_split d s = v # vs" by (cases "str_split d s") auto
  with Cons show ?case by (fastforce split: if_splits)
qed simp

lemma str_lines_no_cr:
  assumes "carriage_return \<notin> set s"
  shows "str_lines s = (let ps = str_split newline s
    in butlast ps @ (if last ps = [] then [] else [last ps]))"
proof -
  have "map strip_cr (butlast (str_split newline s)) = butlast (str_split newline s)"
    using assms str_split_subset [of _ newline s]
    by (intro map_idI strip_cr_id) (auto dest: in_set_butlastD)
  then show ?thesis by (simp add: str_lines_def Let_def)
qed

lemma str_lines_unterminated:
  assumes "carriage_return \<notin> set s" and "s \<noteq> []" and "last s \<noteq> newline"
  shows "str_split newline s = str_lines s"
proof -
  have "last (str_split newline s) \<noteq> []" using assms by (simp add: last_str_split_Nil)
  then show ?thesis using assms(1) by (simp add: str_lines_no_cr)
qed

text \<open>\<open>replace\<close> of a non-empty pattern, left to right without overlap.\<close>

function str_replace :: "string \<Rightarrow> string \<Rightarrow> string \<Rightarrow> string" where
  "str_replace p r s =
     (case s of [] \<Rightarrow> []
      | c # cs \<Rightarrow>
          if p \<noteq> [] \<and> prefix p s then r @ str_replace p r (drop (length p) s)
          else c # str_replace p r cs)"
  by pat_completeness auto
termination
  by (relation "measure (\<lambda>(p, r, s). length s)") auto

declare str_replace.simps [simp del]

lemma str_replace_Nil [simp]: "str_replace p r [] = []"
  by (subst str_replace.simps) simp

lemma str_replace_no_hd: "p \<noteq> [] \<Longrightarrow> hd p \<notin> set s \<Longrightarrow> str_replace p r s = s"
proof (induction s)
  case (Cons c s)
  then have "\<not> prefix p (c # s)" by (cases p) auto
  with Cons show ?case by (subst str_replace.simps) simp
qed simp

section \<open>Bytes to text\<close>

text \<open>
  \<open>String::from_utf8_lossy\<close>: a valid sequence is copied, and each maximal prefix of an invalid
  one becomes U+FFFD. \<open>utf8_step\<close> says whether the bytes start with a valid character, and how
  many bytes that character, or the invalid piece, takes.
\<close>

definition is_cont :: "char \<Rightarrow> bool" where
  "is_cont c \<longleftrightarrow> 0x80 \<le> byte c \<and> byte c \<le> 0xBF"

definition second_ok :: "nat \<Rightarrow> char \<Rightarrow> bool" where
  "second_ok b c \<longleftrightarrow>
     (if b = 0xE0 then 0xA0 \<le> byte c \<and> byte c \<le> 0xBF
      else if b = 0xED then 0x80 \<le> byte c \<and> byte c \<le> 0x9F
      else if b = 0xF0 then 0x90 \<le> byte c \<and> byte c \<le> 0xBF
      else if b = 0xF4 then 0x80 \<le> byte c \<and> byte c \<le> 0x8F
      else is_cont c)"

definition utf8_width :: "nat \<Rightarrow> nat" where
  "utf8_width b =
     (if b < 0x80 then 1 else if 0xC2 \<le> b \<and> b \<le> 0xDF then 2
      else if 0xE0 \<le> b \<and> b \<le> 0xEF then 3 else if 0xF0 \<le> b \<and> b \<le> 0xF4 then 4 else 0)"

definition count_conts :: "nat \<Rightarrow> string \<Rightarrow> nat" where
  "count_conts n s = length (takeWhile is_cont (take n s))"

definition utf8_step :: "char \<Rightarrow> string \<Rightarrow> bool \<times> nat" where
  "utf8_step c s =
     (let w = utf8_width (byte c)
      in if w = 0 then (False, 1) else if w = 1 then (True, 1)
         else case s of [] \<Rightarrow> (False, 1)
              | d # ds \<Rightarrow>
                  if \<not> second_ok (byte c) d then (False, 1)
                  else let k = count_conts (w - 2) ds in (k = w - 2, k + 2))"

definition replacement_char :: string where
  "replacement_char = [CHR 0xEF, CHR 0xBF, CHR 0xBD]"

function from_utf8_lossy :: "string \<Rightarrow> string" where
  "from_utf8_lossy [] = []"
| "from_utf8_lossy (c # s) =
     (let (ok, n) = utf8_step c s
      in (if ok then take n (c # s) else replacement_char) @ from_utf8_lossy (drop (n - 1) s))"
  by pat_completeness auto
termination
  by (relation "measure length") auto

lemma from_utf8_lossy_ascii: "list_all is_ascii s \<Longrightarrow> from_utf8_lossy s = s"
  by (induction s) (simp_all add: utf8_step_def utf8_width_def is_ascii_def)

text \<open>
  The characters of a string, each as its bytes, and the byte positions at which they end: what
  \<open>char_indices\<close> walks over.
\<close>

function utf8_chars :: "string \<Rightarrow> string list" where
  "utf8_chars [] = []"
| "utf8_chars (c # s) =
     (let (ok, n) = utf8_step c s in (c # take (n - 1) s) # utf8_chars (drop (n - 1) s))"
  by pat_completeness auto
termination
  by (relation "measure length") auto

lemma concat_utf8_chars [simp]: "concat (utf8_chars s) = s"
proof (induction s rule: utf8_chars.induct)
  case (2 c s)
  then show ?case by (cases "utf8_step c s") simp
qed simp

lemma utf8_chars_ascii: "list_all is_ascii s \<Longrightarrow> utf8_chars s = map (\<lambda>c. [c]) s"
  by (induction s) (simp_all add: utf8_step_def utf8_width_def is_ascii_def)

fun char_ends :: "nat \<Rightarrow> string list \<Rightarrow> nat list" where
  "char_ends i [] = []"
| "char_ends i (c # cs) = (i + length c) # char_ends (i + length c) cs"

lemma char_ends_prefix:
  assumes "i \<le> limit"
  shows "\<exists>k \<le> length cs. (let ends = takeWhile (\<lambda>e. e \<le> limit) (char_ends i cs)
      in (if ends = [] then i else last ends)) = i + length (concat (take k cs))
    \<and> i + length (concat (take k cs)) \<le> limit
    \<and> (k < length cs \<longrightarrow> limit < i + length (concat (take (Suc k) cs)))"
  using assms
proof (induction cs arbitrary: i)
  case (Cons c cs)
  show ?case
  proof (cases "i + length c \<le> limit")
    case True
    from Cons.IH [OF True] obtain k where "k \<le> length cs"
      and "(let ends = takeWhile (\<lambda>e. e \<le> limit) (char_ends (i + length c) cs)
        in (if ends = [] then i + length c else last ends)) = i + length c + length (concat (take k cs))"
      and "i + length c + length (concat (take k cs)) \<le> limit"
      and "k < length cs \<longrightarrow> limit < i + length c + length (concat (take (Suc k) cs))" by blast
    with True show ?thesis
      by (intro exI [of _ "Suc k"]) (auto simp: Let_def split: if_splits)
  next
    case False
    then show ?thesis using Cons.prems by (intro exI [of _ 0]) simp
  qed
qed simp

text \<open>A position is a character boundary when it is an end or its byte is no continuation byte.\<close>

definition is_char_boundary :: "string \<Rightarrow> nat \<Rightarrow> bool" where
  "is_char_boundary s i \<longleftrightarrow> i = 0 \<or> i = length s \<or> (i < length s \<and> \<not> is_cont (s ! i))"

text \<open>\<open>s.chars().take(n)\<close>: a character starts at every byte that continues none.\<close>

fun take_chars :: "nat \<Rightarrow> string \<Rightarrow> string" where
  "take_chars n [] = []"
| "take_chars n (c # s) =
     (if is_cont c then c # take_chars n s
      else case n of 0 \<Rightarrow> [] | Suc m \<Rightarrow> c # take_chars m s)"

text \<open>A text between single quotes.\<close>

definition in_quotes :: "string \<Rightarrow> string" where
  "in_quotes s = [CHR 0x27] @ s @ [CHR 0x27]"

end
