(* ===== verification/Rust_Num.thy ===== *)
theory Rust_Num
  imports Complex_Main "HOL-Library.Word" Rust_Str
begin

text \<open>
  Numbers as the code has them: machine words, their decimal text, and IEEE double precision.
  A finite \<open>f64\<close> is the rational it denotes, and every operation rounds to the nearest double,
  ties to even, with gradual underflow and overflow to infinity. The sign of zero is not kept:
  no operation the code applies to its doubles can see it.
\<close>

type_synonym u16 = "16 word"
type_synonym u32 = "32 word"
type_synonym u64 = "64 word"

text \<open>Arithmetic on \<open>usize\<close> lengths that saturates.\<close>

definition usize_max :: nat where
  "usize_max = 2 ^ 64 - 1"

definition saturating_add :: "nat \<Rightarrow> nat \<Rightarrow> nat" where
  "saturating_add a b = min (a + b) usize_max"

definition saturating_sub :: "nat \<Rightarrow> nat \<Rightarrow> nat" where
  "saturating_sub a b = a - b"

section \<open>Decimal text of natural numbers\<close>

definition digit_char :: "nat \<Rightarrow> char" where
  "digit_char d = char_of (48 + d)"

definition digit_val :: "char \<Rightarrow> nat" where
  "digit_val c = byte c - 48"

function show_nat :: "nat \<Rightarrow> string" where
  "show_nat n = (if n < 10 then [digit_char n] else show_nat (n div 10) @ [digit_char (n mod 10)])"
  by pat_completeness auto
termination
  by (relation "measure id") auto

declare show_nat.simps [simp del]

definition digits_val :: "string \<Rightarrow> nat" where
  "digits_val s = foldl (\<lambda>n c. 10 * n + digit_val c) 0 s"

text \<open>\<open>str::parse\<close> at an unsigned type of \<open>w\<close> bits: an optional plus, digits, no overflow.\<close>

definition parse_uint :: "nat \<Rightarrow> string \<Rightarrow> nat option" where
  "parse_uint w s =
     (let ds = (case s of [] \<Rightarrow> [] | c # r \<Rightarrow> if c = CHR ''+'' then r else s)
      in if ds \<noteq> [] \<and> list_all is_digit ds \<and> digits_val ds < 2 ^ w then Some (digits_val ds) else None)"

lemma digit_char_props:
  "d < 10 \<Longrightarrow> is_digit (digit_char d) \<and> digit_val (digit_char d) = d"
  by (simp add: digit_char_def is_digit_def digit_val_def byte_char_of)

lemma digit_char_eval [simp]:
  "digit_char 0 = CHR ''0''" "digit_char (Suc 0) = CHR ''1''" "digit_char 1 = CHR ''1''"
  "digit_char 2 = CHR ''2''"
  "digit_char 3 = CHR ''3''" "digit_char 4 = CHR ''4''" "digit_char 5 = CHR ''5''"
  "digit_char 6 = CHR ''6''" "digit_char 7 = CHR ''7''" "digit_char 8 = CHR ''8''"
  "digit_char 9 = CHR ''9''"
  by code_simp+

lemma is_digit_imp_ascii: "is_digit c \<Longrightarrow> byte c < 128"
  by (simp add: is_digit_def)

lemma digit_not_plus: "is_digit c \<Longrightarrow> c \<noteq> CHR ''+''"
  by (auto simp: is_digit_def byte_def)

lemma show_nat_nonempty [simp]: "show_nat n \<noteq> []"
  by (subst show_nat.simps) simp

lemma show_nat_digits: "list_all is_digit (show_nat n)"
proof (induction n rule: show_nat.induct)
  case (1 n)
  then show ?case by (cases "n < 10") (simp_all add: show_nat.simps [of n] digit_char_props)
qed

lemma digits_val_show_nat [simp]: "digits_val (show_nat n) = n"
proof (induction n rule: show_nat.induct)
  case (1 n)
  then show ?case
    by (cases "n < 10") (simp_all add: show_nat.simps [of n] digits_val_def digit_char_props)
qed

lemma parse_show_nat: "n < 2 ^ w \<Longrightarrow> parse_uint w (show_nat n) = Some n"
  using show_nat_digits [of n] digit_not_plus
  by (cases "show_nat n") (auto simp: parse_uint_def dest: arg_cong [of _ _ digits_val])

lemma show_nat_inj: "show_nat m = show_nat n \<longleftrightarrow> m = n"
  using digits_val_show_nat by metis

section \<open>Rounding to double precision\<close>

datatype f64 = Fin rat | PosInf | NegInf | NaN

datatype ordering = Less | Equal | Greater

function bitlen :: "nat \<Rightarrow> nat" where
  "bitlen n = (if n = 0 then 0 else Suc (bitlen (n div 2)))"
  by pat_completeness auto
termination
  by (relation "measure id") auto

declare bitlen.simps [simp del]

definition pow2 :: "int \<Rightarrow> rat" where
  "pow2 e = (if 0 \<le> e then 2 ^ nat e else 1 / 2 ^ nat (- e))"

text \<open>The exponent of the leading binary digit of a positive rational.\<close>

definition floor_log2 :: "rat \<Rightarrow> int" where
  "floor_log2 q =
     (let (n, d) = quotient_of q; e = int (bitlen (nat n)) - int (bitlen (nat d))
      in if pow2 e \<le> q then e else e - 1)"

definition round_half_even :: "rat \<Rightarrow> int" where
  "round_half_even m =
     (let f = \<lfloor>m\<rfloor>; r = m - of_int f
      in if r < 1 / 2 then f else if 1 / 2 < r then f + 1 else if even f then f else f + 1)"

definition round_pos :: "rat \<Rightarrow> rat" where
  "round_pos q =
     (let e = max (floor_log2 q - 52) (- 1074) in of_int (round_half_even (q / pow2 e)) * pow2 e)"

definition round_f64 :: "rat \<Rightarrow> f64" where
  "round_f64 q =
     (if q = 0 then Fin 0
      else let r = round_pos \<bar>q\<bar>
           in if 2 ^ 1024 \<le> r then (if q < 0 then NegInf else PosInf)
              else Fin (if q < 0 then - r else r))"

lemma round_f64_0 [simp]: "round_f64 0 = Fin 0"
  by (simp add: round_f64_def)

lemma bitlen_le: "n < 2 ^ k \<Longrightarrow> bitlen n \<le> k"
proof (induction k arbitrary: n)
  case 0
  then show ?case by (simp add: bitlen.simps)
next
  case (Suc k)
  then have "n div 2 < 2 ^ k" by auto
  with Suc.IH show ?case by (subst bitlen.simps) simp
qed

lemma bitlen_1 [simp]: "bitlen (Suc 0) = 1" "bitlen 1 = 1" "bitlen 0 = 0"
  by (simp_all add: bitlen.simps)

lemma round_half_even_int [simp]: "round_half_even (of_int i) = i"
  by (simp add: round_half_even_def)

text \<open>Every whole number below \<open>2 ^ 53\<close> is a double, so counters and sizes convert exactly.\<close>

lemma round_f64_of_nat:
  assumes "n < 2 ^ 53"
  shows "round_f64 (of_nat n) = Fin (of_nat n)"
proof (cases "n = 0")
  case False
  define q :: rat where "q = of_nat n"
  have quo: "quotient_of q = (int n, 1)" by (simp add: q_def quotient_of_int [of "int n", simplified])
  have "bitlen n \<le> 53" using assms by (rule bitlen_le)
  then have l: "floor_log2 q \<le> 52" by (auto simp: floor_log2_def quo Let_def)
  define e where "e = max (floor_log2 q - 52) (- 1074)"
  have e: "e \<le> 0" using l by (simp add: e_def)
  have "q / pow2 e = of_int (int n * 2 ^ nat (- e))"
    using e by (cases "e = 0") (simp_all add: q_def pow2_def)
  then have "of_int (round_half_even (q / pow2 e)) * pow2 e = q / pow2 e * pow2 e"
    by (simp only: round_half_even_int)
  also have "\<dots> = q" by (simp add: pow2_def)
  finally have r: "round_pos q = q" by (simp add: round_pos_def e_def Let_def)
  have "q < 2 ^ 53" using assms unfolding q_def
    by (metis of_nat_less_iff of_nat_numeral of_nat_power)
  also have "(2 :: rat) ^ 53 \<le> 2 ^ 1024" by (rule power_increasing) simp_all
  finally have "\<not> 2 ^ 1024 \<le> q" by simp
  moreover have "q > 0" using False by (simp add: q_def)
  ultimately have "round_f64 q = Fin q" by (simp add: round_f64_def r Let_def)
  then show ?thesis by (simp add: q_def)
qed simp

lemma round_f64_uminus: "round_f64 (- q) = (case round_f64 q of Fin r \<Rightarrow> Fin (- r)
    | PosInf \<Rightarrow> NegInf | NegInf \<Rightarrow> PosInf | NaN \<Rightarrow> NaN)"
  by (auto simp: round_f64_def Let_def)

lemma round_f64_of_int:
  assumes "\<bar>i\<bar> < 2 ^ 53"
  shows "round_f64 (of_int i) = Fin (of_int i)"
proof (cases "0 \<le> i")
  case True
  with assms round_f64_of_nat [of "nat i"] show ?thesis by (simp add: nat_less_iff)
next
  case False
  with assms round_f64_of_nat [of "nat (- i)"] round_f64_uminus [of "of_nat (nat (- i))"]
  show ?thesis by (simp add: nat_less_iff)
qed

section \<open>Operations on doubles\<close>

fun f64_neg :: "f64 \<Rightarrow> f64" where
  "f64_neg (Fin a) = Fin (- a)"
| "f64_neg PosInf = NegInf"
| "f64_neg NegInf = PosInf"
| "f64_neg NaN = NaN"

fun f64_add :: "f64 \<Rightarrow> f64 \<Rightarrow> f64" where
  "f64_add NaN b = NaN"
| "f64_add a NaN = NaN"
| "f64_add (Fin a) (Fin b) = round_f64 (a + b)"
| "f64_add PosInf NegInf = NaN"
| "f64_add NegInf PosInf = NaN"
| "f64_add PosInf b = PosInf"
| "f64_add NegInf b = NegInf"
| "f64_add (Fin a) PosInf = PosInf"
| "f64_add (Fin a) NegInf = NegInf"

definition f64_sub :: "f64 \<Rightarrow> f64 \<Rightarrow> f64" where
  "f64_sub a b = f64_add a (f64_neg b)"

fun f64_abs :: "f64 \<Rightarrow> f64" where
  "f64_abs (Fin a) = Fin \<bar>a\<bar>"
| "f64_abs NaN = NaN"
| "f64_abs _ = PosInf"

fun partial_cmp :: "f64 \<Rightarrow> f64 \<Rightarrow> ordering option" where
  "partial_cmp NaN b = None"
| "partial_cmp a NaN = None"
| "partial_cmp (Fin a) (Fin b) = Some (if a < b then Less else if a = b then Equal else Greater)"
| "partial_cmp PosInf PosInf = Some Equal"
| "partial_cmp NegInf NegInf = Some Equal"
| "partial_cmp PosInf b = Some Greater"
| "partial_cmp NegInf b = Some Less"
| "partial_cmp (Fin a) PosInf = Some Less"
| "partial_cmp (Fin a) NegInf = Some Greater"

definition f64_lt :: "f64 \<Rightarrow> f64 \<Rightarrow> bool" where
  "f64_lt a b \<longleftrightarrow> partial_cmp a b = Some Less"

definition f64_le :: "f64 \<Rightarrow> f64 \<Rightarrow> bool" where
  "f64_le a b \<longleftrightarrow> partial_cmp a b = Some Less \<or> partial_cmp a b = Some Equal"

lemma partial_cmp_NaN [simp]: "partial_cmp a NaN = None"
  by (cases a) simp_all

lemma partial_cmp_refl: "a \<noteq> NaN \<Longrightarrow> partial_cmp a a = Some Equal"
  by (cases a) simp_all

text \<open>The three-way comparison of the swapped operands.\<close>

fun ordering_rev :: "ordering \<Rightarrow> ordering" where
  "ordering_rev Less = Greater"
| "ordering_rev Equal = Equal"
| "ordering_rev Greater = Less"

lemma partial_cmp_swap: "partial_cmp b a = map_option ordering_rev (partial_cmp a b)"
  by (cases a; cases b) auto

definition u64_to_f64 :: "u64 \<Rightarrow> f64" where
  "u64_to_f64 n = round_f64 (of_nat (unat n))"

lemma u64_to_f64_exact: "unat n < 2 ^ 53 \<Longrightarrow> u64_to_f64 n = Fin (of_nat (unat n))"
  unfolding u64_to_f64_def by (rule round_f64_of_nat)

definition i64_to_f64 :: "u64 \<Rightarrow> f64" where
  "i64_to_f64 n = round_f64 (of_int (sint n))"

section \<open>Decimal text of doubles\<close>

definition parse_exponent :: "string \<Rightarrow> int option" where
  "parse_exponent s =
     (let (neg, ds) = (case s of [] \<Rightarrow> (False, [])
                       | c # r \<Rightarrow> if c = CHR ''-'' then (True, r)
                                  else if c = CHR ''+'' then (False, r) else (False, s))
      in if ds \<noteq> [] \<and> list_all is_digit ds
         then Some (if neg then - int (digits_val ds) else int (digits_val ds)) else None)"

definition pow10 :: "int \<Rightarrow> rat" where
  "pow10 e = (if 0 \<le> e then 10 ^ nat e else 1 / 10 ^ nat (- e))"

text \<open>The unsigned decimal grammar: digits, an optional fraction, an optional exponent.\<close>

definition parse_decimal :: "string \<Rightarrow> rat option" where
  "parse_decimal s =
     (let ip = takeWhile is_digit s; r1 = dropWhile is_digit s;
          (fp, r2) = (case r1 of [] \<Rightarrow> ([], [])
                      | c # r \<Rightarrow> if c = CHR ''.'' then (takeWhile is_digit r, dropWhile is_digit r)
                                 else ([], r1));
          m = of_nat (digits_val (ip @ fp)); k = - int (length fp)
      in if ip = [] \<and> fp = [] then None
         else case r2 of [] \<Rightarrow> Some (m * pow10 k)
              | c # r \<Rightarrow> if c = CHR ''e'' \<or> c = CHR ''E''
                         then map_option (\<lambda>e. m * pow10 (e + k)) (parse_exponent r) else None)"

definition parse_f64 :: "string \<Rightarrow> f64 option" where
  "parse_f64 s =
     (let (neg, r) = (case s of [] \<Rightarrow> (False, [])
                      | c # t \<Rightarrow> if c = CHR ''-'' then (True, t)
                                 else if c = CHR ''+'' then (False, t) else (False, s));
          l = to_lowercase r;
          v = (if l = ''nan'' then Some NaN
               else if l = ''inf'' \<or> l = ''infinity'' then Some PosInf
               else map_option round_f64 (parse_decimal r))
      in map_option (\<lambda>x. if neg then f64_neg x else x) v)"

lemma parse_f64_Nil [simp]: "parse_f64 [] = None"
  by (simp add: parse_f64_def parse_decimal_def to_lowercase_def)

lemma dropWhile_all: "list_all P xs \<Longrightarrow> dropWhile P xs = []"
  by (simp add: list_all_iff)

lemma takeWhile_all: "list_all P xs \<Longrightarrow> takeWhile P xs = xs"
  by (simp add: list_all_iff takeWhile_eq_all_conv)

lemma parse_decimal_digits:
  "list_all is_digit s \<Longrightarrow> s \<noteq> [] \<Longrightarrow> parse_decimal s = Some (of_nat (digits_val s))"
  by (simp add: parse_decimal_def dropWhile_all takeWhile_all pow10_def)

lemma digits_not_special:
  assumes "list_all is_digit s" and "s \<noteq> []"
  shows "to_lowercase s \<noteq> ''nan'' \<and> to_lowercase s \<noteq> ''inf'' \<and> to_lowercase s \<noteq> ''infinity''
    \<and> hd s \<noteq> CHR ''-'' \<and> hd s \<noteq> CHR ''+''"
proof -
  obtain c r where s: "s = c # r" using assms(2) by (cases s) auto
  then have c: "is_digit c" using assms(1) by simp
  then have "ascii_lower c = c" by (simp add: ascii_lower_def is_upper_def is_digit_def)
  moreover have "c \<noteq> CHR ''n''" "c \<noteq> CHR ''i''" "c \<noteq> CHR ''-''" "c \<noteq> CHR ''+''"
    using c by (auto simp: is_digit_def byte_def)
  ultimately show ?thesis by (simp add: s to_lowercase_def)
qed

lemma parse_f64_show_nat:
  assumes "n < 2 ^ 53"
  shows "parse_f64 (show_nat n) = Some (Fin (of_nat n))"
proof -
  have "parse_decimal (show_nat n) = Some (of_nat n)"
    by (simp add: parse_decimal_digits show_nat_digits)
  then show ?thesis
    using digits_not_special [OF show_nat_digits show_nat_nonempty, of n] assms
    by (cases "show_nat n") (auto simp: parse_f64_def round_f64_of_nat)
qed

text \<open>A comma is part of no number.\<close>

lemma parse_decimal_comma: "parse_decimal s = Some q \<Longrightarrow> CHR '','' \<notin> set s"
proof -
  have comma: "\<not> is_digit (CHR '','')" by (simp add: is_digit_def byte_def)
  then have digits: "CHR '','' \<notin> set ds" if "list_all is_digit ds" for ds
    using that by (auto simp: list_all_iff)
  have front: "CHR '','' \<notin> set ds" if "CHR '','' \<notin> set (dropWhile is_digit ds)" for ds
    using that digits [of "takeWhile is_digit ds"]
    by (metis Un_iff list_all_iff set_append set_takeWhileD takeWhile_dropWhile_id)
  have exponent: "CHR '','' \<notin> set r" if "parse_exponent r = Some e" for r e
    using that digits comma by (cases r) (auto simp: parse_exponent_def Let_def split: if_splits)
  assume s: "parse_decimal s = Some q"
  show ?thesis
  proof (cases "dropWhile is_digit s")
    case Nil
    show ?thesis by (rule front) (simp only: Nil list.set empty_iff not_False_eq_True)
  next
    case (Cons c r)
    have "CHR '','' \<notin> set (c # r)"
    proof (cases "c = CHR ''.''")
      case True
      then have "CHR '','' \<notin> set (dropWhile is_digit r)"
        using s Cons comma
        by (cases "dropWhile is_digit r") (auto simp: parse_decimal_def Let_def dest: exponent set_dropWhileD split: if_splits)
      then show ?thesis using front True by simp
    next
      case False
      then have "c = CHR ''e'' \<or> c = CHR ''E''" "parse_exponent r \<noteq> None"
        using s Cons by (auto simp: parse_decimal_def Let_def split: if_splits)
      then show ?thesis using exponent by (elim disjE) (simp_all, blast+)
    qed
    then show ?thesis using Cons front [of s] by simp
  qed
qed

lemma parse_f64_comma:
  assumes "CHR '','' \<in> set s"
  shows "parse_f64 s = None"
proof -
  have low: "to_lowercase r \<noteq> l" if "CHR '','' \<in> set r" "CHR '','' \<notin> set l" for r l
  proof -
    have "ascii_lower (CHR '','') \<in> set (to_lowercase r)" using that(1) by (simp add: to_lowercase_def)
    moreover have "ascii_lower (CHR '','') = CHR '',''" by (simp add: ascii_lower_def is_upper_def byte_def)
    ultimately show ?thesis using that(2) by auto
  qed
  have none: "to_lowercase r \<noteq> ''nan''" "to_lowercase r \<noteq> ''inf''" "to_lowercase r \<noteq> ''infinity''"
    "parse_decimal r = None" if "CHR '','' \<in> set r" for r
    using that low [of r] parse_decimal_comma [of r] by (auto intro: option.exhaust [of "parse_decimal r"])
  obtain c t where s: "s = c # t" using assms by (cases s) auto
  have t: "CHR '','' \<in> set t" if "c = CHR ''-'' \<or> c = CHR ''+''" using that assms s by auto
  show ?thesis
  proof (cases "c = CHR ''-'' \<or> c = CHR ''+''")
    case True
    then show ?thesis using none [OF t] by (auto simp: parse_f64_def s)
  next
    case False
    then show ?thesis using none [OF assms] by (simp add: parse_f64_def s)
  qed
qed

text \<open>The next of a bounded sequence of attempts.\<close>

lemma next_attempt:
  assumes "\<not> limit \<le> (attempt :: u32)"
  shows "unat attempt < unat limit" and "unat (attempt + 1) = unat attempt + 1"
    and "b * (unat limit - unat attempt) = b + b * (unat limit - unat (attempt + 1))"
proof -
  show lt: "unat attempt < unat limit" using assms by (simp add: not_le word_less_nat_alt)
  with unsigned_less [of limit, where 'a = nat]
  show s: "unat (attempt + 1) = unat attempt + 1" by (simp add: unat_word_ariths)
  from lt show "b * (unat limit - unat attempt) = b + b * (unat limit - unat (attempt + 1))"
    unfolding s by (metis Suc_diff_Suc Suc_eq_plus1 mult_Suc_right)
qed

end
