(* ===== verification/Json.thy ===== *)
theory Json
  imports Rust_Num "HOL-Library.List_Lexorder" "HOL-Library.Char_ord"
begin

text \<open>
  \<open>serde_json::Value\<close>, whose objects are ordered maps (the crate is built without
  \<open>preserve_order\<close>): an object is the list of its entries in ascending key order. Parsing and
  printing JSON text belong to \<open>serde_json\<close> and are parameters wherever the code calls them;
  the accessors are modelled here.
\<close>

datatype jnum = PosInt u64 | NegInt u64 | Float f64

datatype json =
  JNull
| JBool bool
| JNum jnum
| JStr string
| JArr "json list"
| JObj "(string \<times> json) list"

type_synonym jobj = "(string \<times> json) list"

definition json_get :: "json \<Rightarrow> string \<Rightarrow> json option" where
  "json_get v k = (case v of JObj m \<Rightarrow> map_of m k | _ \<Rightarrow> None)"

definition json_nth :: "json \<Rightarrow> nat \<Rightarrow> json option" where
  "json_nth v i = (case v of JArr xs \<Rightarrow> if i < length xs then Some (xs ! i) else None | _ \<Rightarrow> None)"

text \<open>\<open>v[k]\<close> on a shared value: \<open>Null\<close> when there is no such entry.\<close>

definition json_at :: "json \<Rightarrow> string \<Rightarrow> json" where
  "json_at v k = unwrap_or (json_get v k) JNull"

definition as_str :: "json \<Rightarrow> string option" where
  "as_str v = (case v of JStr s \<Rightarrow> Some s | _ \<Rightarrow> None)"

definition as_bool :: "json \<Rightarrow> bool option" where
  "as_bool v = (case v of JBool b \<Rightarrow> Some b | _ \<Rightarrow> None)"

definition as_u64 :: "json \<Rightarrow> u64 option" where
  "as_u64 v = (case v of JNum (PosInt n) \<Rightarrow> Some n | _ \<Rightarrow> None)"

definition as_array :: "json \<Rightarrow> json list option" where
  "as_array v = (case v of JArr xs \<Rightarrow> Some xs | _ \<Rightarrow> None)"

definition as_object :: "json \<Rightarrow> jobj option" where
  "as_object v = (case v of JObj m \<Rightarrow> Some m | _ \<Rightarrow> None)"

fun num_as_f64 :: "jnum \<Rightarrow> f64" where
  "num_as_f64 (PosInt n) = u64_to_f64 n"
| "num_as_f64 (NegInt n) = i64_to_f64 n"
| "num_as_f64 (Float x) = x"

text \<open>Insertion into an ordered object.\<close>

fun obj_insert :: "string \<Rightarrow> json \<Rightarrow> jobj \<Rightarrow> jobj" where
  "obj_insert k v [] = [(k, v)]"
| "obj_insert k v ((k', v') # m) =
     (if k < k' then (k, v) # (k', v') # m
      else if k = k' then (k, v) # m
      else (k', v') # obj_insert k v m)"

definition obj_wf :: "jobj \<Rightarrow> bool" where
  "obj_wf m \<longleftrightarrow> sorted_wrt (<) (map fst m)"

definition obj_of :: "(string \<times> json) list \<Rightarrow> json" where
  "obj_of kvs = JObj (fold (\<lambda>(k, v). obj_insert k v) kvs [])"

lemma map_of_obj_insert [simp]: "map_of (obj_insert k v m) = (map_of m)(k \<mapsto> v)"
  by (induction k v m rule: obj_insert.induct) (auto simp: fun_eq_iff)

lemma keys_obj_insert [simp]: "fst ` set (obj_insert k v m) = insert k (fst ` set m)"
  by (induction k v m rule: obj_insert.induct) auto

lemma obj_wf_insert [inv_intros]: "obj_wf m \<Longrightarrow> obj_wf (obj_insert k v m)"
proof (induction k v m rule: obj_insert.induct)
  case (2 k v k' v' m)
  then show ?case
    using keys_obj_insert [of k v m] by (auto simp: obj_wf_def)
qed (simp add: obj_wf_def)

lemma json_get_simps [simp]:
  "json_get JNull k = None" "json_get (JBool b) k = None" "json_get (JNum n) k = None"
  "json_get (JStr s) k = None" "json_get (JArr xs) k = None"
  "json_get (JObj m) k = map_of m k"
  by (simp_all add: json_get_def)

lemma json_nth_simps [simp]:
  "json_nth JNull i = None" "json_nth (JBool b) i = None" "json_nth (JNum n) i = None"
  "json_nth (JStr s) i = None" "json_nth (JObj m) i = None"
  "json_nth (JArr xs) i = (if i < length xs then Some (xs ! i) else None)"
  by (simp_all add: json_nth_def)

lemma as_str_simps [simp]:
  "as_str JNull = None" "as_str (JBool b) = None" "as_str (JNum n) = None"
  "as_str (JStr s) = Some s" "as_str (JArr xs) = None" "as_str (JObj m) = None"
  by (simp_all add: as_str_def)

lemma as_array_simps [simp]:
  "as_array JNull = None" "as_array (JBool b) = None" "as_array (JNum n) = None"
  "as_array (JStr s) = None" "as_array (JArr xs) = Some xs" "as_array (JObj m) = None"
  by (simp_all add: as_array_def)

lemma as_u64_simps [simp]:
  "as_u64 JNull = None" "as_u64 (JBool b) = None" "as_u64 (JNum (PosInt n)) = Some n"
  "as_u64 (JNum (NegInt n)) = None" "as_u64 (JNum (Float x)) = None"
  "as_u64 (JStr s) = None" "as_u64 (JArr xs) = None" "as_u64 (JObj m) = None"
  by (simp_all add: as_u64_def)

lemma as_bool_simps [simp]:
  "as_bool JNull = None" "as_bool (JBool b) = Some b" "as_bool (JNum n) = None"
  "as_bool (JStr s) = None" "as_bool (JArr xs) = None" "as_bool (JObj m) = None"
  by (simp_all add: as_bool_def)

lemma as_object_simps [simp]:
  "as_object JNull = None" "as_object (JBool b) = None" "as_object (JNum n) = None"
  "as_object (JStr s) = None" "as_object (JArr xs) = None" "as_object (JObj m) = Some m"
  by (simp_all add: as_object_def)

lemma json_at_None [simp]: "json_get v k = None \<Longrightarrow> json_at v k = JNull"
  by (simp add: json_at_def)

lemma json_at_Some [simp]: "json_get v k = Some w \<Longrightarrow> json_at v k = w"
  by (simp add: json_at_def)

end
