(* ===== verification/Sse.thy ===== *)
theory Sse
  imports Json
begin

text \<open>
  \<open>core/streaming/mod.rs\<close>: the event vocabulary of a streamed answer, the framing of the byte
  stream into server-sent events, and the driver that feeds the frames to a provider's parser.
  A provider's parser is a state and a function \<open>parse_chunk\<close>, an argument of the driver; the
  locale \<open>sse_parser\<close> says what the driver's lemmas need of it, and the three parser theories
  interpret it.
\<close>

section \<open>Events\<close>

record token_usage =
  prompt_tokens :: u32
  completion_tokens :: u32
  total_tokens :: u32

datatype stream_event =
  Token string
| Reasoning string
| ToolCallStart string string
| ToolCallDelta string string
| ToolCallEnd string
| Done string "token_usage option"
| StreamError string

type_synonym 'p parse_fn = "'p \<Rightarrow> string \<Rightarrow> string \<Rightarrow> 'p \<times> (string, stream_event list) res"

definition MAX_SSE_EVENTS :: nat where "MAX_SSE_EVENTS = 10000"
definition MAX_SSE_DATA_SIZE :: nat where "MAX_SSE_DATA_SIZE = 1000000"
definition MAX_SSE_BUFFER_SIZE :: nat where "MAX_SSE_BUFFER_SIZE = 10000000"

record raw_sse_event =
  raw_event :: string
  raw_data :: string
  raw_id :: "string option"

section \<open>Splitting text into raw events\<close>

text \<open>
  \<open>raw_loop lines events current_event current_data current_id\<close> is the loop of \<open>parse_raw_sse\<close>
  with its five variables, and \<open>raw_finish\<close> the code after it, which \<open>break\<close> also reaches.
\<close>

definition raw_finish ::
  "raw_sse_event list \<Rightarrow> string \<Rightarrow> string \<Rightarrow> string option \<Rightarrow> raw_sse_event list" where
  "raw_finish events ce cd ci =
     (if (ce \<noteq> [] \<or> cd \<noteq> []) \<and> length events < MAX_SSE_EVENTS
      then events @ [\<lparr>raw_event = ce, raw_data = cd, raw_id = ci\<rparr>] else events)"

fun raw_loop ::
  "string list \<Rightarrow> raw_sse_event list \<Rightarrow> string \<Rightarrow> string \<Rightarrow> string option \<Rightarrow> raw_sse_event list" where
  "raw_loop [] events ce cd ci = raw_finish events ce cd ci"
| "raw_loop (line # lines) events ce cd ci =
     (if trim line = [] then
        (if ce \<noteq> [] \<or> cd \<noteq> [] then
           (if length events \<ge> MAX_SSE_EVENTS then raw_finish events ce cd ci
            else raw_loop lines (events @ [\<lparr>raw_event = ce, raw_data = cd, raw_id = ci\<rparr>]) [] [] None)
         else raw_loop lines events [] [] ci)
      else case strip_prefix ''event:'' line of
        Some v \<Rightarrow> raw_loop lines events (trim v) cd ci
      | None \<Rightarrow>
        (case strip_prefix ''data:'' line of
           Some v \<Rightarrow>
             (if saturating_add (length cd) (length (trim v)) > MAX_SSE_DATA_SIZE
              then raw_loop lines events [] [] ci
              else raw_loop lines events ce
                     ((if cd \<noteq> [] then cd @ [newline] else cd) @ trim v) ci)
         | None \<Rightarrow>
           (case strip_prefix ''id:'' line of
              Some v \<Rightarrow> raw_loop lines events ce cd (Some (trim v))
            | None \<Rightarrow> raw_loop lines events ce cd ci)))"

definition parse_raw_sse :: "string \<Rightarrow> raw_sse_event list" where
  "parse_raw_sse input = raw_loop (str_lines input) [] [] [] None"

section \<open>Driving a parser\<close>

text \<open>Each raw event goes to the parser; a parse failure becomes an event of its own.\<close>

fun run_raw ::
  "'p parse_fn \<Rightarrow> string \<Rightarrow> 'p \<Rightarrow> raw_sse_event list \<Rightarrow> 'p \<times> stream_event list" where
  "run_raw parse_chunk msg p [] = (p, [])"
| "run_raw parse_chunk msg p (r # rs) =
     (let (p1, res) = parse_chunk p (raw_event r) (raw_data r);
          evs = (case res of Inr evts \<Rightarrow> evts | Inl e \<Rightarrow> [StreamError (msg @ e)]);
          (p2, rest) = run_raw parse_chunk msg p1 rs
      in (p2, evs @ rest))"

definition blank_line :: string where
  "blank_line = [newline, newline]"

lemma blank_line_length [simp]: "length blank_line = 2"
  by (simp add: blank_line_def)

text \<open>The \<open>while let Some(pos) = buf.find(...)\<close> loop: all complete frames, and what is left.\<close>

function drain_frames ::
  "'p parse_fn \<Rightarrow> 'p \<Rightarrow> string \<Rightarrow> 'p \<times> stream_event list \<times> string" where
  "drain_frames parse_chunk p buf =
     (case str_find buf blank_line of
        None \<Rightarrow> (p, [], buf)
      | Some pos \<Rightarrow>
          let (p1, evs) = run_raw parse_chunk ''SSE parse error: '' p (parse_raw_sse (take pos buf));
              (p2, rest, buf2) = drain_frames parse_chunk p1 (drop (pos + 2) buf)
          in (p2, evs @ rest, buf2))"
  by pat_completeness auto
termination
  by (relation "measure (\<lambda>(pc, p, buf). length buf)") (auto dest!: str_find_Some)

declare drain_frames.simps [simp del]

datatype body_item = Chunk string | BodyError string | EndOfBody

definition decode_chunk :: "string \<Rightarrow> string" where
  "decode_chunk bytes = str_replace [carriage_return, newline] [newline] (from_utf8_lossy bytes)"

text \<open>
  The two parsing stages of one item: complete frames (or everything, when the buffer overflows
  without a blank line in it), then, at the end of the body, what is left.
\<close>

definition parse_buffered :: "'p parse_fn \<Rightarrow> 'p \<Rightarrow> string \<Rightarrow> 'p \<times> stream_event list \<times> string" where
  "parse_buffered parse_chunk p buf =
     (if length buf > MAX_SSE_BUFFER_SIZE \<and> str_find buf blank_line = None then
        let (p1, evs) = run_raw parse_chunk ''SSE parse error: '' p (parse_raw_sse buf)
        in (p1, evs @ [StreamError
              ''SSE buffer overflow: force-parsed without proper event delimiter''], [])
      else
        let (p1, evs, rest) = drain_frames parse_chunk p buf
        in if length rest > MAX_SSE_BUFFER_SIZE
           then (p1, evs @ [StreamError ''SSE buffer overflow: residual data discarded''], [])
           else (p1, evs, rest))"

definition flush_buffered ::
  "'p parse_fn \<Rightarrow> 'p \<Rightarrow> body_item \<Rightarrow> string \<Rightarrow> 'p \<times> stream_event list \<times> string" where
  "flush_buffered parse_chunk p item buf =
     (if item = EndOfBody \<and> buf \<noteq> [] then
        let (p1, evs) = run_raw parse_chunk ''SSE flush parse error: '' p (parse_raw_sse buf)
        in (p1, evs, [])
      else (p, [], buf))"

definition stream_step ::
  "'p parse_fn \<Rightarrow> 'p \<times> string \<Rightarrow> body_item \<Rightarrow> ('p \<times> string) \<times> stream_event list" where
  "stream_step parse_chunk st item =
     (let (p, buf) = st
      in case item of
           BodyError e \<Rightarrow> (st, [StreamError (''HTTP body stream error: '' @ e)])
         | _ \<Rightarrow>
           let buf1 = (case item of Chunk bytes \<Rightarrow> buf @ decode_chunk bytes | _ \<Rightarrow> buf);
               (p2, evs, buf2) = parse_buffered parse_chunk p buf1;
               (p3, flushed, buf3) = flush_buffered parse_chunk p2 item buf2
           in ((p3, buf3), evs @ flushed))"

fun stream_run ::
  "'p parse_fn \<Rightarrow> 'p \<times> string \<Rightarrow> body_item list \<Rightarrow> ('p \<times> string) \<times> stream_event list" where
  "stream_run parse_chunk st [] = (st, [])"
| "stream_run parse_chunk st (item # items) =
     (let (st1, evs) = stream_step parse_chunk st item;
          (st2, rest) = stream_run parse_chunk st1 items
      in (st2, evs @ rest))"

definition sse_from_bytes_stream :: "'p parse_fn \<Rightarrow> 'p \<Rightarrow> body_item list \<Rightarrow> stream_event list" where
  "sse_from_bytes_stream parse_chunk p body =
     snd (stream_run parse_chunk (p, []) (body @ [EndOfBody]))"

fun parse_raw_events ::
  "'p parse_fn \<Rightarrow> 'p \<Rightarrow> raw_sse_event list \<Rightarrow> 'p \<times> (string, stream_event list) res" where
  "parse_raw_events parse_chunk p [] = (p, Inr [])"
| "parse_raw_events parse_chunk p (r # rs) =
     (case parse_chunk p (raw_event r) (raw_data r) of
        (p1, Inl e) \<Rightarrow> (p1, Inl e)
      | (p1, Inr evs) \<Rightarrow>
          (case parse_raw_events parse_chunk p1 rs of
             (p2, Inl e) \<Rightarrow> (p2, Inl e)
           | (p2, Inr rest) \<Rightarrow> (p2, Inr (evs @ rest))))"

definition parse_sse_text :: "'p parse_fn \<Rightarrow> 'p \<Rightarrow> string \<Rightarrow> 'p \<times> (string, stream_event list) res" where
  "parse_sse_text parse_chunk p input = parse_raw_events parse_chunk p (parse_raw_sse input)"

section \<open>The driver does not depend on how the body is cut\<close>

lemma run_raw_append:
  "run_raw pc msg p (rs @ ss) =
     (let (p1, e1) = run_raw pc msg p rs; (p2, e2) = run_raw pc msg p1 ss in (p2, e1 @ e2))"
  by (induction rs arbitrary: p) (auto split: prod.splits)

lemma drain_frames_append:
  "drain_frames pc p buf = (p1, e1, b1) \<Longrightarrow>
     drain_frames pc p (buf @ t) =
       (let (p2, e2, b2) = drain_frames pc p1 (b1 @ t) in (p2, e1 @ e2, b2))"
proof (induction pc p buf arbitrary: p1 e1 b1 rule: drain_frames.induct)
  case (1 pc p buf)
  show ?case
  proof (cases "str_find buf blank_line")
    case None
    with "1.prems" show ?thesis by (simp add: drain_frames.simps [of pc p buf])
  next
    case (Some pos)
    have le: "pos + 2 \<le> length buf" using str_find_Some [OF Some] by simp
    obtain q e where q: "run_raw pc ''SSE parse error: '' p (parse_raw_sse (take pos buf)) = (q, e)"
      by (cases "run_raw pc ''SSE parse error: '' p (parse_raw_sse (take pos buf))")
    obtain p' e' b' where d: "drain_frames pc q (drop (pos + 2) buf) = (p', e', b')"
      by (cases "drain_frames pc q (drop (pos + 2) buf)") auto
    have "p1 = p'" "e1 = e @ e'" "b1 = b'"
      using "1.prems" Some q d by (simp_all add: drain_frames.simps [of pc p buf])
    moreover have "drain_frames pc q (drop (pos + 2) buf @ t) =
        (let (p2, e2, b2) = drain_frames pc p' (b' @ t) in (p2, e' @ e2, b2))"
      using "1.IH" [OF Some q [symmetric] refl] d by simp
    ultimately show ?thesis
      using str_find_append [OF Some, of t] le q
      by (simp add: drain_frames.simps [of pc p "buf @ t"] split: prod.splits)
  qed
qed

lemma drain_frames_rest: "drain_frames pc p buf = (p1, e1, b1) \<Longrightarrow> length b1 \<le> length buf"
proof (induction pc p buf arbitrary: p1 e1 b1 rule: drain_frames.induct)
  case (1 pc p buf)
  then show ?case
    by (cases "str_find buf blank_line")
      (fastforce simp: drain_frames.simps [of pc p buf] split: prod.splits)+
qed

text \<open>Below the buffer limit a chunk only extends the buffer and drains it.\<close>

lemma stream_step_chunk:
  assumes "length (buf @ decode_chunk b) \<le> MAX_SSE_BUFFER_SIZE"
    and "drain_frames pc p (buf @ decode_chunk b) = (p1, e1, b1)"
  shows "stream_step pc (p, buf) (Chunk b) = ((p1, b1), e1)"
  using assms drain_frames_rest [OF assms(2)]
  by (simp add: stream_step_def parse_buffered_def flush_buffered_def)

lemma drain_frames_residue: "drain_frames pc p buf = (p1, e1, b1) \<Longrightarrow> str_find b1 blank_line = None"
proof (induction pc p buf arbitrary: p1 e1 b1 rule: drain_frames.induct)
  case (1 pc p buf)
  then show ?case
    by (cases "str_find buf blank_line")
      (fastforce simp: drain_frames.simps [of pc p buf] split: prod.splits)+
qed

lemma drain_frames_done: "str_find buf blank_line = None \<Longrightarrow> drain_frames pc p buf = (p, [], buf)"
  by (subst drain_frames.simps) simp

lemma stream_run_chunks:
  assumes "str_find buf blank_line = None"
    and "length (buf @ concat (map decode_chunk bs)) \<le> MAX_SSE_BUFFER_SIZE"
  shows "stream_run pc (p, buf) (map Chunk bs @ items) =
    (let (p1, e1, b1) = drain_frames pc p (buf @ concat (map decode_chunk bs));
         (st, e2) = stream_run pc (p1, b1) items
     in (st, e1 @ e2))"
  using assms
proof (induction bs arbitrary: p buf)
  case Nil
  then show ?case by (simp add: drain_frames_done)
next
  case (Cons b bs)
  let ?t = "concat (map decode_chunk bs)"
  obtain p1 e1 b1 where d: "drain_frames pc p (buf @ decode_chunk b) = (p1, e1, b1)"
    by (cases "drain_frames pc p (buf @ decode_chunk b)") auto
  have "length b1 \<le> length (buf @ decode_chunk b)" using d by (rule drain_frames_rest)
  then have "length (b1 @ ?t) \<le> MAX_SSE_BUFFER_SIZE" using Cons.prems by simp
  then have IH: "stream_run pc (p1, b1) (map Chunk bs @ items) =
      (let (p2, e2, b2) = drain_frames pc p1 (b1 @ ?t); (st, e3) = stream_run pc (p2, b2) items
       in (st, e2 @ e3))"
    using Cons.IH drain_frames_residue [OF d] by blast
  have "stream_step pc (p, buf) (Chunk b) = ((p1, b1), e1)"
    using Cons.prems d by (intro stream_step_chunk) auto
  then show ?case
    using IH drain_frames_append [OF d, of ?t] by (simp split: prod.splits)
qed


section \<open>The driver agrees with parsing the whole text\<close>

text \<open>The loop of \<open>parse_raw_sse\<close> without its event limit, and without the ids no parser sees.\<close>

definition raw_pairs :: "raw_sse_event list \<Rightarrow> (string \<times> string) list" where
  "raw_pairs rs = map (\<lambda>r. (raw_event r, raw_data r)) rs"

lemma raw_pairs_append: "raw_pairs (rs @ ss) = raw_pairs rs @ raw_pairs ss"
  by (simp add: raw_pairs_def)

definition pair_out :: "string \<Rightarrow> string \<Rightarrow> (string \<times> string) list" where
  "pair_out ce cd = (if ce \<noteq> [] \<or> cd \<noteq> [] then [(ce, cd)] else [])"

definition line_step :: "string \<times> string \<Rightarrow> string \<Rightarrow> string \<times> string" where
  "line_step st line =
     (case strip_prefix ''event:'' line of Some v \<Rightarrow> (trim v, snd st)
      | None \<Rightarrow>
        (case strip_prefix ''data:'' line of
           Some v \<Rightarrow> (if saturating_add (length (snd st)) (length (trim v)) > MAX_SSE_DATA_SIZE
                      then ([], [])
                      else (fst st, (if snd st \<noteq> [] then snd st @ [newline] else snd st) @ trim v))
         | None \<Rightarrow> st))"

fun raw_spec :: "string list \<Rightarrow> string \<times> string \<Rightarrow> (string \<times> string) list" where
  "raw_spec [] st = pair_out (fst st) (snd st)"
| "raw_spec (l # ls) st =
     (if trim l = [] then pair_out (fst st) (snd st) @ raw_spec ls ([], [])
      else raw_spec ls (line_step st l))"

lemma raw_spec_blank: "raw_spec (ls @ [] # ms) st = raw_spec ls st @ raw_spec ms ([], [])"
  by (induction ls arbitrary: st) auto

lemma raw_loop_spec:
  "length events + length lines < MAX_SSE_EVENTS \<Longrightarrow>
     raw_pairs (raw_loop lines events ce cd ci) = raw_pairs events @ raw_spec lines (ce, cd)"
proof (induction lines events ce cd ci rule: raw_loop.induct)
  case (1 events ce cd ci)
  then show ?case by (simp add: raw_finish_def raw_pairs_def pair_out_def)
next
  case (2 line lines events ce cd ci)
  show ?case
  proof (cases "trim line = []")
    case True
    with 2 show ?thesis by (auto simp: raw_pairs_def pair_out_def)
  next
    case False
    show ?thesis
    proof (cases "strip_prefix ''event:'' line")
      case (Some v)
      with False 2 show ?thesis by (simp add: line_step_def)
    next
      case e: None
      show ?thesis
      proof (cases "strip_prefix ''data:'' line")
        case (Some v)
        with False e 2 show ?thesis by (simp add: line_step_def)
      next
        case None
        with False e 2 show ?thesis
          by (cases "strip_prefix ''id:'' line") (simp_all add: line_step_def)
      qed
    qed
  qed
qed

lemma parse_raw_sse_spec:
  "length (str_lines s) < MAX_SSE_EVENTS \<Longrightarrow>
     raw_pairs (parse_raw_sse s) = raw_spec (str_lines s) ([], [])"
  using raw_loop_spec [of "[]" "str_lines s" "[]" "[]" None]
  by (simp add: parse_raw_sse_def raw_pairs_def)

lemma parse_raw_events_pairs:
  "raw_pairs rs = raw_pairs ss \<Longrightarrow> parse_raw_events pc p rs = parse_raw_events pc p ss"
proof (induction rs arbitrary: ss p)
  case (Cons r rs)
  then obtain s ss' where "ss = s # ss'" by (cases ss) (auto simp: raw_pairs_def)
  with Cons show ?case by (auto simp: raw_pairs_def split: prod.splits sum.splits)
qed (simp add: raw_pairs_def)

lemma parse_raw_events_append_eq:
  "parse_raw_events pc p (rs @ ss) =
     (case parse_raw_events pc p rs of
        (q, Inl e) \<Rightarrow> (q, Inl e)
      | (q, Inr e1) \<Rightarrow>
          (case parse_raw_events pc q ss of
             (p', Inl e) \<Rightarrow> (p', Inl e)
           | (p', Inr e2) \<Rightarrow> (p', Inr (e1 @ e2))))"
  by (induction rs arbitrary: p) (auto split: prod.splits sum.splits)

lemma parse_raw_events_append:
  "parse_raw_events pc p (rs @ ss) = (p', Inr evs) \<longleftrightarrow>
     (\<exists>q e1 e2. parse_raw_events pc p rs = (q, Inr e1) \<and> parse_raw_events pc q ss = (p', Inr e2)
        \<and> evs = e1 @ e2)"
  by (auto simp: parse_raw_events_append_eq split: prod.splits sum.splits)

lemma run_raw_ok: "parse_raw_events pc p rs = (p', Inr evs) \<Longrightarrow> run_raw pc msg p rs = (p', evs)"
  by (induction rs arbitrary: p evs) (auto split: prod.splits sum.splits)

text \<open>The text before the first blank line, that line, and the text after it.\<close>

lemma frame_lines:
  assumes cr: "carriage_return \<notin> set buf" and pos: "str_find buf blank_line = Some pos"
  defines "a \<equiv> take pos buf" and "b \<equiv> drop (pos + 2) buf"
  shows "raw_spec (str_lines buf) ([], []) =
      raw_spec (str_lines a) ([], []) @ raw_spec (str_lines b) ([], [])"
    and "length (str_lines a) + length (str_lines b) \<le> length (str_lines buf)"
proof -
  have buf: "buf = a @ newline # newline # b"
    using str_find_Some [OF pos] by (simp add: a_def b_def blank_line_def)
  have cra: "carriage_return \<notin> set a" and crb: "carriage_return \<notin> set b"
    using cr by (auto simp: buf)
  have split: "str_split newline buf = str_split newline a @ [] # str_split newline b"
    unfolding buf by (simp add: str_split_append_delim)
  have lines: "str_lines buf = str_split newline a @ [] # str_lines b"
    by (simp add: str_lines_no_cr cr crb split Let_def butlast_append)
  have "a = [] \<or> (a \<noteq> [] \<and> last a \<noteq> newline)"
  proof (rule ccontr)
    assume "\<not> ?thesis"
    then obtain a' where a': "a = a' @ [newline]" by (metis append_butlast_last_id)
    have "str_find (a' @ blank_line) blank_line \<noteq> None"
      by (simp add: str_find_None_iff del: not_None_eq)
    then obtain j where j: "str_find (a' @ blank_line) blank_line = Some j" by auto
    then have "j \<le> length a'" using str_find_Some by fastforce
    moreover have "str_find ((a' @ blank_line) @ newline # b) blank_line = Some j"
      using j by (rule str_find_append)
    then have "j = pos" using pos by (simp add: buf a' blank_line_def)
    moreover have "pos = length a" using str_find_Some [OF pos] by (simp add: a_def)
    ultimately show False by (simp add: a')
  qed
  then have a: "a = [] \<or> str_split newline a = str_lines a"
    using str_lines_unterminated [OF cra] by auto
  then show "raw_spec (str_lines buf) ([], []) =
      raw_spec (str_lines a) ([], []) @ raw_spec (str_lines b) ([], [])"
    by (auto simp: lines raw_spec_blank pair_out_def)
  show "length (str_lines a) + length (str_lines b) \<le> length (str_lines buf)"
    using a by (auto simp: lines)
qed

lemma drain_then_flush:
  assumes "carriage_return \<notin> set buf" and "length (str_lines buf) < MAX_SSE_EVENTS"
    and "parse_raw_events pc p (parse_raw_sse buf) = (p', Inr evs)"
  shows "\<exists>p1 e1 b1 e2. drain_frames pc p buf = (p1, e1, b1)
    \<and> parse_raw_events pc p1 (parse_raw_sse b1) = (p', Inr e2) \<and> evs = e1 @ e2"
  using assms
proof (induction pc p buf arbitrary: evs rule: drain_frames.induct)
  case (1 pc p buf)
  show ?case
  proof (cases "str_find buf blank_line")
    case None
    with "1.prems" show ?thesis by (simp add: drain_frames_done)
  next
    case (Some pos)
    let ?a = "take pos buf" and ?b = "drop (pos + 2) buf"
    note fl = frame_lines [OF "1.prems"(1) Some]
    have "raw_pairs (parse_raw_sse buf) = raw_pairs (parse_raw_sse ?a @ parse_raw_sse ?b)"
      using fl "1.prems"(2) by (simp add: parse_raw_sse_spec raw_pairs_append)
    from parse_raw_events_pairs [OF this, of pc p] "1.prems"(3)
    have "parse_raw_events pc p (parse_raw_sse ?a @ parse_raw_sse ?b) = (p', Inr evs)" by simp
    then obtain q e1 e2 where q: "parse_raw_events pc p (parse_raw_sse ?a) = (q, Inr e1)"
      and r: "parse_raw_events pc q (parse_raw_sse ?b) = (p', Inr e2)" and evs: "evs = e1 @ e2"
      unfolding parse_raw_events_append by blast
    have run: "run_raw pc ''SSE parse error: '' p (parse_raw_sse ?a) = (q, e1)"
      using q by (rule run_raw_ok)
    have crb: "carriage_return \<notin> set ?b" using "1.prems"(1) by (auto dest: in_set_dropD)
    have "length (str_lines ?b) < MAX_SSE_EVENTS" using fl(2) "1.prems"(2) by linarith
    from "1.IH" [OF Some run [symmetric] refl crb this r]
    obtain p1 f1 b1 f2 where "drain_frames pc q ?b = (p1, f1, b1)"
      "parse_raw_events pc p1 (parse_raw_sse b1) = (p', Inr f2)" "e2 = f1 @ f2" by blast
    with Some run evs show ?thesis by (simp add: drain_frames.simps [of pc p buf])
  qed
qed

lemma raw_finish_Nil [simp]: "parse_raw_sse [] = []"
  by (simp add: parse_raw_sse_def raw_finish_def)

text \<open>The end of the body: what is left is parsed as a last frame.\<close>

lemma stream_end:
  assumes "str_find buf blank_line = None" and "length buf \<le> MAX_SSE_BUFFER_SIZE"
  shows "stream_run pc (p, buf) [EndOfBody] =
    (let (p1, evs) = run_raw pc ''SSE flush parse error: '' p (parse_raw_sse buf) in ((p1, []), evs))"
  using assms
  by (auto simp: stream_step_def parse_buffered_def flush_buffered_def drain_frames_done split: prod.splits)

lemma stream_chunks:
  assumes "length (concat (map decode_chunk bs)) \<le> MAX_SSE_BUFFER_SIZE"
    and "drain_frames pc p (concat (map decode_chunk bs)) = (p1, e1, b1)"
  shows "sse_from_bytes_stream pc p (map Chunk bs) =
    e1 @ snd (run_raw pc ''SSE flush parse error: '' p1 (parse_raw_sse b1))"
proof -
  have "length b1 \<le> MAX_SSE_BUFFER_SIZE"
    using drain_frames_rest [OF assms(2)] assms(1) by linarith
  then have "stream_run pc (p1, b1) [EndOfBody] =
      (let (p2, evs) = run_raw pc ''SSE flush parse error: '' p1 (parse_raw_sse b1) in ((p2, []), evs))"
    using drain_frames_residue [OF assms(2)] by (intro stream_end)
  moreover have "str_find [] blank_line = None" by (simp add: blank_line_def)
  ultimately show ?thesis
    using stream_run_chunks [of "[]" bs pc p "[EndOfBody]"] assms
    by (simp add: sse_from_bytes_stream_def del: stream_run.simps split: prod.splits)
qed


section \<open>The life cycle of tool calls\<close>

text \<open>
  \<open>track\<close> follows the bag of open call ids through a list of events, and fails at a delta for a
  call that is not open or an end without its start. \<open>calls_ok\<close> says the same without a bag: every
  delta and every end comes after more starts than ends of its id.
\<close>

fun track :: "string multiset \<Rightarrow> stream_event list \<Rightarrow> string multiset option" where
  "track M [] = Some M"
| "track M (ToolCallStart i n # es) = track (add_mset i M) es"
| "track M (ToolCallDelta i d # es) = (if i \<in># M then track M es else None)"
| "track M (ToolCallEnd i # es) = (if i \<in># M then track (M - {#i#}) es else None)"
| "track M (e # es) = track M es"

fun is_start :: "string \<Rightarrow> stream_event \<Rightarrow> bool" where
  "is_start i (ToolCallStart j n) \<longleftrightarrow> i = j"
| "is_start i _ \<longleftrightarrow> False"

fun is_end :: "string \<Rightarrow> stream_event \<Rightarrow> bool" where
  "is_end i (ToolCallEnd j) \<longleftrightarrow> i = j"
| "is_end i _ \<longleftrightarrow> False"

fun uses_call :: "string \<Rightarrow> stream_event \<Rightarrow> bool" where
  "uses_call i (ToolCallDelta j d) \<longleftrightarrow> i = j"
| "uses_call i (ToolCallEnd j) \<longleftrightarrow> i = j"
| "uses_call i _ \<longleftrightarrow> False"

definition starts :: "string \<Rightarrow> stream_event list \<Rightarrow> nat" where
  "starts i es = length (filter (is_start i) es)"

definition ends :: "string \<Rightarrow> stream_event list \<Rightarrow> nat" where
  "ends i es = length (filter (is_end i) es)"

definition calls_ok :: "stream_event list \<Rightarrow> bool" where
  "calls_ok es \<longleftrightarrow>
     (\<forall>before e after i. es = before @ e # after \<and> uses_call i e \<longrightarrow> ends i before < starts i before)"

lemma track_append: "track M (es @ fs) = Option.bind (track M es) (\<lambda>N. track N fs)"
  by (induction M es rule: track.induct) auto

lemma track_count: "track M es = Some N \<Longrightarrow> count N i + ends i es = count M i + starts i es"
proof (induction M es arbitrary: N rule: track.induct)
  case (4 M j es)
  then show ?case
    by (cases "i = j") (auto simp: starts_def ends_def split: if_splits)
qed (auto simp: starts_def ends_def split: if_splits)

lemma track_mono: "track M es = Some N \<Longrightarrow> M \<subseteq># M' \<Longrightarrow> \<exists>N'. track M' es = Some N' \<and> N \<subseteq># N'"
proof (induction M es arbitrary: M' N rule: track.induct)
  case (4 M i es)
  then have "i \<in># M" "i \<in># M'" by (auto split: if_splits dest: mset_subset_eqD)
  with 4 show ?case by (auto intro: subset_eq_diff_conv [THEN iffD2] simp: subset_mset.le_diff_conv2)
qed (auto split: if_splits dest: mset_subset_eqD)

lemma calls_ok_track:
  assumes "track {#} es \<noteq> None"
  shows "calls_ok es"
  unfolding calls_ok_def
proof (intro allI impI)
  fix before e after i
  assume es: "es = before @ e # after \<and> uses_call i e"
  with assms obtain N where N: "track {#} before = Some N" "track N (e # after) \<noteq> None"
    by (cases "track {#} before") (auto simp: track_append)
  then have "i \<in># N" using es by (cases e) (auto split: if_splits)
  with track_count [OF N(1), of i] show "ends i before < starts i before"
    by (simp flip: count_greater_zero_iff)
qed

text \<open>
  What the driver does to a parser, for any relation between the state before, the events produced
  and the state after that holds for a parsed chunk and composes: it then holds for a whole body.
\<close>

locale sse_driver =
  fixes parse_chunk :: "'p parse_fn"
    and rel :: "'p \<Rightarrow> stream_event list \<Rightarrow> 'p \<Rightarrow> bool"
    and inv :: "'p \<Rightarrow> bool"
  assumes rel_refl: "inv p \<Longrightarrow> rel p [] p"
    and rel_error: "inv p \<Longrightarrow> rel p [StreamError m] p"
    and rel_trans: "rel p es q \<Longrightarrow> rel q fs r \<Longrightarrow> rel p (es @ fs) r"
    and rel_inv: "rel p es q \<Longrightarrow> inv q"
    and rel_chunk: "inv p \<Longrightarrow> parse_chunk p ev d = (q, Inr es) \<Longrightarrow> rel p es q"
    and rel_fail: "inv p \<Longrightarrow> parse_chunk p ev d = (q, Inl e) \<Longrightarrow> rel p [] q"
begin

lemma rel_then_error: "rel p es q \<Longrightarrow> rel p (es @ [StreamError m]) q"
  using rel_trans rel_error rel_inv by blast

lemma rel_run_raw: "inv p \<Longrightarrow> run_raw parse_chunk msg p rs = (q, es) \<Longrightarrow> rel p es q"
proof (induction rs arbitrary: p es q)
  case Nil
  then show ?case by (simp add: rel_refl)
next
  case (Cons r rs)
  obtain p1 res where c: "parse_chunk p (raw_event r) (raw_data r) = (p1, res)"
    by (cases "parse_chunk p (raw_event r) (raw_data r)")
  let ?evs = "case res of Inr evts \<Rightarrow> evts | Inl e \<Rightarrow> [StreamError (msg @ e)]"
  have g: "rel p ?evs p1"
  proof (cases res)
    case (Inl e)
    with c Cons.prems(1) have "rel p ([] @ [StreamError (msg @ e)]) p1"
      using rel_then_error rel_fail by blast
    with Inl show ?thesis by simp
  next
    case (Inr evts)
    with c Cons.prems(1) show ?thesis using rel_chunk by simp
  qed
  obtain q' rest where r: "run_raw parse_chunk msg p1 rs = (q', rest)"
    by (cases "run_raw parse_chunk msg p1 rs")
  have "rel p1 rest q'" using rel_inv [OF g] r by (rule Cons.IH)
  from rel_trans [OF g this] show ?case using Cons.prems(2) c r by simp
qed

lemma rel_drain: "inv p \<Longrightarrow> drain_frames parse_chunk p buf = (q, es, rest) \<Longrightarrow> rel p es q"
proof (induction buf arbitrary: p es q rule: length_induct)
  case (1 buf)
  show ?case
  proof (cases "str_find buf blank_line")
    case None
    with "1.prems" show ?thesis by (simp add: drain_frames_done rel_refl)
  next
    case (Some pos)
    obtain p1 e where r: "run_raw parse_chunk ''SSE parse error: '' p (parse_raw_sse (take pos buf)) = (p1, e)"
      by (cases "run_raw parse_chunk ''SSE parse error: '' p (parse_raw_sse (take pos buf))")
    obtain f where f: "drain_frames parse_chunk p1 (drop (pos + 2) buf) = (q, f, rest)" "es = e @ f"
      using "1.prems"(2) Some r
      by (auto simp: drain_frames.simps [of parse_chunk p buf] split: prod.splits)
    have g: "rel p e p1" using "1.prems"(1) r by (rule rel_run_raw)
    have "length (drop (pos + 2) buf) < length buf"
      using str_find_Some [OF Some] by auto
    then have "rel p1 f q" using "1.IH" f(1) rel_inv [OF g] by blast
    from rel_trans [OF g this] f(2) show ?thesis by simp
  qed
qed

lemma rel_parse_buffered:
  assumes "inv p" and "parse_buffered parse_chunk p buf = (q, es, rest)"
  shows "rel p es q"
proof (cases "length buf > MAX_SSE_BUFFER_SIZE \<and> str_find buf blank_line = None")
  case True
  obtain p1 e where r: "run_raw parse_chunk ''SSE parse error: '' p (parse_raw_sse buf) = (p1, e)"
    by (cases "run_raw parse_chunk ''SSE parse error: '' p (parse_raw_sse buf)")
  with True assms(2) have "q = p1" "\<exists>m. es = e @ [StreamError m]"
    by (auto simp: parse_buffered_def)
  with rel_run_raw [OF assms(1) r] show ?thesis by (auto intro: rel_then_error)
next
  case False
  obtain p1 e b where r: "drain_frames parse_chunk p buf = (p1, e, b)"
    by (cases "drain_frames parse_chunk p buf") auto
  with False assms(2) have "q = p1" "es = e \<or> (\<exists>m. es = e @ [StreamError m])"
    by (auto simp: parse_buffered_def split: if_splits)
  with rel_drain [OF assms(1) r] show ?thesis by (auto intro: rel_then_error)
qed

lemma rel_flush_buffered:
  "inv p \<Longrightarrow> flush_buffered parse_chunk p item buf = (q, es, rest) \<Longrightarrow> rel p es q"
  by (auto simp: flush_buffered_def rel_refl split: if_splits prod.splits dest!: rel_run_raw)

lemma rel_step:
  assumes "inv p" and "stream_step parse_chunk (p, buf) item = ((q, buf'), es)"
  shows "rel p es q"
proof (cases "\<exists>e. item = BodyError e")
  case True
  with assms rel_error show ?thesis by (auto simp: stream_step_def)
next
  case False
  define buf1 where "buf1 = (case item of Chunk bytes \<Rightarrow> buf @ decode_chunk bytes | _ \<Rightarrow> buf)"
  obtain p1 e b where p1: "parse_buffered parse_chunk p buf1 = (p1, e, b)"
    by (cases "parse_buffered parse_chunk p buf1") auto
  obtain f r where r: "flush_buffered parse_chunk p1 item b = (q, f, r)" "es = e @ f"
    using assms(2) False p1
    by (cases item) (auto simp: stream_step_def buf1_def split: prod.splits)
  have g: "rel p e p1" using assms(1) p1 by (rule rel_parse_buffered)
  from rel_trans [OF g rel_flush_buffered [OF rel_inv [OF g] r(1)]] r(2) show ?thesis by simp
qed

lemma rel_run: "inv p \<Longrightarrow> stream_run parse_chunk (p, buf) items = ((q, buf'), es) \<Longrightarrow> rel p es q"
proof (induction items arbitrary: p buf es q buf')
  case Nil
  then show ?case by (simp add: rel_refl)
next
  case (Cons item items)
  obtain p1 b e where s: "stream_step parse_chunk (p, buf) item = ((p1, b), e)"
    by (cases "stream_step parse_chunk (p, buf) item") auto
  obtain q' b' f where t: "stream_run parse_chunk (p1, b) items = ((q', b'), f)"
    by (cases "stream_run parse_chunk (p1, b) items") auto
  have g: "rel p e p1" using Cons.prems(1) s by (rule rel_step)
  have "q' = q" "b' = buf'" "es = e @ f" using Cons.prems(2) s t by simp_all
  with rel_trans [OF g Cons.IH [OF rel_inv [OF g] t]] show ?case by simp
qed

lemma rel_stream: "inv p \<Longrightarrow> \<exists>q. rel p (sse_from_bytes_stream parse_chunk p body) q"
  by (cases "stream_run parse_chunk (p, []) (body @ [EndOfBody])")
    (auto simp: sse_from_bytes_stream_def dest: rel_run)

end

text \<open>
  What the driver needs of a parser for its tool calls to be well formed: an invariant of its state;
  the calls its state holds open; a chunk that parses moves that bag as its events say; a chunk that
  fails only shrinks it.
\<close>

locale sse_parser =
  fixes parse_chunk :: "'p parse_fn"
    and open_calls :: "'p \<Rightarrow> string multiset"
    and inv :: "'p \<Rightarrow> bool"
  assumes chunk_inv: "inv p \<Longrightarrow> inv (fst (parse_chunk p ev d))"
    and chunk_ok: "inv p \<Longrightarrow> parse_chunk p ev d = (p', Inr evs) \<Longrightarrow>
      \<exists>M. track (open_calls p) evs = Some M \<and> open_calls p' \<subseteq># M"
    and chunk_err: "inv p \<Longrightarrow> parse_chunk p ev d = (p', Inl e) \<Longrightarrow> open_calls p' \<subseteq># open_calls p"
begin

text \<open>\<open>good p es p'\<close>: from an open bag that covers \<open>p\<close>, the events lead to one that covers \<open>p'\<close>.\<close>

definition good :: "'p \<Rightarrow> stream_event list \<Rightarrow> 'p \<Rightarrow> bool" where
  "good p es p' \<longleftrightarrow> inv p' \<and>
     (\<forall>M. open_calls p \<subseteq># M \<longrightarrow> (\<exists>N. track M es = Some N \<and> open_calls p' \<subseteq># N))"

end

sublocale sse_parser \<subseteq> driver: sse_driver parse_chunk good inv
proof
  fix p q r ev d e m es fs
  show "good p [] p" if "inv p" using that by (simp add: good_def)
  show "good p [StreamError m] p" if "inv p" using that by (simp add: good_def)
  show "good p (es @ fs) r" if "good p es q" "good q fs r"
    using that by (fastforce simp: good_def track_append)
  show "inv q" if "good p es q" using that by (simp add: good_def)
  show "good p es q" if h: "inv p" "parse_chunk p ev d = (q, Inr es)"
  proof -
    obtain N where N: "track (open_calls p) es = Some N" "open_calls q \<subseteq># N"
      using h chunk_ok by blast
    moreover have "inv q" using h chunk_inv [of p ev d] by simp
    ultimately show ?thesis
      by (auto simp: good_def dest!: track_mono [OF N(1)] intro: subset_mset.order_trans)
  qed
  show "good p [] q" if "inv p" "parse_chunk p ev d = (q, Inl e)"
    using that chunk_inv [of p ev d] chunk_err [OF that]
    by (auto simp: good_def intro: subset_mset.order_trans)
qed

context sse_parser begin

text \<open>Whatever bytes arrive and however they are cut, the tool calls of the stream are well formed.\<close>

lemma stream_calls_ok:
  assumes "inv p" and "open_calls p = {#}"
  shows "calls_ok (sse_from_bytes_stream parse_chunk p body)"
proof -
  obtain q where "good p (sse_from_bytes_stream parse_chunk p body) q"
    using driver.rel_stream [OF assms(1)] by blast
  then have "track {#} (sse_from_bytes_stream parse_chunk p body) \<noteq> None"
    using assms(2) by (auto simp: good_def)
  then show ?thesis by (rule calls_ok_track)
qed

end

section \<open>Tables of call ids\<close>

text \<open>All three parsers hold a table of call ids. These are its moves, with the events they allow.\<close>

definition u64_at :: "json \<Rightarrow> string \<Rightarrow> u64" where
  "u64_at v k = unwrap_or (as_u64 (json_at v k)) 0"

text \<open>
  \<open>covers ids es ids'\<close>: from any open bag that holds the ids of the state, the events lead to one
  that holds the ids of the next state.
\<close>

definition covers :: "('k, string) imap \<Rightarrow> stream_event list \<Rightarrow> ('k, string) imap \<Rightarrow> bool" where
  "covers ids es ids' \<longleftrightarrow> (\<forall>M. mset (im_values ids) \<subseteq># M \<longrightarrow>
     (\<exists>N. track M es = Some N \<and> mset (im_values ids') \<subseteq># N))"

lemma covers_refl [simp]: "covers ids [] ids"
  by (simp add: covers_def)

lemma covers_trans: "covers a es b \<Longrightarrow> covers b fs c \<Longrightarrow> covers a (es @ fs) c"
  by (fastforce simp: covers_def track_append)

lemma covers_text: "\<forall>e \<in> set es. \<exists>s. e = Token s \<or> e = Reasoning s \<Longrightarrow> covers ids es ids"
proof -
  assume t: "\<forall>e \<in> set es. \<exists>s. e = Token s \<or> e = Reasoning s"
  then have "track M es = Some M" for M by (induction es arbitrary: M) auto
  then show ?thesis by (simp add: covers_def)
qed

lemma covers_opt:
  "covers ids (case x of Some t \<Rightarrow> if P t then [] else [Token t] | None \<Rightarrow> []) ids"
  "covers ids [Token t] ids" "covers ids [Reasoning t] ids"
  "covers ids [Done r u] ids" "covers ids [StreamError m] ids"
  by (simp_all add: covers_def split: option.splits)

lemma covers_start: "covers ids [ToolCallStart i n] (im_insert k i ids)"
proof -
  have "mset (im_values (im_insert k i ids)) \<subseteq># add_mset i M" if "mset (im_values ids) \<subseteq># M" for M
    using mset_im_insert_le [of k i ids] that
    by (meson mset_subset_eq_add_mset_cancel subset_mset.order_trans)
  then show ?thesis by (simp add: covers_def)
qed

lemma covers_delta: "map_of ids k = Some i \<Longrightarrow> covers ids [ToolCallDelta i d] ids"
  by (auto simp: covers_def dest!: map_of_in_values intro: mset_subset_eqD)

lemma covers_end: "im_wf ids \<Longrightarrow> map_of ids k = Some i \<Longrightarrow> covers ids [ToolCallEnd i] (im_remove k ids)"
proof -
  assume "im_wf ids" "map_of ids k = Some i"
  then have m: "mset (im_values ids) = add_mset i (mset (im_values (im_remove k ids)))"
    by (rule mset_im_remove)
  show ?thesis
    unfolding covers_def m
    by (auto dest: mset_subset_eq_insertD simp: insert_subset_eq_iff)
qed

lemma covers_drain: "covers ids (map ToolCallEnd (im_values ids) @ [Done r u]) []"
proof -
  have "mset vs \<subseteq># M \<Longrightarrow> \<exists>N. track M (map ToolCallEnd vs) = Some N" for vs M
  proof (induction vs arbitrary: M)
    case (Cons v vs)
    then show ?case by (auto simp: insert_subset_eq_iff)
  qed simp
  then show ?thesis by (fastforce simp: covers_def track_append)
qed

section \<open>Properties\<close>

text \<open>
  C4: the events of a body do not depend on where the transport cut it: two sequences of chunks that
  decode to the same text, of at most the buffer limit, give the same events, for every parser.
\<close>

theorem stream_chunking_irrelevant:
  assumes "concat (map decode_chunk bs) = concat (map decode_chunk cs)"
    and "length (concat (map decode_chunk bs)) \<le> MAX_SSE_BUFFER_SIZE"
  shows "sse_from_bytes_stream parse_chunk p (map Chunk bs) =
    sse_from_bytes_stream parse_chunk p (map Chunk cs)"
proof -
  obtain p1 e1 b1 where d: "drain_frames parse_chunk p (concat (map decode_chunk bs)) = (p1, e1, b1)"
    by (cases "drain_frames parse_chunk p (concat (map decode_chunk bs))") auto
  show ?thesis
    using stream_chunks [OF assms(2) d] stream_chunks [OF assms(2) [unfolded assms(1)] d [unfolded assms(1)]]
    by simp
qed

theorem stream_chunking_irrelevant_witness:
  "sse_from_bytes_stream (\<lambda>p ev d. (p, Inr [Token d])) () (map Chunk [''data: '', ''x'']) =
    sse_from_bytes_stream (\<lambda>p ev d. (p, Inr [Token d])) () (map Chunk [''data: x''])"
proof (rule stream_chunking_irrelevant)
  have a: "decode_chunk s = s" if "list_all is_ascii s" "carriage_return \<notin> set s" for s
    using that by (simp add: decode_chunk_def from_utf8_lossy_ascii str_replace_no_hd)
  have "decode_chunk ''data: '' = ''data: ''" "decode_chunk ''x'' = ''x''"
    "decode_chunk ''data: x'' = ''data: x''"
    by (intro a; simp add: is_ascii_def byte_def carriage_return_def)+
  then show "concat (map decode_chunk [''data: '', ''x'']) = concat (map decode_chunk [''data: x''])"
    and "length (concat (map decode_chunk [''data: '', ''x''])) \<le> MAX_SSE_BUFFER_SIZE"
    by (simp_all add: MAX_SSE_BUFFER_SIZE_def)
qed

text \<open>
  The asynchronous driver agrees with the synchronous \<open>parse_sse_text\<close>: on text without
  carriage returns and within the limits, if the synchronous parse succeeds then the stream, cut
  into any chunks, yields exactly the same events.
\<close>

theorem stream_agrees_with_parse_sse_text:
  assumes "concat (map decode_chunk bs) = input" and "length input \<le> MAX_SSE_BUFFER_SIZE"
    and "carriage_return \<notin> set input" and "length (str_lines input) < MAX_SSE_EVENTS"
    and "parse_sse_text parse_chunk p input = (p', Inr evs)"
  shows "sse_from_bytes_stream parse_chunk p (map Chunk bs) = evs"
proof -
  from drain_then_flush [OF assms(3,4) assms(5) [unfolded parse_sse_text_def]]
  obtain p1 e1 b1 e2 where d: "drain_frames parse_chunk p input = (p1, e1, b1)"
    and f: "parse_raw_events parse_chunk p1 (parse_raw_sse b1) = (p', Inr e2)" and e: "evs = e1 @ e2"
    by blast
  have "run_raw parse_chunk ''SSE flush parse error: '' p1 (parse_raw_sse b1) = (p', e2)"
    using f by (rule run_raw_ok)
  with stream_chunks [of bs parse_chunk p] assms(1,2) d e show ?thesis by simp
qed

theorem stream_agrees_with_parse_sse_text_witness:
  "sse_from_bytes_stream (\<lambda>p ev d. (p, Inr [Token d])) () (map Chunk [''da'', ''ta:a'']) = [Token ''a'']"
proof (rule stream_agrees_with_parse_sse_text)
  have a: "decode_chunk s = s" if "list_all is_ascii s" "carriage_return \<notin> set s" for s
    using that by (simp add: decode_chunk_def from_utf8_lossy_ascii str_replace_no_hd)
  have "decode_chunk ''da'' = ''da''" "decode_chunk ''ta:a'' = ''ta:a''"
    by (intro a; simp add: is_ascii_def byte_def carriage_return_def)+
  then show "concat (map decode_chunk [''da'', ''ta:a'']) = ''data:a''" by simp
  have l: "str_lines ''data:a'' = [''data:a'']" by (simp add: str_lines_single newline_def)
  have t: "trim ''a'' = ''a''" "trim ''data:a'' = ''data:a''"
    by (intro trim_trimmed trimmed_ascii; simp add: byte_def ascii_ws_def)+
  have n: "MAX_SSE_DATA_SIZE \<ge> 1" by (simp add: MAX_SSE_DATA_SIZE_def)
  show "parse_sse_text (\<lambda>p ev d. (p, Inr [Token d])) () ''data:a'' = ((), Inr [Token ''a''])"
    by (simp add: parse_sse_text_def parse_raw_sse_def l t raw_finish_def MAX_SSE_EVENTS_def
        MAX_SSE_DATA_SIZE_def strip_prefix_def saturating_add_def usize_max_def)
  show "length (str_lines ''data:a'') < MAX_SSE_EVENTS" by (simp add: l MAX_SSE_EVENTS_def)
qed (simp_all add: MAX_SSE_BUFFER_SIZE_def carriage_return_def)

text \<open>
  Decoding each chunk on its own loses characters: when the transport cuts between the two bytes
  of a character such as \<open>U+00E9\<close>, the driver's text holds two replacement characters in its place,
  where the uncut body holds the character.
\<close>

theorem stream_splits_characters:
  "decode_chunk [CHR 0xC3, CHR 0xA9] = [CHR 0xC3, CHR 0xA9]
   \<and> concat (map decode_chunk [[CHR 0xC3], [CHR 0xA9]]) = replacement_char @ replacement_char"
proof -
  have r: "str_replace [carriage_return, newline] [newline] s = s" if "carriage_return \<notin> set s" for s
    using that by (intro str_replace_no_hd) auto
  have l: "from_utf8_lossy [CHR 0xC3, CHR 0xA9] = [CHR 0xC3, CHR 0xA9]"
    "from_utf8_lossy [CHR 0xC3] = replacement_char" "from_utf8_lossy [CHR 0xA9] = replacement_char"
    by (simp_all add: utf8_step_def utf8_width_def byte_def second_ok_def is_cont_def count_conts_def)
  have cr: "carriage_return \<notin> set [CHR 0xC3, CHR 0xA9]" "carriage_return \<notin> set replacement_char"
    by (simp_all add: carriage_return_def replacement_char_def)
  show ?thesis
    by (simp add: decode_chunk_def l r [OF cr(1)] r [OF cr(2)] del: from_utf8_lossy.simps)
qed

end
