(* ===== verification/Sse_OpenAI.thy ===== *)
theory Sse_OpenAI
  imports Sse
begin

text \<open>
  \<open>core/streaming/openai.rs\<close>: the parser of \<open>chat.completion.chunk\<close> payloads. Its state maps the
  index of a streamed tool call to its id. \<open>from_str\<close> is \<open>serde_json::from_str\<close>.
\<close>

record openai_sse_parser =
  oa_tool_call_ids :: "(u32, string) imap"

definition openai_new :: openai_sse_parser where
  "openai_new = \<lparr>oa_tool_call_ids = []\<rparr>"

text \<open>One entry of \<open>delta.tool_calls\<close>, and the loop over them.\<close>

definition openai_tool_call ::
  "(u32, string) imap \<Rightarrow> json \<Rightarrow> (u32, string) imap \<times> stream_event list" where
  "openai_tool_call ids tc =
     (let idx = (ucast (u64_at tc ''index'') :: u32);
          (ids1, started) =
            (case as_str (json_at tc ''id'') of
               Some cid \<Rightarrow>
                 let name = unwrap_or (as_str (json_at (json_at tc ''function'') ''name'')) []
                 in (im_insert idx cid ids, [ToolCallStart cid name])
             | None \<Rightarrow> (ids, []));
          delta =
            (case as_str (json_at (json_at tc ''function'') ''arguments'') of
               Some args \<Rightarrow>
                 if args \<noteq> [] then
                   (case map_of ids1 idx of Some cid \<Rightarrow> [ToolCallDelta cid args] | None \<Rightarrow> [])
                 else []
             | None \<Rightarrow> [])
      in (ids1, started @ delta))"

fun openai_tool_calls ::
  "(u32, string) imap \<Rightarrow> json list \<Rightarrow> (u32, string) imap \<times> stream_event list" where
  "openai_tool_calls ids [] = (ids, [])"
| "openai_tool_calls ids (tc # tcs) =
     (let (ids1, e1) = openai_tool_call ids tc; (ids2, e2) = openai_tool_calls ids1 tcs
      in (ids2, e1 @ e2))"

definition openai_usage :: "json \<Rightarrow> token_usage option" where
  "openai_usage root_v =
     map_option (\<lambda>u. let u = JObj u in
         \<lparr>prompt_tokens = ucast (u64_at u ''prompt_tokens''),
          completion_tokens = ucast (u64_at u ''completion_tokens''),
          total_tokens = ucast (u64_at u ''total_tokens'')\<rparr>)
       (as_object (json_at root_v ''usage''))"

text \<open>The text events of a delta: reasoning before content, empty strings dropped.\<close>

definition openai_text :: "json \<Rightarrow> stream_event list" where
  "openai_text delta =
     (case as_str (json_at delta ''reasoning_content'') of
        Some r \<Rightarrow> if r \<noteq> [] then [Reasoning r] else [] | None \<Rightarrow> []) @
     (case as_str (json_at delta ''content'') of
        Some c \<Rightarrow> if c \<noteq> [] then [Token c] else [] | None \<Rightarrow> [])"

definition openai_choice ::
  "json \<Rightarrow> (u32, string) imap \<Rightarrow> json \<Rightarrow> (u32, string) imap \<times> stream_event list" where
  "openai_choice root_v ids choice =
     (let delta = json_at choice ''delta'';
          (ids1, calls) =
            (case as_array (json_at delta ''tool_calls'') of
               Some tcs \<Rightarrow> openai_tool_calls ids tcs
             | None \<Rightarrow> (ids, []));
          (ids2, finish) =
            (case as_str (json_at choice ''finish_reason'') of
               Some reason \<Rightarrow>
                 if reason \<noteq> [] then
                   ([], map ToolCallEnd (im_values ids1) @ [Done reason (openai_usage root_v)])
                 else (ids1, [])
             | None \<Rightarrow> (ids1, []))
      in (ids2, openai_text delta @ calls @ finish))"

fun openai_choices ::
  "json \<Rightarrow> (u32, string) imap \<Rightarrow> json list \<Rightarrow> (u32, string) imap \<times> stream_event list" where
  "openai_choices root_v ids [] = (ids, [])"
| "openai_choices root_v ids (c # cs) =
     (let (ids1, e1) = openai_choice root_v ids c; (ids2, e2) = openai_choices root_v ids1 cs
      in (ids2, e1 @ e2))"

definition openai_parse_chunk ::
  "(string \<Rightarrow> (string, json) res) \<Rightarrow> openai_sse_parser parse_fn" where
  "openai_parse_chunk from_str p event_type data =
     (let trimmed_d = trim data
      in if trimmed_d = ''[DONE]'' then (p, Inr [])
         else case from_str trimmed_d of
           Inl e \<Rightarrow> (p, Inl e)
         | Inr root_v \<Rightarrow>
             (case json_get root_v ''error'' of
                Some err \<Rightarrow>
                  (p, Inr [StreamError (unwrap_or (as_str (json_at err ''message'')) ''Unknown API error'')])
              | None \<Rightarrow>
                  (case as_array (json_at root_v ''choices'') of
                     Some choices \<Rightarrow>
                       let (ids, evs) = openai_choices root_v (oa_tool_call_ids p) choices
                       in (p\<lparr>oa_tool_call_ids := ids\<rparr>, Inr evs)
                   | None \<Rightarrow> (p, Inr []))))"

section \<open>Tool calls\<close>

lemma openai_tool_call_covers:
  assumes "im_wf ids" and "openai_tool_call ids tc = (ids', es)"
  shows "im_wf ids' \<and> covers ids es ids'"
proof -
  have del: "covers i (case d of Some args \<Rightarrow> if args \<noteq> [] then
        (case map_of i k of Some c \<Rightarrow> [ToolCallDelta c args] | None \<Rightarrow> []) else [] | None \<Rightarrow> []) i"
    for i :: "(u32, string) imap" and d k
    by (auto split: option.splits intro: covers_delta)
  show ?thesis
  proof (cases "as_str (json_at tc ''id'')")
    case None
    with assms(2) have "ids' = ids" and es: "es = (case as_str (json_at (json_at tc ''function'') ''arguments'') of
        Some args \<Rightarrow> if args \<noteq> [] then (case map_of ids (ucast (u64_at tc ''index'')) of
          Some c \<Rightarrow> [ToolCallDelta c args] | None \<Rightarrow> []) else [] | None \<Rightarrow> [])"
      by (simp_all add: openai_tool_call_def Let_def)
    with assms(1) show ?thesis unfolding es by (blast intro: del)
  next
    case (Some cid)
    with assms covers_trans [OF covers_start del] show ?thesis
      by (auto simp: openai_tool_call_def Let_def)
  qed
qed

lemma openai_tool_calls_covers:
  "im_wf ids \<Longrightarrow> openai_tool_calls ids tcs = (ids', es) \<Longrightarrow> im_wf ids' \<and> covers ids es ids'"
proof (induction tcs arbitrary: ids es)
  case (Cons tc tcs)
  obtain ids1 e1 where h: "openai_tool_call ids tc = (ids1, e1)" by (cases "openai_tool_call ids tc")
  have "im_wf ids1 \<and> covers ids e1 ids1" using Cons.prems(1) h by (rule openai_tool_call_covers)
  with Cons h show ?case by (auto split: prod.splits intro: covers_trans)
qed simp

lemma openai_text_only: "\<forall>e \<in> set (openai_text delta). \<exists>s. e = Token s \<or> e = Reasoning s"
  by (auto simp: openai_text_def split: option.splits)

lemma openai_choice_covers:
  assumes "im_wf ids" and "openai_choice root_v ids choice = (ids', es)"
  shows "im_wf ids' \<and> covers ids es ids'"
proof -
  let ?delta = "json_at choice ''delta''"
  obtain ids1 calls where c: "(case as_array (json_at ?delta ''tool_calls'') of
      Some tcs \<Rightarrow> openai_tool_calls ids tcs | None \<Rightarrow> (ids, [])) = (ids1, calls)"
    by (cases "case as_array (json_at ?delta ''tool_calls'') of
      Some tcs \<Rightarrow> openai_tool_calls ids tcs | None \<Rightarrow> (ids, [])")
  then have c1: "im_wf ids1 \<and> covers ids calls ids1"
    using assms(1) openai_tool_calls_covers by (auto split: option.splits)
  have t: "covers ids (openai_text ?delta) ids" by (rule covers_text) (rule openai_text_only)
  from c1 t have tc: "covers ids (openai_text ?delta @ calls) ids1" by (blast intro: covers_trans)
  obtain fin where es: "es = (openai_text ?delta @ calls) @ fin"
    and fin: "ids' = ids1 \<and> fin = [] \<or> ids' = [] \<and>
      (\<exists>r u. fin = map ToolCallEnd (im_values ids1) @ [Done r u])"
    using assms(2) c by (auto simp: openai_choice_def Let_def split: option.splits if_splits)
  from fin c1 have "im_wf ids' \<and> covers ids1 fin ids'" by (auto intro: covers_drain)
  with tc es show ?thesis using covers_trans by blast
qed

lemma openai_choices_covers:
  "im_wf ids \<Longrightarrow> openai_choices root_v ids cs = (ids', es) \<Longrightarrow> im_wf ids' \<and> covers ids es ids'"
proof (induction cs arbitrary: ids es)
  case (Cons c cs)
  obtain ids1 e1 where h: "openai_choice root_v ids c = (ids1, e1)" by (cases "openai_choice root_v ids c")
  have "im_wf ids1 \<and> covers ids e1 ids1" using Cons.prems(1) h by (rule openai_choice_covers)
  with Cons h show ?case by (auto split: prod.splits intro: covers_trans)
qed simp

definition openai_open :: "openai_sse_parser \<Rightarrow> string multiset" where
  "openai_open p = mset (im_values (oa_tool_call_ids p))"

definition openai_inv :: "openai_sse_parser \<Rightarrow> bool" where
  "openai_inv p = im_wf (oa_tool_call_ids p)"

lemma openai_chunk_cases:
  assumes "openai_inv p" and "openai_parse_chunk from_str p ev d = (p', res)"
  shows "openai_inv p' \<and> (case res of Inl e \<Rightarrow> p' = p
    | Inr es \<Rightarrow> covers (oa_tool_call_ids p) es (oa_tool_call_ids p'))"
proof (cases "\<exists>v cs. trim d \<noteq> ''[DONE]'' \<and> from_str (trim d) = Inr v \<and> json_get v ''error'' = None
    \<and> as_array (json_at v ''choices'') = Some cs")
  case True
  then obtain v cs where v: "trim d \<noteq> ''[DONE]''" "from_str (trim d) = Inr v"
    "json_get v ''error'' = None" "as_array (json_at v ''choices'') = Some cs" by blast
  obtain ids es where c: "openai_choices v (oa_tool_call_ids p) cs = (ids, es)"
    by (cases "openai_choices v (oa_tool_call_ids p) cs")
  then have "im_wf ids \<and> covers (oa_tool_call_ids p) es ids"
    using assms(1) openai_choices_covers by (simp add: openai_inv_def)
  then show ?thesis using assms(2) v c by (auto simp: openai_parse_chunk_def openai_inv_def)
next
  case False
  then have "\<exists>r. openai_parse_chunk from_str p ev d = (p, r) \<and>
      ((\<exists>e. r = Inl e) \<or> r = Inr [] \<or> (\<exists>m. r = Inr [StreamError m]))"
    by (auto simp: openai_parse_chunk_def Let_def split: sum.splits option.splits)
  then show ?thesis using assms by (auto simp: covers_opt)
qed

interpretation openai_sse: sse_parser "openai_parse_chunk from_str" openai_open openai_inv for from_str
proof
  fix p p' :: openai_sse_parser and ev d e evs
  assume inv: "openai_inv p"
  show "openai_inv (fst (openai_parse_chunk from_str p ev d))"
    using openai_chunk_cases [OF inv, of from_str ev d] by (cases "openai_parse_chunk from_str p ev d") auto
  show "\<exists>M. track (openai_open p) evs = Some M \<and> openai_open p' \<subseteq># M"
    if "openai_parse_chunk from_str p ev d = (p', Inr evs)"
    using openai_chunk_cases [OF inv that] by (simp add: covers_def openai_open_def)
  show "openai_open p' \<subseteq># openai_open p" if "openai_parse_chunk from_str p ev d = (p', Inl e)"
    using openai_chunk_cases [OF inv that] by simp
qed

section \<open>Properties\<close>


lemma openai_tool_calls_no_done:
  "openai_tool_calls ids tcs = (ids', es) \<Longrightarrow> e \<in> set es \<Longrightarrow> e \<noteq> Done r u"
proof (induction tcs arbitrary: ids es)
  case (Cons tc tcs)
  then show ?case
    by (auto simp: openai_tool_call_def Let_def split: prod.splits option.splits if_splits)
qed simp

text \<open>
  A chunk with one choice that carries a non-empty finish reason ends every tool call still
  open, in the order in which the calls were first seen, then reports the end exactly once, and
  leaves the parser without open calls.
\<close>

theorem openai_finish_closes:
  assumes "trim data \<noteq> ''[DONE]''" and "from_str (trim data) = Inr root_v"
    and "json_get root_v ''error'' = None" and "as_array (json_at root_v ''choices'') = Some [choice]"
    and "as_str (json_at choice ''finish_reason'') = Some reason" and "reason \<noteq> []"
  shows "\<exists>before ids p' u. openai_parse_chunk from_str p event_type data =
      (p', Inr (before @ map ToolCallEnd (im_values ids) @ [Done reason u]))
    \<and> openai_open p' = {#} \<and> (\<forall>e \<in> set before. \<forall>r v. e \<noteq> Done r v)
    \<and> ids = fst (openai_tool_calls (oa_tool_call_ids p)
        (unwrap_or (as_array (json_at (json_at choice ''delta'') ''tool_calls'')) []))"
proof -
  let ?tcs = "unwrap_or (as_array (json_at (json_at choice ''delta'') ''tool_calls'')) []"
  obtain ids calls where c: "openai_tool_calls (oa_tool_call_ids p) ?tcs = (ids, calls)"
    by (cases "openai_tool_calls (oa_tool_call_ids p) ?tcs")
  have "openai_choice root_v (oa_tool_call_ids p) choice = ([], openai_text (json_at choice ''delta'')
      @ calls @ map ToolCallEnd (im_values ids) @ [Done reason (openai_usage root_v)])"
    using assms(5,6) c
    by (cases "as_array (json_at (json_at choice ''delta'') ''tool_calls'')")
      (simp_all add: openai_choice_def Let_def)
  then have "openai_parse_chunk from_str p event_type data =
      (p\<lparr>oa_tool_call_ids := []\<rparr>, Inr ((openai_text (json_at choice ''delta'') @ calls)
        @ map ToolCallEnd (im_values ids) @ [Done reason (openai_usage root_v)]))"
    using assms(1-4) by (simp add: openai_parse_chunk_def)
  moreover have "\<forall>e \<in> set (openai_text (json_at choice ''delta'') @ calls). \<forall>r v. e \<noteq> Done r v"
    using openai_text_only openai_tool_calls_no_done [OF c] by fastforce
  moreover have "openai_open (p\<lparr>oa_tool_call_ids := []\<rparr>) = {#}" by (simp add: openai_open_def)
  ultimately show ?thesis using c by (metis fst_conv)
qed

theorem openai_finish_closes_witness:
  "\<exists>before ids p' u. openai_parse_chunk
       (\<lambda>_. Inr (JObj [(''choices'', JArr [JObj [(''finish_reason'', JStr ''tool_calls'')]])]))
       \<lparr>oa_tool_call_ids = [(0, ''c1''), (1, ''c2'')]\<rparr> [] ''x'' =
      (p', Inr (before @ map ToolCallEnd (im_values ids) @ [Done ''tool_calls'' u]))
    \<and> ids = [(0, ''c1''), (1, ''c2'')]"
proof -
  let ?fs = "\<lambda>_. Inr (JObj [(''choices'', JArr [JObj [(''finish_reason'', JStr ''tool_calls'')]])])"
  let ?p = "\<lparr>oa_tool_call_ids = [(0, ''c1''), (1, ''c2'')]\<rparr>"
  have t: "trim ''x'' \<noteq> ''[DONE]''" using length_trim_le [of "''x''"] by (intro notI) simp
  show ?thesis
    using openai_finish_closes [OF t, of ?fs
        "JObj [(''choices'', JArr [JObj [(''finish_reason'', JStr ''tool_calls'')]])]"
        "JObj [(''finish_reason'', JStr ''tool_calls'')]" "''tool_calls''" ?p "[]"]
    by (auto simp: json_at_def)
qed

end
