(* ===== verification/Sse_Anthropic.thy ===== *)
theory Sse_Anthropic
  imports Sse
begin

text \<open>
  \<open>core/streaming/anthropic.rs\<close>: the parser of Anthropic's named events. Its state maps the index
  of a content block to the id of the tool call it carries, and remembers the input tokens that
  \<open>message_start\<close> reported. Token sums are \<open>u32\<close> additions and wrap, as in a release build.
\<close>

definition ANTHROPIC_STOP_REASON_MAP :: "(string \<times> string) list" where
  "ANTHROPIC_STOP_REASON_MAP =
     [(''end_turn'', ''stop''), (''tool_use'', ''tool_calls''), (''max_tokens'', ''length''),
      (''stop_sequence'', ''stop''), (''error'', ''error'')]"

definition map_stop_reason :: "string \<Rightarrow> string" where
  "map_stop_reason reason =
     unwrap_or (map_option snd (find (\<lambda>p. fst p = reason) ANTHROPIC_STOP_REASON_MAP)) reason"

record anthropic_sse_parser =
  an_tool_call_ids :: "(u32, string) imap"
  an_input_tokens :: u32

definition anthropic_new :: anthropic_sse_parser where
  "anthropic_new = \<lparr>an_tool_call_ids = [], an_input_tokens = 0\<rparr>"

definition anthropic_block_start ::
  "anthropic_sse_parser \<Rightarrow> json \<Rightarrow> anthropic_sse_parser \<times> stream_event list" where
  "anthropic_block_start p root_v =
     (let idx = ucast (u64_at root_v ''index''); block = json_at root_v ''content_block''
      in if as_str (json_at block ''type'') = Some ''tool_use'' then
           let cid = unwrap_or (as_str (json_at block ''id'')) [];
               name = unwrap_or (as_str (json_at block ''name'')) []
           in (p\<lparr>an_tool_call_ids := im_insert idx cid (an_tool_call_ids p)\<rparr>, [ToolCallStart cid name])
         else (p, []))"

definition anthropic_block_delta :: "anthropic_sse_parser \<Rightarrow> json \<Rightarrow> stream_event list" where
  "anthropic_block_delta p root_v =
     (let idx = (ucast (u64_at root_v ''index'') :: u32);
          delta = json_at root_v ''delta'';
          kind = as_str (json_at delta ''type'')
      in if kind = Some ''text_delta'' then
           (let t = unwrap_or (as_str (json_at delta ''text'')) []
            in if t = [] then [] else [Token t])
         else if kind = Some ''thinking_delta'' then
           (let t = unwrap_or (as_str (json_at delta ''thinking'')) []
            in if t = [] then [] else [Reasoning t])
         else if kind = Some ''input_json_delta'' then
           (let part = unwrap_or (as_str (json_at delta ''partial_json'')) []
            in if part = [] then []
               else case map_of (an_tool_call_ids p) idx of
                      Some cid \<Rightarrow> [ToolCallDelta cid part]
                    | None \<Rightarrow> [])
         else [])"

definition anthropic_block_stop ::
  "anthropic_sse_parser \<Rightarrow> json \<Rightarrow> anthropic_sse_parser \<times> stream_event list" where
  "anthropic_block_stop p root_v =
     (let idx = ucast (u64_at root_v ''index'')
      in case map_of (an_tool_call_ids p) idx of
           Some cid \<Rightarrow> (p\<lparr>an_tool_call_ids := im_remove idx (an_tool_call_ids p)\<rparr>, [ToolCallEnd cid])
         | None \<Rightarrow> (p, []))"

definition anthropic_message_delta :: "anthropic_sse_parser \<Rightarrow> json \<Rightarrow> stream_event list" where
  "anthropic_message_delta p root_v =
     (let stop_reason = unwrap_or (as_str (json_at (json_at root_v ''delta'') ''stop_reason'')) ''end_turn'';
          output_tokens = (ucast (u64_at (json_at root_v ''usage'') ''output_tokens'') :: u32);
          usage = map_option (\<lambda>_. \<lparr>prompt_tokens = an_input_tokens p,
              completion_tokens = output_tokens,
              total_tokens = an_input_tokens p + output_tokens\<rparr>)
            (as_object (json_at root_v ''usage''))
      in [Done (map_stop_reason stop_reason) usage])"

definition anthropic_parse_chunk ::
  "(string \<Rightarrow> (string, json) res) \<Rightarrow> anthropic_sse_parser parse_fn" where
  "anthropic_parse_chunk from_str p event_type data =
     (if trim data = [] then (p, Inr [])
      else case from_str data of
        Inl e \<Rightarrow> (p, Inl e)
      | Inr root_v \<Rightarrow>
          if event_type = ''message_start'' then
            (case json_get root_v ''message'' of
               Some msg \<Rightarrow>
                 (p\<lparr>an_input_tokens := ucast (u64_at (json_at msg ''usage'') ''input_tokens'')\<rparr>, Inr [])
             | None \<Rightarrow> (p, Inr []))
          else if event_type = ''content_block_start'' then
            (let (p1, evs) = anthropic_block_start p root_v in (p1, Inr evs))
          else if event_type = ''content_block_delta'' then (p, Inr (anthropic_block_delta p root_v))
          else if event_type = ''content_block_stop'' then
            (let (p1, evs) = anthropic_block_stop p root_v in (p1, Inr evs))
          else if event_type = ''message_delta'' then (p, Inr (anthropic_message_delta p root_v))
          else if event_type = ''message_stop'' \<or> event_type = ''ping'' then (p, Inr [])
          else if event_type = ''error'' then
            (let err = json_at root_v ''error''
             in (p, Inr [StreamError (unwrap_or
                   (or_else (as_str (json_at err ''message'')) (as_str (json_at err ''type'')))
                   ''Unknown Anthropic streaming error'')]))
          else (p, Inr []))"

definition anthropic_open :: "anthropic_sse_parser \<Rightarrow> string multiset" where
  "anthropic_open p = mset (im_values (an_tool_call_ids p))"

definition anthropic_inv :: "anthropic_sse_parser \<Rightarrow> bool" where
  "anthropic_inv p = im_wf (an_tool_call_ids p)"

lemma anthropic_block_start_covers:
  "anthropic_inv p \<Longrightarrow> anthropic_block_start p v = (p', es) \<Longrightarrow>
     anthropic_inv p' \<and> covers (an_tool_call_ids p) es (an_tool_call_ids p')"
  by (auto simp: anthropic_block_start_def anthropic_inv_def Let_def intro: covers_start split: if_splits)

lemma anthropic_block_delta_covers:
  "covers (an_tool_call_ids p) (anthropic_block_delta p v) (an_tool_call_ids p)"
  by (simp add: anthropic_block_delta_def Let_def covers_opt covers_delta split: option.splits)

lemma anthropic_block_stop_covers:
  "anthropic_inv p \<Longrightarrow> anthropic_block_stop p v = (p', es) \<Longrightarrow>
     anthropic_inv p' \<and> covers (an_tool_call_ids p) es (an_tool_call_ids p')"
  by (auto simp: anthropic_block_stop_def anthropic_inv_def Let_def intro: covers_end split: option.splits)

lemma anthropic_chunk_cases:
  assumes "anthropic_inv p" and "anthropic_parse_chunk from_str p ev d = (p', res)"
  shows "anthropic_inv p' \<and> (case res of Inl e \<Rightarrow> p' = p
    | Inr es \<Rightarrow> covers (an_tool_call_ids p) es (an_tool_call_ids p'))"
proof (cases "trim d = [] \<or> (\<exists>e. from_str d = Inl e)")
  case True
  with assms show ?thesis by (cases "trim d = []") (auto simp: anthropic_parse_chunk_def)
next
  case False
  then obtain v where v: "trim d \<noteq> []" "from_str d = Inr v" by (cases "from_str d") auto
  have delta: "covers (an_tool_call_ids p) (anthropic_message_delta p v) (an_tool_call_ids p)"
    by (simp add: anthropic_message_delta_def Let_def covers_opt)
  have start: "anthropic_inv q \<and> covers (an_tool_call_ids p) es (an_tool_call_ids q)"
    if "anthropic_block_start p v = (q, es)" for q es
    using assms(1) that by (rule anthropic_block_start_covers)
  have stop: "anthropic_inv q \<and> covers (an_tool_call_ids p) es (an_tool_call_ids q)"
    if "anthropic_block_stop p v = (q, es)" for q es
    using assms(1) that by (rule anthropic_block_stop_covers)
  consider "ev = ''message_start''" | "ev = ''content_block_start''" | "ev = ''content_block_delta''"
    | "ev = ''content_block_stop''" | "ev = ''message_delta''" | "ev = ''error''"
    | "ev \<noteq> ''message_start''" "ev \<noteq> ''content_block_start''" "ev \<noteq> ''content_block_delta''"
        "ev \<noteq> ''content_block_stop''" "ev \<noteq> ''message_delta''" "ev \<noteq> ''error''"
    by argo
  then show ?thesis
  proof cases
    case 1
    with assms v show ?thesis
      by (cases "json_get v ''message''") (auto simp: anthropic_parse_chunk_def anthropic_inv_def)
  next
    case 2
    with assms(2) v start show ?thesis
      by (cases "anthropic_block_start p v") (auto simp: anthropic_parse_chunk_def)
  next
    case 3
    with assms v anthropic_block_delta_covers show ?thesis by (auto simp: anthropic_parse_chunk_def)
  next
    case 4
    with assms(2) v stop show ?thesis
      by (cases "anthropic_block_stop p v") (auto simp: anthropic_parse_chunk_def)
  next
    case 5
    with assms v delta show ?thesis by (auto simp: anthropic_parse_chunk_def)
  next
    case 6
    with assms v show ?thesis by (auto simp: anthropic_parse_chunk_def Let_def covers_opt)
  next
    case 7
    then have "anthropic_parse_chunk from_str p ev d = (p, Inr [])"
      using v by (simp add: anthropic_parse_chunk_def)
    with assms have "p' = p" "res = Inr []" by simp_all
    with assms(1) show ?thesis by simp
  qed
qed

interpretation anthropic_sse: sse_parser "anthropic_parse_chunk from_str" anthropic_open anthropic_inv
  for from_str
proof
  fix p p' :: anthropic_sse_parser and ev d e evs
  assume inv: "anthropic_inv p"
  show "anthropic_inv (fst (anthropic_parse_chunk from_str p ev d))"
    using anthropic_chunk_cases [OF inv, of from_str ev d]
    by (cases "anthropic_parse_chunk from_str p ev d") auto
  show "\<exists>M. track (anthropic_open p) evs = Some M \<and> anthropic_open p' \<subseteq># M"
    if "anthropic_parse_chunk from_str p ev d = (p', Inr evs)"
    using anthropic_chunk_cases [OF inv that] by (simp add: covers_def anthropic_open_def)
  show "anthropic_open p' \<subseteq># anthropic_open p" if "anthropic_parse_chunk from_str p ev d = (p', Inl e)"
    using anthropic_chunk_cases [OF inv that] by simp
qed

section \<open>Properties\<close>

text \<open>
  C8: whatever Anthropic's endpoint sends and however it is cut into chunks, every tool-call delta
  and end belongs to a call that was started before and not yet ended.
\<close>

theorem anthropic_stream_tool_calls:
  "calls_ok (sse_from_bytes_stream (anthropic_parse_chunk from_str) anthropic_new body)"
  by (rule anthropic_sse.stream_calls_ok)
    (simp_all add: anthropic_inv_def anthropic_open_def anthropic_new_def)

text \<open>
  The usage of an Anthropic answer is assembled from two events: after a \<open>message_start\<close> that
  reports the input tokens and any parser state before it, a \<open>message_delta\<close> with the output tokens
  yields one end event whose prompt and completion counts are these numbers and whose total is their
  sum, modulo \<open>2 ^ 32\<close>.
\<close>

theorem anthropic_usage_total:
  assumes "trim d1 \<noteq> []" and "from_str d1 = Inr v1" and "json_get v1 ''message'' = Some msg"
    and "json_at (json_at msg ''usage'') ''input_tokens'' = JNum (PosInt (of_nat m))"
    and "trim d2 \<noteq> []" and "from_str d2 = Inr v2" and "as_object (json_at v2 ''usage'') \<noteq> None"
    and "json_at (json_at v2 ''usage'') ''output_tokens'' = JNum (PosInt (of_nat n))"
    and "m < 2 ^ 32" and "n < 2 ^ 32"
  shows "\<exists>p1 u r. anthropic_parse_chunk from_str p ''message_start'' d1 = (p1, Inr [])
    \<and> anthropic_parse_chunk from_str p1 ''message_delta'' d2 = (p1, Inr [Done r (Some u)])
    \<and> unat (prompt_tokens u) = m \<and> unat (completion_tokens u) = n
    \<and> unat (total_tokens u) = (m + n) mod 2 ^ 32"
proof -
  have small: "unat (ucast (of_nat k :: u64) :: u32) = k" if "k < 2 ^ 32" for k
    using that by (simp add: unsigned_ucast_eq unat_of_nat take_bit_nat_eq_self)
  obtain ob where ob: "as_object (json_at v2 ''usage'') = Some ob" using assms(7) by auto
  have in_t: "u64_at (json_at msg ''usage'') ''input_tokens'' = of_nat m"
    and out_t: "u64_at (json_at v2 ''usage'') ''output_tokens'' = of_nat n"
    using assms(4,8) by (simp_all add: u64_at_def)
  define p1 where "p1 = p\<lparr>an_input_tokens := (ucast (of_nat m :: u64) :: u32)\<rparr>"
  define u where "u = \<lparr>prompt_tokens = ucast (of_nat m :: u64), completion_tokens = ucast (of_nat n :: u64),
      total_tokens = (ucast (of_nat m :: u64) + ucast (of_nat n :: u64) :: u32)\<rparr>"
  have "anthropic_parse_chunk from_str p ''message_start'' d1 = (p1, Inr [])"
    using assms(1-3) in_t by (simp add: anthropic_parse_chunk_def p1_def)
  moreover have "\<exists>r. anthropic_parse_chunk from_str p1 ''message_delta'' d2 = (p1, Inr [Done r (Some u)])"
    using assms(5,6) ob out_t
    by (simp add: anthropic_parse_chunk_def anthropic_message_delta_def Let_def p1_def u_def)
  moreover have "unat (total_tokens u) = (m + n) mod 2 ^ 32"
    using small [OF assms(9)] small [OF assms(10)] by (simp add: u_def unat_word_ariths)
  moreover have "unat (prompt_tokens u) = m" "unat (completion_tokens u) = n"
    using small assms(9,10) by (simp_all add: u_def)
  ultimately show ?thesis by blast
qed

theorem anthropic_usage_total_witness:
  "\<exists>p1 u r. anthropic_parse_chunk
       (\<lambda>s. Inr (JObj [(''message'', JObj [(''usage'', JObj [(''input_tokens'', JNum (PosInt 7))])]),
                       (''usage'', JObj [(''output_tokens'', JNum (PosInt 5))])]))
       p1 ''message_delta'' ''x'' = (p1, Inr [Done r (Some u)]) \<and> unat (total_tokens u) = 12"
proof -
  let ?v = "JObj [(''message'', JObj [(''usage'', JObj [(''input_tokens'', JNum (PosInt 7))])]),
                       (''usage'', JObj [(''output_tokens'', JNum (PosInt 5))])]"
  have t: "trim ''x'' \<noteq> []" using trim_trimmed [of "''x''"] trimmed_ascii [of "''x''"]
    by (simp add: byte_def ascii_ws_def)
  show ?thesis
    using anthropic_usage_total [OF t, of "\<lambda>_. Inr ?v" ?v _ 7 "''x''" ?v 5 anthropic_new] t
    by (auto simp: json_at_def)
qed

end
