(* ===== verification/Sse_Gemini.thy ===== *)
theory Sse_Gemini
  imports Sse
begin

text \<open>
  \<open>core/streaming/gemini.rs\<close>: the parser of \<open>streamGenerateContent\<close> payloads. Gemini sends whole
  function calls without ids; the parser numbers them with a counter and builds the ids itself.
  \<open>json_str\<close> is \<open>serde_json::to_string\<close>.
\<close>

record gemini_sse_parser =
  gm_tool_call_ids :: "(nat, string) imap"
  gm_tc_counter :: nat

definition gemini_new :: gemini_sse_parser where
  "gemini_new = \<lparr>gm_tool_call_ids = [], gm_tc_counter = 0\<rparr>"

definition map_finish_reason :: "string \<Rightarrow> string" where
  "map_finish_reason reason =
     (let r = to_uppercase reason
      in if r = ''STOP'' then ''stop''
         else if r = ''MAX_TOKENS'' then ''length''
         else if r = ''SAFETY'' \<or> r = ''RECITATION'' then ''content_filter''
         else ''unknown'')"

definition tool_call_id :: "string \<Rightarrow> nat \<Rightarrow> string" where
  "tool_call_id name counter = ''tc_'' @ name @ ''_'' @ show_nat counter"

text \<open>One part of the first candidate; the flag says whether it was a function call.\<close>

definition gemini_part ::
  "(json \<Rightarrow> string) \<Rightarrow> gemini_sse_parser \<Rightarrow> json \<Rightarrow> gemini_sse_parser \<times> stream_event list \<times> bool" where
  "gemini_part json_str p part =
     (let part_text = (case Option.bind (json_get part ''text'') as_str of
                    Some t \<Rightarrow> if t \<noteq> [] then Some t else None | None \<Rightarrow> None)
      in if Option.bind (json_get part ''thought'') as_bool = Some True then
           (p, (case part_text of Some t \<Rightarrow> [Reasoning t] | None \<Rightarrow> []), False)
         else
           let texts = (case part_text of Some t \<Rightarrow> [Token t] | None \<Rightarrow> [])
           in case json_get part ''functionCall'' of
                Some fc \<Rightarrow>
                  let name = unwrap_or (Option.bind (json_get fc ''name'') as_str) [];
                      args = unwrap_or (json_get fc ''args'') (JObj []);
                      counter = gm_tc_counter p;
                      cid = tool_call_id name counter
                  in (p\<lparr>gm_tool_call_ids := im_insert counter cid (gm_tool_call_ids p),
                        gm_tc_counter := counter + 1\<rparr>,
                      texts @ [ToolCallStart cid name, ToolCallDelta cid (json_str args)], True)
              | None \<Rightarrow> (p, texts, False))"

fun gemini_parts ::
  "(json \<Rightarrow> string) \<Rightarrow> gemini_sse_parser \<Rightarrow> json list \<Rightarrow> gemini_sse_parser \<times> stream_event list \<times> bool" where
  "gemini_parts json_str p [] = (p, [], False)"
| "gemini_parts json_str p (part # parts) =
     (let (p1, e1, b1) = gemini_part json_str p part;
          (p2, e2, b2) = gemini_parts json_str p1 parts
      in (p2, e1 @ e2, b1 \<or> b2))"

definition count_at :: "json \<Rightarrow> string \<Rightarrow> u32" where
  "count_at u k = ucast (unwrap_or (Option.bind (json_get u k) as_u64) 0)"

definition gemini_usage :: "json \<Rightarrow> token_usage" where
  "gemini_usage u =
     \<lparr>prompt_tokens = count_at u ''promptTokenCount'',
      completion_tokens = count_at u ''candidatesTokenCount'',
      total_tokens = count_at u ''totalTokenCount''\<rparr>"

text \<open>The first candidate; the flag says whether it reported the end.\<close>

definition gemini_candidate ::
  "(json \<Rightarrow> string) \<Rightarrow> json \<Rightarrow> gemini_sse_parser \<Rightarrow> json \<Rightarrow>
     gemini_sse_parser \<times> stream_event list \<times> bool" where
  "gemini_candidate json_str root_v p cand =
     (let parts = Option.bind (Option.bind (json_get cand ''content'') (\<lambda>c. json_get c ''parts'')) as_array;
          (p1, evs, has_tool_calls) = gemini_parts json_str p (unwrap_or parts [])
      in case Option.bind (json_get cand ''finishReason'') as_str of
           Some reason \<Rightarrow>
             let had_tool_calls = (has_tool_calls \<or> gm_tool_call_ids p1 \<noteq> []);
                 mapped = (if had_tool_calls then ''tool_calls'' else map_finish_reason reason);
                 usage = map_option gemini_usage (json_get root_v ''usageMetadata'')
             in (p1\<lparr>gm_tool_call_ids := []\<rparr>,
                 evs @ map ToolCallEnd (im_values (gm_tool_call_ids p1)) @ [Done mapped usage], True)
         | None \<Rightarrow> (p1, evs, False))"

definition gemini_parse_chunk ::
  "(string \<Rightarrow> (string, json) res) \<Rightarrow> (json \<Rightarrow> string) \<Rightarrow> gemini_sse_parser parse_fn" where
  "gemini_parse_chunk from_str json_str p event_type data =
     (let trimmed_d = trim data
      in if trimmed_d = ''[DONE]'' \<or> trimmed_d = [] then (p, Inr [])
         else case from_str trimmed_d of
           Inl e \<Rightarrow> (p, Inl e)
         | Inr root_v \<Rightarrow>
             (case json_get root_v ''error'' of
                Some err \<Rightarrow>
                  (p, Inr [StreamError (unwrap_or (as_str (json_at err ''message''))
                        ''Unknown Gemini streaming error'')])
              | None \<Rightarrow>
                  let (p1, evs, done_emitted) =
                        (case Option.bind (json_get root_v ''candidates'') as_array of
                           Some (cand # _) \<Rightarrow> gemini_candidate json_str root_v p cand
                         | _ \<Rightarrow> (p, [], False));
                      tail = (if done_emitted then []
                              else case json_get root_v ''usageMetadata'' of
                                     Some u \<Rightarrow> [Done ''stop'' (Some (gemini_usage u))]
                                   | None \<Rightarrow> [])
                  in (p1, Inr (evs @ tail))))"

section \<open>Tool calls\<close>

definition gemini_open :: "gemini_sse_parser \<Rightarrow> string multiset" where
  "gemini_open p = mset (im_values (gm_tool_call_ids p))"

text \<open>The counter is above every index in use.\<close>

definition gemini_inv :: "gemini_sse_parser \<Rightarrow> bool" where
  "gemini_inv p \<longleftrightarrow> im_wf (gm_tool_call_ids p) \<and> (\<forall>k \<in> fst ` set (gm_tool_call_ids p). k < gm_tc_counter p)"

definition gemini_covers :: "gemini_sse_parser \<Rightarrow> stream_event list \<Rightarrow> gemini_sse_parser \<Rightarrow> bool" where
  "gemini_covers p es p' \<longleftrightarrow> gemini_inv p' \<and> covers (gm_tool_call_ids p) es (gm_tool_call_ids p')"

lemma gemini_covers_trans:
  "gemini_covers p es q \<Longrightarrow> gemini_covers q fs r \<Longrightarrow> gemini_covers p (es @ fs) r"
  by (auto simp: gemini_covers_def intro: covers_trans)

lemma gemini_part_covers:
  assumes "gemini_inv p" and "gemini_part json_str p part = (p', es, b)"
  shows "gemini_covers p es p'"
proof -
  have txts: "gemini_covers p (case x of Some t \<Rightarrow> [f t] | None \<Rightarrow> []) p"
    if "f = Token \<or> f = Reasoning" for x :: "string option" and f :: "string \<Rightarrow> stream_event"
    using assms(1) that by (cases x) (auto simp: gemini_covers_def covers_opt)
  show ?thesis
  proof (cases "Option.bind (json_get part ''thought'') as_bool = Some True
      \<or> json_get part ''functionCall'' = None")
    case True
    with assms(2) txts show ?thesis by (auto simp: gemini_part_def Let_def split: if_splits)
  next
    case False
    then obtain fc where fc: "json_get part ''functionCall'' = Some fc" by auto
    define name where "name = unwrap_or (Option.bind (json_get fc ''name'') as_str) []"
    define cid where "cid = tool_call_id name (gm_tc_counter p)"
    define q where "q = p\<lparr>gm_tool_call_ids := im_insert (gm_tc_counter p) cid (gm_tool_call_ids p),
        gm_tc_counter := gm_tc_counter p + 1\<rparr>"
    obtain x args where es: "es = (case x of Some t \<Rightarrow> [Token t] | None \<Rightarrow> []) @
        [ToolCallStart cid name] @ [ToolCallDelta cid args]" and p': "p' = q"
      using assms(2) False fc
      by (auto simp: gemini_part_def Let_def q_def cid_def name_def)
    have "gemini_covers p [ToolCallStart cid name] q"
      using assms(1) by (auto simp: gemini_covers_def gemini_inv_def q_def intro: covers_start)
    moreover have "gemini_covers q [ToolCallDelta cid args] q"
      using calculation
      by (auto simp: gemini_covers_def q_def intro: covers_delta [of _ "gm_tc_counter p"])
    ultimately show ?thesis unfolding es p' by (intro gemini_covers_trans [OF txts] gemini_covers_trans) auto
  qed
qed

lemma gemini_parts_covers:
  "gemini_inv p \<Longrightarrow> gemini_parts json_str p parts = (p', es, b) \<Longrightarrow> gemini_covers p es p'"
proof (induction parts arbitrary: p es b)
  case Nil
  then show ?case by (simp add: gemini_covers_def)
next
  case (Cons part parts)
  obtain q e c where h: "gemini_part json_str p part = (q, e, c)"
    by (cases "gemini_part json_str p part") auto
  have "gemini_covers p e q" using Cons.prems(1) h by (rule gemini_part_covers)
  moreover from this have "gemini_inv q" by (simp add: gemini_covers_def)
  ultimately show ?case
    using Cons.IH Cons.prems(2) h by (auto split: prod.splits intro: gemini_covers_trans)
qed

lemma gemini_candidate_covers:
  assumes "gemini_inv p" and "gemini_candidate json_str root_v p cand = (p', es, b)"
  shows "gemini_covers p es p'"
proof -
  let ?parts = "unwrap_or (Option.bind (Option.bind (json_get cand ''content'')
      (\<lambda>c. json_get c ''parts'')) as_array) []"
  obtain q e c where h: "gemini_parts json_str p ?parts = (q, e, c)"
    by (cases "gemini_parts json_str p ?parts") auto
  have q: "gemini_covers p e q" using assms(1) h by (rule gemini_parts_covers)
  have "gemini_covers q (map ToolCallEnd (im_values (gm_tool_call_ids q)) @ [Done r u])
      (q\<lparr>gm_tool_call_ids := []\<rparr>)" for r u
    by (simp add: gemini_covers_def gemini_inv_def covers_drain)
  from gemini_covers_trans [OF q this] q show ?thesis
    using assms(2) h by (auto simp: gemini_candidate_def Let_def split: option.splits)
qed

lemma gemini_chunk_cases:
  assumes "gemini_inv p" and "gemini_parse_chunk from_str json_str p ev d = (p', res)"
  shows "gemini_inv p' \<and> (case res of Inl e \<Rightarrow> p' = p | Inr es \<Rightarrow> gemini_covers p es p')"
proof -
  have refl: "gemini_covers p [] p" using assms(1) by (simp add: gemini_covers_def)
  have err: "gemini_covers p [StreamError m] p" for m
    using assms(1) by (simp add: gemini_covers_def covers_def)
  have don: "gemini_covers q [Done r u] q" if "gemini_inv q" for q r u
    using that by (simp add: gemini_covers_def covers_def)
  consider "trim d = ''[DONE]'' \<or> trim d = []" | e where "trim d \<noteq> ''[DONE]''" "trim d \<noteq> []" "from_str (trim d) = Inl e"
    | v err where "trim d \<noteq> ''[DONE]''" "trim d \<noteq> []" "from_str (trim d) = Inr v" "json_get v ''error'' = Some err"
    | v where "trim d \<noteq> ''[DONE]''" "trim d \<noteq> []" "from_str (trim d) = Inr v" "json_get v ''error'' = None"
    by (metis not_None_eq sum.exhaust)
  then show ?thesis
  proof cases
    case 4
    define c where "c = (case Option.bind (json_get v ''candidates'') as_array of
        Some (cand # _) \<Rightarrow> gemini_candidate json_str v p cand | _ \<Rightarrow> (p, [], False))"
    obtain q es b where c': "c = (q, es, b)" by (cases c) auto
    have q: "gemini_covers p es q"
      using c' refl gemini_candidate_covers [OF assms(1)]
      by (auto simp: c_def split: option.splits list.splits)
    then have "gemini_inv q" by (simp add: gemini_covers_def)
    with q gemini_covers_trans [OF q don] show ?thesis
      using assms(2) 4 c'
      by (auto simp: gemini_parse_chunk_def Let_def simp flip: c_def split: option.splits if_splits)
  qed (use assms refl err in \<open>auto simp: gemini_parse_chunk_def Let_def\<close>)
qed

interpretation gemini_sse: sse_parser "gemini_parse_chunk from_str json_str" gemini_open gemini_inv
  for from_str json_str
proof
  fix p p' :: gemini_sse_parser and ev d e evs
  assume inv: "gemini_inv p"
  show "gemini_inv (fst (gemini_parse_chunk from_str json_str p ev d))"
    using gemini_chunk_cases [OF inv, of from_str json_str ev d]
    by (cases "gemini_parse_chunk from_str json_str p ev d") auto
  show "\<exists>M. track (gemini_open p) evs = Some M \<and> gemini_open p' \<subseteq># M"
    if "gemini_parse_chunk from_str json_str p ev d = (p', Inr evs)"
    using gemini_chunk_cases [OF inv that] by (simp add: gemini_covers_def covers_def gemini_open_def)
  show "gemini_open p' \<subseteq># gemini_open p"
    if "gemini_parse_chunk from_str json_str p ev d = (p', Inl e)"
    using gemini_chunk_cases [OF inv that] by simp
qed

section \<open>The ids are all different\<close>

definition started_ids :: "stream_event list \<Rightarrow> string list" where
  "started_ids es = concat (map (\<lambda>e. case e of ToolCallStart i n \<Rightarrow> [i] | _ \<Rightarrow> []) es)"

lemma started_ids_simps [simp]:
  "started_ids [] = []" "started_ids (ToolCallStart i n # es) = i # started_ids es"
  "started_ids (ToolCallDelta i d # es) = started_ids es" "started_ids (ToolCallEnd i # es) = started_ids es"
  "started_ids (Token t # es) = started_ids es" "started_ids (Reasoning t # es) = started_ids es"
  "started_ids (Done r u # es) = started_ids es" "started_ids (StreamError m # es) = started_ids es"
  "started_ids (es @ fs) = started_ids es @ started_ids fs"
  by (simp_all add: started_ids_def)

lemma started_ids_ends [simp]: "started_ids (map ToolCallEnd is) = []"
  by (induction "is") simp_all

text \<open>The counter is the run of digits after the last underscore, so it can be read off the id.\<close>

lemma tool_call_id_inj:
  assumes "tool_call_id n c = tool_call_id m d"
  shows "c = d"
proof -
  have nd: "CHR ''_'' \<notin> set (show_nat k)" for k
    using show_nat_digits [of k] by (auto simp: list_all_iff is_digit_def byte_def)
  have "takeWhile (\<lambda>x. x \<noteq> CHR ''_'') (rev (tool_call_id x k)) = rev (show_nat k)" for x k
  proof -
    have "rev (tool_call_id x k) = rev (show_nat k) @ CHR ''_'' # rev (''tc_'' @ x)"
      by (simp add: tool_call_id_def)
    moreover have "\<forall>y \<in> set (rev (show_nat k)). y \<noteq> CHR ''_''" using nd [of k] by auto
    ultimately show ?thesis
      using takeWhile_append2 [of "rev (show_nat k)" "\<lambda>x. x \<noteq> CHR ''_''"] by auto
  qed
  with assms have "show_nat c = show_nat d" by (metis rev_is_rev_conv)
  then show ?thesis by (simp add: show_nat_inj)
qed

text \<open>The ids a run of parts starts are those of consecutive counters.\<close>

definition numbered :: "nat \<Rightarrow> stream_event list \<Rightarrow> nat \<Rightarrow> bool" where
  "numbered c es c' \<longleftrightarrow> (\<exists>names. started_ids es = map2 tool_call_id names [c..<c'] \<and>
     length names = c' - c \<and> c \<le> c')"

lemma numbered_refl: "started_ids es = [] \<Longrightarrow> numbered c es c"
  by (simp add: numbered_def)

lemma numbered_trans:
  assumes "numbered a es b" and "numbered b fs c"
  shows "numbered a (es @ fs) c"
proof -
  obtain ns ms where n: "started_ids es = map2 tool_call_id ns [a..<b]" "length ns = b - a" "a \<le> b"
    and m: "started_ids fs = map2 tool_call_id ms [b..<c]" "length ms = c - b" "b \<le> c"
    using assms by (auto simp: numbered_def)
  have "[a..<c] = [a..<b] @ [b..<c]" using n(3) m(3) upt_add_eq_append [of a b "c - b"] by simp
  then have "started_ids (es @ fs) = map2 tool_call_id (ns @ ms) [a..<c]"
    using n m by simp
  moreover have "length (ns @ ms) = c - a" "a \<le> c" using n m by auto
  ultimately show ?thesis unfolding numbered_def by blast
qed

lemma numbered_distinct: "numbered c es c' \<Longrightarrow> distinct (started_ids es)"
  unfolding numbered_def
  by (auto simp: distinct_conv_nth dest!: tool_call_id_inj)

lemma gemini_part_numbered:
  "gemini_part json_str p part = (p', es, b) \<Longrightarrow> numbered (gm_tc_counter p) es (gm_tc_counter p')"
proof (cases "Option.bind (json_get part ''thought'') as_bool = Some True
      \<or> json_get part ''functionCall'' = None")
  case True
  assume "gemini_part json_str p part = (p', es, b)"
  with True show ?thesis
    by (auto simp: gemini_part_def Let_def intro!: numbered_refl split: if_splits option.splits)
next
  case False
  assume h: "gemini_part json_str p part = (p', es, b)"
  obtain fc where fc: "json_get part ''functionCall'' = Some fc" using False by auto
  define name where "name = unwrap_or (Option.bind (json_get fc ''name'') as_str) []"
  have "started_ids es = [tool_call_id name (gm_tc_counter p)]" "gm_tc_counter p' = gm_tc_counter p + 1"
    using h False fc by (auto simp: gemini_part_def Let_def name_def split: option.splits)
  then show ?thesis
    unfolding numbered_def by (intro exI [of _ "[name]"]) simp
qed

lemma gemini_parts_numbered:
  "gemini_parts json_str p parts = (p', es, b) \<Longrightarrow> numbered (gm_tc_counter p) es (gm_tc_counter p')"
proof (induction parts arbitrary: p es b)
  case Nil
  then show ?case by (simp add: numbered_refl)
next
  case (Cons part parts)
  obtain q e c where h: "gemini_part json_str p part = (q, e, c)"
    by (cases "gemini_part json_str p part") auto
  from numbered_trans [OF gemini_part_numbered [OF h]] Cons h show ?case
    by (auto split: prod.splits)
qed

lemma gemini_chunk_numbered:
  "gemini_parse_chunk from_str json_str p ev d = (p', Inr es) \<Longrightarrow>
     numbered (gm_tc_counter p) es (gm_tc_counter p')"
proof -
  have cand: "numbered (gm_tc_counter p) e (gm_tc_counter q)"
    if "gemini_candidate json_str v p c = (q, e, b)" for v c q e b
  proof -
    obtain r f g where h: "gemini_parts json_str p (unwrap_or (Option.bind (Option.bind
        (json_get c ''content'') (\<lambda>c. json_get c ''parts'')) as_array) []) = (r, f, g)"
      by (cases "gemini_parts json_str p (unwrap_or (Option.bind (Option.bind
        (json_get c ''content'') (\<lambda>c. json_get c ''parts'')) as_array) [])") auto
    show ?thesis
      using that h gemini_parts_numbered [OF h]
      by (auto simp: gemini_candidate_def Let_def numbered_def split: option.splits)
  qed
  assume h: "gemini_parse_chunk from_str json_str p ev d = (p', Inr es)"
  consider "p' = p \<and> started_ids es = []" | v c q e b tail where
      "gemini_candidate json_str v p c = (q, e, b)" "p' = q" "es = e @ tail" "started_ids tail = []"
    using h
    by (auto simp: gemini_parse_chunk_def Let_def split: if_splits sum.splits option.splits
        list.splits prod.splits)
  then show ?thesis
  proof cases
    case 2
    with cand [OF 2(1)] show ?thesis by (simp add: numbered_def)
  qed (simp add: numbered_refl)
qed

interpretation gemini_numbering: sse_driver "gemini_parse_chunk from_str json_str"
    "\<lambda>p es q. numbered (gm_tc_counter p) es (gm_tc_counter q)" "\<lambda>_. True" for from_str json_str
proof
  fix p q :: gemini_sse_parser and ev d e m
  show "numbered (gm_tc_counter p) [] (gm_tc_counter p)" by (simp add: numbered_refl)
  show "numbered (gm_tc_counter p) [StreamError m] (gm_tc_counter p)" by (simp add: numbered_refl)
  show "numbered (gm_tc_counter p) [] (gm_tc_counter q)"
    if "gemini_parse_chunk from_str json_str p ev d = (q, Inl e)"
  proof -
    have "q = p" using that
      by (auto simp: gemini_parse_chunk_def Let_def split: if_splits sum.splits option.splits prod.splits)
    then show ?thesis by (simp add: numbered_refl)
  qed
qed (auto intro: numbered_trans gemini_chunk_numbered)

section \<open>Properties\<close>

text \<open>
  C9: whatever Gemini sends and however it is cut into chunks, every tool-call delta and end belongs
  to a call that was started before and not yet ended.
\<close>

theorem gemini_stream_tool_calls:
  "calls_ok (sse_from_bytes_stream (gemini_parse_chunk from_str json_str) gemini_new body)"
  by (rule gemini_sse.stream_calls_ok) (simp_all add: gemini_inv_def gemini_open_def gemini_new_def)

text \<open>
  The ids the Gemini parser makes up for the function calls of an answer are pairwise different,
  also when the same function is called again and whatever the function names are.
\<close>

theorem gemini_ids_distinct:
  "distinct (started_ids (sse_from_bytes_stream (gemini_parse_chunk from_str json_str) gemini_new body))"
  using gemini_numbering.rel_stream [of gemini_new from_str json_str body] by (auto intro: numbered_distinct)

text \<open>
  A chunk that carries usage figures but no finish reason is reported as the end of the stream
  with reason \<open>stop\<close>, although the provider has not finished: tool calls that are open stay open.
\<close>

theorem gemini_usage_reports_end:
  assumes "trim data \<notin> {''[DONE]'', []}" and "from_str (trim data) = Inr (JObj [(''usageMetadata'', u)])"
  shows "gemini_parse_chunk from_str json_str p event_type data =
    (p, Inr [Done ''stop'' (Some (gemini_usage u))])"
  using assms by (simp add: gemini_parse_chunk_def Let_def)

theorem gemini_usage_reports_end_witness:
  "gemini_parse_chunk (\<lambda>_. Inr (JObj [(''usageMetadata'', JNull)])) (\<lambda>_. [])
     \<lparr>gm_tool_call_ids = [(0, ''tc_f_0'')], gm_tc_counter = 1\<rparr> [] ''x'' =
   (\<lparr>gm_tool_call_ids = [(0, ''tc_f_0'')], gm_tc_counter = 1\<rparr>, Inr [Done ''stop'' (Some (gemini_usage JNull))])"
proof -
  have t: "trim ''x'' = ''x''" by (intro trim_trimmed trimmed_ascii) (simp_all add: byte_def ascii_ws_def)
  show ?thesis by (rule gemini_usage_reports_end) (simp_all add: t)
qed

end
