(* ===== verification/Rust_Float.thy ===== *)
theory Rust_Float
  imports Rust_Num
begin

text \<open>
  Rounding to double precision is monotone, and exact on the dyadic rationals of 53 bits. The lemmas
  that bound a computation in doubles by the same computation in rationals rest on these.
\<close>

lemma pow2_powi: "pow2 e = 2 powi e"
  by (simp add: pow2_def power_int_def inverse_eq_divide power_one_over)

lemma pow2_pos [simp]: "0 < pow2 e"
  by (simp add: pow2_def)

lemma pow2_ge0 [simp]: "0 \<le> pow2 e"
  by (simp add: pow2_def)

lemma pow2_ne0 [simp]: "pow2 e \<noteq> 0"
  by (simp add: pow2_def)

lemma pow2_add: "pow2 (a + b) = pow2 a * pow2 b"
  by (simp add: pow2_powi power_int_add)

lemma pow2_strict: "a < b \<Longrightarrow> pow2 a < pow2 b"
proof -
  assume "a < b"
  then have "1 < pow2 (b - a)" by (simp add: pow2_def)
  then have "pow2 a * 1 < pow2 a * pow2 (b - a)" by (intro mult_strict_left_mono) simp_all
  then show ?thesis by (simp flip: pow2_add)
qed

lemma pow2_less_cancel: "pow2 a < pow2 b \<longleftrightarrow> a < b"
  using pow2_strict [of a b] pow2_strict [of b a] by (cases a b rule: linorder_cases) auto

lemma pow2_le_iff [simp]: "pow2 a \<le> pow2 b \<longleftrightarrow> a \<le> b"
  using pow2_less_cancel [of b a] by linarith

lemma pow2_nat: "pow2 (int n) = 2 ^ n"
  by (simp add: pow2_def)

lemma bitlen_bounds: "0 < n \<Longrightarrow> 2 ^ (bitlen n - 1) \<le> n \<and> n < 2 ^ bitlen n \<and> 0 < bitlen n"
proof (induction n rule: bitlen.induct)
  case (1 n)
  show ?case
  proof (cases "n div 2 = 0")
    case True
    with 1(2) have "n = 1" by auto
    then show ?thesis by simp
  next
    case False
    with 1 have "2 ^ (bitlen (n div 2) - 1) \<le> n div 2" "n div 2 < 2 ^ bitlen (n div 2)"
      "0 < bitlen (n div 2)" by auto
    moreover from this obtain k where "bitlen (n div 2) = Suc k" by (cases "bitlen (n div 2)") auto
    moreover have "bitlen n = Suc (bitlen (n div 2))" using 1(2) by (simp add: bitlen.simps [of n])
    ultimately show ?thesis by auto
  qed
qed

lemma pow2_bits:
  "0 < k \<Longrightarrow> pow2 (int k - 1) = rat_of_int (2 ^ (k - 1))" "pow2 (int k) = rat_of_int (2 ^ k)"
  by (simp_all add: pow2_def nat_diff_distrib)

lemma floor_log2_bounds:
  assumes "0 < q"
  shows "pow2 (floor_log2 q) \<le> q" and "q < pow2 (floor_log2 q + 1)"
proof -
  obtain n d where nd: "quotient_of q = (n, d)" by (cases "quotient_of q")
  have d: "0 < d" using nd by (rule quotient_of_denom_pos)
  have q: "q = of_int n / of_int d" using nd by (rule quotient_of_div)
  have n: "0 < n" using assms d by (simp add: q zero_less_divide_iff)
  define bn bd where "bn = bitlen (nat n)" and "bd = bitlen (nat d)"
  have N: "2 ^ (bn - 1) \<le> n" "n < 2 ^ bn" "0 < bn"
    using bitlen_bounds [of "nat n"] n unfolding bn_def by (auto simp: le_nat_iff nat_less_iff)
  have D: "2 ^ (bd - 1) \<le> d" "d < 2 ^ bd" "0 < bd"
    using bitlen_bounds [of "nat d"] d unfolding bd_def by (auto simp: le_nat_iff nat_less_iff)
  have n1: "pow2 (int bn - 1) \<le> rat_of_int n" "rat_of_int n < pow2 (int bn)"
    using N(1,2) unfolding pow2_bits(1) [OF N(3)] pow2_bits(2)
    by (metis of_int_le_iff of_int_less_iff)+
  have d1: "pow2 (int bd - 1) \<le> rat_of_int d" "rat_of_int d < pow2 (int bd)"
    using D(1,2) unfolding pow2_bits(1) [OF D(3)] pow2_bits(2)
    by (metis of_int_le_iff of_int_less_iff)+
  have d0: "0 < rat_of_int d" using d by simp
  have lo: "pow2 (int bn - int bd - 1) \<le> q"
  proof -
    have "pow2 (int bn - int bd - 1) * rat_of_int d \<le> pow2 (int bn - int bd - 1) * pow2 (int bd)"
      using d1(2) by (intro mult_left_mono) simp_all
    also have "\<dots> = pow2 (int bn - 1)" by (simp flip: pow2_add)
    finally show ?thesis using n1(1) d0 by (simp add: q pos_le_divide_eq)
  qed
  have hi: "q < pow2 (int bn - int bd + 1)"
  proof -
    have "rat_of_int n < pow2 (int bn)" by (rule n1(2))
    also have "\<dots> = pow2 (int bn - int bd + 1) * pow2 (int bd - 1)" by (simp flip: pow2_add)
    also have "\<dots> \<le> pow2 (int bn - int bd + 1) * rat_of_int d"
      using d1(1) by (intro mult_left_mono) simp_all
    finally show ?thesis using d0 by (simp add: q pos_divide_less_eq)
  qed
  show "pow2 (floor_log2 q) \<le> q" "q < pow2 (floor_log2 q + 1)"
    using lo hi by (simp_all add: floor_log2_def nd Let_def flip: bn_def bd_def)
qed

lemma floor_log2_mono: "0 < a \<Longrightarrow> a \<le> b \<Longrightarrow> floor_log2 a \<le> floor_log2 b"
  using floor_log2_bounds [of a] floor_log2_bounds [of b] pow2_less_cancel [of "floor_log2 a" "floor_log2 b + 1"]
  by linarith

lemma round_half_even_mono: "a \<le> b \<Longrightarrow> round_half_even a \<le> round_half_even b"
proof -
  assume ab: "a \<le> b"
  then have "\<lfloor>a\<rfloor> \<le> \<lfloor>b\<rfloor>" by (rule floor_mono)
  moreover have "round_half_even b \<ge> \<lfloor>b\<rfloor>" "round_half_even a \<le> \<lfloor>a\<rfloor> + 1"
    by (auto simp: round_half_even_def Let_def)
  moreover have "round_half_even a \<le> round_half_even b" if "\<lfloor>a\<rfloor> = \<lfloor>b\<rfloor>"
    using that ab by (auto simp: round_half_even_def Let_def)
  ultimately show ?thesis by linarith
qed

lemma round_half_even_le: "a \<le> of_int i \<Longrightarrow> round_half_even a \<le> i"
  using round_half_even_mono [of a "of_int i"] by simp

lemma round_half_even_ge: "of_int i \<le> a \<Longrightarrow> i \<le> round_half_even a"
  using round_half_even_mono [of "of_int i" a] by simp

lemma round_pos_mono:
  assumes "0 < a" and "a \<le> b"
  shows "round_pos a \<le> round_pos b"
proof -
  define e where "e = (\<lambda>q. max (floor_log2 q - 52) (- 1074))"
  have r: "round_pos q = of_int (round_half_even (q / pow2 (e q))) * pow2 (e q)" for q
    by (simp add: round_pos_def e_def Let_def)
  have le: "e a \<le> e b" using floor_log2_mono [OF assms] by (auto simp: e_def)
  show ?thesis
  proof (cases "e a = e b")
    case True
    have "a / pow2 (e b) \<le> b / pow2 (e b)" using assms(2) by (simp add: divide_right_mono less_imp_le)
    then show ?thesis unfolding r True
      by (intro mult_right_mono) (auto intro: round_half_even_mono less_imp_le)
  next
    case False
    with le have lt: "e a < e b" by simp
    then have eb: "e b = floor_log2 b - 52" by (auto simp: e_def)
    have ea: "floor_log2 a - 52 \<le> e a" by (simp add: e_def)
    have "a < pow2 (floor_log2 a + 1)" using assms(1) by (rule floor_log2_bounds)
    also have "\<dots> \<le> pow2 (e a + 53)" using ea by simp
    also have "\<dots> = pow2 53 * pow2 (e a)" by (simp add: pow2_add)
    finally have "a / pow2 (e a) \<le> of_int (2 ^ 53)"
      by (simp add: pos_divide_le_eq pow2_def [of 53])
    then have "round_half_even (a / pow2 (e a)) \<le> 2 ^ 53" by (rule round_half_even_le)
    then have "of_int (round_half_even (a / pow2 (e a))) \<le> (of_int (2 ^ 53) :: rat)" by (simp only: of_int_le_iff)
    then have "round_pos a \<le> of_int (2 ^ 53) * pow2 (e a)"
      unfolding r by (intro mult_right_mono) (auto intro: less_imp_le)
    also have "\<dots> = pow2 (e a + 53)" by (simp add: pow2_add pow2_def [of 53])
    also have "\<dots> \<le> pow2 (e b + 52)" using lt by simp
    also have "\<dots> = of_int (2 ^ 52) * pow2 (e b)" by (simp add: pow2_add pow2_def [of 52])
    also have "\<dots> \<le> of_int (round_half_even (b / pow2 (e b))) * pow2 (e b)"
    proof (intro mult_right_mono)
      have "pow2 (52 + e b) \<le> b" using floor_log2_bounds(1) [of b] assms by (simp add: eb)
      then have "of_int (2 ^ 52) \<le> b / pow2 (e b)"
        by (simp add: pos_le_divide_eq pow2_add pow2_def [of 52])
      then show "of_int (2 ^ 52) \<le> (of_int (round_half_even (b / pow2 (e b))) :: rat)"
        unfolding of_int_le_iff by (rule round_half_even_ge)
    qed (auto intro: less_imp_le)
    finally show ?thesis by (simp add: r [of b])
  qed
qed

lemma round_pos_ge0: "0 < a \<Longrightarrow> 0 \<le> round_pos a"
proof -
  assume "0 < a"
  then have "0 \<le> round_half_even (a / pow2 e)" for e
    by (intro round_half_even_ge) simp
  then show ?thesis by (simp add: round_pos_def Let_def)
qed

text \<open>The order of doubles without NaN, infinities included.\<close>

definition f64_ord :: "f64 \<Rightarrow> f64 \<Rightarrow> bool" where
  "f64_ord a b \<longleftrightarrow> (case (a, b) of
      (Fin x, Fin y) \<Rightarrow> x \<le> y | (NegInf, NaN) \<Rightarrow> False | (NegInf, _) \<Rightarrow> True
    | (NaN, PosInf) \<Rightarrow> False | (_, PosInf) \<Rightarrow> True | _ \<Rightarrow> False)"

lemma round_f64_mono:
  assumes "a \<le> b"
  shows "f64_ord (round_f64 a) (round_f64 b)"
proof -
  have pos: "round_pos x \<le> round_pos y" "0 \<le> round_pos x" if "0 < x" "x \<le> y" for x y
    using that by (rule round_pos_mono, intro round_pos_ge0)
  consider "0 < a" | "a = 0" | "a < 0" "0 < b" | "a < 0" "b = 0" | "b < 0" using assms by linarith
  then show ?thesis
  proof cases
    case 1
    then show ?thesis using pos(1) [of a b] assms by (auto simp: round_f64_def f64_ord_def Let_def)
  next
    case 2
    then show ?thesis using pos(2) [of b b] assms by (auto simp: round_f64_def f64_ord_def Let_def)
  next
    case 3
    then show ?thesis using pos(2) [of b b] pos(2) [of "- a" "- a"]
      by (auto simp: round_f64_def f64_ord_def Let_def)
  next
    case 4
    then show ?thesis using pos(2) [of "- a" "- a"]
      by (auto simp: round_f64_def f64_ord_def Let_def)
  next
    case 5
    then show ?thesis using pos(1) [of "- b" "- a"] assms
      by (auto simp: round_f64_def f64_ord_def Let_def)
  qed
qed

lemma round_f64_dyadic:
  assumes "n < 2 ^ 53" and "k \<le> 1074"
  shows "round_f64 (of_nat n / 2 ^ k) = Fin (of_nat n / 2 ^ k)"
proof (cases "n = 0")
  case False
  define q :: rat where "q = of_nat n / 2 ^ k"
  have q0: "0 < q" using False by (simp add: q_def)
  define e where "e = max (floor_log2 q - 52) (- 1074)"
  have "rat_of_nat n < of_nat (2 ^ 53)" using assms(1) by (simp only: of_nat_less_iff)
  then have "q < 2 ^ 53 / 2 ^ k" unfolding q_def by (intro divide_strict_right_mono) simp_all
  also have "\<dots> = pow2 53 * pow2 (- int k)" by (simp add: pow2_def)
  also have "\<dots> = pow2 (53 - int k)" by (simp flip: pow2_add)
  finally have "pow2 (floor_log2 q) < pow2 (53 - int k)"
    using floor_log2_bounds(1) [OF q0] by simp
  then have "e \<le> - int k" using assms(2) by (auto simp: pow2_less_cancel e_def)
  then have p: "pow2 (- int k - e) = of_int (2 ^ nat (- int k - e))" by (simp add: pow2_def)
  have "of_nat n / 2 ^ k = of_nat n * pow2 (- int k)" by (simp add: pow2_def)
  also have "pow2 (- int k) = pow2 (- int k - e) * pow2 e" by (simp flip: pow2_add)
  finally have qe: "q = of_int (int n * 2 ^ nat (- int k - e)) * pow2 e"
    by (simp add: q_def p)
  then have "q / pow2 e = of_int (int n * 2 ^ nat (- int k - e))"
    by (simp only: nonzero_mult_div_cancel_right [OF pow2_ne0])
  then have i: "round_half_even (q / pow2 e) = int n * 2 ^ nat (- int k - e)"
    by (simp only: round_half_even_int)
  have "round_pos q = of_int (round_half_even (q / pow2 e)) * pow2 e"
    by (simp add: round_pos_def Let_def e_def)
  then have r: "round_pos q = q" by (simp only: i qe [symmetric])
  have "q \<le> of_nat n" unfolding q_def
    using divide_left_mono [of 1 "2 ^ k" "rat_of_nat n"] by simp
  also have "\<dots> < of_nat (2 ^ 53)" using assms(1) by (simp only: of_nat_less_iff)
  also have "\<dots> \<le> (2 :: rat) ^ 1024"
    using power_increasing [of 53 1024 "2 :: rat"] by simp
  finally have "round_f64 q = Fin q" using q0 by (simp add: round_f64_def r Let_def)
  then show ?thesis by (simp add: q_def)
qed simp

fun f64_mul :: "f64 \<Rightarrow> f64 \<Rightarrow> f64" where
  "f64_mul (Fin a) (Fin b) = round_f64 (a * b)"
| "f64_mul NaN b = NaN"
| "f64_mul a NaN = NaN"
| "f64_mul (Fin a) b = (if a = 0 then NaN else if a < 0 then f64_neg b else b)"
| "f64_mul a (Fin b) = (if b = 0 then NaN else if b < 0 then f64_neg a else a)"
| "f64_mul PosInf b = b"
| "f64_mul NegInf b = f64_neg b"

text \<open>Between two doubles, a rounded result stays between them.\<close>

lemma round_f64_between:
  assumes "lo \<le> q" and "q \<le> hi" and "round_f64 lo = Fin lo" and "round_f64 hi = Fin hi"
  obtains y where "round_f64 q = Fin y" and "lo \<le> y" and "y \<le> hi"
  using round_f64_mono [OF assms(1)] round_f64_mono [OF assms(2)] assms(3,4)
  by (cases "round_f64 q") (auto simp: f64_ord_def)

end
