(* ===== verification/Retry.thy ===== *)
theory Retry
  imports Rust_Float
begin

text \<open>
  \<open>core/retry.rs\<close>: jittered exponential back-off. A \<open>Duration\<close> is its number of nanoseconds; the
  standard library's conversions to and from seconds in double precision are written out, and an
  operation that panics is \<open>None\<close>. The random number is an argument.
\<close>

definition NANOS_PER_SEC :: nat where "NANOS_PER_SEC = 10 ^ 9"

definition from_secs :: "nat \<Rightarrow> nat" where
  "from_secs s = s * NANOS_PER_SEC"

definition duration_ok :: "nat \<Rightarrow> bool" where
  "duration_ok d \<longleftrightarrow> d div NANOS_PER_SEC < 2 ^ 64"

definition as_secs_f64 :: "nat \<Rightarrow> f64" where
  "as_secs_f64 d =
     f64_add (round_f64 (of_nat (d div NANOS_PER_SEC)))
       (round_f64 (of_nat (d mod NANOS_PER_SEC) / of_nat NANOS_PER_SEC))"

definition from_secs_f64 :: "f64 \<Rightarrow> nat option" where
  "from_secs_f64 x =
     (case x of
        Fin q \<Rightarrow>
          (if q < 0 then None
           else let d = nat (round_half_even (q * of_nat NANOS_PER_SEC))
                in if duration_ok d then Some d else None)
      | _ \<Rightarrow> None)"

record retry_policy =
  rp_max_retries :: u32
  rp_base_delay :: nat
  rp_max_delay :: nat

definition retry_default :: retry_policy where
  "retry_default = \<lparr>rp_max_retries = 3, rp_base_delay = from_secs 1, rp_max_delay = from_secs 60\<rparr>"

definition jittered_backoff :: "retry_policy \<Rightarrow> u32 \<Rightarrow> f64 \<Rightarrow> nat option" where
  "jittered_backoff p attempt random =
     (let base = rp_base_delay p * min (2 ^ unat attempt) (2 ^ 32 - 1)
      in if \<not> duration_ok base then None
         else
           let capped = min base (rp_max_delay p);
               jitter_range = f64_mul (as_secs_f64 capped) (Fin (1 / 2));
               jittered = f64_add (as_secs_f64 capped)
                 (f64_mul (f64_sub random (Fin (1 / 2))) jitter_range);
               jittered = (if f64_lt jittered (Fin 0) then Fin 0 else jittered)
           in map_option (\<lambda>d. min d (rp_max_delay p)) (from_secs_f64 jittered))"

lemma backoff_le_max: "jittered_backoff p attempt random = Some d \<Longrightarrow> d \<le> rp_max_delay p"
  by (auto simp: jittered_backoff_def Let_def split: if_splits)

lemma as_secs_f64_whole: "s < 2 ^ 53 \<Longrightarrow> as_secs_f64 (from_secs s) = Fin (of_nat s)"
  by (simp add: as_secs_f64_def from_secs_def NANOS_PER_SEC_def round_f64_of_nat)

lemma round_f64_quarters: "n < 2 ^ 53 \<Longrightarrow> round_f64 (of_nat n / 4) = Fin (of_nat n / 4)"
  using round_f64_dyadic [of n 2] by simp

lemma round_f64_neg_quarters: "n < 2 ^ 53 \<Longrightarrow> round_f64 (- (of_nat n / 4)) = Fin (- (of_nat n / 4))"
  using round_f64_quarters [of n] by (simp add: round_f64_uminus)

text \<open>
  The jitter of a whole number of seconds: whatever the random number in the unit interval, the
  rounded sum stays within a quarter of it.
\<close>

lemma jitter_quarter:
  assumes "0 \<le> x" and "x < 1" and "c < 2 ^ 40"
  obtains v where
    "f64_add (Fin (of_nat c)) (f64_mul (f64_sub (Fin x) (Fin (1 / 2))) (f64_mul (Fin (of_nat c)) (Fin (1 / 2))))
       = Fin v" and "3 * of_nat c / 4 \<le> v" and "v \<le> 5 * of_nat c / 4"
proof -
  have half: "round_f64 (1 / 2) = Fin (1 / 2)" "round_f64 (- (1 / 2)) = Fin (- (1 / 2))"
    using round_f64_quarters [of 2] round_f64_neg_quarters [of 2] by simp_all
  obtain y where y: "round_f64 (x - 1 / 2) = Fin y" "- (1 / 2) \<le> y" "y \<le> 1 / 2"
    by (rule round_f64_between [OF _ _ half(2) half(1), of "x - 1 / 2"]) (use assms in auto)
  have r: "round_f64 (of_nat c / 2) = Fin (of_nat c / 2)"
    using round_f64_dyadic [of c 1] assms(3) by simp
  have c0: "0 \<le> (of_nat c :: rat)" by simp
  have q: "round_f64 (of_nat c / 4) = Fin (of_nat c / 4)"
      "round_f64 (- (of_nat c / 4)) = Fin (- (of_nat c / 4))"
    using assms(3) by (simp_all add: round_f64_quarters round_f64_neg_quarters)
  have "- (of_nat c / 4) \<le> y * (of_nat c / 2)" "y * (of_nat c / 2) \<le> of_nat c / 4"
    using mult_right_mono [OF y(2), of "of_nat c / 2"] mult_right_mono [OF y(3), of "of_nat c / 2"] c0
    by simp_all
  then obtain z where z: "round_f64 (y * (of_nat c / 2)) = Fin z"
    "- (of_nat c / 4) \<le> z" "z \<le> of_nat c / 4"
    by (rule round_f64_between [OF _ _ q(2) q(1)])
  have w: "round_f64 (3 * of_nat c / 4) = Fin (3 * of_nat c / 4)"
      "round_f64 (5 * of_nat c / 4) = Fin (5 * of_nat c / 4)"
    using round_f64_quarters [of "3 * c"] round_f64_quarters [of "5 * c"] assms(3) by simp_all
  obtain v where "round_f64 (of_nat c + z) = Fin v" "3 * of_nat c / 4 \<le> v" "v \<le> 5 * of_nat c / 4"
    by (rule round_f64_between [OF _ _ w(1) w(2), of "of_nat c + z"]) (use z in auto)
  then show ?thesis
    using z(1) by (intro that) (simp_all add: f64_sub_def y(1) r)
qed

lemma backoff_default_delay:
  assumes "0 \<le> x" and "x < 1"
  shows "\<exists>d. jittered_backoff retry_default attempt (Fin x) = Some d \<and>
    3 * from_secs (min (2 ^ unat attempt) 60) \<le> 4 * d \<and>
    4 * d \<le> 5 * from_secs (min (2 ^ unat attempt) 60) \<and> d \<le> from_secs 60"
proof -
  define c :: nat where "c = min (2 ^ unat attempt) 60"
  define base where "base = from_secs 1 * min (2 ^ unat attempt) (2 ^ 32 - 1)"
  have "min (2 ^ unat attempt) (2 ^ 32 - 1) < (2 ^ 64 :: nat)"
    by (rule min.strict_coboundedI2) simp
  then have ok: "duration_ok base" by (simp add: base_def duration_ok_def from_secs_def NANOS_PER_SEC_def)
  have capped: "min base (from_secs 60) = from_secs c"
    by (auto simp: base_def c_def from_secs_def NANOS_PER_SEC_def min_def)
  have c: "c < 2 ^ 40" "c \<le> 60" by (simp_all add: c_def)
  obtain v where v: "f64_add (Fin (of_nat c)) (f64_mul (f64_sub (Fin x) (Fin (1 / 2)))
      (f64_mul (Fin (of_nat c)) (Fin (1 / 2)))) = Fin v" "3 * of_nat c / 4 \<le> v" "v \<le> 5 * of_nat c / 4"
    by (rule jitter_quarter [OF assms c(1)])
  have v0: "0 \<le> v" using v(2) order_trans [of 0 "3 * of_nat c / 4" v] by simp
  define d where "d = nat (round_half_even (v * of_nat NANOS_PER_SEC))"
  have "of_int (int (3 * c * 250000000)) \<le> v * of_nat NANOS_PER_SEC"
    "v * of_nat NANOS_PER_SEC \<le> of_int (int (5 * c * 250000000))"
    using v(2,3) by (simp_all add: NANOS_PER_SEC_def)
  then have "int (3 * c * 250000000) \<le> round_half_even (v * of_nat NANOS_PER_SEC)"
    "round_half_even (v * of_nat NANOS_PER_SEC) \<le> int (5 * c * 250000000)"
    by (blast intro: round_half_even_ge round_half_even_le)+
  then have d: "3 * c * 250000000 \<le> d" "d \<le> 5 * c * 250000000" by (simp_all add: d_def)
  have "as_secs_f64 (from_secs c) = Fin (of_nat c)" by (rule as_secs_f64_whole) (use c in simp)
  moreover have "duration_ok d"
    using d(2) c(2) by (simp add: duration_ok_def NANOS_PER_SEC_def div_less_iff_less_mult)
  ultimately have "jittered_backoff retry_default attempt (Fin x) = Some (min d (from_secs 60))"
    using v0 ok
    unfolding jittered_backoff_def retry_default_def Let_def retry_policy.select_convs
      base_def [symmetric] capped
    by (simp add: v(1) f64_lt_def from_secs_f64_def Let_def d_def [symmetric] del: f64_mul.simps f64_add.simps)
  moreover have "from_secs c = 4 * (c * 250000000)" "from_secs 60 = 60 * 1000000000"
    by (simp_all add: from_secs_def NANOS_PER_SEC_def)
  ultimately show ?thesis
    unfolding c_def [symmetric] using d c by (simp add: min_def)
qed

text \<open>
  C40: under the default policy no attempt makes the back-off panic, and the delay stays within a
  quarter of the exponential delay and under the minute that caps it: between 3/4 and 5/4 of
  \<open>min (2 ^ attempt) 60\<close> seconds, whatever the random number.
\<close>

theorem backoff_default_bounds:
  assumes "0 \<le> x" and "x < 1"
  shows "\<exists>d. jittered_backoff retry_default attempt (Fin x) = Some d \<and>
    3 * from_secs (min (2 ^ unat attempt) 60) \<le> 4 * d \<and>
    4 * d \<le> 5 * from_secs (min (2 ^ unat attempt) 60) \<and> d \<le> from_secs 60"
  using assms by (rule backoff_default_delay)

theorem backoff_default_bounds_witness:
  "\<exists>d. jittered_backoff retry_default 9 (Fin 0) = Some d \<and> 45 * NANOS_PER_SEC \<le> d \<and> d \<le> 60 * NANOS_PER_SEC"
  using backoff_default_bounds [of 0 9] by (auto simp: from_secs_def)

end
