(* ===== verification/Core_Types.thy ===== *)
theory Core_Types
  imports Json
begin

text \<open>
  The data shared by all components: \<open>core/types.rs\<close> (messages, tool calls, tool definitions),
  \<open>core/behavior.rs\<close> (strict and YOLO modes), \<open>core/memory.rs\<close> (memory entries and partition
  access) and \<open>core/catalog/types.rs\<close> (protocols, catalog entries, resolved models). A
  \<open>HashMap\<close> is an association list in the order in which its iterator happens to yield it.
\<close>

section \<open>Messages\<close>

datatype role = System | User | Assistant | Tool

record function_call =
  fc_name :: string
  fc_arguments :: string

record tool_call =
  tc_id :: string
  tc_function :: function_call

record message =
  msg_role :: role
  msg_content :: string
  msg_reasoning_content :: "string option"
  msg_tool_calls :: "tool_call list option"
  msg_tool_call_id :: "string option"
  msg_name :: "string option"

definition message_new ::
  "role \<Rightarrow> string \<Rightarrow> tool_call list option \<Rightarrow> string option \<Rightarrow> string option \<Rightarrow> message" where
  "message_new r content tool_calls tool_call_id nm =
     \<lparr>msg_role = r, msg_content = content, msg_reasoning_content = None,
      msg_tool_calls = tool_calls, msg_tool_call_id = tool_call_id, msg_name = nm\<rparr>"

definition with_reasoning :: "message \<Rightarrow> string \<Rightarrow> message" where
  "with_reasoning m reasoning = m\<lparr>msg_reasoning_content := Some reasoning\<rparr>"

record tool_definition =
  td_name :: string
  td_description :: string
  td_parameters :: json

section \<open>Behaviour modes\<close>

datatype yolo_sandbox_policy =
  EnforceCommandAllowlist
| NoBash
| CustomSandbox "string list"

datatype behavior_mode =
  Strict f64 u32 "string option"
| Yolo yolo_sandbox_policy

definition default_confidence :: f64 where "default_confidence = round_f64 0.7"
definition default_max_retries :: u32 where "default_max_retries = 3"

definition behavior_default :: behavior_mode where
  "behavior_default = Strict default_confidence default_max_retries None"

definition is_yolo :: "behavior_mode \<Rightarrow> bool" where
  "is_yolo m = (case m of Yolo _ \<Rightarrow> True | _ \<Rightarrow> False)"

definition is_strict :: "behavior_mode \<Rightarrow> bool" where
  "is_strict m = (case m of Strict _ _ _ \<Rightarrow> True | _ \<Rightarrow> False)"

section \<open>Memory entries and partitions\<close>

datatype entry_kind = SessionLog | Fact | Decision | ProjectContext

record memory_entry =
  me_id :: string
  me_kind :: entry_kind
  me_session_id :: string
  me_summary :: string
  me_content :: string
  me_tags :: "string list"
  me_created_at :: string

fun kind_str :: "entry_kind \<Rightarrow> string" where
  "kind_str SessionLog = ''session_log''"
| "kind_str Fact = ''fact''"
| "kind_str Decision = ''decision''"
| "kind_str ProjectContext = ''project_context''"

datatype shared_partition = Named string | AllPartitions

record partition_access =
  pa_read :: "shared_partition list"
  pa_write :: "shared_partition list"

definition can_read :: "partition_access \<Rightarrow> shared_partition \<Rightarrow> bool" where
  "can_read a p = list_ex (\<lambda>q. q = AllPartitions \<or> q = p) (pa_read a)"

definition can_write :: "partition_access \<Rightarrow> shared_partition \<Rightarrow> bool" where
  "can_write a p = list_ex (\<lambda>q. q = AllPartitions \<or> q = p) (pa_write a)"

datatype memory_error = AccessDenied shared_partition | StorageError string

section \<open>Protocols\<close>

datatype credential_status = Missing | Present | NotRequired

datatype api_protocol =
  OpenAiChat | AnthropicMessages | GeminiGenerateContent | CodexResponses | CustomProtocol string

fun protocol_serialize :: "api_protocol \<Rightarrow> string" where
  "protocol_serialize OpenAiChat = ''chat_completions''"
| "protocol_serialize AnthropicMessages = ''anthropic_messages''"
| "protocol_serialize GeminiGenerateContent = ''gemini_generate_content''"
| "protocol_serialize CodexResponses = ''codex_responses''"
| "protocol_serialize (CustomProtocol inner) = inner"

text \<open>The four protocol names with their short forms: the common part of the two readers.\<close>

definition known_protocol :: "string \<Rightarrow> api_protocol option" where
  "known_protocol s =
     (if s = ''chat_completions'' then Some OpenAiChat
      else if s = ''anthropic_messages'' \<or> s = ''anthropic'' then Some AnthropicMessages
      else if s = ''gemini_generate_content'' \<or> s = ''gemini'' then Some GeminiGenerateContent
      else if s = ''codex_responses'' \<or> s = ''codex'' then Some CodexResponses
      else None)"

definition looks_like_protocol :: "string \<Rightarrow> bool" where
  "looks_like_protocol s =
     (let lower = to_lowercase s
      in prefix ''chat'' lower \<or> prefix ''anthropic'' lower \<or> prefix ''gemini'' lower
         \<or> prefix ''codex'' lower)"

definition protocol_deserialize :: "string \<Rightarrow> (string, api_protocol) res" where
  "protocol_deserialize s =
     (case known_protocol s of
        Some p \<Rightarrow> Inr p
      | None \<Rightarrow>
          if looks_like_protocol s then
            Inl (''unknown protocol '' @ quoted s @ '': did you mean one of chat_completions, anthropic_messages, gemini_generate_content, codex_responses?'')
          else Inr (CustomProtocol s))"

definition protocol_from_str :: "string \<Rightarrow> api_protocol" where
  "protocol_from_str s = unwrap_or (known_protocol s) (CustomProtocol s)"

text \<open>The name a protocol is written with is read back as the protocol, and as nothing else.\<close>

lemma known_protocol_serialize:
  "\<forall>s. p \<noteq> CustomProtocol s \<Longrightarrow> known_protocol (protocol_serialize p) = Some p"
  by (cases p) (auto simp: known_protocol_def)

lemma known_protocol_not_custom: "known_protocol s = Some p \<Longrightarrow> p \<noteq> CustomProtocol t"
  by (auto simp: known_protocol_def split: if_splits)

section \<open>Catalog\<close>

record catalog_provider_entry =
  pe_provider_id :: string
  pe_api_model_id :: string
  pe_priority :: u32
  pe_credential_keys :: "(string, string) imap"
  pe_base_url :: "string option"
  pe_api_protocol :: api_protocol
  pe_provider_specific :: "(string, string) imap"

record model_catalog_entry =
  ce_canonical_id :: string
  ce_context_length :: u32
  ce_providers :: "catalog_provider_entry list"
  ce_aliases :: "string list"

record provider_defaults =
  pd_api_protocol :: api_protocol
  pd_credential_keys :: "(string, string) imap"
  pd_base_url :: string

record resolved_model =
  rm_canonical_id :: string
  rm_provider :: string
  rm_api_key :: "string option"
  rm_base_url :: string
  rm_api_protocol :: api_protocol
  rm_api_model_id :: string
  rm_context_length :: u32
  rm_provider_specific :: "(string, string) imap"
  rm_credential_status :: credential_status

definition rm_model_id :: "resolved_model \<Rightarrow> string" where
  "rm_model_id m = rm_canonical_id m @ ''@'' @ rm_provider m"

record catalog_data =
  cd_models :: "model_catalog_entry list"
  cd_aliases :: "(string, string) imap"
  cd_provider_defaults :: "(string, provider_defaults) imap"

record catalog =
  cat_models :: "(string, model_catalog_entry) imap"
  cat_aliases :: "(string, string) imap"
  cat_provider_defaults :: "(string, provider_defaults) imap"

text \<open>\<open>Catalog::from_data\<close> (\<open>core/catalog/loader.rs\<close>): a later entry overwrites an earlier one.\<close>

definition from_data :: "catalog_data \<Rightarrow> catalog" where
  "from_data d =
     \<lparr>cat_models = fold (\<lambda>m. im_insert (ce_canonical_id m) m) (cd_models d) [],
      cat_aliases = cd_aliases d, cat_provider_defaults = cd_provider_defaults d\<rparr>"

definition get_model :: "catalog \<Rightarrow> string \<Rightarrow> model_catalog_entry option" where
  "get_model c canonical_id = map_of (cat_models c) canonical_id"

definition catalog_list_models :: "catalog \<Rightarrow> string list" where
  "catalog_list_models c = map fst (cat_models c)"

definition get_provider_defaults :: "catalog \<Rightarrow> string \<Rightarrow> provider_defaults option" where
  "get_provider_defaults c provider_id = map_of (cat_provider_defaults c) provider_id"

definition catalog_resolve_alias :: "catalog \<Rightarrow> string \<Rightarrow> string option" where
  "catalog_resolve_alias c alias = map_of (cat_aliases c) alias"

definition model_count :: "catalog \<Rightarrow> nat" where
  "model_count c = length (cat_models c)"

text \<open>
  The key under which the catalog holds an entry is the entry's canonical id, and no key occurs
  twice: what \<open>from_data\<close> establishes.
\<close>

definition models_wf :: "(string, model_catalog_entry) imap \<Rightarrow> bool" where
  "models_wf ms \<longleftrightarrow> im_wf ms \<and> (\<forall>(k, m) \<in> set ms. ce_canonical_id m = k)"

lemma set_im_insert: "(a, b) \<in> set (im_insert k v m) \<Longrightarrow> (a, b) \<in> set m \<or> (a = k \<and> b = v)"
  by (induction m rule: im_insert.induct) (auto split: if_splits)

lemma models_wf_insert [inv_intros]:
  "models_wf ms \<Longrightarrow> models_wf (im_insert (ce_canonical_id m) m ms)"
  by (auto simp: models_wf_def dest!: set_im_insert)

lemma from_data_wf: "models_wf (cat_models (from_data d))"
proof -
  have "models_wf (fold (\<lambda>m. im_insert (ce_canonical_id m) m) ms acc)" if "models_wf acc" for ms acc
    using that by (induction ms arbitrary: acc) (auto intro: inv_intros)
  moreover have "models_wf []" by (simp add: models_wf_def)
  ultimately show ?thesis by (simp add: from_data_def)
qed

lemma get_model_id: "models_wf (cat_models c) \<Longrightarrow> get_model c k = Some m \<Longrightarrow> ce_canonical_id m = k"
  by (auto simp: models_wf_def get_model_def dest!: map_of_SomeD)

text \<open>
  A protocol is read back from its own text, except that a custom name which is a known
  protocol's name or looks like a misspelt one is not: the reader takes it for the known protocol
  or rejects it.
\<close>

theorem protocol_serde_roundtrip:
  "protocol_deserialize (protocol_serialize p) = Inr p \<longleftrightarrow>
     (case p of CustomProtocol s \<Rightarrow> known_protocol s = None \<and> \<not> looks_like_protocol s | _ \<Rightarrow> True)"
proof (cases p)
  case (CustomProtocol s)
  then show ?thesis
    by (auto simp: protocol_deserialize_def split: option.splits dest: known_protocol_not_custom)
qed (simp_all add: protocol_deserialize_def known_protocol_def)

end
