(* ===== verification/Tokens.thy ===== *)
theory Tokens
  imports Core_Types
begin

text \<open>
  \<open>core/tokens.rs\<close>: the token estimate of texts and messages, and the test that a conversation fits.
  The two \<open>tiktoken\<close> encoders are an argument \<open>bpe\<close> (\<open>True\<close> for \<open>o200k_base\<close>) that gives the
  number of tokens; the catalog look-up is an argument, \<open>None\<close> when the catalog does not load. Sums
  are \<open>u32\<close> additions, which wrap as in a release build.
\<close>

type_synonym bpe = "bool \<Rightarrow> string \<Rightarrow> nat"

definition o_series :: "string \<Rightarrow> bool" where
  "o_series lower \<longleftrightarrow>
     lower = ''o1'' \<or> prefix ''o1-'' lower \<or> lower = ''o3'' \<or> prefix ''o3-'' lower
     \<or> lower = ''o4'' \<or> prefix ''o4-'' lower"

definition is_openai_model :: "string \<Rightarrow> bool" where
  "is_openai_model model_id =
     (let lower = to_lowercase model_id
      in prefix ''gpt-'' lower \<or> prefix ''gpt-4o'' lower \<or> prefix ''gpt-5'' lower \<or> o_series lower)"

definition tiktoken_count :: "bpe \<Rightarrow> string \<Rightarrow> string \<Rightarrow> u32 option" where
  "tiktoken_count bpe txt_v model_id =
     (if is_openai_model model_id then
        (let lower = to_lowercase model_id;
             o200k = (prefix ''gpt-5'' lower \<or> prefix ''gpt-4o'' lower \<or> prefix ''gpt-4.1'' lower
               \<or> o_series lower)
         in Some (of_nat (bpe o200k txt_v)))
      else None)"

definition div_ceil4 :: "u32 \<Rightarrow> u32" where
  "div_ceil4 n = (if n mod 4 > 0 then n div 4 + 1 else n div 4)"

definition estimate_text_for_model :: "bpe \<Rightarrow> string \<Rightarrow> string \<Rightarrow> u32" where
  "estimate_text_for_model bpe txt_v model_id =
     unwrap_or (tiktoken_count bpe txt_v model_id) (div_ceil4 (of_nat (length txt_v)))"

definition estimate_text :: "bpe \<Rightarrow> string \<Rightarrow> u32" where
  "estimate_text bpe txt_v = estimate_text_for_model bpe txt_v []"

definition call_text :: "tool_call \<Rightarrow> string" where
  "call_text tc = tc_id tc @ '' '' @ fc_name (tc_function tc) @ '' '' @ fc_arguments (tc_function tc)"

definition estimate_message :: "bpe \<Rightarrow> string \<Rightarrow> message \<Rightarrow> u32" where
  "estimate_message bpe model_id m =
     (let est = (\<lambda>t. estimate_text_for_model bpe t model_id);
          base = est (msg_content m);
          tool_calls_estimate = unwrap_or
            (map_option (\<lambda>tcs. sum_list (map (\<lambda>tc. est (call_text tc)) tcs)) (msg_tool_calls m)) 0;
          reasoning_estimate = unwrap_or (map_option est (msg_reasoning_content m)) 0;
          name_estimate = unwrap_or (map_option est (msg_name m)) 0
      in base + tool_calls_estimate + reasoning_estimate + name_estimate)"

definition estimate_messages_for_model :: "bpe \<Rightarrow> message list \<Rightarrow> string \<Rightarrow> u32" where
  "estimate_messages_for_model bpe messages model_id = sum_list (map (estimate_message bpe model_id) messages)"

definition estimate_messages :: "bpe \<Rightarrow> message list \<Rightarrow> u32" where
  "estimate_messages bpe messages = estimate_messages_for_model bpe messages []"

definition fits_in_context :: "bpe \<Rightarrow> catalog option \<Rightarrow> message list \<Rightarrow> string \<Rightarrow> bool" where
  "fits_in_context bpe cat messages model_id =
     (let estimated = estimate_messages_for_model bpe messages model_id
      in case cat of
           Some c \<Rightarrow>
             (case get_model c model_id of
                Some entry \<Rightarrow>
                  (let len = ce_context_length entry;
                       safe_limit = (if len > 100 then len - len div 20 else len)
                   in len = 0 \<or> estimated < safe_limit)
              | None \<Rightarrow> estimated < 124416)
         | None \<Rightarrow> estimated < 124416)"

lemma div_ceil4_nat: "unat (div_ceil4 n) = (unat n + 3) div 4"
proof -
  have "unat n < 2 ^ 32" using unsigned_less [of n, where 'a=nat] by simp
  then have "unat (n div 4 + 1) = unat n div 4 + 1" if "unat n mod 4 > 0"
    by (simp add: unat_word_ariths(1) unat_div)
  then show ?thesis
    by (auto simp: div_ceil4_def word_less_nat_alt unat_mod unat_div) presburger+
qed

text \<open>Every model the first test recognises is one the second chooses an encoder for, and no other.\<close>

lemma tiktoken_count_None: "tiktoken_count bpe t m = None \<longleftrightarrow> \<not> is_openai_model m"
  by (simp add: tiktoken_count_def Let_def)

end
