(* ===== verification/Errors.thy ===== *)
theory Errors
  imports Core_Types
begin

text \<open>
  \<open>core/errors.rs\<close>: the error type, its messages, and the classifier that turns an HTTP status, a
  body and a \<open>Retry-After\<close> header into an error; and \<open>core/retry.rs\<close>, the back-off. The \<open>regex\<close>
  crate's \<open>replace_all\<close> (pattern, replacement, text) and \<open>chrono\<close>'s reading of an HTTP date, as the
  seconds from now, are arguments.
\<close>

datatype lattice_error =
  RateLimit "f64 option" string
| Authentication string
| ModelNotFound string
| ProviderUnavailable string string
| ContextWindowExceeded u32 u32
| ToolExecution string string
| Streaming string
| Config string
| Network string "u16 option"

fun lattice_error_display :: "lattice_error \<Rightarrow> string" where
  "lattice_error_display (RateLimit _ provider) = ''Rate limit exceeded for provider '' @ quoted provider"
| "lattice_error_display (Authentication provider) = ''Authentication failed for provider '' @ quoted provider"
| "lattice_error_display (ModelNotFound model) = ''Model '' @ quoted model @ '' not found''"
| "lattice_error_display (ProviderUnavailable provider reason) =
     ''Provider '' @ quoted provider @ '' unavailable: '' @ reason"
| "lattice_error_display (ContextWindowExceeded tokens limit) =
     ''Context window exceeded: '' @ show_nat (unat tokens) @ '' tokens (limit '' @ show_nat (unat limit) @ '')''"
| "lattice_error_display (ToolExecution tool message) =
     ''Tool '' @ quoted tool @ '' execution failed: '' @ message"
| "lattice_error_display (Streaming message) = ''Streaming error: '' @ message"
| "lattice_error_display (Config message) = ''Configuration error: '' @ message"
| "lattice_error_display (Network message _) = ''Network error: '' @ message"

definition is_retryable :: "lattice_error \<Rightarrow> bool" where
  "is_retryable e =
     (case e of RateLimit _ _ \<Rightarrow> True | ProviderUnavailable _ _ \<Rightarrow> True | _ \<Rightarrow> False)"

section \<open>Error bodies\<close>

definition MAX_ERROR_BODY_LENGTH :: nat where "MAX_ERROR_BODY_LENGTH = 8192"

definition backslash :: char where "backslash = CHR 0x5C"

definition CREDENTIAL_SCRUBBERS :: "(string \<times> string) list" where
  "CREDENTIAL_SCRUBBERS =
     [(''sk-ant-[A-Za-z0-9'' @ [backslash] @ ''-_]{20,}'', ''[REDACTED]''),
      (''sk-[A-Za-z0-9'' @ [backslash] @ ''-_]{20,}'', ''[REDACTED]''),
      (''(?i)bearer'' @ [backslash] @ ''s+[A-Za-z0-9'' @ [backslash] @ ''-._~+/]+=*'', ''Bearer [REDACTED]''),
      (''(?i)'' @ [dquote] @ ''(?:api[_-]?key|token|secret|password|credential|auth[_-]?token)'' @ [dquote, backslash]
         @ ''s*:'' @ [backslash] @ ''s*'' @ [dquote] @ ''[^'' @ [dquote] @ '']{8,}'' @ [dquote],
       [dquote] @ ''[CREDENTIAL_FIELD]'' @ [dquote] @ '': '' @ [dquote] @ ''[REDACTED]'' @ [dquote])]"

type_synonym replacer = "string \<Rightarrow> string \<Rightarrow> string \<Rightarrow> string"

definition scrub_credentials :: "replacer \<Rightarrow> string \<Rightarrow> string" where
  "scrub_credentials replace_all s =
     fold (\<lambda>(re, replacement) out. replace_all re replacement out) CREDENTIAL_SCRUBBERS s"

definition truncate_body :: "replacer \<Rightarrow> string \<Rightarrow> string" where
  "truncate_body replace_all s =
     (let scrubbed = scrub_credentials replace_all s
      in if length scrubbed \<le> MAX_ERROR_BODY_LENGTH then scrubbed
         else let ends = takeWhile (\<lambda>e. e \<le> MAX_ERROR_BODY_LENGTH) (char_ends 0 (utf8_chars scrubbed));
                  end_pos = (if ends = [] then 0 else last ends)
              in take end_pos scrubbed @ ''... (truncated)'')"

definition scan_first_number :: "string \<Rightarrow> u32 option" where
  "scan_first_number s =
     (let num_str = takeWhile is_digit s
      in if num_str = [] then None else map_option of_nat (parse_uint 32 num_str))"

text \<open>The number right after the first occurrence of a phrase, 0 when there is none.\<close>

definition number_after :: "string \<Rightarrow> string \<Rightarrow> u32" where
  "number_after lower phrase =
     (case str_find lower phrase of
        Some pos \<Rightarrow> unwrap_or (scan_first_number (trim_start (drop (pos + length phrase) lower))) 0
      | None \<Rightarrow> 0)"

definition extract_context_window_tokens :: "string \<Rightarrow> u32 \<times> u32" where
  "extract_context_window_tokens body =
     (let lower = to_lowercase body
      in (number_after lower ''resulted in'', number_after lower ''context length is''))"

text \<open>The branch for an HTTP date, reached when the value is no number or a negative one.\<close>

definition date_delay :: "(string \<Rightarrow> int option) \<Rightarrow> string \<Rightarrow> f64 option" where
  "date_delay http_date val =
     (case http_date val of
        Some secs \<Rightarrow> if secs > 0 then Some (round_f64 (of_int secs)) else None
      | None \<Rightarrow> None)"

definition parse_retry_after_header :: "(string \<Rightarrow> int option) \<Rightarrow> string option \<Rightarrow> f64 option" where
  "parse_retry_after_header http_date v =
     (case v of
        None \<Rightarrow> None
      | Some raw \<Rightarrow>
          (let val = trim raw
           in if val = [] then None
              else (case parse_f64 val of
                      Some secs \<Rightarrow> if f64_le (Fin 0) secs then Some secs else date_delay http_date val
                    | None \<Rightarrow> date_delay http_date val)))"

definition trim_quotes :: "string \<Rightarrow> string" where
  "trim_quotes s =
     rev (dropWhile (\<lambda>c. c = dquote) (rev (dropWhile (\<lambda>c. c = dquote) s)))"

definition retry_after_keys :: "string list" where
  "retry_after_keys =
     [[dquote] @ ''retry_after'' @ [dquote], [dquote] @ ''retry-after'' @ [dquote],
      ''retry_after'', ''retry-after'']"

text \<open>What one key of the list contributes.\<close>

definition retry_after_key :: "string \<Rightarrow> string \<Rightarrow> f64 option" where
  "retry_after_key body_lower key =
     (case str_find body_lower key of
        None \<Rightarrow> None
      | Some pos \<Rightarrow>
          (let after_key = drop (pos + length key) body_lower
           in case str_find after_key '':'' of
                None \<Rightarrow> None
              | Some colon_pos \<Rightarrow>
                  (let after_colon = trim_quotes (trim (drop (colon_pos + 1) after_key));
                       num_str = takeWhile (\<lambda>c. is_digit c \<or> c = CHR ''.'') after_colon
                   in (case parse_f64 num_str of
                         Some val \<Rightarrow> if f64_le (Fin 0) val then Some val else None
                       | None \<Rightarrow> None))))"

fun first_some :: "('a \<Rightarrow> 'b option) \<Rightarrow> 'a list \<Rightarrow> 'b option" where
  "first_some f [] = None"
| "first_some f (x # xs) = (case f x of Some y \<Rightarrow> Some y | None \<Rightarrow> first_some f xs)"

definition extract_retry_after :: "string \<Rightarrow> f64 option" where
  "extract_retry_after body = first_some (retry_after_key (to_lowercase body)) retry_after_keys"

definition model_key :: string where
  "model_key = [dquote] @ ''model'' @ [dquote]"

definition model_char :: "char \<Rightarrow> bool" where
  "model_char c \<longleftrightarrow>
     c \<noteq> dquote \<and> c \<noteq> CHR '','' \<and> c \<noteq> CHR ''}'' \<and> c \<noteq> newline \<and> c \<noteq> CHR '' ''"

definition extract_model_from_body :: "string \<Rightarrow> string option" where
  "extract_model_from_body body =
     (let lower = to_lowercase body
      in case str_find lower model_key of
           None \<Rightarrow> None
         | Some pos \<Rightarrow>
             (let after = drop (pos + length model_key) lower
              in case str_find after '':'' of
                   None \<Rightarrow> None
                 | Some colon_pos \<Rightarrow>
                     (let after_colon = trim (drop (colon_pos + 1) after);
                          trimmed_q = dropWhile (\<lambda>c. c = dquote) after_colon;
                          model = takeWhile model_char trimmed_q
                      in if model \<noteq> [] \<and> model \<noteq> ''null'' then Some model else None)))"

section \<open>The classifier\<close>

definition retry_after ::
  "(string \<Rightarrow> int option) \<Rightarrow> string \<Rightarrow> string option \<Rightarrow> f64 option" where
  "retry_after http_date body header =
     or_else (parse_retry_after_header http_date header) (extract_retry_after body)"

definition classify_with_retry_header ::
  "replacer \<Rightarrow> (string \<Rightarrow> int option) \<Rightarrow> u16 \<Rightarrow> string \<Rightarrow> string \<Rightarrow> string option \<Rightarrow> lattice_error" where
  "classify_with_retry_header replace_all http_date status body provider header =
     (let body_lower = to_lowercase body
      in if status = 429 then RateLimit (retry_after http_date body header) provider
         else if status = 401 \<or> status = 403 then Authentication provider
         else if status = 404 then
           ModelNotFound (unwrap_or (extract_model_from_body body) ''unknown'')
         else if status \<in> {408, 500, 502, 503, 504} then
           ProviderUnavailable provider (truncate_body replace_all body)
         else if status = 400 then
           (if str_contains body_lower ''context_length_exceeded'' then
              (let (tokens, limit) = extract_context_window_tokens body
               in ContextWindowExceeded tokens limit)
            else if str_contains body_lower ''overloaded_error'' then
              ProviderUnavailable provider (truncate_body replace_all body)
            else if str_contains body_lower ''rate_limit_error'' then
              RateLimit (retry_after http_date body header) provider
            else Network (truncate_body replace_all body) (Some status))
         else Network (truncate_body replace_all body) (Some status))"

definition classify ::
  "replacer \<Rightarrow> (string \<Rightarrow> int option) \<Rightarrow> u16 \<Rightarrow> string \<Rightarrow> string \<Rightarrow> lattice_error" where
  "classify replace_all http_date status body provider =
     classify_with_retry_header replace_all http_date status body provider None"

section \<open>Properties\<close>

lemma to_lowercase_digits: "list_all is_digit s \<Longrightarrow> to_lowercase s = s"
  by (induction s) (auto simp: to_lowercase_def ascii_lower_def is_upper_def is_digit_def)

lemma scan_first_number_show:
  assumes "n < 2 ^ 32" and "rest = [] \<or> \<not> is_digit (hd rest)"
  shows "scan_first_number (show_nat n @ rest) = Some (of_nat n)"
proof -
  have "takeWhile is_digit rest = []" using assms(2) by (cases rest) auto
  then have "takeWhile is_digit (show_nat n @ rest) = show_nat n"
    using show_nat_digits [of n] by (simp add: takeWhile_append list_all_iff)
  then show ?thesis
    using assms(1) parse_show_nat [of n 32] by (simp add: scan_first_number_def)
qed

lemma trim_start_digits: "is_digit (hd s) \<Longrightarrow> s \<noteq> [] \<Longrightarrow> trim_start s = s"
proof -
  assume s: "is_digit (hd s)" "s \<noteq> []"
  have "hd s \<notin> set ascii_ws" using s(1) by (auto simp: is_digit_def ascii_ws_def byte_def)
  with s show ?thesis by (cases s) (simp_all add: trim_start_nonspace is_digit_imp_ascii)
qed

lemma number_after_show:
  assumes "\<not> sublist phrase (pre @ butlast phrase)"
    and "n < 2 ^ 32" and "rest = [] \<or> \<not> is_digit (hd rest)"
  shows "number_after (pre @ phrase @ '' '' @ show_nat n @ rest) phrase = of_nat n"
proof -
  have "is_digit (hd (show_nat n))"
    using show_nat_digits [of n] show_nat_nonempty [of n] by (cases "show_nat n") auto
  then have "trim_start (show_nat n @ rest) = show_nat n @ rest"
    by (intro trim_start_digits) simp_all
  then show ?thesis
    by (simp add: number_after_def str_find_first [OF assms(1)]
        scan_first_number_show [OF assms(2,3)])
qed

lemma str_contains_across:
  assumes "\<not> sublist p x" and "\<not> sublist p y" and "list_all (\<lambda>c. \<not> is_digit c) p"
  shows "\<not> sublist p (x @ show_nat n @ y)"
proof -
  have "set (show_nat n) \<inter> set p = {}" using show_nat_digits [of n] assms(3) by (auto simp: list_all_iff)
  then show ?thesis using sublist_across [OF _ _ show_nat_nonempty] assms(1,2) by blast
qed

text \<open>
  An error is retryable exactly when the status says so, or when a 400 body names an overload or
  a rate limit and does not name a context overflow; whatever the scrubbing and the clock do.
\<close>

theorem classify_retryable:
  "is_retryable (classify_with_retry_header replace_all http_date status body provider header) \<longleftrightarrow>
     status \<in> {408, 429, 500, 502, 503, 504} \<or>
     (status = 400 \<and> \<not> sublist ''context_length_exceeded'' (to_lowercase body) \<and>
      (sublist ''overloaded_error'' (to_lowercase body) \<or> sublist ''rate_limit_error'' (to_lowercase body)))"
  unfolding classify_with_retry_header_def is_retryable_def Let_def
  by (auto simp: str_contains_iff split: prod.splits)

text \<open>
  The classifier reads both numbers of the context-overflow message, whatever they are (below
  \<open>2^32\<close>), so the error carries the tokens used and the limit of the model.
\<close>

theorem classify_context_window:
  assumes "used < 2 ^ 32" and "max_len < 2 ^ 32"
  shows "classify replace_all http_date 400
     (''maximum context length is '' @ show_nat max_len @
      '' tokens. However, your messages resulted in '' @ show_nat used @
      '' tokens (code: context_length_exceeded)'') provider =
    ContextWindowExceeded (of_nat used) (of_nat max_len)"
proof -
  let ?m = "'' tokens. however, your messages '' :: string"
  let ?t = "'' tokens (code: context_length_exceeded)'' :: string"
  define b where "b = ''maximum context length is '' @ show_nat max_len @
      '' tokens. However, your messages resulted in '' @ show_nat used @ ?t"
  have lits: "to_lowercase ''maximum context length is '' = ''maximum context length is ''"
    "to_lowercase '' tokens. However, your messages resulted in '' =
       '' tokens. however, your messages resulted in ''" "to_lowercase ?t = ?t"
    by code_simp+
  have low: "to_lowercase b = ''maximum '' @ ''context length is'' @ '' '' @ show_nat max_len @
      '' tokens. however, your messages resulted in '' @ show_nat used @ ?t"
    "to_lowercase b = (''maximum context length is '' @ show_nat max_len @ ?m) @ ''resulted in'' @ '' ''
      @ show_nat used @ ?t"
    unfolding b_def to_lowercase_append to_lowercase_digits [OF show_nat_digits] lits by simp_all
  have 1: "number_after (to_lowercase b) ''context length is'' = of_nat max_len"
    unfolding low(1)
    by (rule number_after_show) (use assms in \<open>simp_all add: sublist_Cons_right is_digit_def byte_def\<close>)
  have 2: "number_after (to_lowercase b) ''resulted in'' = of_nat used"
    unfolding low(2)
  proof (rule number_after_show)
    show "\<not> sublist ''resulted in''
        ((''maximum context length is '' @ show_nat max_len @ ?m) @ butlast ''resulted in'')"
      unfolding append_assoc
      by (rule str_contains_across) (simp_all add: sublist_Cons_right is_digit_def byte_def)
  qed (use assms in \<open>simp_all add: is_digit_def byte_def\<close>)
  have "sublist ''context_length_exceeded'' ?t" by (simp add: sublist_Cons_right)
  then have 3: "sublist ''context_length_exceeded'' (to_lowercase b)"
    unfolding low(1) sublist_append by blast
  show ?thesis
    unfolding b_def [symmetric]
    by (simp add: classify_def classify_with_retry_header_def str_contains_iff
        extract_context_window_tokens_def 1 2 3)
qed

theorem classify_context_window_witness:
  "classify (\<lambda>_ _ s. s) (\<lambda>_. None) 400
     (''maximum context length is '' @ show_nat 8192 @
      '' tokens. However, your messages resulted in '' @ show_nat 9001 @
      '' tokens (code: context_length_exceeded)'') ''openai'' = ContextWindowExceeded 9001 8192"
  using classify_context_window [of 9001 8192 "\<lambda>_ _ s. s" "\<lambda>_. None" "''openai''"] by simp

text \<open>
  An error body kept in an error is bounded and never cut inside a character: it is the scrubbed
  body, or its longest sequence of whole characters of at most \<open>MAX_ERROR_BODY_LENGTH\<close> bytes
  followed by the truncation mark.
\<close>

theorem truncate_body_bounded:
  "truncate_body replace_all s = scrub_credentials replace_all s \<and>
     length (scrub_credentials replace_all s) \<le> MAX_ERROR_BODY_LENGTH \<or>
   (\<exists>k. let chars = utf8_chars (scrub_credentials replace_all s)
        in truncate_body replace_all s = concat (take k chars) @ ''... (truncated)'' \<and>
           length (concat (take k chars)) \<le> MAX_ERROR_BODY_LENGTH \<and>
           k < length chars \<and> MAX_ERROR_BODY_LENGTH < length (concat (take (Suc k) chars)))"
proof (cases "length (scrub_credentials replace_all s) \<le> MAX_ERROR_BODY_LENGTH")
  case True
  then show ?thesis by (simp add: truncate_body_def)
next
  case False
  let ?s = "scrub_credentials replace_all s" and ?M = MAX_ERROR_BODY_LENGTH
  let ?cs = "utf8_chars ?s"
  from char_ends_prefix [of 0 ?M ?cs] obtain k where k: "k \<le> length ?cs"
    "(let ends = takeWhile (\<lambda>e. e \<le> ?M) (char_ends 0 ?cs) in if ends = [] then 0 else last ends) =
       length (concat (take k ?cs))"
    "length (concat (take k ?cs)) \<le> ?M"
    "k < length ?cs \<longrightarrow> ?M < length (concat (take (Suc k) ?cs))" by auto
  have "concat (take k ?cs) @ concat (drop k ?cs) = ?s"
    by (metis append_take_drop_id concat_append concat_utf8_chars)
  then have "take (length (concat (take k ?cs))) ?s = concat (take k ?cs)"
    by (metis append_eq_conv_conj)
  moreover have "k < length ?cs"
    using k(1,3) False by (metis concat_utf8_chars le_neq_implies_less take_all order_refl)
  ultimately show ?thesis
    using k False by (intro disjI2 exI [of _ k]) (simp add: truncate_body_def Let_def)
qed

text \<open>
  A \<open>Retry-After\<close> header in seconds decides the delay of a rate limit: it goes before whatever
  the body says.
\<close>

theorem retry_header_first:
  assumes "n < 2 ^ 53"
  shows "classify_with_retry_header replace_all http_date 429 body provider (Some (show_nat n)) =
    RateLimit (Some (Fin (of_nat n))) provider"
proof -
  have ds: "list_all is_digit (show_nat n)" by (rule show_nat_digits)
  have ws: "c \<notin> set ascii_ws" if "is_digit c" for c
    using that by (auto simp: is_digit_def ascii_ws_def byte_def)
  have "hd (show_nat n) \<in> set (show_nat n)" "last (show_nat n) \<in> set (show_nat n)"
    by (simp_all add: list.set_sel)
  with ds have "is_digit (hd (show_nat n))" "is_digit (last (show_nat n))"
    by (auto simp: list_all_iff)
  then have "trim (show_nat n) = show_nat n"
    by (intro trim_trimmed trimmed_ascii ws) (simp_all add: is_digit_imp_ascii)
  moreover have "f64_le (Fin 0) (Fin (of_nat n))"
    by (simp add: f64_le_def)
  ultimately show ?thesis
    by (simp add: classify_with_retry_header_def retry_after_def parse_retry_after_header_def
        parse_f64_show_nat [OF assms])
qed

theorem retry_header_first_witness:
  "classify_with_retry_header (\<lambda>_ _ s. s) (\<lambda>_. None) 429 ''retry_after: 7'' ''openai'' (Some (show_nat 30)) =
    RateLimit (Some (Fin 30)) ''openai''"
  using retry_header_first [of 30 "\<lambda>_ _ s. s" "\<lambda>_. None" "''retry_after: 7''" "''openai''"] by simp

end
