(* ===== verification/Agent.thy ===== *)
theory Agent
  imports Agent_State Agent_Memory Errors Retry Sse "HOL-Library.Monad_Syntax"
begin

text \<open>
  \<open>agent/mod.rs\<close>: the agent and its loop. One round sends the conversation, collects the stream of
  events into an assistant message and repeats while the model asks for tools. The provider, the
  tools, the clock and the random numbers belong to a world of type \<open>'w\<close>, which each call takes and
  returns; \<open>ae_order\<close> is the order in which a \<open>HashMap\<close> yields its entries. A panic is \<open>None\<close>. The
  observer's events are returned as a list.
\<close>

section \<open>Events and the environment\<close>

definition MAX_STREAM_RETRIES :: nat where "MAX_STREAM_RETRIES = 2"
definition MAX_TOOL_TURNS :: nat where "MAX_TOOL_TURNS = 10"

definition is_retryable_stream_message :: "string \<Rightarrow> bool" where
  "is_retryable_stream_message message =
     (let lower = to_lowercase message
      in list_ex (str_contains lower)
        [''rate_limit'', ''overloaded'', ''timeout'', ''429'', ''503'', ''502'', ''server_error'',
         ''service unavailable'', ''temporarily''])"

datatype loop_event =
  TokenEvent string
| ReasoningEvent string
| ToolCallRequired "tool_call list"
| ToolResult tool_call string
| DoneEvent "token_usage option"
| ErrorEvent string bool

record tool_call_accum =
  ta_name :: string
  ta_arguments :: string

record 'w agent_env =
  ae_chat :: "'w \<Rightarrow> resolved_model \<Rightarrow> message list \<Rightarrow> tool_definition list \<Rightarrow> string option \<Rightarrow>
    'w \<times> (lattice_error, stream_event list) res"
  ae_execute :: "'w \<Rightarrow> tool_call \<Rightarrow> 'w \<times> string"
  ae_random :: "'w \<Rightarrow> 'w \<times> f64"
  ae_sleep :: "'w \<Rightarrow> nat \<Rightarrow> 'w"
  ae_order :: "(string, tool_call_accum) imap \<Rightarrow> (string, tool_call_accum) imap"
  ae_bpe :: bpe
  ae_cwd :: "string option"
  ae_lattice_model :: "string option"

record agent =
  ag_state :: agent_state
  ag_tools :: "tool_definition list"
  ag_retry :: retry_policy
  ag_behavior :: behavior_mode
  ag_memory :: "(string \<Rightarrow> nat \<Rightarrow> memory_entry list) option"
  ag_has_executor :: bool
  ag_registry :: prompt_registry
  ag_bus_events :: bus_event_collector
  ag_thinking_effort :: "string option"

definition agent_new :: "'w agent_env \<Rightarrow> resolved_model \<Rightarrow> agent" where
  "agent_new env resolved =
     \<lparr>ag_state = state_new resolved, ag_tools = [], ag_retry = retry_default,
      ag_behavior = behavior_default, ag_memory = None, ag_has_executor = False,
      ag_registry = registry_new (ae_cwd env) (ae_lattice_model env), ag_bus_events = [],
      ag_thinking_effort = None\<rparr>"

definition with_memory :: "'w agent_env \<Rightarrow> agent \<Rightarrow> (string \<Rightarrow> nat \<Rightarrow> memory_entry list) \<Rightarrow> agent" where
  "with_memory env ag m =
     ag\<lparr>ag_memory := Some m, ag_registry := registry_register (ag_registry ag) (memory_provider (ae_bpe env))\<rparr>"

definition agent_set_system_prompt :: "agent \<Rightarrow> string \<Rightarrow> agent" where
  "agent_set_system_prompt ag prompt =
     ag\<lparr>ag_registry := registry_set_system_prompt (ag_registry ag) prompt\<rparr>"

definition agent_set_system_prompt_delta :: "agent \<Rightarrow> system_prompt_delta option \<Rightarrow> agent" where
  "agent_set_system_prompt_delta ag delta =
     ag\<lparr>ag_registry := registry_set_system_prompt_delta (ag_registry ag) delta\<rparr>"

definition agent_set_output_contract_delta :: "agent \<Rightarrow> system_prompt_delta option \<Rightarrow> agent" where
  "agent_set_output_contract_delta ag delta =
     ag\<lparr>ag_registry := registry_set_output_contract_delta (ag_registry ag) delta\<rparr>"

text \<open>The builders. An executor is present or not; what it does is a parameter of the loop.\<close>

definition with_thinking_effort :: "agent \<Rightarrow> string option \<Rightarrow> agent" where
  "with_thinking_effort ag effort = ag\<lparr>ag_thinking_effort := effort\<rparr>"

definition with_tools :: "agent \<Rightarrow> tool_definition list \<Rightarrow> agent" where
  "with_tools ag tools = ag\<lparr>ag_tools := tools\<rparr>"

definition with_retry :: "agent \<Rightarrow> retry_policy \<Rightarrow> agent" where
  "with_retry ag policy = ag\<lparr>ag_retry := policy\<rparr>"

definition with_tool_executor :: "agent \<Rightarrow> agent" where
  "with_tool_executor ag = ag\<lparr>ag_has_executor := True\<rparr>"

definition with_provider :: "agent \<Rightarrow> context_provider \<Rightarrow> agent" where
  "with_provider ag provider = ag\<lparr>ag_registry := registry_register (ag_registry ag) provider\<rparr>"

definition agent_seed_messages :: "agent \<Rightarrow> message list \<Rightarrow> agent" where
  "agent_seed_messages ag messages = ag\<lparr>ag_state := seed_messages (ag_state ag) messages\<rparr>"

definition add_tools :: "agent \<Rightarrow> tool_definition list \<Rightarrow> agent" where
  "add_tools ag tools = ag\<lparr>ag_tools := ag_tools ag @ tools\<rparr>"

definition inject_bus_events :: "agent \<Rightarrow> context_event list \<Rightarrow> agent" where
  "inject_bus_events ag events = ag\<lparr>ag_bus_events := push_many (ag_bus_events ag) events\<rparr>"

text \<open>\<open>f\<close> runs under the permissive mode; the mode before is restored whatever \<open>f\<close> returns.\<close>

definition with_permissive ::
  "agent \<Rightarrow> (behavior_mode \<Rightarrow> (lattice_error, 'a) res) \<Rightarrow> agent \<times> (lattice_error, 'a) res" where
  "with_permissive ag f =
     (let saved = ag_behavior ag;
          ag1 = ag\<lparr>ag_behavior := Yolo EnforceCommandAllowlist\<rparr>;
          result = f (ag_behavior ag1)
      in (ag1\<lparr>ag_behavior := saved\<rparr>, result))"

section \<open>One request\<close>

function chat_loop ::
  "'w agent_env \<Rightarrow> agent \<Rightarrow> u32 \<Rightarrow> 'w \<Rightarrow> ('w \<times> (lattice_error, stream_event list) res) option" where
  "chat_loop env ag attempt w =
     (case ae_chat env w (st_resolved (ag_state ag)) (st_messages (ag_state ag)) (ag_tools ag) (ag_thinking_effort ag) of
        (w1, Inr stream) \<Rightarrow> Some (w1, Inr stream)
      | (w1, Inl e) \<Rightarrow>
          (if attempt \<ge> rp_max_retries (ag_retry ag) \<or> \<not> is_retryable e then Some (w1, Inl e)
           else
             let (w2, random) = ae_random env w1
             in case jittered_backoff (ag_retry ag) attempt random of
                  None \<Rightarrow> None
                | Some delay \<Rightarrow> chat_loop env ag (attempt + 1) (ae_sleep env w2 delay)))"
  by pat_completeness auto
termination
proof (relation "measure (\<lambda>(env, ag, attempt, w). unat (rp_max_retries (ag_retry ag)) - unat attempt)", goal_cases)
  case (2 env ag attempt)
  then show ?case using next_attempt(1,2) [of "rp_max_retries (ag_retry ag)" attempt] by simp
qed simp

declare chat_loop.simps [simp del]

definition chat_with_retry ::
  "'w agent_env \<Rightarrow> agent \<Rightarrow> 'w \<Rightarrow> ('w \<times> (lattice_error, stream_event list) res) option" where
  "chat_with_retry env ag w = chat_loop env ag 0 w"

text \<open>What the loop over the stream accumulates.\<close>

record chat_acc =
  ca_state :: agent_state
  ca_content :: string
  ca_reasoning :: string
  ca_builders :: "(string, tool_call_accum) imap"
  ca_events :: "loop_event list"

definition builder_calls :: "'w agent_env \<Rightarrow> (string, tool_call_accum) imap \<Rightarrow> tool_call list" where
  "builder_calls env builders =
     map (\<lambda>(i, tc). \<lparr>tc_id = i, tc_function = \<lparr>fc_name = ta_name tc, fc_arguments = ta_arguments tc\<rparr>\<rparr>)
       (ae_order env builders)"

definition acc_emit :: "chat_acc \<Rightarrow> loop_event list \<Rightarrow> chat_acc" where
  "acc_emit acc es = acc\<lparr>ca_events := ca_events acc @ es\<rparr>"

fun on_stream_event :: "'w agent_env \<Rightarrow> chat_acc \<Rightarrow> stream_event \<Rightarrow> chat_acc" where
  "on_stream_event env acc (Token c) = acc_emit (acc\<lparr>ca_content := ca_content acc @ c\<rparr>) [TokenEvent c]"
| "on_stream_event env acc (Reasoning r) =
     acc_emit (acc\<lparr>ca_reasoning := ca_reasoning acc @ r\<rparr>) [ReasoningEvent r]"
| "on_stream_event env acc (ToolCallStart i n) =
     acc\<lparr>ca_builders := im_insert i \<lparr>ta_name = n, ta_arguments = []\<rparr> (ca_builders acc)\<rparr>"
| "on_stream_event env acc (ToolCallDelta i d) =
     (case map_of (ca_builders acc) i of
        Some tc \<Rightarrow> acc\<lparr>ca_builders := im_insert i (tc\<lparr>ta_arguments := ta_arguments tc @ d\<rparr>) (ca_builders acc)\<rparr>
      | None \<Rightarrow> acc)"
| "on_stream_event env acc (ToolCallEnd i) = acc"
| "on_stream_event env acc (Done reason usage) =
     (let st = (case usage of
                  Some u \<Rightarrow> add_token_usage (ca_state acc) (ucast (total_tokens u))
                | None \<Rightarrow> ca_state acc)
      in acc_emit (acc\<lparr>ca_state := st\<rparr>)
           ((if ca_builders acc \<noteq> [] then [ToolCallRequired (builder_calls env (ca_builders acc))] else [])
            @ [DoneEvent usage]))"
| "on_stream_event env acc (StreamError message) =
     acc_emit acc [ErrorEvent message (is_retryable_stream_message message)]"

definition collect_stream :: "'w agent_env \<Rightarrow> agent_state \<Rightarrow> stream_event list \<Rightarrow> chat_acc" where
  "collect_stream env st stream =
     foldl (on_stream_event env)
       \<lparr>ca_state = st, ca_content = [], ca_reasoning = [], ca_builders = [], ca_events = []\<rparr> stream"

definition run_chat :: "'w agent_env \<Rightarrow> agent \<Rightarrow> 'w \<Rightarrow> ('w \<times> agent \<times> loop_event list) option" where
  "run_chat env ag w =
     (case chat_with_retry env ag w of
        None \<Rightarrow> None
      | Some (w1, Inl e) \<Rightarrow> Some (w1, ag, [ErrorEvent (lattice_error_display e) (is_retryable e)])
      | Some (w1, Inr stream) \<Rightarrow>
          (let acc = collect_stream env (ag_state ag) stream;
               tool_calls = (if ca_builders acc = [] then None else Some (builder_calls env (ca_builders acc)));
               st = push_assistant_message (ca_state acc) (ca_content acc) (ca_reasoning acc) tool_calls
           in Some (w1, ag\<lparr>ag_state := st\<rparr>, ca_events acc)))"

section \<open>The loop\<close>

definition retryable_error :: "loop_event \<Rightarrow> bool" where
  "retryable_error e = (case e of ErrorEvent _ r \<Rightarrow> r | _ \<Rightarrow> False)"

text \<open>
  The retries of a round: restore the snapshot and ask again, while an event is a retryable error.
  The second list holds everything the observer saw.
\<close>

fun retry_rounds ::
  "'w agent_env \<Rightarrow> agent_state_snapshot \<Rightarrow> nat \<Rightarrow> 'w \<times> agent \<times> loop_event list \<Rightarrow>
     ('w \<times> agent \<times> loop_event list \<times> loop_event list) option" where
  "retry_rounds env snap 0 (w, ag, events) = Some (w, ag, events, events)"
| "retry_rounds env snap (Suc n) (w, ag, events) =
     (if list_ex retryable_error events then
        do {
          next \<leftarrow> run_chat env (ag\<lparr>ag_state := restore (ag_state ag) snap\<rparr>) w;
          (w1, ag1, events1, emitted) \<leftarrow> retry_rounds env snap n next;
          Some (w1, ag1, events1, events @ emitted)
        }
      else Some (w, ag, events, events))"

definition required_calls :: "loop_event list \<Rightarrow> tool_call list" where
  "required_calls events = concat (map (\<lambda>e. case e of ToolCallRequired calls \<Rightarrow> calls | _ \<Rightarrow> []) events)"

fun execute_calls ::
  "'w agent_env \<Rightarrow> tool_call list \<Rightarrow> 'w \<Rightarrow> agent_state \<Rightarrow> 'w \<times> agent_state \<times> loop_event list" where
  "execute_calls env [] w st = (w, st, [])"
| "execute_calls env (call # calls) w st =
     (let (w1, result) = ae_execute env w call;
          (w2, st2, events) = execute_calls env calls w1 (push_tool_result st (tc_id call) result None)
      in (w2, st2, ToolResult call result # events))"

definition install_prompt :: "nat \<Rightarrow> agent_state \<Rightarrow> message list \<Rightarrow> agent_state" where
  "install_prompt start st messages =
     foldl (\<lambda>st m. case msg_role m of
         System \<Rightarrow> push_system_message st (msg_content m)
       | User \<Rightarrow> upsert_user_message_from st start (msg_content m)
       | _ \<Rightarrow> st) st messages"

definition agent_context :: "agent \<Rightarrow> string \<Rightarrow> context_event list \<Rightarrow> assembly_context" where
  "agent_context ag user_input events =
     \<lparr>ac_memory = ag_memory ag, ac_model = st_resolved (ag_state ag), ac_user_input = user_input,
      ac_bus_events = events\<rparr>"

definition context_len :: "resolved_model \<Rightarrow> u32" where
  "context_len m = (if rm_context_length m > 0 then rm_context_length m else 131072)"

definition not_done :: "loop_event \<Rightarrow> bool" where
  "not_done e = (case e of DoneEvent _ \<Rightarrow> False | _ \<Rightarrow> True)"

text \<open>
  The first half of a round: compile the prompt from the providers, the waiting bus events and the
  request, install it in the conversation and trim the conversation to the window of the model.
\<close>

definition prepare_round ::
  "'w agent_env \<Rightarrow> string \<Rightarrow> nat \<Rightarrow> agent \<Rightarrow> agent \<times> prompt_compile_error option" where
  "prepare_round env user_input start ag =
     (let (pending, bus_events) = drain_events (ag_bus_events ag);
          ag1 = ag\<lparr>ag_bus_events := pending\<rparr>;
          (sections, budgets) = collect (ae_bpe env) (ae_cwd env) (ae_lattice_model env) (ag_registry ag1)
            (agent_context ag1 user_input bus_events);
          resolved = st_resolved (ag_state ag1)
      in case compile (ae_bpe env) sections budgets user_input resolved of
           Inl e \<Rightarrow> (ag1, Some e)
         | Inr rendered \<Rightarrow>
             (ag1\<lparr>ag_state := trim_messages (ae_bpe env)
                (install_prompt start (ag_state ag1) (rp_messages rendered)) (context_len resolved) 15\<rparr>, None))"

text \<open>The second half: the request, repeated from the snapshot after a retryable stream error.\<close>

definition request_round ::
  "'w agent_env \<Rightarrow> bool \<Rightarrow> agent \<Rightarrow> 'w \<Rightarrow> ('w \<times> agent \<times> loop_event list \<times> loop_event list) option" where
  "request_round env retry_stream_errors ag w =
     do {
       first \<leftarrow> run_chat env ag w;
       retry_rounds env (snapshot (ag_state ag)) (if retry_stream_errors then MAX_STREAM_RETRIES else 0) first
     }"

text \<open>
  The rounds of a run. The result is the world, the agent, the events of the run and the events the
  observer saw.
\<close>

fun run_rounds ::
  "'w agent_env \<Rightarrow> string \<Rightarrow> nat \<Rightarrow> bool \<Rightarrow> nat \<Rightarrow> agent \<Rightarrow> 'w \<Rightarrow>
     ('w \<times> agent \<times> loop_event list \<times> loop_event list) option" where
  "run_rounds env user_input start retry_stream_errors 0 ag w = Some (w, ag, [], [])"
| "run_rounds env user_input start retry_stream_errors (Suc turns) ag w =
     (case prepare_round env user_input start ag of
        (ag1, Some e) \<Rightarrow>
          (let event = ErrorEvent (prompt_error_display e) False in Some (w, ag1, [event], [event]))
      | (ag1, None) \<Rightarrow>
          do {
            (w1, ag2, events, emitted) \<leftarrow> request_round env retry_stream_errors ag1 w;
            (let tool_calls = required_calls events
             in if tool_calls = [] \<or> \<not> ag_has_executor ag2 then Some (w1, ag2, events, emitted)
                else
                  let (w2, st, results) = execute_calls env tool_calls w1 (ag_state ag2)
                  in do {
                       (w3, ag3, events3, emitted3) \<leftarrow>
                         run_rounds env user_input start retry_stream_errors turns (ag2\<lparr>ag_state := st\<rparr>) w2;
                       Some (w3, ag3, filter not_done events @ results @ events3,
                         emitted @ results @ emitted3)
                     })
          })"

definition run_with_observer ::
  "'w agent_env \<Rightarrow> string \<Rightarrow> nat \<Rightarrow> bool \<Rightarrow> agent \<Rightarrow> 'w \<Rightarrow>
     ('w \<times> agent \<times> loop_event list \<times> loop_event list) option" where
  "run_with_observer env content max_turns retry_stream_errors ag w =
     run_rounds env content (length (st_messages (ag_state ag))) retry_stream_errors max_turns ag w"

definition run :: "'w agent_env \<Rightarrow> string \<Rightarrow> nat \<Rightarrow> agent \<Rightarrow> 'w \<Rightarrow> ('w \<times> agent \<times> loop_event list) option" where
  "run env content max_turns ag w =
     map_option (\<lambda>(w, ag, events, emitted). (w, ag, events)) (run_with_observer env content max_turns True ag w)"

definition run_streaming ::
  "'w agent_env \<Rightarrow> string \<Rightarrow> nat \<Rightarrow> agent \<Rightarrow> 'w \<Rightarrow> ('w \<times> agent \<times> loop_event list \<times> loop_event list) option" where
  "run_streaming env content max_turns ag w = run_with_observer env content max_turns False ag w"

definition send_message :: "'w agent_env \<Rightarrow> string \<Rightarrow> agent \<Rightarrow> 'w \<Rightarrow> ('w \<times> agent \<times> loop_event list) option" where
  "send_message env content ag w = run_chat env (ag\<lparr>ag_state := push_user_message (ag_state ag) content\<rparr>) w"

definition submit_tools ::
  "'w agent_env \<Rightarrow> (string \<times> string) list \<Rightarrow> nat option \<Rightarrow> agent \<Rightarrow> 'w \<Rightarrow> ('w \<times> agent \<times> loop_event list) option" where
  "submit_tools env results max_size ag w =
     run_chat env (ag\<lparr>ag_state :=
       foldl (\<lambda>st (call_id, result). push_tool_result st call_id result max_size) (ag_state ag) results\<rparr>) w"

section \<open>The plugin interface\<close>

definition token_text :: "loop_event list \<Rightarrow> string" where
  "token_text events = concat (map (\<lambda>e. case e of TokenEvent t \<Rightarrow> t | _ \<Rightarrow> []) events)"

definition error_messages :: "loop_event list \<Rightarrow> string list" where
  "error_messages events = List.map_filter (\<lambda>e. case e of ErrorEvent m _ \<Rightarrow> Some m | _ \<Rightarrow> None) events"

definition agent_send :: "'w agent_env \<Rightarrow> string \<Rightarrow> agent \<Rightarrow> 'w \<Rightarrow> ('w \<times> agent \<times> (string, string) res) option" where
  "agent_send env message ag w =
     map_option (\<lambda>(w1, ag1, events).
       (w1, ag1, if error_messages events \<noteq> [] \<and> token_text events = []
                 then Inl ''Agent returned an error with no content'' else Inr (token_text events)))
       (send_message env message ag w)"

definition send_message_with_tools ::
  "'w agent_env \<Rightarrow> string \<Rightarrow> agent \<Rightarrow> 'w \<Rightarrow> ('w \<times> agent \<times> (string, string) res) option" where
  "send_message_with_tools env message ag w =
     map_option (\<lambda>(w1, ag1, events).
       (w1, ag1, if error_messages events \<noteq> [] \<and> token_text events = []
                 then Inl (''Agent errors: '' @ str_join ''; '' (error_messages events))
                 else Inr (token_text events)))
       (run env message MAX_TOOL_TURNS ag w)"

section \<open>One request: lemmas\<close>

text \<open>A random number as the code draws it: a finite number in the unit interval.\<close>

definition unit_random :: "'w agent_env \<Rightarrow> bool" where
  "unit_random env \<longleftrightarrow> (\<forall>w. \<exists>x. snd (ae_random env w) = Fin x \<and> 0 \<le> x \<and> x < 1)"

text \<open>
  A counter on the world that a request raises by one and that nothing else touches.
\<close>

definition counts_requests :: "'w agent_env \<Rightarrow> ('w \<Rightarrow> nat) \<Rightarrow> bool" where
  "counts_requests env calls \<longleftrightarrow>
     (\<forall>w m ms tools effort. calls (fst (ae_chat env w m ms tools effort)) = Suc (calls w)) \<and>
     (\<forall>w call. calls (fst (ae_execute env w call)) = calls w) \<and>
     (\<forall>w. calls (fst (ae_random env w)) = calls w) \<and>
     (\<forall>w d. calls (ae_sleep env w d) = calls w)"

lemma chat_loop_bounded:
  assumes "unit_random env" and "ag_retry ag = retry_default" and "counts_requests env calls"
    and "attempt \<le> 3"
  shows "\<exists>w' r. chat_loop env ag attempt w = Some (w', r) \<and> calls w' + unat attempt \<le> calls w + 4"
  using assms
proof (induction env ag attempt w rule: chat_loop.induct)
  case (1 env ag attempt w)
  let ?chat = "ae_chat env w (st_resolved (ag_state ag)) (st_messages (ag_state ag)) (ag_tools ag) (ag_thinking_effort ag)"
  obtain w1 r where c: "?chat = (w1, r)" by fastforce
  have n: "calls w1 = Suc (calls w)" using 1(4) c unfolding counts_requests_def by (metis fst_conv)
  have a: "unat attempt \<le> 3" using 1(5) by (simp add: word_le_nat_alt)
  show ?case
  proof (cases "\<exists>e. r = Inl e \<and> \<not> (attempt \<ge> rp_max_retries (ag_retry ag) \<or> \<not> is_retryable e)")
    case False
    then have "chat_loop env ag attempt w = Some (w1, r)"
      by (subst chat_loop.simps) (auto simp: c split: sum.split)
    then show ?thesis using n a by simp
  next
    case True
    then obtain e where e: "r = Inl e" "\<not> (attempt \<ge> rp_max_retries (ag_retry ag) \<or> \<not> is_retryable e)" by blast
    obtain w2 x where r: "ae_random env w1 = (w2, Fin x)" "0 \<le> x" "x < 1"
      using 1(2) unfolding unit_random_def by (metis prod.collapse)
    obtain d where d: "jittered_backoff (ag_retry ag) attempt (Fin x) = Some d"
      using backoff_default_delay [OF r(2,3)] 1(3) by metis
    have lt: "attempt < 3" using e(2) 1(3) by (simp add: retry_default_def not_le)
    then have s: "unat (attempt + 1) = unat attempt + 1" "attempt + 1 \<le> 3"
      using inc_le [OF lt] by (simp_all add: word_less_nat_alt unat_word_ariths)
    have "calls w2 = calls w1" using 1(4) r(1) unfolding counts_requests_def by (metis fst_conv)
    moreover have "calls (ae_sleep env w2 d) = calls w2" using 1(4) by (simp add: counts_requests_def)
    moreover have "\<exists>w' r. chat_loop env ag (attempt + 1) (ae_sleep env w2 d) = Some (w', r) \<and>
        calls w' + unat (attempt + 1) \<le> calls (ae_sleep env w2 d) + 4"
      using 1(1) [OF c [symmetric] e(1) e(2) r(1) [symmetric] refl d 1(2-4) s(2)] .
    moreover have "chat_loop env ag attempt w = chat_loop env ag (attempt + 1) (ae_sleep env w2 d)"
      using e(2) by (subst chat_loop.simps) (simp add: c e(1) r(1) d)
    ultimately show ?thesis using n s(1) by auto
  qed
qed

lemma run_chat_bounded:
  assumes "unit_random env" and "ag_retry ag = retry_default" and "counts_requests env calls"
  shows "\<exists>w' st events. run_chat env ag w = Some (w', ag\<lparr>ag_state := st\<rparr>, events) \<and> calls w' \<le> calls w + 4"
proof -
  obtain w1 r where c: "chat_loop env ag 0 w = Some (w1, r)" "calls w1 \<le> calls w + 4"
    using chat_loop_bounded [OF assms, of 0 w] by auto
  show ?thesis
  proof (cases r)
    case (Inl e)
    then show ?thesis using c
      by (auto simp: run_chat_def chat_with_retry_def intro!: exI [of _ "ag_state ag"])
  next
    case (Inr stream)
    then show ?thesis using c by (auto simp: run_chat_def chat_with_retry_def Let_def)
  qed
qed

lemma retry_rounds_bounded:
  assumes "unit_random env" and "counts_requests env calls" and "ag_retry ag = retry_default"
  shows "\<exists>w' st es emitted. retry_rounds env snap n (w, ag, events) = Some (w', ag\<lparr>ag_state := st\<rparr>, es, emitted)
    \<and> calls w' \<le> calls w + 4 * n"
  using assms(3)
proof (induction n arbitrary: w ag events)
  case 0
  show ?case by (auto intro!: exI [of _ "ag_state ag"])
next
  case (Suc n)
  show ?case
  proof (cases "list_ex retryable_error events")
    case True
    let ?ag = "ag\<lparr>ag_state := restore (ag_state ag) snap\<rparr>"
    obtain w1 st es where r: "run_chat env ?ag w = Some (w1, ?ag\<lparr>ag_state := st\<rparr>, es)" "calls w1 \<le> calls w + 4"
      using run_chat_bounded [OF assms(1) _ assms(2), of ?ag w] Suc.prems by auto
    obtain w2 st2 es2 em where "retry_rounds env snap n (w1, ?ag\<lparr>ag_state := st\<rparr>, es) =
        Some (w2, ?ag\<lparr>ag_state := st2\<rparr>, es2, em)" "calls w2 \<le> calls w1 + 4 * n"
      using Suc.IH [of "?ag\<lparr>ag_state := st\<rparr>" w1 es] Suc.prems by auto
    then show ?thesis using r True by auto
  qed (auto intro!: exI [of _ "ag_state ag"])
qed

lemma execute_calls_counts:
  assumes "counts_requests env calls"
  shows "calls (fst (execute_calls env cs w st)) = calls w"
proof (induction cs arbitrary: w st)
  case (Cons c cs)
  obtain w1 r where e: "ae_execute env w c = (w1, r)" by fastforce
  then have "calls w1 = calls w" using assms unfolding counts_requests_def by (metis fst_conv)
  then show ?case using Cons.IH [of w1] by (simp add: e split: prod.split) (metis fst_conv)
qed simp

lemma request_round_bounded:
  assumes "unit_random env" and "counts_requests env calls" and "ag_retry ag = retry_default"
  obtains w' ag' es emitted where "request_round env retry ag w = Some (w', ag', es, emitted)"
    and "ag_retry ag' = retry_default" and "calls w' \<le> calls w + 12"
proof -
  let ?n = "if retry then MAX_STREAM_RETRIES else 0"
  obtain w1 st es where r: "run_chat env ag w = Some (w1, ag\<lparr>ag_state := st\<rparr>, es)" "calls w1 \<le> calls w + 4"
    using run_chat_bounded [OF assms(1,3,2)] by blast
  obtain w2 st2 es2 em where q: "retry_rounds env (snapshot (ag_state ag)) ?n (w1, ag\<lparr>ag_state := st\<rparr>, es) =
      Some (w2, ag\<lparr>ag_state := st2\<rparr>, es2, em)" "calls w2 \<le> calls w1 + 4 * ?n"
    using retry_rounds_bounded [OF assms(1,2), of "ag\<lparr>ag_state := st\<rparr>" "snapshot (ag_state ag)" ?n w1 es] assms(3)
    by auto
  have "?n \<le> 2" by (simp add: MAX_STREAM_RETRIES_def)
  then have "calls w2 \<le> calls w + 12" using r(2) q(2) by linarith
  then show ?thesis using r q assms(3)
    by (intro that [of w2 "ag\<lparr>ag_state := st2\<rparr>" es2 em]) (simp_all add: request_round_def)
qed

lemma prepare_round_frame:
  "ag_retry (fst (prepare_round env input start ag)) = ag_retry ag"
  "ag_has_executor (fst (prepare_round env input start ag)) = ag_has_executor ag"
  by (auto simp: prepare_round_def Let_def trim_messages_def split: prod.split sum.split)

lemma run_rounds_bounded:
  assumes "unit_random env" and "counts_requests env calls" and "ag_retry ag = retry_default"
  shows "\<exists>w' ag' es emitted. run_rounds env input start retry turns ag w = Some (w', ag', es, emitted)
    \<and> ag_retry ag' = retry_default \<and> calls w' \<le> calls w + 12 * turns"
  using assms(3)
proof (induction turns arbitrary: ag w)
  case (Suc turns)
  obtain ag1 e where p: "prepare_round env input start ag = (ag1, e)" by fastforce
  then have ag1: "ag_retry ag1 = retry_default"
    using prepare_round_frame(1) [of env input start ag] Suc.prems by simp
  show ?case
  proof (cases e)
    case None
    obtain w1 ag2 es em where r: "request_round env retry ag1 w = Some (w1, ag2, es, em)"
      "ag_retry ag2 = retry_default" "calls w1 \<le> calls w + 12"
      by (rule request_round_bounded [OF assms(1,2) ag1])
    obtain w2 st results where x: "execute_calls env (required_calls es) w1 (ag_state ag2) = (w2, st, results)"
      by (metis prod_cases3)
    then have w2: "calls w2 = calls w1"
      using execute_calls_counts [OF assms(2), of "required_calls es" w1 "ag_state ag2"] by simp
    obtain w3 ag3 es3 em3 where "run_rounds env input start retry turns (ag2\<lparr>ag_state := st\<rparr>) w2 =
        Some (w3, ag3, es3, em3)" "ag_retry ag3 = retry_default" "calls w3 \<le> calls w2 + 12 * turns"
      using Suc.IH [of "ag2\<lparr>ag_state := st\<rparr>" w2] r(2) by auto
    then show ?thesis using r(2,3) w2 by (simp add: p None r(1) x Let_def)
  qed (simp add: p ag1 Let_def)
qed simp

section \<open>What a request leaves behind\<close>

lemma acc_emit_simps [simp]:
  "ca_state (acc_emit acc es) = ca_state acc" "ca_content (acc_emit acc es) = ca_content acc"
  "ca_reasoning (acc_emit acc es) = ca_reasoning acc" "ca_builders (acc_emit acc es) = ca_builders acc"
  "ca_events (acc_emit acc es) = ca_events acc @ es"
  by (simp_all add: acc_emit_def)

lemma required_calls_simps [simp]:
  "required_calls [] = []" "required_calls (es @ fs) = required_calls es @ required_calls fs"
  "required_calls (TokenEvent s # es) = required_calls es"
  "required_calls (ReasoningEvent s # es) = required_calls es"
  "required_calls (DoneEvent u # es) = required_calls es"
  "required_calls (ErrorEvent s b # es) = required_calls es"
  "required_calls (ToolCallRequired cs # es) = cs @ required_calls es"
  by (simp_all add: required_calls_def)

lemma im_insert_not_Nil [simp]: "im_insert k v m \<noteq> []"
  by (induction k v m rule: im_insert.induct) simp_all

text \<open>One invariant of the loop over the stream, for everything but the texts.\<close>

definition collected :: "agent_state \<Rightarrow> chat_acc \<Rightarrow> bool" where
  "collected st acc \<longleftrightarrow>
     st_messages (ca_state acc) = st_messages st \<and> st_resolved (ca_state acc) = st_resolved st \<and>
     st_tool_names (ca_state acc) = st_tool_names st \<and> st_sources (ca_state acc) = st_sources st \<and>
     (required_calls (ca_events acc) \<noteq> [] \<longrightarrow> ca_builders acc \<noteq> [])"

lemma collected_step: "collected st acc \<Longrightarrow> collected st (on_stream_event env acc e)"
  by (cases e) (auto simp: collected_def add_token_usage_def Let_def split: option.split)

lemma collected_stream: "collected st (collect_stream env st stream)"
proof -
  have "collected st acc \<Longrightarrow> collected st (foldl (on_stream_event env) acc stream)" for acc
    by (induction stream arbitrary: acc) (auto intro: collected_step)
  then show ?thesis by (simp add: collect_stream_def collected_def)
qed

lemma run_chat_cases:
  assumes "run_chat env ag w = Some (w', ag', events)"
  obtains (failed) e where "chat_with_retry env ag w = Some (w', Inl e)" and "ag' = ag"
      and "events = [ErrorEvent (lattice_error_display e) (is_retryable e)]"
  | (streamed) stream acc calls where "chat_with_retry env ag w = Some (w', Inr stream)"
      and "acc = collect_stream env (ag_state ag) stream" and "events = ca_events acc"
      and "calls = (if ca_builders acc = [] then None else Some (builder_calls env (ca_builders acc)))"
      and "ag' = ag\<lparr>ag_state := push_assistant_message (ca_state acc) (ca_content acc) (ca_reasoning acc) calls\<rparr>"
  using assms by (auto simp: run_chat_def Let_def split: option.splits sum.splits)

lemma push_assistant_message_simps:
  "st_messages (push_assistant_message st c r calls) = st_messages st @
     [(message_new Assistant c calls None None)\<lparr>msg_reasoning_content := if r = [] then None else Some r\<rparr>]"
  "st_resolved (push_assistant_message st c r calls) = st_resolved st"
  by (simp_all add: push_assistant_message_def push_message_def Let_def)

lemma run_chat_frame:
  assumes "run_chat env ag w = Some (w', ag', events)"
  shows "ag' = ag\<lparr>ag_state := ag_state ag'\<rparr>" and "st_resolved (ag_state ag') = st_resolved (ag_state ag)"
proof -
  from assms have "ag' = ag\<lparr>ag_state := ag_state ag'\<rparr> \<and> st_resolved (ag_state ag') = st_resolved (ag_state ag)"
  proof (cases rule: run_chat_cases)
    case (streamed stream acc calls)
    then show ?thesis using collected_stream [of "ag_state ag" env stream]
      by (simp add: push_assistant_message_simps collected_def)
  qed simp
  then show "ag' = ag\<lparr>ag_state := ag_state ag'\<rparr>" "st_resolved (ag_state ag') = st_resolved (ag_state ag)"
    by blast+
qed

lemma run_chat_messages:
  assumes "run_chat env ag w = Some (w', ag', events)"
  shows "(st_messages (ag_state ag') = st_messages (ag_state ag) \<and> required_calls events = []) \<or>
    (\<exists>m. st_messages (ag_state ag') = st_messages (ag_state ag) @ [m] \<and> msg_role m = Assistant \<and>
       (required_calls events \<noteq> [] \<longrightarrow> has_calls m))"
  using assms
proof (cases rule: run_chat_cases)
  case (streamed stream acc calls)
  then show ?thesis using collected_stream [of "ag_state ag" env stream]
    by (simp add: push_assistant_message_simps collected_def has_calls_def message_new_def)
qed simp

text \<open>A retry starts from the snapshot: the round ends as one request from the prepared agent would.\<close>

lemma restore_snapshot: "st_resolved st' = st_resolved st \<Longrightarrow> restore st' (snapshot st) = st"
  by (simp add: restore_def snapshot_def)

lemma retry_rounds_last:
  assumes "retry_rounds env (snapshot (ag_state ag)) n (w, ag1, events) = Some (w', ag', es, emitted)"
    and "run_chat env ag w0 = Some (w, ag1, events)"
  shows "(\<exists>w0. run_chat env ag w0 = Some (w', ag', es)) \<and> suffix es emitted"
  using assms
proof (induction n arbitrary: w ag1 events w0 emitted)
  case (Suc n)
  show ?case
  proof (cases "list_ex retryable_error events")
    case True
    have "restore (ag_state ag1) (snapshot (ag_state ag)) = ag_state ag"
      using run_chat_frame(2) [OF Suc.prems(2)] by (rule restore_snapshot)
    then have a: "ag1\<lparr>ag_state := restore (ag_state ag1) (snapshot (ag_state ag))\<rparr> = ag"
      by (subst run_chat_frame(1) [OF Suc.prems(2)]) simp
    from Suc.prems(1) True obtain w2 ag2 es2 em where r: "run_chat env ag w = Some (w2, ag2, es2)"
      "retry_rounds env (snapshot (ag_state ag)) n (w2, ag2, es2) = Some (w', ag', es, em)" "emitted = events @ em"
      by (auto simp: a Option.bind_eq_Some_conv)
    with Suc.IH [OF r(2,1)] show ?thesis by (auto simp: suffix_def)
  qed (use Suc.prems in auto)
qed auto

lemma request_round_last:
  assumes "request_round env retry ag w = Some (w', ag', es, emitted)"
  shows "(\<exists>w0. run_chat env ag w0 = Some (w', ag', es)) \<and> suffix es emitted"
proof -
  obtain w1 ag1 es1 where "run_chat env ag w = Some (w1, ag1, es1)"
    "retry_rounds env (snapshot (ag_state ag)) (if retry then MAX_STREAM_RETRIES else 0) (w1, ag1, es1) =
       Some (w', ag', es, emitted)"
    using assms by (auto simp: request_round_def Option.bind_eq_Some_conv)
  then show ?thesis by (intro retry_rounds_last)
qed

section \<open>Tool results of a run stay attached\<close>

lemma push_system_message_attached [simp]:
  "attached (st_messages (push_system_message st c)) = attached (st_messages st)"
  "st_resolved (push_system_message st c) = st_resolved st"
proof -
  show "attached (st_messages (push_system_message st c)) = attached (st_messages st)"
  proof (cases "position (\<lambda>m. msg_role m = System) (st_messages st)")
    case None
    then show ?thesis by (simp add: push_system_message_def attached_def message_new_def)
  next
    case (Some i)
    then show ?thesis using update_content_same(1) [of i "st_messages st" c]
      by (auto simp: push_system_message_def dest: position_SomeD)
  qed
qed (simp add: push_system_message_def split: option.split)

lemma upsert_user_message_attached:
  assumes "attached (st_messages st)"
  shows "attached (st_messages (upsert_user_message_from st start c))"
proof (cases "position (\<lambda>m. msg_role m = User) (drop start (st_messages st))")
  case None
  then show ?thesis using assms
    by (simp add: upsert_user_message_from_def push_user_message_def push_message_def attached_snoc message_new_def)
next
  case (Some i)
  then have "start + i < length (st_messages st)" by (auto dest: position_SomeD)
  then show ?thesis using assms Some update_content_same(1) [of "start + i" "st_messages st" c]
    by (simp add: upsert_user_message_from_def)
qed

lemma upsert_user_message_resolved [simp]: "st_resolved (upsert_user_message_from st start c) = st_resolved st"
  by (simp add: upsert_user_message_from_def push_user_message_def push_message_def split: option.split)

lemma install_prompt_attached:
  "attached (st_messages st) \<Longrightarrow> attached (st_messages (install_prompt start st ms))"
  unfolding install_prompt_def
  by (induction ms arbitrary: st) (auto split: role.split intro: upsert_user_message_attached)

lemma prepare_round_attached:
  "attached (st_messages (ag_state ag)) \<Longrightarrow>
     attached (st_messages (ag_state (fst (prepare_round env input start ag))))"
  by (auto simp: prepare_round_def Let_def split: prod.split sum.split
      intro!: trim_messages_attached install_prompt_attached)

lemma execute_calls_attached:
  assumes "attached (st_messages st)" and "calls \<noteq> [] \<longrightarrow> open_results (st_messages st)"
  shows "attached (st_messages (fst (snd (execute_calls env calls w st))))"
  using assms
proof (induction calls arbitrary: w st)
  case (Cons c calls)
  obtain w1 r where e: "ae_execute env w c = (w1, r)" by fastforce
  have "attached (st_messages (push_tool_result st (tc_id c) r None))"
    "open_results (st_messages (push_tool_result st (tc_id c) r None))"
    using Cons.prems
    by (simp_all add: push_tool_result_def push_message_def attached_snoc open_results_snoc message_new_def)
  from Cons.IH [OF this(1), of w1] this(2) show ?case by (simp add: e split: prod.split) (metis fst_conv snd_conv)
qed simp

lemma run_rounds_attached:
  assumes "attached (st_messages (ag_state ag))"
    and "run_rounds env input start retry turns ag w = Some (w', ag', es, emitted)"
  shows "attached (st_messages (ag_state ag'))"
  using assms
proof (induction turns arbitrary: ag w es emitted)
  case (Suc turns)
  obtain ag1 e where p: "prepare_round env input start ag = (ag1, e)" by fastforce
  then have a1: "attached (st_messages (ag_state ag1))"
    using prepare_round_attached [OF Suc.prems(1), of env input start] by simp
  show ?case
  proof (cases e)
    case None
    obtain w1 ag2 es2 em where r: "request_round env retry ag1 w = Some (w1, ag2, es2, em)"
      using Suc.prems(2) by (auto simp: p None Option.bind_eq_Some_conv)
    obtain w0 where c: "run_chat env ag1 w0 = Some (w1, ag2, es2)" using request_round_last [OF r] by blast
    have a2: "attached (st_messages (ag_state ag2))"
      "required_calls es2 \<noteq> [] \<longrightarrow> open_results (st_messages (ag_state ag2))"
      using run_chat_messages [OF c] a1 by (auto simp: attached_snoc open_results_snoc)
    obtain w2 st results where x: "execute_calls env (required_calls es2) w1 (ag_state ag2) = (w2, st, results)"
      by (metis prod_cases3)
    have "attached (st_messages st)" using execute_calls_attached [OF a2, of env w1] by (simp add: x)
    then show ?thesis using Suc.prems(2) a2(1) Suc.IH [of "ag2\<lparr>ag_state := st\<rparr>" w2]
      by (auto simp: p None r x Let_def Option.bind_eq_Some_conv split: if_splits)
  qed (use Suc.prems a1 in \<open>simp add: p Let_def\<close>)
qed simp

section \<open>What the stream becomes\<close>

definition token_pieces :: "stream_event list \<Rightarrow> string" where
  "token_pieces stream = concat (map (\<lambda>e. case e of Token c \<Rightarrow> c | _ \<Rightarrow> []) stream)"

definition reasoning_pieces :: "stream_event list \<Rightarrow> string" where
  "reasoning_pieces stream = concat (map (\<lambda>e. case e of Reasoning r \<Rightarrow> r | _ \<Rightarrow> []) stream)"

definition argument_pieces :: "string \<Rightarrow> stream_event list \<Rightarrow> string" where
  "argument_pieces i stream = concat (map (\<lambda>e. case e of ToolCallDelta j d \<Rightarrow> if j = i then d else [] | _ \<Rightarrow> []) stream)"

definition reported_usage :: "stream_event list \<Rightarrow> u64" where
  "reported_usage stream =
     sum_list (map (\<lambda>e. case e of Done _ (Some u) \<Rightarrow> ucast (total_tokens u) | _ \<Rightarrow> 0) stream)"

definition starts :: "string \<Rightarrow> stream_event \<Rightarrow> bool" where
  "starts i e \<longleftrightarrow> (case e of ToolCallStart j _ \<Rightarrow> j = i | _ \<Rightarrow> False)"

lemma stream_texts:
  "ca_content (foldl (on_stream_event env) acc stream) = ca_content acc @ token_pieces stream"
  "ca_reasoning (foldl (on_stream_event env) acc stream) = ca_reasoning acc @ reasoning_pieces stream"
  "st_token_usage (ca_state (foldl (on_stream_event env) acc stream)) =
     st_token_usage (ca_state acc) + reported_usage stream"
proof -
  have "ca_content (foldl (on_stream_event env) acc stream) = ca_content acc @ token_pieces stream \<and>
    ca_reasoning (foldl (on_stream_event env) acc stream) = ca_reasoning acc @ reasoning_pieces stream \<and>
    st_token_usage (ca_state (foldl (on_stream_event env) acc stream)) =
      st_token_usage (ca_state acc) + reported_usage stream"
  proof (induction stream arbitrary: acc)
    case (Cons e es)
    show ?case
      by (cases e) (simp_all add: Cons.IH token_pieces_def reasoning_pieces_def reported_usage_def Let_def
          add_token_usage_def split: option.split)
  qed (simp add: token_pieces_def reasoning_pieces_def reported_usage_def)
  then show "ca_content (foldl (on_stream_event env) acc stream) = ca_content acc @ token_pieces stream"
    "ca_reasoning (foldl (on_stream_event env) acc stream) = ca_reasoning acc @ reasoning_pieces stream"
    "st_token_usage (ca_state (foldl (on_stream_event env) acc stream)) =
      st_token_usage (ca_state acc) + reported_usage stream"
    by blast+
qed

text \<open>The builder of a call after a part of the stream that does not start it again.\<close>

lemma builder_grows:
  assumes "map_of (ca_builders acc) i = Some tc" and "\<not> list_ex (starts i) stream"
  shows "map_of (ca_builders (foldl (on_stream_event env) acc stream)) i =
    Some (tc\<lparr>ta_arguments := ta_arguments tc @ argument_pieces i stream\<rparr>)"
  using assms
proof (induction stream arbitrary: acc tc)
  case (Cons e es)
  let ?acc = "on_stream_event env acc e"
  have "map_of (ca_builders ?acc) i = Some (tc\<lparr>ta_arguments := ta_arguments tc @ argument_pieces i [e]\<rparr>)"
    using Cons.prems by (cases e) (auto simp: starts_def argument_pieces_def Let_def split: option.split)
  from Cons.IH [OF this] Cons.prems(2) show ?case
    by (simp add: argument_pieces_def)
qed (simp add: argument_pieces_def)

lemma started_builder:
  assumes "stream = before @ ToolCallStart i n # after" and "\<not> list_ex (starts i) after"
  shows "map_of (ca_builders (collect_stream env st stream)) i = Some \<lparr>ta_name = n, ta_arguments = argument_pieces i after\<rparr>"
proof -
  let ?acc = "foldl (on_stream_event env)
       \<lparr>ca_state = st, ca_content = [], ca_reasoning = [], ca_builders = [], ca_events = []\<rparr> before"
  have "map_of (ca_builders (on_stream_event env ?acc (ToolCallStart i n))) i = Some \<lparr>ta_name = n, ta_arguments = []\<rparr>"
    by simp
  from builder_grows [OF this assms(2)] show ?thesis by (simp add: collect_stream_def assms(1))
qed

definition hash_order :: "'w agent_env \<Rightarrow> bool" where
  "hash_order env \<longleftrightarrow> (\<forall>m. mset (ae_order env m) = mset m)"

lemma builder_calls_mem:
  assumes "hash_order env" and "map_of m i = Some tc"
  shows "\<lparr>tc_id = i, tc_function = \<lparr>fc_name = ta_name tc, fc_arguments = ta_arguments tc\<rparr>\<rparr> \<in> set (builder_calls env m)"
proof -
  have "(i, tc) \<in> set (ae_order env m)" using assms by (metis hash_order_def map_of_SomeD mset_eq_setD)
  then show ?thesis unfolding builder_calls_def by (auto simp: image_iff intro!: bexI)
qed

text \<open>Only a \<open>Done\<close> asks for tools, and each one asks for all of them.\<close>

definition is_done :: "stream_event \<Rightarrow> bool" where
  "is_done e \<longleftrightarrow> (case e of Done _ _ \<Rightarrow> True | _ \<Rightarrow> False)"

lemma no_done_no_calls:
  "\<not> list_ex is_done stream \<Longrightarrow>
     required_calls (ca_events (foldl (on_stream_event env) acc stream)) = required_calls (ca_events acc)"
proof (induction stream arbitrary: acc)
  case (Cons e es)
  then have "required_calls (ca_events (on_stream_event env acc e)) = required_calls (ca_events acc)"
    by (cases e) (auto simp: is_done_def split: option.split)
  then show ?case using Cons by simp
qed simp

lemma dones_repeat_calls:
  "list_all is_done dones \<Longrightarrow> ca_builders acc \<noteq> [] \<Longrightarrow>
     required_calls (ca_events (foldl (on_stream_event env) acc dones)) =
       required_calls (ca_events acc) @ concat (replicate (length dones) (builder_calls env (ca_builders acc))) \<and>
     ca_builders (foldl (on_stream_event env) acc dones) = ca_builders acc"
proof (induction dones arbitrary: acc)
  case (Cons e es)
  from Cons.prems(1) obtain r u where e: "e = Done r u" by (cases e) (auto simp: is_done_def)
  show ?case using Cons by (simp add: e Let_def)
qed simp

section \<open>Properties\<close>


text \<open>
  An environment whose provider answers the \<open>n\<close>-th request with \<open>script n\<close>; the world is the number of
  requests sent.
\<close>

definition scripted :: "(nat \<Rightarrow> (lattice_error, stream_event list) res) \<Rightarrow> nat agent_env" where
  "scripted script =
     \<lparr>ae_chat = (\<lambda>w m ms tools effort. (Suc w, script w)), ae_execute = (\<lambda>w call. (w, ''done'')),
      ae_random = (\<lambda>w. (w, Fin 0)), ae_sleep = (\<lambda>w d. w), ae_order = (\<lambda>m. m),
      ae_bpe = (\<lambda>_ s. length s), ae_cwd = None, ae_lattice_model = None\<rparr>"

lemma scripted_ok: "unit_random (scripted script)" "counts_requests (scripted script) (\<lambda>n. n)" "hash_order (scripted script)"
  by (simp_all add: unit_random_def counts_requests_def hash_order_def scripted_def)

definition demo_agent :: agent where
  "demo_agent = (agent_new (scripted (\<lambda>_. Inr [])) sample_model)\<lparr>ag_has_executor := True\<rparr>"



definition demo_call :: "nat \<Rightarrow> (lattice_error, stream_event list) res" where
  "demo_call n = Inr (if n = 0 then [ToolCallStart ''1'' ''f'', ToolCallDelta ''1'' ''{}'', Done ''tool_calls'' None]
     else [Token ''ok'', Done ''stop'' None])"


text \<open>
  C3: the assistant's message of a request is the stream put together: its text and reasoning are the
  pieces in order, each call has the arguments that followed its last start, and the token total
  grows by what every \<open>Done\<close> reports. Only this message is added.
\<close>

theorem message_is_the_stream:
  assumes "chat_with_retry env ag w = Some (w1, Inr stream)" and "hash_order env"
  shows "\<exists>ag' events m. run_chat env ag w = Some (w1, ag', events)
    \<and> st_messages (ag_state ag') = st_messages (ag_state ag) @ [m]
    \<and> msg_role m = Assistant \<and> msg_content m = token_pieces stream
    \<and> unwrap_or (msg_reasoning_content m) [] = reasoning_pieces stream
    \<and> st_token_usage (ag_state ag') = st_token_usage (ag_state ag) + reported_usage stream
    \<and> (\<forall>before i n after. stream = before @ ToolCallStart i n # after \<and> \<not> list_ex (starts i) after \<longrightarrow>
         \<lparr>tc_id = i, tc_function = \<lparr>fc_name = n, fc_arguments = argument_pieces i after\<rparr>\<rparr>
           \<in> set (unwrap_or (msg_tool_calls m) []))"
proof -
  define acc where "acc = collect_stream env (ag_state ag) stream"
  define calls where "calls = (if ca_builders acc = [] then None else Some (builder_calls env (ca_builders acc)))"
  define m where "m = (message_new Assistant (ca_content acc) calls None None)
    \<lparr>msg_reasoning_content := if ca_reasoning acc = [] then None else Some (ca_reasoning acc)\<rparr>"
  define st where "st = push_assistant_message (ca_state acc) (ca_content acc) (ca_reasoning acc) calls"
  have r: "run_chat env ag w = Some (w1, ag\<lparr>ag_state := st\<rparr>, ca_events acc)"
    by (simp add: run_chat_def assms(1) acc_def calls_def st_def Let_def)
  have st: "st_messages st = st_messages (ag_state ag) @ [m]" "st_token_usage st = st_token_usage (ca_state acc)"
    using collected_stream [of "ag_state ag" env stream]
    by (simp_all add: st_def m_def push_assistant_message_def push_message_def Let_def collected_def acc_def)
  have t: "ca_content acc = token_pieces stream" "ca_reasoning acc = reasoning_pieces stream"
    "st_token_usage (ca_state acc) = st_token_usage (ag_state ag) + reported_usage stream"
    by (simp_all add: acc_def collect_stream_def stream_texts)
  have m: "msg_role m = Assistant" "msg_content m = ca_content acc" "msg_tool_calls m = calls"
    "unwrap_or (msg_reasoning_content m) [] = ca_reasoning acc"
    by (simp_all add: m_def message_new_def)
  have c: "\<lparr>tc_id = i, tc_function = \<lparr>fc_name = n, fc_arguments = argument_pieces i after\<rparr>\<rparr> \<in> set (unwrap_or calls [])"
    if "stream = before @ ToolCallStart i n # after" "\<not> list_ex (starts i) after" for before i n after
    using builder_calls_mem [OF assms(2) started_builder [OF that, of env "ag_state ag"]]
      started_builder [OF that, of env "ag_state ag"]
    by (auto simp: calls_def acc_def)
  show ?thesis using r st t m c by (intro exI [of _ "ag\<lparr>ag_state := st\<rparr>"] exI [of _ "ca_events acc"] exI [of _ m]) auto
qed

theorem message_is_the_stream_witness:
  "\<exists>ag' events m. run_chat (scripted (\<lambda>_. Inr [Token ''a'', Token ''b''])) demo_agent 0 = Some (1, ag', events)
    \<and> st_messages (ag_state ag') = st_messages (ag_state demo_agent) @ [m] \<and> msg_content m = ''ab''"
proof -
  have "chat_with_retry (scripted (\<lambda>_. Inr [Token ''a'', Token ''b''])) demo_agent 0 = Some (1, Inr [Token ''a'', Token ''b''])"
    by (simp add: chat_with_retry_def chat_loop.simps) (simp add: scripted_def)
  from message_is_the_stream [OF this scripted_ok(3)] show ?thesis by (auto simp: token_pieces_def)
qed

text \<open>
  A retry after a broken stream leaves no trace: the agent and the events of a round are those of
  one request sent from the state before the round, so no part of a failed answer stays in the
  conversation, the tool names or the token total; the observer alone sees the failed attempts, first.
\<close>

theorem retry_leaves_no_trace:
  assumes "request_round env retry ag w = Some (w', ag', events, emitted)"
  shows "\<exists>w0 earlier. run_chat env ag w0 = Some (w', ag', events) \<and> emitted = earlier @ events"
  using request_round_last [OF assms] by (auto simp: suffix_def)

theorem retry_leaves_no_trace_witness:
  "\<exists>w0 w' ag' events. run_chat (scripted (\<lambda>n. Inr [if n = 0 then StreamError ''timeout'' else Token ''ok''])) demo_agent w0
    = Some (w', ag', events)"
proof -
  let ?env = "scripted (\<lambda>n. Inr [if n = 0 then StreamError ''timeout'' else Token ''ok''])"
  have "ag_retry demo_agent = retry_default" by (simp add: demo_agent_def agent_new_def)
  then obtain w' ag' es em where "request_round ?env True demo_agent 0 = Some (w', ag', es, em)"
    by (rule request_round_bounded [OF scripted_ok(1,2)])
  from retry_leaves_no_trace [OF this] show ?thesis by blast
qed

text \<open>
  Every \<open>Done\<close> of a stream asks for all tools again: a stream with tool calls that ends in \<open>k\<close>
  \<open>Done\<close> events (the Gemini decoder emits one for the usage and one for the end) makes the run execute
  each call \<open>k\<close> times.
\<close>

theorem every_done_requests_tools:
  assumes "chat_with_retry env ag w = Some (w1, Inr (answer @ dones))"
    and "\<not> list_ex is_done answer" and "list_all is_done dones" and "list_ex (starts i) answer"
  shows "\<exists>ag' events calls. run_chat env ag w = Some (w1, ag', events)
    \<and> msg_tool_calls (last (st_messages (ag_state ag'))) = Some calls
    \<and> required_calls events = concat (replicate (length dones) calls)"
proof -
  define acc where "acc = collect_stream env (ag_state ag) answer"
  define acc' where "acc' = collect_stream env (ag_state ag) (answer @ dones)"
  have a: "acc' = foldl (on_stream_event env) acc dones" by (simp add: acc_def acc'_def collect_stream_def)
  have "ca_builders acc \<noteq> []"
  proof -
    obtain before e after where s: "answer = before @ e # after" "starts i e" "\<not> list_ex (starts i) after"
      using split_list_last_prop [of answer "starts i"] assms(4) by (auto simp: list_ex_iff)
    then obtain n where "e = ToolCallStart i n" by (cases e) (auto simp: starts_def)
    then show ?thesis using started_builder [of answer before i n after env "ag_state ag"] s by (auto simp: acc_def)
  qed
  note d = dones_repeat_calls [OF assms(3) this, of env]
  have "required_calls (ca_events acc) = []"
    by (simp add: acc_def collect_stream_def no_done_no_calls [OF assms(2)])
  then have r: "required_calls (ca_events acc') = concat (replicate (length dones) (builder_calls env (ca_builders acc')))"
    "ca_builders acc' \<noteq> []"
    using d \<open>ca_builders acc \<noteq> []\<close> by (simp_all add: a)
  then show ?thesis
    by (simp add: run_chat_def assms(1) Let_def acc'_def [symmetric] push_assistant_message_simps message_new_def)
qed

theorem every_done_requests_tools_witness:
  "\<exists>ag' events calls. run_chat (scripted (\<lambda>_. Inr ([ToolCallStart ''1'' ''f''] @ [Done ''stop'' None, Done ''stop'' None])))
      demo_agent 0 = Some (1, ag', events) \<and> required_calls events = calls @ calls"
proof -
  let ?env = "scripted (\<lambda>_. Inr ([ToolCallStart ''1'' ''f''] @ [Done ''stop'' None, Done ''stop'' None]))"
  have "chat_with_retry ?env demo_agent 0 =
      Some (1, Inr ([ToolCallStart ''1'' ''f''] @ [Done ''stop'' None, Done ''stop'' None]))"
    by (simp add: chat_with_retry_def chat_loop.simps) (simp add: scripted_def)
  from every_done_requests_tools [OF this, of "''1''"] show ?thesis by (auto simp: is_done_def starts_def)
qed

text \<open>
  The position of the request goes stale. It is taken once, before the first turn; when trimming
  has since made the conversation shorter than that, the next turn finds no user message behind it and
  appends the request a second time, after the tool results.
\<close>

theorem request_repeated_after_trim:
  assumes "length (st_messages st) \<le> start" and "msg_role m = User"
  shows "st_messages (install_prompt start st [m]) =
    st_messages st @ [message_new User (msg_content m) None None None]"
  using assms
  by (simp add: install_prompt_def upsert_user_message_from_def push_user_message_def push_message_def)

theorem request_repeated_after_trim_witness:
  "st_messages (install_prompt 9 (sample_conversation sample_model) [plain_message User ''u'']) =
     st_messages (sample_conversation sample_model) @ [plain_message User ''u'']"
  using request_repeated_after_trim [of "sample_conversation sample_model" 9 "plain_message User ''u''"]
  by (simp add: sample_conversation_def plain_message_def message_new_def)

text \<open>
  The position is taken before the system message is put in front, which moves every message up by
  one: in a conversation without a system message that ends in a user message, that message lands on
  the position and the new request overwrites it instead of following it.
\<close>

theorem prompt_overwrites_request:
  assumes "system_msgs (st_messages st) = []" and "st_messages st = before @ [asked]"
    and "msg_role asked = User" and "msg_role sys = System" and "msg_role u = User"
  shows "st_messages (install_prompt (length (st_messages st)) st [sys, u]) =
    message_new System (msg_content sys) None None None # before @ [set_content (msg_content u) asked]"
proof -
  have "position (\<lambda>m. msg_role m = System) (st_messages st) = None"
    using assms(1) by (auto simp: position_None_iff system_msgs_def filter_empty_conv)
  then have "st_messages (push_system_message st (msg_content sys)) =
      message_new System (msg_content sys) None None None # before @ [asked]"
    by (simp add: push_system_message_def assms(2))
  then show ?thesis
    using assms(2-5) by (simp add: install_prompt_def upsert_user_message_from_def)
qed

theorem prompt_overwrites_request_witness:
  "st_messages (install_prompt 1 ((state_new sample_model)\<lparr>st_messages := [plain_message User ''first'']\<rparr>)
     [plain_message System ''s'', plain_message User ''second'']) =
   [plain_message System ''s'', plain_message User ''second'']"
  using prompt_overwrites_request [of "(state_new sample_model)\<lparr>st_messages := [plain_message User ''first'']\<rparr>" "[]"
      "plain_message User ''first''" "plain_message System ''s''" "plain_message User ''second''"]
  by (simp add: system_msgs_def plain_message_def message_new_def set_content_def)

end
