(* ===== verification/Rust_Path.thy ===== *)
theory Rust_Path
  imports Rust_Str Rust_Num
begin

text \<open>
  The parts of the Rust standard library that the tools and the plugins use on text: paths of a Unix
  system (\<open>std::path\<close>), \<open>split_whitespace\<close> and the \<open>Debug\<close> form of strings. A path is its string; two
  paths are equal when their components are.
\<close>

section \<open>Paths\<close>

datatype component = RootDir | CurDir | ParentDir | Normal string

definition slash :: char where "slash = CHR ''/''"

definition is_absolute :: "string \<Rightarrow> bool" where
  "is_absolute p \<longleftrightarrow> p \<noteq> [] \<and> hd p = slash"

definition seg_component :: "string \<Rightarrow> component option" where
  "seg_component s =
     (if s = [] \<or> s = ''.'' then None else if s = ''..'' then Some ParentDir else Some (Normal s))"

definition components :: "string \<Rightarrow> component list" where
  "components p =
     (if is_absolute p then [RootDir] else if hd (str_split slash p) = ''.'' then [CurDir] else [])
     @ List.map_filter seg_component (str_split slash p)"

definition path_eq :: "string \<Rightarrow> string \<Rightarrow> bool" where
  "path_eq p q \<longleftrightarrow> components p = components q"

definition file_name :: "string \<Rightarrow> string option" where
  "file_name p =
     (case rev (components p) of Normal s # _ \<Rightarrow> Some s | _ \<Rightarrow> None)"

text \<open>\<open>parent\<close>: the text before the last component, without trailing separators and \<open>.\<close>.\<close>

definition path_parent :: "string \<Rightarrow> string option" where
  "path_parent p =
     (if components p = [] \<or> components p = [RootDir] then None
      else
        let segs = str_split slash p;
            kept = dropWhile (\<lambda>s. seg_component s = None) (rev (tl segs));
            rest = rev (dropWhile (\<lambda>s. seg_component s = None) (tl kept))
        in Some (if kept = [] then []
                 else if hd segs = [] \<and> rest = [] then [slash]
                 else str_join [slash] (hd segs # rest)))"

definition path_join :: "string \<Rightarrow> string \<Rightarrow> string" where
  "path_join base p =
     (if is_absolute p \<or> base = [] then p
      else if last base = slash then base @ p else base @ slash # p)"

lemma seg_component_simps [simp]:
  "seg_component [] = None" "seg_component ''.'' = None" "seg_component ''..'' = Some ParentDir"
  by (simp_all add: seg_component_def)

lemma components_absolute_Cons:
  "components (slash # p) = RootDir # List.map_filter seg_component (str_split slash p)"
  by (simp add: components_def is_absolute_def map_filter_simps)

lemma components_append_slash:
  assumes "base \<noteq> []" and "\<not> is_absolute p" and "hd (str_split slash p) \<noteq> ''.''"
  shows "components (base @ slash # p) = components base @ components p"
proof -
  have "is_absolute (base @ slash # p) = is_absolute base" using assms(1) by (simp add: is_absolute_def)
  moreover have "hd (str_split slash base @ str_split slash p) = hd (str_split slash base)" by simp
  ultimately show ?thesis using assms(2,3)
    by (simp add: components_def str_split_append_delim List.map_filter_def)
qed

section \<open>Words\<close>

fun take_word :: "string \<Rightarrow> string" where
  "take_word [] = []"
| "take_word (c # cs) = (if lead_len ws_encodings (c # cs) > 0 then [] else c # take_word cs)"

lemma take_word_prefix: "prefix (take_word s) s"
  by (induction s) auto

function split_whitespace :: "string \<Rightarrow> string list" where
  "split_whitespace s =
     (if s = [] then []
      else if lead_len ws_encodings s > 0 then split_whitespace (drop (lead_len ws_encodings s) s)
      else take_word s # split_whitespace (drop (length (take_word s)) s))"
  by pat_completeness auto
termination
proof (relation "measure length", goal_cases)
  case (3 s)
  then obtain c cs where "s = c # cs" by (cases s) auto
  with 3 show ?case by simp
qed auto

declare split_whitespace.simps [simp del]

lemma split_whitespace_Nil [simp]: "split_whitespace [] = []"
  by (subst split_whitespace.simps) simp

lemma split_whitespace_nonempty: "w \<in> set (split_whitespace s) \<Longrightarrow> w \<noteq> []"
proof (induction s rule: split_whitespace.induct)
  case (1 s)
  show ?case
  proof (cases "s = [] \<or> lead_len ws_encodings s > 0")
    case True
    then show ?thesis using 1 by (subst (asm) (3) split_whitespace.simps) (auto split: if_splits)
  next
    case False
    then obtain c cs where s: "s = c # cs" by (cases s) auto
    have "split_whitespace s = take_word s # split_whitespace (drop (length (take_word s)) s)"
      using False by (subst split_whitespace.simps) simp
    then show ?thesis using 1(2) 1(3) False s by auto
  qed
qed

lemma split_whitespace_sublist: "w \<in> set (split_whitespace s) \<Longrightarrow> sublist w s"
proof (induction s rule: split_whitespace.induct)
  case (1 s)
  show ?case
  proof (cases "s = [] \<or> lead_len ws_encodings s > 0")
    case True
    then show ?thesis using 1
      by (subst (asm) (3) split_whitespace.simps)
        (auto split: if_splits intro: sublist_order.order.trans [OF _ suffix_imp_sublist [OF suffix_drop]])
  next
    case False
    have "split_whitespace s = take_word s # split_whitespace (drop (length (take_word s)) s)"
      using False by (subst split_whitespace.simps) simp
    then show ?thesis
      using 1(2) 1(3) False take_word_prefix [of s]
      by (auto intro: prefix_imp_sublist sublist_order.order.trans [OF _ suffix_imp_sublist [OF suffix_drop]])
  qed
qed

section \<open>Debug form\<close>

text \<open>
  \<open>{:?}\<close> of a string: quotes around it, control characters, quotes and back-slashes escaped; the bytes
  of other characters are printed as they are.
\<close>

definition hex_digit :: "nat \<Rightarrow> char" where
  "hex_digit d = (if d < 10 then char_of (48 + d) else char_of (87 + d))"

definition debug_char :: "char \<Rightarrow> string" where
  "debug_char c =
     (let bs = CHR 0x5C; n = byte c
      in if c = dquote \<or> c = bs then [bs, c]
         else if n = 9 then [bs, CHR ''t''] else if n = 10 then [bs, CHR ''n'']
         else if n = 13 then [bs, CHR ''r''] else if n = 0 then [bs, CHR ''0'']
         else if n < 32 \<or> n = 127 then
           [bs, CHR ''u'', CHR 0x7B] @ (if n < 16 then [hex_digit n] else [hex_digit (n div 16), hex_digit (n mod 16)])
           @ [CHR 0x7D]
         else [c])"

definition debug_str :: "string \<Rightarrow> string" where
  "debug_str s = dquote # concat (map debug_char s) @ [dquote]"

definition debug_strs :: "string list \<Rightarrow> string" where
  "debug_strs xs = ''['' @ str_join '', '' (map debug_str xs) @ '']''"

end
