(* ===== verification/Hook.thy ===== *)
theory Hook
  imports Rust_Path
begin

text \<open>
  \<open>agent/hook.rs\<close>: hooks that see a tool command before it runs. A hook takes the world (a hook may
  download and write files), the tool and the command, and returns the command to go on with or a
  reason to refuse. The regular expressions of the regex crate are the parameter \<open>is_match\<close>, the HTTP
  client and the temporary directory of the download hook belong to the world.
\<close>

section \<open>Hooks and chains\<close>

datatype hook_severity = Warning | Deny | Lockdown

record hook_deny_reason =
  hd_hook :: string
  hd_reason :: string
  hd_severity :: hook_severity

record 'w tool_hook =
  th_name :: string
  th_pre_execute :: "'w \<Rightarrow> string \<Rightarrow> string \<Rightarrow> 'w \<times> (hook_deny_reason, string) res"

type_synonym 'w hook_chain = "'w tool_hook list"

text \<open>The loop of \<open>run_pre_execute\<close>, with the command as modified so far.\<close>

fun run_pre_execute ::
  "'w hook_chain \<Rightarrow> 'w \<Rightarrow> string \<Rightarrow> string \<Rightarrow> 'w \<times> (hook_deny_reason, string) res" where
  "run_pre_execute [] w tool command = (w, Inr command)"
| "run_pre_execute (hook # hooks) w tool command =
     (case th_pre_execute hook w tool command of
        (w1, Inr cmd) \<Rightarrow> run_pre_execute hooks w1 tool cmd
      | (w1, Inl reason) \<Rightarrow>
          (if hd_severity reason = Warning then run_pre_execute hooks w1 tool command
           else (w1, Inl reason)))"

fun show_severity :: "hook_severity \<Rightarrow> string" where
  "show_severity Warning = ''Warning''"
| "show_severity Deny = ''Deny''"
| "show_severity Lockdown = ''Lockdown''"

section \<open>Tirith\<close>

text \<open>The patterns, with a back-slash written \<open>backslash\<close>.\<close>

definition bslash :: string where "bslash = [CHR 0x5C]"

definition tirith_patterns :: "(string \<times> string \<times> hook_severity) list" where
  "tirith_patterns =
     [(''rm'' @ bslash @ ''s+-r[fe]?'' @ bslash @ ''s+/('' @ bslash @ ''s|$)'',
       ''rm -rf / (recursive root delete)'', Lockdown),
      (''rm'' @ bslash @ ''s+-r[fe]?'' @ bslash @ ''s+/('' @ bslash @ ''*|'' @ bslash @ ''?)'',
       ''rm -rf /* or /? (shell glob root delete)'', Lockdown),
      (''curl'' @ bslash @ ''s+.*'' @ bslash @ ''|.*sh'', ''curl | sh (remote script execution)'', Lockdown),
      (''wget'' @ bslash @ ''s+.*'' @ bslash @ ''|.*sh'', ''wget | sh (remote script execution)'', Lockdown),
      (''chmod'' @ bslash @ ''s+777'', ''chmod 777 (world-writable permissions)'', Deny),
      (''write.*agent'' @ bslash @ ''.toml'', ''modifying agent profile'', Deny),
      (''(curl|wget).*'' @ bslash @ ''s+-[oO]'' @ bslash @ ''s+/tmp/'',
       ''download script to /tmp then execute'', Lockdown),
      (''/dev/tcp/'', ''/dev/tcp reverse shell'', Lockdown),
      (''base64'' @ bslash @ ''s+-d.*'' @ bslash @ ''|.*sh'', ''base64 decode piped to shell'', Lockdown)]"

definition tirith_pre_execute ::
  "(string \<Rightarrow> string \<Rightarrow> bool) \<Rightarrow> string \<Rightarrow> (hook_deny_reason, string) res" where
  "tirith_pre_execute is_match command =
     (case find (\<lambda>(re, desc, severity). is_match re command) tirith_patterns of
        Some (re, desc, severity) \<Rightarrow>
          Inl \<lparr>hd_hook = ''tirith'', hd_reason = desc @ '': '' @ command, hd_severity = severity\<rparr>
      | None \<Rightarrow> Inr command)"

definition tirith_hook :: "(string \<Rightarrow> string \<Rightarrow> bool) \<Rightarrow> 'w tool_hook" where
  "tirith_hook is_match =
     \<lparr>th_name = ''tirith'', th_pre_execute = (\<lambda>w tool command. (w, tirith_pre_execute is_match command))\<rparr>"

section \<open>Vet\<close>

record vet_response =
  vr_content_length :: "string option"
  vr_bytes :: "(string, string) res"

record 'w vet_env =
  ve_find_url :: "string \<Rightarrow> string option"
  ve_get :: "'w \<Rightarrow> string \<Rightarrow> 'w \<times> (string, vet_response) res"
  ve_temp_dir :: "'w \<Rightarrow> 'w \<times> string"
  ve_create_dir :: "'w \<Rightarrow> string \<Rightarrow> 'w \<times> (string, unit) res"
  ve_write :: "'w \<Rightarrow> string \<Rightarrow> string \<Rightarrow> 'w \<times> (string, unit) res"

definition VET_MAX_SIZE :: nat where "VET_MAX_SIZE = 10 * 1024 * 1024"

definition vet_deny :: "string \<Rightarrow> (hook_deny_reason, string) res" where
  "vet_deny reason = Inl \<lparr>hd_hook = ''vet'', hd_reason = reason, hd_severity = Deny\<rparr>"

definition content_length_exceeds :: "vet_response \<Rightarrow> nat \<Rightarrow> nat option" where
  "content_length_exceeds response max_size =
     (case Option.bind (vr_content_length response) (parse_uint 64) of
        Some len \<Rightarrow> if len > max_size then Some len else None
      | None \<Rightarrow> None)"

definition vet_store ::
  "'w vet_env \<Rightarrow> 'w \<Rightarrow> string \<Rightarrow> 'w \<times> (hook_deny_reason, string) res" where
  "vet_store env w bytes =
     (let (w1, temp_dir) = ve_temp_dir env w
      in case ve_create_dir env w1 temp_dir of
           (w2, Inl e) \<Rightarrow> (w2, vet_deny (''Vet: failed to create temp dir: '' @ e))
         | (w2, Inr _) \<Rightarrow>
             (let file_path = path_join temp_dir ''file''
              in case ve_write env w2 file_path bytes of
                   (w3, Inl e) \<Rightarrow> (w3, vet_deny (''Vet: failed to write file: '' @ e))
                 | (w3, Inr _) \<Rightarrow> (w3, Inr (''cat '' @ file_path))))"

definition vet_pre_execute ::
  "'w vet_env \<Rightarrow> 'w \<Rightarrow> string \<Rightarrow> string \<Rightarrow> 'w \<times> (hook_deny_reason, string) res" where
  "vet_pre_execute env w tool command =
     (let trimmed_cmd = trim command
      in if \<not> prefix ''curl'' trimmed_cmd \<and> \<not> prefix ''wget'' trimmed_cmd then (w, Inr command)
         else case ve_find_url env trimmed_cmd of
           None \<Rightarrow> (w, vet_deny (''Vet: could not extract URL from command: '' @ trimmed_cmd))
         | Some url \<Rightarrow>
             (if \<not> prefix ''https://'' url then (w, vet_deny (''Vet: only HTTPS allowed, got: '' @ url))
              else case ve_get env w url of
                (w1, Inl e) \<Rightarrow> (w1, vet_deny (''Vet: download failed for '' @ url @ '': '' @ e))
              | (w1, Inr response) \<Rightarrow>
                  (case content_length_exceeds response VET_MAX_SIZE of
                     Some len \<Rightarrow> (w1, vet_deny (''Vet: Content-Length '' @ show_nat len
                       @ '' exceeds max size '' @ show_nat VET_MAX_SIZE @ '' bytes''))
                   | None \<Rightarrow>
                       (case vr_bytes response of
                          Inl e \<Rightarrow> (w1, vet_deny (''Vet: failed to read response body for '' @ url @ '': '' @ e))
                        | Inr bytes \<Rightarrow>
                            (if length bytes > VET_MAX_SIZE then
                               (w1, vet_deny (''Vet: downloaded '' @ show_nat (length bytes)
                                 @ '' bytes exceeds max size '' @ show_nat VET_MAX_SIZE @ '' bytes''))
                             else vet_store env w1 bytes)))))"

definition vet_hook :: "'w vet_env \<Rightarrow> 'w tool_hook" where
  "vet_hook env = \<lparr>th_name = ''vet'', th_pre_execute = vet_pre_execute env\<rparr>"

section \<open>Chains\<close>

lemma run_pre_execute_append:
  "run_pre_execute (hs @ ks) w tool cmd =
     (case run_pre_execute hs w tool cmd of
        (w1, Inr cmd1) \<Rightarrow> run_pre_execute ks w1 tool cmd1
      | (w1, Inl r) \<Rightarrow> (w1, Inl r))"
  by (induction hs arbitrary: w cmd) (auto split: prod.split sum.split)

text \<open>A refusal is never a warning.\<close>

lemma run_pre_execute_deny:
  "run_pre_execute hs w tool cmd = (w', Inl r) \<Longrightarrow> hd_severity r \<noteq> Warning"
  by (induction hs arbitrary: w cmd) (auto split: prod.splits sum.splits if_splits)

lemma tirith_severity: "tirith_pre_execute is_match cmd = Inl r \<Longrightarrow> hd_severity r \<noteq> Warning"
proof -
  assume "tirith_pre_execute is_match cmd = Inl r"
  then obtain re desc sev where "find (\<lambda>(re, desc, severity). is_match re cmd) tirith_patterns = Some (re, desc, sev)"
    "hd_severity r = sev" by (auto simp: tirith_pre_execute_def split: option.splits)
  then have "(re, desc, sev) \<in> set tirith_patterns" using find_Some_memb by fastforce
  then show ?thesis using \<open>hd_severity r = sev\<close> by (auto simp: tirith_patterns_def)
qed

text \<open>
  A chain with the Tirith hook lets no command through that one of its patterns matches, wherever
  the hook stands in the chain; what it is asked about is the command the hooks before it have left.
\<close>

theorem tirith_in_chain_blocks:
  assumes "run_pre_execute (before @ tirith_hook is_match # after) w tool cmd = (w', Inr cmd')"
  shows "\<exists>w1 cmd1. run_pre_execute before w tool cmd = (w1, Inr cmd1)
    \<and> (\<forall>(re, desc, severity) \<in> set tirith_patterns. \<not> is_match re cmd1)
    \<and> run_pre_execute after w1 tool cmd1 = (w', Inr cmd')"
proof -
  obtain w1 cmd1 where b: "run_pre_execute before w tool cmd = (w1, Inr cmd1)"
    "run_pre_execute (tirith_hook is_match # after) w1 tool cmd1 = (w', Inr cmd')"
    using assms by (auto simp: run_pre_execute_append split: prod.splits sum.splits)
  have ok: "tirith_pre_execute is_match cmd1 = Inr cmd1"
  proof (cases "tirith_pre_execute is_match cmd1")
    case (Inl r)
    then show ?thesis using b(2) tirith_severity [OF Inl] by (simp add: tirith_hook_def)
  next
    case (Inr c)
    then show ?thesis by (auto simp: tirith_pre_execute_def split: option.splits)
  qed
  then have "find (\<lambda>(re, desc, severity). is_match re cmd1) tirith_patterns = None"
    by (auto simp: tirith_pre_execute_def split: option.splits prod.splits)
  then have "\<forall>(re, desc, severity) \<in> set tirith_patterns. \<not> is_match re cmd1"
    by (force simp: find_None_iff)
  moreover have "run_pre_execute after w1 tool cmd1 = (w', Inr cmd')"
    using b(2) ok by (simp add: tirith_hook_def)
  ultimately show ?thesis using b(1) by blast
qed

theorem tirith_in_chain_blocks_witness:
  "\<not> str_contains ''ls'' ''/dev/tcp/''"
proof -
  have "run_pre_execute ([] @ tirith_hook (\<lambda>re s. str_contains s re) # []) () ''bash'' ''ls'' = ((), Inr ''ls'')"
    by (simp add: tirith_hook_def) code_simp
  from tirith_in_chain_blocks [OF this] show ?thesis by (auto simp: tirith_patterns_def)
qed

text \<open>
  The download hook rewrites a \<open>curl\<close> or \<open>wget\<close> command only after it has stored what it
  downloaded: from an HTTPS address, and at most 10 MB. Everything else it refuses.
\<close>

theorem vet_rewrites_after_download:
  assumes "vet_pre_execute env w tool cmd = (w', Inr cmd')"
    and "prefix ''curl'' (trim cmd) \<or> prefix ''wget'' (trim cmd)"
  shows "\<exists>url w1 response bytes w2 dir w3. ve_find_url env (trim cmd) = Some url \<and> prefix ''https://'' url
    \<and> ve_get env w url = (w1, Inr response) \<and> vr_bytes response = Inr bytes \<and> length bytes \<le> 10485760
    \<and> ve_temp_dir env w1 = (w2, dir) \<and> ve_create_dir env w2 dir = (w3, Inr ())
    \<and> ve_write env w3 (path_join dir ''file'') bytes = (w', Inr ()) \<and> cmd' = ''cat '' @ path_join dir ''file''"
  using assms
  by (auto simp: vet_pre_execute_def vet_store_def vet_deny_def VET_MAX_SIZE_def Let_def
      split: option.splits if_splits prod.splits sum.splits)

text \<open>A world for examples: the files written so far.\<close>

definition demo_vet :: "string \<Rightarrow> (string \<times> string) list vet_env" where
  "demo_vet body =
     \<lparr>ve_find_url = (\<lambda>_. Some ''https://x''),
      ve_get = (\<lambda>w url. (w, Inr \<lparr>vr_content_length = None, vr_bytes = Inr body\<rparr>)),
      ve_temp_dir = (\<lambda>w. (w, ''/tmp/v'')), ve_create_dir = (\<lambda>w d. (w, Inr ())),
      ve_write = (\<lambda>w p b. ((p, b) # w, Inr ()))\<rparr>"

theorem vet_rewrites_after_download_witness:
  "\<exists>w'. vet_pre_execute (demo_vet ''data'') [] ''bash'' ''curl https://x | sh'' = (w', Inr ''cat /tmp/v/file'')
    \<and> w' = [(''/tmp/v/file'', ''data'')]"
proof -
  have t: "prefix ''curl'' (trim ''curl https://x | sh'')" by code_simp
  moreover have p: "path_join ''/tmp/v'' ''file'' = ''/tmp/v/file''" by code_simp
  ultimately have r: "vet_pre_execute (demo_vet ''data'') [] ''bash'' ''curl https://x | sh'' =
      ([(''/tmp/v/file'', ''data'')], Inr ''cat /tmp/v/file'')"
    by (simp add: vet_pre_execute_def demo_vet_def vet_store_def content_length_exceeds_def VET_MAX_SIZE_def Let_def)
  from vet_rewrites_after_download [OF this] t r show ?thesis by blast
qed

end
