(* ===== verification/Security.thy ===== *)
theory Security
  imports Errors
begin

text \<open>
  \<open>core/security.rs\<close>: which addresses a model endpoint must not have, and the check of a base URL.
  The standard library's address type, its predicates, its parser and its display are written out;
  the \<open>url\<close> crate's parser and the resolver are arguments.
\<close>

type_synonym u8 = "8 word"

datatype ip_addr = V4 u8 u8 u8 u8 | V6 u16 u16 u16 u16 u16 u16 u16 u16

section \<open>Private and reserved addresses\<close>

fun is_documentation :: "u8 \<Rightarrow> u8 \<Rightarrow> u8 \<Rightarrow> u8 \<Rightarrow> bool" where
  "is_documentation a b c d \<longleftrightarrow>
     (a = 192 \<and> b = 0 \<and> c = 2) \<or> (a = 198 \<and> b = 51 \<and> c = 100) \<or> (a = 203 \<and> b = 0 \<and> c = 113)"

definition is_private_v4 :: "u8 \<Rightarrow> u8 \<Rightarrow> u8 \<Rightarrow> u8 \<Rightarrow> bool" where
  "is_private_v4 a b c d \<longleftrightarrow>
     a = 127 \<or> (a = 0 \<and> b = 0 \<and> c = 0 \<and> d = 0) \<or> (224 \<le> a \<and> a \<le> 239) \<or> is_documentation a b c d
     \<or> a = 10 \<or> (a = 172 \<and> 16 \<le> b \<and> b \<le> 31) \<or> (a = 192 \<and> b = 168) \<or> (a = 169 \<and> b = 254)
     \<or> a = 127 \<or> a = 0"

definition is_ipv4_mapped_private ::
  "u16 \<Rightarrow> u16 \<Rightarrow> u16 \<Rightarrow> u16 \<Rightarrow> u16 \<Rightarrow> u16 \<Rightarrow> u16 \<Rightarrow> u16 \<Rightarrow> bool" where
  "is_ipv4_mapped_private s0 s1 s2 s3 s4 s5 s6 s7 \<longleftrightarrow>
     s0 = 0 \<and> s1 = 0 \<and> s2 = 0 \<and> s3 = 0 \<and> s4 = 0 \<and> s5 = 0xffff \<and>
     is_private_v4 (ucast (drop_bit 8 s6)) (ucast (and s6 0xff)) (ucast (drop_bit 8 s7)) (ucast (and s7 0xff))"

fun is_private_or_reserved :: "ip_addr \<Rightarrow> bool" where
  "is_private_or_reserved (V4 a b c d) = is_private_v4 a b c d"
| "is_private_or_reserved (V6 s0 s1 s2 s3 s4 s5 s6 s7) \<longleftrightarrow>
     (s0 = 0 \<and> s1 = 0 \<and> s2 = 0 \<and> s3 = 0 \<and> s4 = 0 \<and> s5 = 0 \<and> s6 = 0 \<and> s7 = 1)
     \<or> (s0 = 0 \<and> s1 = 0 \<and> s2 = 0 \<and> s3 = 0 \<and> s4 = 0 \<and> s5 = 0 \<and> s6 = 0 \<and> s7 = 0)
     \<or> and s0 0xff00 = 0xff00 \<or> and s0 0xfe00 = 0xfc00 \<or> and s0 0xffc0 = 0xfe80
     \<or> is_ipv4_mapped_private s0 s1 s2 s3 s4 s5 s6 s7"

section \<open>Reading an address\<close>

text \<open>
  \<open>host.parse::<IpAddr>()\<close>. A reader takes the text and returns a value with the rest, or fails
  and leaves the text as it was.
\<close>

type_synonym 'a reader = "string \<Rightarrow> ('a \<times> string) option"

definition hex_val :: "char \<Rightarrow> nat option" where
  "hex_val c =
     (if is_digit c then Some (digit_val c)
      else if 97 \<le> byte c \<and> byte c \<le> 102 then Some (byte c - 87)
      else if 65 \<le> byte c \<and> byte c \<le> 70 then Some (byte c - 55) else None)"

definition to_digit :: "nat \<Rightarrow> char \<Rightarrow> nat option" where
  "to_digit radix c = (case hex_val c of Some v \<Rightarrow> if v < radix then Some v else None | None \<Rightarrow> None)"

text \<open>\<open>read_number radix max_digits allow_zero_prefix max_value\<close>.\<close>

definition read_number :: "nat \<Rightarrow> nat \<Rightarrow> bool \<Rightarrow> nat \<Rightarrow> nat reader" where
  "read_number radix max_digits allow_zero_prefix max_value s =
     (let ds = takeWhile (\<lambda>c. to_digit radix c \<noteq> None) s;
          v = foldl (\<lambda>acc c. acc * radix + the (to_digit radix c)) 0 ds
      in if ds = [] \<or> length ds > max_digits \<or> v > max_value
            \<or> (\<not> allow_zero_prefix \<and> hd ds = CHR ''0'' \<and> length ds > 1)
         then None else Some (v, drop (length ds) s))"

definition read_given_char :: "char \<Rightarrow> unit reader" where
  "read_given_char c s = (case s of d # r \<Rightarrow> if d = c then Some ((), r) else None | [] \<Rightarrow> None)"

definition read_separator :: "char \<Rightarrow> nat \<Rightarrow> 'a reader \<Rightarrow> 'a reader" where
  "read_separator sep index inner s =
     (if index > 0 then Option.bind (read_given_char sep s) (\<lambda>(_, r). inner r) else inner s)"

definition read_octet :: "nat \<Rightarrow> nat reader" where
  "read_octet i = read_separator (CHR ''.'') i (read_number 10 3 False 255)"

definition read_ipv4 :: "(u8 \<times> u8 \<times> u8 \<times> u8) reader" where
  "read_ipv4 s =
     Option.bind (read_octet 0 s) (\<lambda>(a, s1).
     Option.bind (read_octet 1 s1) (\<lambda>(b, s2).
     Option.bind (read_octet 2 s2) (\<lambda>(c, s3).
     Option.bind (read_octet 3 s3) (\<lambda>(d, s4).
       Some ((of_nat a, of_nat b, of_nat c, of_nat d), s4)))))"

text \<open>
  \<open>read_groups i limit s\<close>: the groups from the \<open>i\<close>-th of \<open>limit\<close> on, whether an embedded
  IPv4 address ended them, and the rest of the text.
\<close>

function read_groups :: "nat \<Rightarrow> nat \<Rightarrow> string \<Rightarrow> u16 list \<times> bool \<times> string" where
  "read_groups i limit s =
     (if i \<ge> limit then ([], False, s)
      else
        let v4 = (if i + 1 < limit then read_separator (CHR '':'') i read_ipv4 s else None)
        in case v4 of
             Some ((a, b, c, d), r) \<Rightarrow>
               ([of_nat (unat a * 256 + unat b), of_nat (unat c * 256 + unat d)], True, r)
           | None \<Rightarrow>
             (case read_separator (CHR '':'') i (read_number 16 4 True 65535) s of
                Some (g, r) \<Rightarrow>
                  (let (gs, v, r2) = read_groups (i + 1) limit r in (of_nat g # gs, v, r2))
              | None \<Rightarrow> ([], False, s)))"
  by pat_completeness auto
termination
  by (relation "measure (\<lambda>(i, limit, s). limit - i)") auto

declare read_groups.simps [simp del]

definition v6_of :: "u16 list \<Rightarrow> ip_addr" where
  "v6_of g = V6 (g ! 0) (g ! 1) (g ! 2) (g ! 3) (g ! 4) (g ! 5) (g ! 6) (g ! 7)"

definition read_ipv6 :: "ip_addr reader" where
  "read_ipv6 s =
     (let (head, head_ipv4, r) = read_groups 0 8 s
      in if length head = 8 then Some (v6_of head, r)
         else if head_ipv4 then None
         else
           Option.bind (read_given_char (CHR '':'') r) (\<lambda>(_, r1).
           Option.bind (read_given_char (CHR '':'') r1) (\<lambda>(_, r2).
             let (tail, _, r3) = read_groups 0 (8 - (length head + 1)) r2
             in Some (v6_of (head @ replicate (8 - length head - length tail) 0 @ tail), r3))))"

definition parse_ip :: "string \<Rightarrow> ip_addr option" where
  "parse_ip s =
     (case (case read_ipv4 s of Some ((a, b, c, d), r) \<Rightarrow> Some (V4 a b c d, r) | None \<Rightarrow> read_ipv6 s) of
        Some (ip, []) \<Rightarrow> Some ip
      | _ \<Rightarrow> None)"

definition trim_brackets :: "string \<Rightarrow> string" where
  "trim_brackets host =
     rev (dropWhile (\<lambda>c. c = CHR '']'') (rev (dropWhile (\<lambda>c. c = CHR ''['') host)))"

definition is_private_ip :: "string \<Rightarrow> bool" where
  "is_private_ip raw =
     (let host = trim_brackets raw
      in if host = ''localhost'' \<or> host = ''127.0.0.1'' \<or> host = ''::1'' then True
         else (case parse_ip host of Some ip \<Rightarrow> is_private_or_reserved ip | None \<Rightarrow> False))"

section \<open>Base URLs\<close>

definition show_hex_digit :: "nat \<Rightarrow> char" where
  "show_hex_digit d = (if d < 10 then digit_char d else char_of (d + 87))"

fun show_hex :: "nat \<Rightarrow> string" where
  "show_hex n = (if n < 16 then [show_hex_digit n] else show_hex (n div 16) @ [show_hex_digit (n mod 16)])"

declare show_hex.simps [simp del]

definition show_v4 :: "u8 \<Rightarrow> u8 \<Rightarrow> u8 \<Rightarrow> u8 \<Rightarrow> string" where
  "show_v4 a b c d = str_join ''.'' (map (\<lambda>x. show_nat (unat x)) [a, b, c, d])"

text \<open>Start and length of the first longest run of zero groups.\<close>

fun zero_span :: "nat \<Rightarrow> u16 list \<Rightarrow> nat \<times> nat \<Rightarrow> nat \<times> nat \<Rightarrow> nat \<times> nat" where
  "zero_span i [] current longest = longest"
| "zero_span i (g # gs) current longest =
     (if g = 0 then
        (let c = (if snd current = 0 then (i, 1) else (fst current, snd current + 1))
         in zero_span (i + 1) gs c (if snd c > snd longest then c else longest))
      else zero_span (i + 1) gs (0, 0) longest)"

definition show_groups :: "u16 list \<Rightarrow> string" where
  "show_groups gs = str_join '':'' (map (\<lambda>g. show_hex (unat g)) gs)"

fun show_ip :: "ip_addr \<Rightarrow> string" where
  "show_ip (V4 a b c d) = show_v4 a b c d"
| "show_ip (V6 s0 s1 s2 s3 s4 s5 s6 s7) =
     (let gs = [s0, s1, s2, s3, s4, s5, s6, s7]
      in if take 6 gs = [0, 0, 0, 0, 0, 0xffff] then
           ''::ffff:'' @ show_v4 (ucast (drop_bit 8 s6)) (ucast s6) (ucast (drop_bit 8 s7)) (ucast s7)
         else
           let (start, len) = zero_span 0 gs (0, 0) (0, 0)
           in if len > 1 then show_groups (take start gs) @ ''::'' @ show_groups (drop (start + len) gs)
              else show_groups gs)"

record url_parts =
  url_scheme :: string
  url_host :: "string option"
  url_username :: string
  url_password :: "string option"

definition local_host :: "string \<Rightarrow> bool" where
  "local_host host \<longleftrightarrow> host = ''localhost'' \<or> host = ''127.0.0.1'' \<or> host = ''::1''"

definition config_err :: "string \<Rightarrow> (lattice_error, 'a) res" where
  "config_err m = Inl (Config m)"

definition validate_base_url ::
  "(string \<Rightarrow> (string, url_parts) res) \<Rightarrow> (string \<Rightarrow> ip_addr list option) \<Rightarrow> string \<Rightarrow>
     (lattice_error, unit) res" where
  "validate_base_url url_parse to_socket_addrs url =
     (if url = [] then Inr ()
      else case url_parse url of
        Inl e \<Rightarrow> config_err (''Invalid base_url '' @ quoted url @ '': '' @ e)
      | Inr parsed \<Rightarrow>
          (let scheme = url_scheme parsed
           in if scheme \<noteq> ''http'' \<and> scheme \<noteq> ''https'' then
                config_err (''Invalid base_url '' @ quoted url @ '': scheme '' @ quoted scheme
                  @ '' is not allowed. Only http:// and https:// are permitted.'')
              else case url_host parsed of
                None \<Rightarrow> config_err (''Invalid base_url '' @ quoted url @ '': URL has scheme but no host'')
              | Some host \<Rightarrow>
                  (if host = [] then
                     config_err (''Invalid base_url '' @ quoted url @ '': URL has scheme but no host'')
                   else if scheme = ''http'' \<and> \<not> local_host host then
                     config_err (''Insecure base_url '' @ quoted url
                       @ '': HTTP is only allowed for localhost. Use HTTPS.'')
                   else if url_username parsed \<noteq> [] \<or> url_password parsed \<noteq> None then
                     config_err (''Invalid base_url '' @ quoted url
                       @ '': URL contains userinfo which is not allowed'')
                   else if \<not> suffix ''.local'' host \<and> \<not> local_host host then
                     (case to_socket_addrs (host @ '':443'') of
                        None \<Rightarrow> Inr ()
                      | Some addrs \<Rightarrow>
                          (case find is_private_or_reserved addrs of
                             Some ip \<Rightarrow>
                               config_err (''Insecure base_url '' @ quoted url @ '': hostname '' @ quoted host
                                 @ '' resolves to private/reserved IP '' @ show_ip ip
                                 @ ''. Use a public endpoint.'')
                           | None \<Rightarrow> Inr ()))
                   else Inr ())))"

section \<open>Properties\<close>

lemma config_err_ne [simp]: "config_err m \<noteq> Inr x"
  by (simp add: config_err_def)

text \<open>
  An IPv6 address that maps an IPv4 address is judged like the IPv4 address, so a private target
  cannot hide behind the mapped notation.
\<close>

theorem mapped_address_judged_alike:
  "is_private_or_reserved (V6 0 0 0 0 0 0xffff (of_nat (unat a * 256 + unat b)) (of_nat (unat c * 256 + unat d)))
     = is_private_or_reserved (V4 a b c d)"
proof -
  have hi: "ucast (drop_bit 8 (of_nat (p * 256 + q) :: u16)) = (of_nat p :: u8)"
    if "p < 256" "q < 256" for p q :: nat
    using that by (intro word_unat_eq_iff [THEN iffD2])
      (simp add: unsigned_ucast_eq unsigned_drop_bit_eq unsigned_of_nat drop_bit_nat_def take_bit_nat_def
        del: of_nat_add of_nat_mult)
  have lo: "ucast (and (of_nat (p * 256 + q) :: u16) 0xff) = (of_nat q :: u8)"
    if "p < 256" "q < 256" for p q :: nat
  proof -
    have m: "(0xff :: u16) = mask 8" by (simp add: mask_eq_exp_minus_1)
    show ?thesis unfolding m take_bit_eq_mask [symmetric]
      using that by (intro word_unat_eq_iff [THEN iffD2])
        (simp add: unsigned_ucast_eq unsigned_take_bit_eq unsigned_of_nat take_bit_nat_def
          del: of_nat_add of_nat_mult)
  qed
  have l: "unat x < 256" for x :: u8 using unsigned_less [of x, where 'a=nat] by simp
  show ?thesis by (simp add: is_ipv4_mapped_private_def hi lo l del: of_nat_add of_nat_mult)
qed

text \<open>
  A URL is accepted exactly when it is empty, or it parses with scheme \<open>https\<close>, or \<open>http\<close> on a
  local host, names a host, carries no user information, and does not resolve to a private address
  unless the host is local or ends in \<open>.local\<close>.
\<close>

theorem validate_base_url_accepts:
  "validate_base_url url_parse to_socket_addrs url = Inr () \<longleftrightarrow>
     url = [] \<or>
     (\<exists>u host. url_parse url = Inr u \<and> url_host u = Some host \<and> host \<noteq> [] \<and>
        (url_scheme u = ''https'' \<or> url_scheme u = ''http'' \<and> local_host host) \<and>
        url_username u = [] \<and> url_password u = None \<and>
        (local_host host \<or> suffix ''.local'' host \<or>
          (case to_socket_addrs (host @ '':443'') of
             Some addrs \<Rightarrow> list_all (\<lambda>ip. \<not> is_private_or_reserved ip) addrs | None \<Rightarrow> True)))"
  (is "?l = ?r")
proof (cases "url = []")
  case False
  show ?thesis
  proof (cases "url_parse url")
    case (Inr u)
    show ?thesis
    proof (cases "url_host u")
      case (Some host)
      have "find is_private_or_reserved addrs = None \<longleftrightarrow> list_all (\<lambda>ip. \<not> is_private_or_reserved ip) addrs"
        for addrs by (auto simp: find_None_iff list_all_iff)
      moreover have "\<not> list_all (\<lambda>ip. \<not> is_private_or_reserved ip) addrs"
        if "find is_private_or_reserved addrs = Some ip" for addrs ip
        using find_Some_memb [OF that] by (auto simp: list_all_iff)
      ultimately show ?thesis using False Inr Some
        by (cases "host = []"; cases "url_scheme u = ''http''"; cases "url_scheme u = ''https''")
          (auto simp: validate_base_url_def Let_def split: option.split)
    qed (use False Inr in \<open>auto simp: validate_base_url_def Let_def\<close>)
  qed (use False in \<open>auto simp: validate_base_url_def\<close>)
qed (simp add: validate_base_url_def)

text \<open>
  The loop-back exception for IPv6 is unreachable: a parser that keeps the brackets of an IPv6
  host, as the \<open>url\<close> crate documents for \<open>host_str\<close>, has \<open>http://[::1]\<close> rejected as insecure.
\<close>

theorem ipv6_loopback_rejected:
  assumes "url_parse url = Inr \<lparr>url_scheme = ''http'', url_host = Some ''[::1]'',
    url_username = [], url_password = None\<rparr>" and "url \<noteq> []"
  shows "validate_base_url url_parse to_socket_addrs url =
    Inl (Config (''Insecure base_url '' @ quoted url @ '': HTTP is only allowed for localhost. Use HTTPS.''))
    \<and> is_private_ip ''[::1]''"
proof -
  have "is_private_ip ''[::1]''" by (simp add: is_private_ip_def trim_brackets_def)
  then show ?thesis using assms by (simp add: validate_base_url_def local_host_def config_err_def)
qed

theorem ipv6_loopback_rejected_witness:
  "validate_base_url
     (\<lambda>_. Inr \<lparr>url_scheme = ''http'', url_host = Some ''[::1]'', url_username = [], url_password = None\<rparr>)
     (\<lambda>_. None) ''http://[::1]:11434'' =
   Inl (Config (''Insecure base_url '' @ quoted ''http://[::1]:11434''
     @ '': HTTP is only allowed for localhost. Use HTTPS.''))"
  by (rule ipv6_loopback_rejected [THEN conjunct1]) simp_all

end
