(* ===== verification/Sandbox.thy ===== *)
theory Sandbox
  imports Hook Security
begin

text \<open>
  \<open>tools/sandbox.rs\<close>: which paths may be read and written, which commands may run and which addresses
  may be fetched. \<open>canon\<close> is \<open>std::fs::canonicalize\<close> (\<open>None\<close> when it fails) and \<open>cwd\<close> the current
  directory, both of the file system at the moment of the check; the parser of the url crate is a
  parameter. The Landlock settings only reach the kernel and the audit log only records; neither is
  modelled.
\<close>

section \<open>Configuration\<close>

record 'w sandbox_config =
  sb_hook_chain :: "'w hook_chain option"
  sb_read_allowlist :: "string list"
  sb_write_allowlist :: "string list"
  sb_sensitive_files :: "string list"
  sb_max_read_size :: nat
  sb_max_write_size :: nat
  sb_max_http_response_size :: nat
  sb_command_allowlist :: "string list"
  sb_max_command_timeout :: u32
  sb_label :: string

definition default_sensitive :: "string list" where
  "default_sensitive =
     [''.env'', ''.env.local'', ''.env.development'', ''.env.production'', ''.env.staging'', ''.env.test'',
      ''.env.*'', ''credentials.json'', ''.aws/credentials'', ''.aws/config'', ''.kube/config'',
      ''.gcp/service-account.json'', ''.azure/credentials'', ''.ssh/id_rsa'', ''.ssh/id_ed25519'',
      ''.ssh/id_ecdsa'', ''.ssh/id_*'', ''.ssh/authorized_keys'', ''.ssh/config'', ''.gnupg'', ''.npmrc'',
      ''.dockercfg'', ''.pypirc'', ''.gem/credentials'', ''.netrc'', ''.git/config'', ''.git/credentials'',
      ''*.pem'', ''*.key'', ''*.p12'', ''*.pfx'', ''secrets'', ''id_rsa'', ''id_ed25519'']"

definition sandbox_default :: "'w sandbox_config" where
  "sandbox_default =
     \<lparr>sb_hook_chain = None, sb_read_allowlist = [], sb_write_allowlist = [],
      sb_sensitive_files = default_sensitive,
      sb_max_read_size = 10 * 1024 * 1024, sb_max_write_size = 1024 * 1024,
      sb_max_http_response_size = 10 * 1024 * 1024,
      sb_command_allowlist = [''grep'', ''find'', ''ls'', ''ps''], sb_max_command_timeout = 30,
      sb_label = ''strict''\<rparr>"

definition permissive :: "'w sandbox_config" where
  "permissive = sandbox_default\<lparr>sb_read_allowlist := [], sb_write_allowlist := [],
     sb_command_allowlist := [], sb_label := ''permissive''\<rparr>"

definition project_dirs :: "string list \<Rightarrow> string list \<Rightarrow> 'w sandbox_config" where
  "project_dirs write_dirs dev_commands =
     sandbox_default\<lparr>sb_write_allowlist := write_dirs, sb_command_allowlist := dev_commands\<rparr>"

section \<open>Paths\<close>

definition resolve_path :: "(string \<Rightarrow> string option) \<Rightarrow> string \<Rightarrow> string" where
  "resolve_path canon path = unwrap_or (canon path) path"

definition is_path_prefix :: "string \<Rightarrow> string \<Rightarrow> bool" where
  "is_path_prefix check_path prefix_path =
     (let check_comps = components check_path; prefix_comps = components prefix_path
      in if length prefix_comps \<ge> length check_comps then False
         else list_all2 (=) (take (length prefix_comps) check_comps) prefix_comps)"

definition matches_allowlist :: "string option \<Rightarrow> string \<Rightarrow> string list \<Rightarrow> bool" where
  "matches_allowlist cwd check_path allowlist =
     list_ex (\<lambda>prefix_path.
       path_eq check_path prefix_path \<or> is_path_prefix check_path prefix_path \<or>
       (case cwd of
          Some dir \<Rightarrow> (let full = path_join dir prefix_path
                     in path_eq check_path full \<or> is_path_prefix check_path full)
        | None \<Rightarrow> False)) allowlist"

text \<open>The middle segments of a pattern, each searched for behind the one before.\<close>

fun middle_match :: "string \<Rightarrow> string list \<Rightarrow> bool" where
  "middle_match rest [] \<longleftrightarrow> True"
| "middle_match rest (seg # segs) \<longleftrightarrow>
     (if seg = [] then middle_match rest segs
      else case str_find rest seg of
             Some pos \<Rightarrow> middle_match (drop (pos + length seg) rest) segs
           | None \<Rightarrow> False)"

definition component_matches_pattern :: "string \<Rightarrow> string \<Rightarrow> bool" where
  "component_matches_pattern compn pattern =
     (if CHR ''*'' \<notin> set pattern then compn = pattern
      else
        let segments = str_split (CHR ''*'') pattern
        in (hd segments = [] \<or> prefix (hd segments) compn) \<and>
           (length segments > 1 \<and> last segments \<noteq> [] \<longrightarrow> suffix (last segments) compn) \<and>
           middle_match compn (butlast (tl segments)))"

definition normal_components :: "string \<Rightarrow> string list" where
  "normal_components path = List.map_filter (\<lambda>c. case c of Normal s \<Rightarrow> Some s | _ \<Rightarrow> None) (components path)"

definition windows :: "nat \<Rightarrow> 'a list \<Rightarrow> 'a list list" where
  "windows n xs = map (\<lambda>i. take n (drop i xs)) [0..<length xs + 1 - n]"

definition path_matches_sensitive :: "string \<Rightarrow> string \<Rightarrow> bool" where
  "path_matches_sensitive path pattern =
     (let parts = str_split slash pattern; comps = normal_components path
      in if comps = [] then False
         else if length parts = 1 then list_ex (\<lambda>c. component_matches_pattern c (hd parts)) comps
         else list_ex (\<lambda>window. list_all (\<lambda>(a, b). component_matches_pattern a b) (zip window parts))
                (windows (length parts) comps))"

definition check_read ::
  "(string \<Rightarrow> string option) \<Rightarrow> string option \<Rightarrow> 'w sandbox_config \<Rightarrow> string \<Rightarrow> (string, unit) res" where
  "check_read canon cwd sb path =
     (let check_path = resolve_path canon path
      in if str_contains path ''..'' then Inl (''Sandbox: path '' @ quoted path @ '' contains '' @ quoted ''..'')
         else case find (path_matches_sensitive check_path) (sb_sensitive_files sb) of
           Some sensitive \<Rightarrow>
             Inl (''Sandbox: reading '' @ quoted path @ '' is blocked (matches sensitive pattern ''
               @ quoted sensitive @ '')'')
         | None \<Rightarrow>
             (if sb_read_allowlist sb \<noteq> [] \<and> \<not> matches_allowlist cwd check_path (sb_read_allowlist sb) then
                Inl (''Sandbox: read from '' @ quoted path @ '' is not in read allowlist: ''
                  @ debug_strs (sb_read_allowlist sb))
              else Inr ()))"

definition check_write ::
  "(string \<Rightarrow> string option) \<Rightarrow> string option \<Rightarrow> 'w sandbox_config \<Rightarrow> string \<Rightarrow> (string, unit) res" where
  "check_write canon cwd sb path =
     (let check_path = resolve_path canon path
      in if str_contains path ''..'' then Inl (''Sandbox: path '' @ quoted path @ '' contains '' @ quoted ''..'')
         else case find (path_matches_sensitive check_path) (sb_sensitive_files sb) of
           Some sensitive \<Rightarrow>
             Inl (''Sandbox: writing '' @ quoted path @ '' is blocked (matches sensitive pattern ''
               @ quoted sensitive @ '')'')
         | None \<Rightarrow>
             (if sb_write_allowlist sb \<noteq> [] \<and> \<not> matches_allowlist cwd check_path (sb_write_allowlist sb) then
                Inl (''Sandbox: write to '' @ quoted path @ '' is not in write allowlist: ''
                  @ debug_strs (sb_write_allowlist sb))
              else Inr ()))"

section \<open>Commands\<close>

definition command_matches_allowlist :: "string \<Rightarrow> string \<Rightarrow> bool" where
  "command_matches_allowlist cmd entry =
     (let cmd_tokens = take 4 (split_whitespace cmd); entry_tokens = split_whitespace entry
      in if cmd_tokens = [] then False
         else if length entry_tokens = 1 then hd cmd_tokens = hd entry_tokens
         else if length cmd_tokens < length entry_tokens then False
         else list_all2 (=) (take (length entry_tokens) cmd_tokens) entry_tokens)"

definition shell_metas :: "string list" where
  "shell_metas =
     [''&'', '';'', ''|'', ''&&'', ''||'', ''$('', [CHR 0x60], [newline], [carriage_return], ''>'', ''<'']"

definition ansi_c_quote :: string where "ansi_c_quote = [CHR ''$'', CHR 0x27]"

definition check_command_inner :: "'w sandbox_config \<Rightarrow> string \<Rightarrow> (string, unit) res" where
  "check_command_inner sb cmd =
     (if str_contains cmd ansi_c_quote then
        Inl (''Sandbox: command contains ANSI-C quoting ('' @ ansi_c_quote @ ''...'' @ [CHR 0x27]
          @ '') which may expand to shell metacharacters'')
      else if str_contains (to_uppercase cmd) ''PATH='' \<or> str_contains (to_uppercase cmd) ''LD_PRELOAD='' then
        Inl ''Sandbox: command contains environment variable override (PATH= or LD_PRELOAD=) which is not allowed''
      else case find (str_contains cmd) shell_metas of
        Some meta \<Rightarrow> Inl (''Sandbox: command contains dangerous shell metacharacter '' @ quoted meta)
      | None \<Rightarrow>
          (if sb_command_allowlist sb = [] then Inr ()
           else if split_whitespace cmd = [] then Inl ''Sandbox: empty command''
           else if \<not> list_ex (command_matches_allowlist cmd) (sb_command_allowlist sb) then
             Inl (''Sandbox: command '' @ quoted (trim cmd) @ '' does not match any allowlist entry. Allowed: ''
               @ debug_strs (sb_command_allowlist sb))
           else Inr ()))"

definition check_command :: "'w sandbox_config \<Rightarrow> 'w \<Rightarrow> string \<Rightarrow> 'w \<times> (string, unit) res" where
  "check_command sb w raw =
     (let cmd = trim raw
      in case sb_hook_chain sb of
           None \<Rightarrow> (w, check_command_inner sb cmd)
         | Some chain \<Rightarrow>
             (case run_pre_execute chain w ''bash'' cmd of
                (w1, Inr modified) \<Rightarrow> (w1, check_command_inner sb modified)
              | (w1, Inl reason) \<Rightarrow>
                  (w1, Inl (''Sandbox: command blocked by HookChain: ['' @ hd_hook reason @ ''] ''
                    @ hd_reason reason @ '' (severity='' @ show_severity (hd_severity reason) @ '')''))))"

section \<open>Addresses\<close>

definition rebinding_domains :: "string list" where
  "rebinding_domains = [''nip.io'', ''xip.io'']"

definition check_url ::
  "(string \<Rightarrow> (string, url_parts) res) \<Rightarrow> string \<Rightarrow> (string, unit) res" where
  "check_url url_parse url =
     (case url_parse url of
        Inl e \<Rightarrow> Inl (''invalid URL: '' @ e)
      | Inr parsed \<Rightarrow>
          (let scheme = url_scheme parsed; host = unwrap_or (url_host parsed) []
           in if list_ex (\<lambda>d. host = d \<or> suffix (''.'' @ d) host) rebinding_domains then
                Inl (''Sandbox: URL not allowed: '' @ url @ '' (DNS rebinding domain '' @ quoted host @ '' blocked)'')
              else if scheme = ''https'' then
                (if is_private_ip host then Inl (''Sandbox: HTTPS URL not allowed: '' @ url @ '' (private IP)'')
                 else Inr ())
              else if scheme = ''http'' \<and> (host = ''localhost'' \<or> host = ''127.0.0.1'' \<or> host = ''[::1]'') then Inr ()
              else Inl (''Sandbox: URL not allowed: '' @ url
                @ ''. Only https:// and http://localhost are permitted.'')))"

section \<open>Patterns against a reference matcher\<close>

text \<open>
  The reference: a star stands for any characters, every other character for itself. The code
  compares the first and the last segment and searches the middle ones from the left.
\<close>

fun glob :: "string \<Rightarrow> string \<Rightarrow> bool" where
  "glob [] s \<longleftrightarrow> s = []"
| "glob (c # p) s \<longleftrightarrow>
     (if c = CHR ''*'' then list_ex (\<lambda>k. glob p (drop k s)) [0..<Suc (length s)]
      else s \<noteq> [] \<and> hd s = c \<and> glob p (tl s))"

text \<open>The segments of a pattern in order, anything between them, the last at the end.\<close>

fun segs_match :: "string list \<Rightarrow> string \<Rightarrow> bool" where
  "segs_match [] s \<longleftrightarrow> True"
| "segs_match [seg] s \<longleftrightarrow> suffix seg s"
| "segs_match (seg # segs) s \<longleftrightarrow> (\<exists>x y. s = x @ seg @ y \<and> segs_match segs y)"

lemma segs_match_extend: "segs_match segs y \<Longrightarrow> segs_match segs (x @ y)"
proof (induction segs y rule: segs_match.induct)
  case (3 seg seg' segs s)
  then obtain u v where "s = u @ seg @ v" "segs_match (seg' # segs) v" by auto
  then have "x @ s = (x @ u) @ seg @ v \<and> segs_match (seg' # segs) v" by simp
  then show ?case unfolding segs_match.simps by blast
qed (auto simp: suffix_def)

lemma segs_match_drop: "segs_match segs (drop k s) \<Longrightarrow> segs_match segs s"
  using segs_match_extend [of segs "drop k s" "take k s"] by simp

lemma glob_literal_append:
  "CHR ''*'' \<notin> set seg \<Longrightarrow> glob (seg @ p) s \<longleftrightarrow> (\<exists>y. s = seg @ y \<and> glob p y)"
proof (induction seg arbitrary: s)
  case (Cons c seg)
  then show ?case by (cases s) auto
qed simp

lemma glob_star: "glob (CHR ''*'' # p) s \<longleftrightarrow> (\<exists>k \<le> length s. glob p (drop k s))"
  by (auto simp: list_ex_iff less_Suc_eq_le simp del: upt_Suc)

lemma glob_segs:
  "glob p s \<Longrightarrow> (case str_split (CHR ''*'') p of
      seg # segs \<Rightarrow> (\<exists>y. s = seg @ y \<and> (if segs = [] then y = [] else segs_match segs y)) | [] \<Rightarrow> False)"
proof (induction "length p" arbitrary: p s rule: less_induct)
  case less
  show ?case
  proof (cases "CHR ''*'' \<in> set p")
    case False
    then show ?thesis using less.prems glob_literal_append [of p "[]" s] by (simp add: str_split_id)
  next
    case True
    then obtain seg q where p: "p = seg @ CHR ''*'' # q" "CHR ''*'' \<notin> set seg" using split_list_first by metis
    then obtain y where y1: "s = seg @ y" "glob (CHR ''*'' # q) y" using less.prems by (auto simp: glob_literal_append)
    then obtain k where y: "s = seg @ y" "glob q (drop k y)" unfolding glob_star by blast
    obtain seg' segs where q: "str_split (CHR ''*'') q = seg' # segs" by (metis list.exhaust str_split_nonempty)
    with less.hyps [of q "drop k y"] y(2) p obtain z where z: "drop k y = seg' @ z"
      "if segs = [] then z = [] else segs_match segs z" by auto
    have "segs_match (seg' # segs) (drop k y)"
    proof (cases segs)
      case (Cons a as)
      then have "drop k y = [] @ seg' @ z \<and> segs_match (a # as) z" using z by simp
      then show ?thesis unfolding Cons segs_match.simps by blast
    qed (use z in simp)
    then have "segs_match (seg' # segs) y" by (rule segs_match_drop)
    then show ?thesis using y(1) p q by (auto simp: str_split_append)
  qed
qed

lemma str_find_le: "str_find (x @ p @ y) p = Some pos \<Longrightarrow> pos \<le> length x"
proof (induction x arbitrary: pos)
  case Nil
  have "prefix p (p @ y)" by simp
  with Nil show ?case by (cases "p @ y") (auto split: if_splits)
qed (auto split: if_splits)

text \<open>The search from the left finds every sequence of segments there is.\<close>

lemma middle_match_greedy:
  "segs_match (mids @ [l]) s \<Longrightarrow> middle_match s mids"
proof (induction mids arbitrary: s)
  case (Cons seg mids)
  obtain x y where s: "s = x @ seg @ y" "segs_match (mids @ [l]) y"
    using Cons.prems by (cases "mids @ [l]") auto
  show ?case
  proof (cases "seg = []")
    case True
    then show ?thesis using Cons.IH segs_match_extend [OF s(2), of x] s(1) by simp
  next
    case False
    obtain pos where pos: "str_find s seg = Some pos"
      using s(1) str_find_None_iff [of s seg] by (cases "str_find s seg") auto
    then have "pos \<le> length x" using str_find_le s(1) by blast
    then have "drop (pos + length seg) s = drop (pos + length seg) (x @ seg) @ y" using s(1) by simp
    then have "segs_match (mids @ [l]) (drop (pos + length seg) s)"
      using segs_match_extend [OF s(2), of "drop (pos + length seg) (x @ seg)"] by simp
    then show ?thesis using Cons.IH False pos by simp
  qed
qed simp

lemma segs_match_last: "segs_match (mids @ [l]) s \<Longrightarrow> suffix l s"
proof (induction mids arbitrary: s)
  case (Cons seg mids)
  then obtain x y where "s = x @ seg @ y" "segs_match (mids @ [l]) y" by (cases "mids @ [l]") auto
  with Cons.IH have "suffix l y" "suffix y s" by (auto simp: suffix_def)
  then show ?case by (rule suffix_order.trans)
qed simp

lemma segs_match_prepend: "segs_match (mids @ [l]) y \<Longrightarrow> segs_match (mids @ [l]) (seg @ y)"
  by (rule segs_match_extend)

lemma glob_component_matches: "glob pattern c \<Longrightarrow> component_matches_pattern c pattern"
proof (cases "CHR ''*'' \<in> set pattern")
  case False
  assume "glob pattern c"
  then show ?thesis using False glob_literal_append [of pattern "[]" c] by (simp add: component_matches_pattern_def)
next
  case True
  assume g: "glob pattern c"
  obtain seg segs where p: "str_split (CHR ''*'') pattern = seg # segs" by (metis list.exhaust str_split_nonempty)
  have "segs \<noteq> []"
  proof
    assume "segs = []"
    then have "pattern = seg" using p str_join_split [of "CHR ''*''" pattern] by simp
    moreover have "CHR ''*'' \<notin> set seg" using p str_split_no_delim [of seg "CHR ''*''" pattern] by simp
    ultimately show False using True by simp
  qed
  then obtain mids l where s: "segs = mids @ [l]" by (metis append_butlast_last_id)
  obtain y where y: "c = seg @ y" "segs_match (mids @ [l]) y" using glob_segs [OF g] p s by auto
  have "segs_match (mids @ [l]) c" using y by (simp add: segs_match_prepend)
  then show ?thesis using True p s y(1) middle_match_greedy segs_match_last
    by (simp add: component_matches_pattern_def)
qed

section \<open>Allow lists\<close>

lemma is_path_prefix_iff: "is_path_prefix p q \<longleftrightarrow> strict_prefix (components q) (components p)"
proof -
  let ?p = "components p" and ?q = "components q"
  have "strict_prefix ?q ?p \<longleftrightarrow> length ?q < length ?p \<and> take (length ?q) ?p = ?q"
    by (metis append_eq_conv_conj prefix_def prefix_length_less strict_prefix_def take_is_prefix less_irrefl)
  then show ?thesis by (simp add: is_path_prefix_def Let_def list_all2_eq [symmetric] not_le)
qed

lemma under_prefix: "path_eq p q \<or> is_path_prefix p q \<longleftrightarrow> prefix (components q) (components p)"
  by (auto simp: is_path_prefix_iff path_eq_def prefix_order.le_less)

lemma matches_allowlist_iff:
  "matches_allowlist cwd path allow \<longleftrightarrow>
     (\<exists>entry \<in> set allow. prefix (components entry) (components path) \<or>
        (\<exists>dir. cwd = Some dir \<and> prefix (components (path_join dir entry)) (components path)))"
  unfolding matches_allowlist_def list_ex_iff Let_def disj_assoc [symmetric] under_prefix
  by (cases cwd) auto

lemma command_matches_iff:
  "command_matches_allowlist cmd entry \<longleftrightarrow>
     split_whitespace cmd \<noteq> [] \<and> length (split_whitespace entry) \<le> 4 \<and>
     prefix (split_whitespace entry) (split_whitespace cmd)"
proof -
  let ?c = "split_whitespace cmd" and ?e = "split_whitespace entry"
  have "prefix ?e ?c \<longleftrightarrow> length ?e \<le> length ?c \<and> take (length ?e) ?c = ?e"
    by (metis append_eq_conv_conj prefix_def prefix_length_le take_is_prefix)
  moreover have "hd (take 4 ?c) = hd ?e \<longleftrightarrow> take 1 ?c = ?e" if "length ?e = 1" "?c \<noteq> []"
    using that by (cases ?c; cases ?e) auto
  ultimately show ?thesis
    by (cases "?c = []") (auto simp: command_matches_allowlist_def Let_def list_all2_eq [symmetric] min_def)
qed

lemma window_memb: "mid \<noteq> [] \<Longrightarrow> mid \<in> set (windows (length mid) (pre @ mid @ post))"
  unfolding windows_def by (auto intro!: image_eqI [of _ _ "length pre"])

lemma glob_window_sensitive:
  assumes "normal_components path = pre @ mid @ post" and "list_all2 glob (str_split slash pattern) mid"
  shows "path_matches_sensitive path pattern"
proof -
  let ?parts = "str_split slash pattern"
  have l: "length ?parts = length mid" using assms(2) by (rule list_all2_lengthD)
  then have m: "mid \<noteq> []" using str_split_nonempty [of slash pattern] by fastforce
  then have ne: "normal_components path \<noteq> []" by (simp add: assms(1))
  have all: "list_all2 component_matches_pattern mid ?parts"
    using assms(2) by (auto simp: list_all2_conv_all_nth intro: glob_component_matches)
  show ?thesis
  proof (cases "length ?parts = 1")
    case True
    then obtain c q where "mid = [c]" "?parts = [q]" using l by (metis One_nat_def length_0_conv length_Suc_conv)
    then show ?thesis using all ne assms(1) by (auto simp: path_matches_sensitive_def)
  next
    case False
    have "mid \<in> set (windows (length ?parts) (normal_components path))"
      using window_memb [OF m, of pre post] assms(1) l by simp
    moreover have "list_all (\<lambda>(a, b). component_matches_pattern a b) (zip mid ?parts)"
      using all by (simp add: list_all2_iff list_all_iff)
    ultimately show ?thesis using False ne by (auto simp: path_matches_sensitive_def Let_def list_ex_iff)
  qed
qed

section \<open>Properties\<close>

text \<open>
  What a check promises of a path: no \<open>..\<close> in its text; no run of components of the resolved path
  matches a sensitive pattern part by part; and, under an allow list, the components of an entry, as
  given or under the current directory, start those of the resolved path.
\<close>

definition path_safe ::
  "(string \<Rightarrow> string option) \<Rightarrow> string option \<Rightarrow> string list \<Rightarrow> string list \<Rightarrow> string \<Rightarrow> bool" where
  "path_safe canon cwd sensitive allow path \<longleftrightarrow>
     \<not> sublist ''..'' path \<and>
     (\<forall>pattern \<in> set sensitive. \<forall>pre mid post.
        normal_components (resolve_path canon path) = pre @ mid @ post \<longrightarrow>
        \<not> list_all2 glob (str_split slash pattern) mid) \<and>
     (allow = [] \<or> (\<exists>entry \<in> set allow.
        prefix (components entry) (components (resolve_path canon path)) \<or>
        (\<exists>dir. cwd = Some dir \<and>
           prefix (components (path_join dir entry)) (components (resolve_path canon path)))))"

lemma not_sensitive:
  assumes "find (path_matches_sensitive path) sensitive = None" and "pattern \<in> set sensitive"
    and "normal_components path = pre @ mid @ post"
  shows "\<not> list_all2 glob (str_split slash pattern) mid"
  using assms glob_window_sensitive by (auto simp: find_None_iff)

lemma path_safe_checks:
  assumes "\<not> str_contains path ''..'' \<and> find (path_matches_sensitive (resolve_path canon path)) sensitive = None
    \<and> (allow = [] \<or> matches_allowlist cwd (resolve_path canon path) allow)"
  shows "path_safe canon cwd sensitive allow path"
proof -
  have "\<forall>pattern \<in> set sensitive. \<forall>pre mid post.
      normal_components (resolve_path canon path) = pre @ mid @ post \<longrightarrow> \<not> list_all2 glob (str_split slash pattern) mid"
    using not_sensitive assms by blast
  then show ?thesis using assms by (simp only: path_safe_def matches_allowlist_iff str_contains_iff simp_thms)
qed

lemma check_read_Inr:
  "check_read canon cwd sb path = Inr u \<longleftrightarrow>
     \<not> str_contains path ''..'' \<and> find (path_matches_sensitive (resolve_path canon path)) (sb_sensitive_files sb) = None
     \<and> (sb_read_allowlist sb = [] \<or> matches_allowlist cwd (resolve_path canon path) (sb_read_allowlist sb))"
  by (cases "find (path_matches_sensitive (resolve_path canon path)) (sb_sensitive_files sb)")
    (simp_all add: check_read_def Let_def)

lemma check_write_Inr:
  "check_write canon cwd sb path = Inr u \<longleftrightarrow>
     \<not> str_contains path ''..'' \<and> find (path_matches_sensitive (resolve_path canon path)) (sb_sensitive_files sb) = None
     \<and> (sb_write_allowlist sb = [] \<or> matches_allowlist cwd (resolve_path canon path) (sb_write_allowlist sb))"
  by (cases "find (path_matches_sensitive (resolve_path canon path)) (sb_sensitive_files sb)")
    (simp_all add: check_write_def Let_def)

text \<open>
  C15: a path that passes the check for reading or for writing is safe in the sense of \<open>path_safe\<close>: the
  sensitive patterns block everything that a glob matcher would match, and an allow list is compared
  at the boundaries of components, not of bytes.
\<close>

theorem checked_path_safe:
  assumes "if writing then check_write canon cwd sb path = Inr () else check_read canon cwd sb path = Inr ()"
  shows "path_safe canon cwd (sb_sensitive_files sb)
    (if writing then sb_write_allowlist sb else sb_read_allowlist sb) path"
proof (cases writing)
  case True
  then show ?thesis using assms by (simp add: check_write_Inr path_safe_checks)
next
  case False
  then show ?thesis using assms by (simp add: check_read_Inr path_safe_checks)
qed

theorem checked_path_safe_witness:
  "path_safe Some None [''*.pem''] [] ''/a/b.txt''"
proof -
  have "\<not> str_contains ''/a/b.txt'' ''..''" "\<not> path_matches_sensitive ''/a/b.txt'' ''*.pem''"
    by code_simp+
  then have "check_read Some None (sandbox_default\<lparr>sb_sensitive_files := [''*.pem'']\<rparr>) ''/a/b.txt'' = Inr ()"
    by (simp add: check_read_Inr sandbox_default_def resolve_path_def)
  then show ?thesis
    using checked_path_safe [of False Some None "sandbox_default\<lparr>sb_sensitive_files := [''*.pem'']\<rparr>" "''/a/b.txt''"]
    by (simp add: sandbox_default_def)
qed

text \<open>
  Without hooks, a command that passes contains none of the characters that separate, redirect or
  substitute in a shell, and its first words are the words of an entry of the allow list.
\<close>

theorem checked_command_plain:
  assumes "check_command sb w raw = (w', Inr ())" and "sb_hook_chain sb = None"
  shows "(\<forall>c \<in> {CHR ''&'', CHR '';'', CHR ''|'', CHR 0x60, newline, carriage_return, CHR ''>'', CHR ''<''}.
      c \<notin> set (trim raw))
    \<and> \<not> sublist ''$('' (trim raw) \<and> \<not> sublist ansi_c_quote (trim raw)
    \<and> (sb_command_allowlist sb = [] \<or> (\<exists>entry \<in> set (sb_command_allowlist sb).
         length (split_whitespace entry) \<le> 4 \<and> prefix (split_whitespace entry) (split_whitespace (trim raw))))"
proof -
  have ok: "check_command_inner sb (trim raw) = Inr ()" using assms by (simp add: check_command_def Let_def)
  then have n: "find (str_contains (trim raw)) shell_metas = None" "\<not> sublist ansi_c_quote (trim raw)"
    by (auto simp: check_command_inner_def str_contains_iff split: if_splits option.splits)
  have one: "c \<notin> set s" if "\<not> sublist [c] s" for c and s :: string
    using that by (auto simp: sublist_def in_set_conv_decomp)
  from n(1) have m: "\<not> sublist x (trim raw)" if "x \<in> set shell_metas" for x
    using that by (auto simp: find_None_iff str_contains_iff)
  have "sb_command_allowlist sb = [] \<or> list_ex (command_matches_allowlist (trim raw)) (sb_command_allowlist sb)"
    using ok by (auto simp: check_command_inner_def split: if_splits option.splits)
  then show ?thesis using n(2) m one
    by (auto simp: shell_metas_def list_ex_iff command_matches_iff)
qed

theorem checked_command_plain_witness:
  "prefix [''ls''] (split_whitespace (trim ''ls -la''))"
proof -
  have "trim ''ls -la'' = ''ls -la''" "split_whitespace ''ls -la'' = [''ls'', ''-la'']" "split_whitespace ''ls'' = [''ls'']"
    by code_simp+
  moreover have "find (str_contains ''ls -la'') shell_metas = None" "\<not> str_contains ''ls -la'' ansi_c_quote"
    by code_simp+
  moreover have "\<not> str_contains (to_uppercase ''ls -la'') ''PATH=''" "\<not> str_contains (to_uppercase ''ls -la'') ''LD_PRELOAD=''"
    by code_simp+
  ultimately have "check_command (sandbox_default\<lparr>sb_command_allowlist := [''ls'']\<rparr>) () ''ls -la'' = ((), Inr ())"
    by (simp add: check_command_def check_command_inner_def sandbox_default_def command_matches_allowlist_def)
  from checked_command_plain [OF this]
  have "prefix (split_whitespace ''ls'') (split_whitespace (trim ''ls -la''))"
    by (simp add: sandbox_default_def)
  moreover have "split_whitespace ''ls'' = [''ls'']" by code_simp
  ultimately show ?thesis by simp
qed

end
