(* ===== verification/Plugin.thy ===== *)
theory Plugin
  imports Agent Sandbox
begin

text \<open>
  \<open>plugin/mod.rs\<close>, \<open>plugin/bundle.rs\<close>, \<open>plugin/erased.rs\<close>, \<open>plugin/parse_utils.rs\<close> and
  \<open>plugin/erased_runner.rs\<close>: a plugin turns its input into a prompt and the model's answer into an
  output, a behaviour decides what to do with the answer, and the run loop ties both to an agent.

  The traits are records of functions. Everything the loop does outside itself goes through
  \<open>plugin_env\<close>: the agent (its operations return \<^const>\<open>None\<close> where they panic), the timer that may drop a
  request, the clock, the random numbers, and the text functions of \<open>serde_json\<close>. Hooks and memory are
  functions on the world \<open>'w\<close>, called in the code's order. A panic is a value that names its site.
\<close>

section \<open>Errors, actions and behaviours\<close>

datatype plugin_error =
  Parse string
| Validation string
| MissingTool string
| ContextExceeded u32
| MaxTurnsExceeded u32
| OutputTooLarge nat nat
| Escalated plugin_error u32
| Other string

fun plugin_error_display :: "plugin_error \<Rightarrow> string" where
  "plugin_error_display (Parse m) = ''Parse error: '' @ m"
| "plugin_error_display (Validation m) = ''Validation error: '' @ m"
| "plugin_error_display (MissingTool m) = ''Missing tool: '' @ m"
| "plugin_error_display (ContextExceeded n) = ''Context window exceeded: '' @ show_nat (unat n) @ '' tokens required''"
| "plugin_error_display (MaxTurnsExceeded n) = ''Max turns exceeded ('' @ show_nat (unat n) @ '')''"
| "plugin_error_display (OutputTooLarge n m) =
     ''Output too large: '' @ show_nat n @ '' bytes (max '' @ show_nat m @ '')''"
| "plugin_error_display (Escalated e n) =
     ''Escalated after '' @ show_nat (unat n) @ '' attempts: '' @ plugin_error_display e"
| "plugin_error_display (Other m) = m"

datatype action = ActDone | ActRetry

datatype error_action = ErrRetry | ErrAbort | ErrEscalate

record behavior =
  bh_decide :: "f64 \<Rightarrow> action"
  bh_on_error :: "plugin_error \<Rightarrow> u32 \<Rightarrow> error_action"

definition strict_behavior :: "f64 \<Rightarrow> u32 \<Rightarrow> string option \<Rightarrow> behavior" where
  "strict_behavior threshold max_retries escalate_to =
     \<lparr>bh_decide = (\<lambda>confidence. if f64_le threshold confidence then ActDone else ActRetry),
      bh_on_error = (\<lambda>_ attempt.
        if attempt < max_retries then ErrRetry
        else if escalate_to \<noteq> None then ErrEscalate
        else ErrAbort)\<rparr>"

definition strict_default :: behavior where
  "strict_default = strict_behavior (round_f64 0.7) 3 None"

definition yolo_behavior :: behavior where
  "yolo_behavior = \<lparr>bh_decide = (\<lambda>_. ActDone), bh_on_error = (\<lambda>_ _. ErrAbort)\<rparr>"

definition behavior_to_behavior_trait :: "behavior_mode \<Rightarrow> behavior" where
  "behavior_to_behavior_trait m =
     (case m of
        Strict threshold max_retries escalate_to \<Rightarrow> strict_behavior threshold max_retries escalate_to
      | Yolo _ \<Rightarrow> yolo_behavior)"

definition effective_sandbox :: "behavior_mode \<Rightarrow> 'w sandbox_config \<Rightarrow> 'w sandbox_config" where
  "effective_sandbox m base =
     (case m of
        Strict _ _ _ \<Rightarrow> base
      | Yolo EnforceCommandAllowlist \<Rightarrow>
          (if sb_command_allowlist base = []
           then base\<lparr>sb_command_allowlist := [''grep'', ''find'', ''ls'', ''ps'']\<rparr> else base)
      | Yolo NoBash \<Rightarrow> base\<lparr>sb_command_allowlist := []\<rparr>
      | Yolo (CustomSandbox allowed_commands) \<Rightarrow> base\<lparr>sb_command_allowlist := allowed_commands\<rparr>)"

record plugin_config =
  pc_max_turns :: u32
  pc_max_output_bytes :: nat
  pc_context_check :: bool
  pc_timeout_per_call_secs :: u64

definition plugin_config_default :: plugin_config where
  "plugin_config_default =
     \<lparr>pc_max_turns = 10, pc_max_output_bytes = 1048576, pc_context_check = True, pc_timeout_per_call_secs = 120\<rparr>"

section \<open>Reading the answer\<close>

definition strip_suffix :: "string \<Rightarrow> string \<Rightarrow> string option" where
  "strip_suffix p s = map_option rev (strip_prefix (rev p) (rev s))"

definition number_char :: "char \<Rightarrow> bool" where
  "number_char c \<longleftrightarrow> is_digit c \<or> c = CHR ''.'' \<or> c = CHR ''-''"

definition trim_to_number :: "string \<Rightarrow> string" where
  "trim_to_number s = rev (dropWhile (\<lambda>c. \<not> number_char c) (rev (dropWhile (\<lambda>c. \<not> number_char c) s)))"

text \<open>What one line says: the number after the colon that follows the quoted word.\<close>

definition line_confidence :: "string \<Rightarrow> f64 option" where
  "line_confidence line =
     (case str_find line (quoted ''confidence'') of
        None \<Rightarrow> None
      | Some i \<Rightarrow>
          let after = drop (i + length (quoted ''confidence'')) line
          in case str_find after '':'' of
               None \<Rightarrow> None
             | Some colon \<Rightarrow> parse_f64 (trim_to_number (trim (drop (colon + 1) after))))"

definition extract_confidence :: "string \<Rightarrow> f64" where
  "extract_confidence raw =
     (case List.map_filter line_confidence (str_lines raw) of
        [] \<Rightarrow> Fin 0
      | f # _ \<Rightarrow> f64_clamp01 f)"

definition strip_markdown_fence :: "string \<Rightarrow> string" where
  "strip_markdown_fence raw =
     (let trimmed = trim raw
      in case strip_prefix ''```json'' trimmed of
           Some rest \<Rightarrow> trim (unwrap_or (strip_suffix ''```'' rest) rest)
         | None \<Rightarrow>
             (case strip_prefix ''```'' trimmed of
                Some rest \<Rightarrow> trim (unwrap_or (strip_suffix ''```'' rest) rest)
              | None \<Rightarrow> trimmed))"

definition parse_json_from_response :: "(string \<Rightarrow> (string, json) res) \<Rightarrow> string \<Rightarrow> (plugin_error, json) res" where
  "parse_json_from_response from_str raw =
     (case from_str (strip_markdown_fence raw) of
        Inr v \<Rightarrow> Inr v
      | Inl e \<Rightarrow> Inl (Parse (e @ '' (response preview: '' @ take_chars 200 raw @ '')'')))"

section \<open>Plugins\<close>

text \<open>
  A typed plugin, and the plugin with \<open>serde_json\<close> values in place of its types. The conversions of
  the input and output types are derived code, hence parameters.
\<close>

record ('i, 'o) plugin =
  pl_name :: string
  pl_system_prompt :: string
  pl_system_prompt_delta :: "system_prompt_delta option"
  pl_to_prompt :: "'i \<Rightarrow> string"
  pl_parse_output :: "string \<Rightarrow> (plugin_error, 'o) res"
  pl_tools :: "tool_definition list"
  pl_preferred_model :: string
  pl_output_schema :: "json option"

record erased_plugin =
  ep_name :: string
  ep_system_prompt :: string
  ep_system_prompt_delta :: "system_prompt_delta option"
  ep_to_prompt_json :: "json \<Rightarrow> (plugin_error, string) res"
  ep_parse_output_json :: "string \<Rightarrow> (plugin_error, json) res"
  ep_tools :: "tool_definition list"
  ep_preferred_model :: string
  ep_output_schema :: "json option"

text \<open>The default bodies of the traits.\<close>

definition default_prompt_delta :: "string \<Rightarrow> system_prompt_delta option" where
  "default_prompt_delta prompt =
     (if trim prompt = [] then None
      else Some \<lparr>sd_template = prompt, sd_variables = [], sd_layer = AgentLayer\<rparr>)"

definition default_parse_output ::
  "(string \<Rightarrow> (string, json) res) \<Rightarrow> (json \<Rightarrow> (string, 'o) res) \<Rightarrow> string \<Rightarrow> (plugin_error, 'o) res" where
  "default_parse_output from_str from_value raw =
     and_then_r (parse_json_from_response from_str raw)
       (\<lambda>v. case from_value v of Inr x \<Rightarrow> Inr x | Inl e \<Rightarrow> Inl (Parse e))"

definition erase_with ::
  "string \<Rightarrow> string \<Rightarrow> (json \<Rightarrow> (string, 'i) res) \<Rightarrow> ('o \<Rightarrow> (string, json) res) \<Rightarrow> ('i, 'o) plugin \<Rightarrow> erased_plugin" where
  "erase_with on_input on_output from_value to_value p =
     \<lparr>ep_name = pl_name p, ep_system_prompt = pl_system_prompt p,
      ep_system_prompt_delta = pl_system_prompt_delta p,
      ep_to_prompt_json = (\<lambda>context.
        case from_value context of
          Inr typed \<Rightarrow> Inr (pl_to_prompt p typed)
        | Inl e \<Rightarrow> Inl (Parse (pl_name p @ on_input @ e))),
      ep_parse_output_json = (\<lambda>raw.
        and_then_r (pl_parse_output p raw) (\<lambda>typed.
          case to_value typed of
            Inr v \<Rightarrow> Inr v
          | Inl e \<Rightarrow> Inl (Parse (pl_name p @ on_output @ e)))),
      ep_tools = pl_tools p, ep_preferred_model = pl_preferred_model p, ep_output_schema = pl_output_schema p\<rparr>"

text \<open>The implementation for every typed plugin, and the adapter of the typed runner.\<close>

definition erase_plugin ::
  "(json \<Rightarrow> (string, 'i) res) \<Rightarrow> ('o \<Rightarrow> (string, json) res) \<Rightarrow> ('i, 'o) plugin \<Rightarrow> erased_plugin" where
  "erase_plugin = erase_with '': failed to deserialize input from context: '' '': failed to serialize output: ''"

definition erased_plugin_adapter ::
  "(json \<Rightarrow> (string, 'i) res) \<Rightarrow> ('o \<Rightarrow> (string, json) res) \<Rightarrow> ('i, 'o) plugin \<Rightarrow> erased_plugin" where
  "erased_plugin_adapter = erase_with '': '' '': ''"

section \<open>The world of a run\<close>

record run_result =
  rr_output :: string
  rr_turns :: u32
  rr_final_action :: action

datatype hook_event =
  OnStart string u32
| OnTurn u32 action
| OnErr u32 plugin_error
| OnComplete run_result

record ('a, 'w) plugin_agent =
  pa_set_system_prompt_delta :: "'a \<Rightarrow> system_prompt_delta option \<Rightarrow> 'a"
  pa_set_output_contract_delta :: "'a \<Rightarrow> system_prompt_delta option \<Rightarrow> 'a"
  pa_add_tools :: "'a \<Rightarrow> tool_definition list \<Rightarrow> 'a"
  pa_send_message_with_tools :: "'w \<Rightarrow> 'a \<Rightarrow> string \<Rightarrow> ('w \<times> 'a \<times> (string, string) res) option"

record ('a, 'w) plugin_env =
  pe_agent :: "('a, 'w) plugin_agent"
  pe_expired :: "'w \<Rightarrow> 'a \<Rightarrow> string \<Rightarrow> u64 \<Rightarrow> ('w \<times> 'a) option"
  pe_random :: "'w \<Rightarrow> 'w \<times> f64"
  pe_sleep :: "'w \<Rightarrow> nat \<Rightarrow> 'w"
  pe_now_ms :: "'w \<Rightarrow> 'w \<times> nat"
  pe_to_string :: "json \<Rightarrow> string"
  pe_to_string_pretty :: "json \<Rightarrow> string"

datatype panic_site = AgentPanicked | RawSliced string | SchemaSliced string | BackoffOverflow

datatype plugin_outcome = Returned "(plugin_error, run_result) res" | Panicked panic_site

text \<open>A hook or a memory that is not configured does nothing.\<close>

definition notify :: "('w \<Rightarrow> 'e \<Rightarrow> 'w) option \<Rightarrow> 'e \<Rightarrow> 'w \<Rightarrow> 'w" where
  "notify h e w = (case h of None \<Rightarrow> w | Some f \<Rightarrow> f w e)"

definition save_memory_entries ::
  "('a, 'w) plugin_env \<Rightarrow> ('w \<Rightarrow> memory_entry \<Rightarrow> 'w) \<Rightarrow> string \<Rightarrow> string \<Rightarrow> run_result \<Rightarrow> 'w \<Rightarrow> 'w" where
  "save_memory_entries env save plugin_name prompt result w =
     (let (w1, now) = pe_now_ms env w;
          ts = show_nat now;
          user = \<lparr>me_id = plugin_name @ ''-user-'' @ ts, me_kind = SessionLog, me_session_id = plugin_name,
            me_summary = ''User prompt for '' @ plugin_name, me_content = prompt, me_tags = [],
            me_created_at = ts\<rparr>;
          assistant = \<lparr>me_id = plugin_name @ ''-assistant-'' @ ts, me_kind = SessionLog,
            me_session_id = plugin_name, me_summary = ''Assistant response for '' @ plugin_name,
            me_content = rr_output result, me_tags = [], me_created_at = ts\<rparr>
      in save (save w1 user) assistant)"

definition save_plugin_entry ::
  "('a, 'w) plugin_env \<Rightarrow> ('w \<Rightarrow> memory_entry \<Rightarrow> 'w) \<Rightarrow> string \<Rightarrow> string \<Rightarrow> string \<Rightarrow> string \<Rightarrow> string list \<Rightarrow> 'w \<Rightarrow> 'w" where
  "save_plugin_entry env save plugin_name run_id summary content tags w =
     (let (w1, now) = pe_now_ms env w
      in save w1 \<lparr>me_id = plugin_name @ ''-'' @ run_id, me_kind = SessionLog, me_session_id = plugin_name,
           me_summary = summary, me_content = content, me_tags = tags, me_created_at = show_nat now\<rparr>)"

section \<open>The run loop\<close>

text \<open>
  \<open>&s[..n]\<close> when \<open>s\<close> is longer than \<open>n\<close> bytes; \<^const>\<open>None\<close> where the slice panics.
\<close>

definition cut_with :: "nat \<Rightarrow> string \<Rightarrow> (string \<Rightarrow> string) \<Rightarrow> string option" where
  "cut_with n s mark =
     (if n < length s
      then if is_char_boundary s n then Some (mark (take n s)) else None
      else Some s)"

definition correction_hint ::
  "('a, 'w) plugin_env \<Rightarrow> plugin_error \<Rightarrow> string \<Rightarrow> json option \<Rightarrow> panic_site + string" where
  "correction_hint env e raw schema =
     (case cut_with 2000 raw (\<lambda>s. s @ '' ... [truncated '' @ show_nat (length raw) @ '' bytes]'') of
        None \<Rightarrow> Inl (RawSliced raw)
      | Some truncated \<Rightarrow>
          let hint = [newline, newline] @ ''[SYSTEM: The previous response could not be parsed.''
                @ [newline] @ ''Parse error: '' @ plugin_error_display e
                @ [newline] @ ''Raw output received:'' @ [newline] @ truncated;
              finish = [newline] @ ''Please correct the output to match the expected format.]''
          in case schema of
               None \<Rightarrow> Inr (hint @ finish)
             | Some s \<Rightarrow>
                 (case cut_with 1000 (pe_to_string env s) (\<lambda>t. t @ '' ... [truncated]'') of
                    None \<Rightarrow> Inl (SchemaSliced (pe_to_string env s))
                  | Some text \<Rightarrow>
                      Inr (hint @ [newline] @ ''Expected output schema:'' @ [newline] @ text @ finish)))"

text \<open>The wait before the next attempt.\<close>

definition back_off :: "('a, 'w) plugin_env \<Rightarrow> retry_policy option \<Rightarrow> u32 \<Rightarrow> 'w \<Rightarrow> 'w option" where
  "back_off env retry attempt w =
     (case retry of
        None \<Rightarrow> Some w
      | Some p \<Rightarrow>
          let (w1, random) = pe_random env w
          in map_option (pe_sleep env w1) (jittered_backoff p attempt random))"

definition timed_out_message :: "erased_plugin \<Rightarrow> plugin_config \<Rightarrow> u32 \<Rightarrow> string" where
  "timed_out_message p cfg attempt =
     ''plugin '' @ [CHR 0x27] @ ep_name p @ [CHR 0x27] @ '' timed out after ''
     @ show_nat (unat (pc_timeout_per_call_secs cfg)) @ ''s on attempt '' @ show_nat (unat attempt)"

text \<open>One attempt ends the run, or leaves the prompt and the world of the next attempt.\<close>

datatype ('a, 'w) turn = Stop 'w 'a plugin_outcome | Again 'w 'a string

definition turn_output ::
  "('a, 'w) plugin_env \<Rightarrow> erased_plugin \<Rightarrow> behavior \<Rightarrow> plugin_config \<Rightarrow> ('w \<Rightarrow> hook_event \<Rightarrow> 'w) option \<Rightarrow>
     retry_policy option \<Rightarrow> ('w \<Rightarrow> memory_entry \<Rightarrow> 'w) option \<Rightarrow> string \<Rightarrow> u32 \<Rightarrow> 'w \<Rightarrow> 'a \<Rightarrow> string \<Rightarrow> json \<Rightarrow> ('a, 'w) turn" where
  "turn_output env p beh cfg hooks retry mem prompt attempt w a raw output =
     (let act = bh_decide beh (extract_confidence raw);
          w = notify hooks (OnTurn attempt act) w
      in case act of
           ActDone \<Rightarrow>
             let text = pe_to_string env output
             in if pc_max_output_bytes cfg < length text
                then Stop w a (Returned (Inl (OutputTooLarge (length text) (pc_max_output_bytes cfg))))
                else
                  let result = \<lparr>rr_output = text, rr_turns = attempt + 1, rr_final_action = ActDone\<rparr>;
                      w = notify hooks (OnComplete result) w;
                      w = (case mem of None \<Rightarrow> w | Some save \<Rightarrow> save_memory_entries env save (ep_name p) prompt result w)
                  in Stop w a (Returned (Inr result))
         | ActRetry \<Rightarrow>
             (case back_off env retry (attempt + 1) w of
                None \<Rightarrow> Stop w a (Panicked BackoffOverflow)
              | Some w' \<Rightarrow> Again w' a prompt))"

definition turn_error ::
  "('a, 'w) plugin_env \<Rightarrow> erased_plugin \<Rightarrow> behavior \<Rightarrow> ('w \<Rightarrow> hook_event \<Rightarrow> 'w) option \<Rightarrow>
     retry_policy option \<Rightarrow> string \<Rightarrow> u32 \<Rightarrow> 'w \<Rightarrow> 'a \<Rightarrow> string \<Rightarrow> plugin_error \<Rightarrow> ('a, 'w) turn" where
  "turn_error env p beh hooks retry prompt attempt w a raw e =
     (let w = notify hooks (OnErr attempt e) w
      in case bh_on_error beh e attempt of
           ErrRetry \<Rightarrow>
             (case correction_hint env e raw (ep_output_schema p) of
                Inl site \<Rightarrow> Stop w a (Panicked site)
              | Inr hint \<Rightarrow>
                  (case back_off env retry (attempt + 1) w of
                     None \<Rightarrow> Stop w a (Panicked BackoffOverflow)
                   | Some w' \<Rightarrow> Again w' a (prompt @ hint)))
         | ErrAbort \<Rightarrow> Stop w a (Returned (Inl e))
         | ErrEscalate \<Rightarrow> Stop w a (Returned (Inl (Escalated e attempt))))"

definition plugin_turn ::
  "('a, 'w) plugin_env \<Rightarrow> erased_plugin \<Rightarrow> behavior \<Rightarrow> plugin_config \<Rightarrow> ('w \<Rightarrow> hook_event \<Rightarrow> 'w) option \<Rightarrow>
     retry_policy option \<Rightarrow> ('w \<Rightarrow> memory_entry \<Rightarrow> 'w) option \<Rightarrow> string \<Rightarrow> u32 \<Rightarrow> 'w \<Rightarrow> 'a \<Rightarrow> ('a, 'w) turn" where
  "plugin_turn env p beh cfg hooks retry mem prompt attempt w a =
     (case pe_expired env w a prompt (pc_timeout_per_call_secs cfg) of
        Some (w1, a1) \<Rightarrow> Stop w1 a1 (Returned (Inl (Other (timed_out_message p cfg attempt))))
      | None \<Rightarrow>
          (case pa_send_message_with_tools (pe_agent env) w a prompt of
             None \<Rightarrow> Stop w a (Panicked AgentPanicked)
           | Some (w1, a1, Inl e) \<Rightarrow> Stop w1 a1 (Returned (Inl (Other e)))
           | Some (w1, a1, Inr raw) \<Rightarrow>
               (case ep_parse_output_json p raw of
                  Inr output \<Rightarrow> turn_output env p beh cfg hooks retry mem prompt attempt w1 a1 raw output
                | Inl e \<Rightarrow> turn_error env p beh hooks retry prompt attempt w1 a1 raw e)))"

function plugin_loop ::
  "('a, 'w) plugin_env \<Rightarrow> erased_plugin \<Rightarrow> behavior \<Rightarrow> plugin_config \<Rightarrow> ('w \<Rightarrow> hook_event \<Rightarrow> 'w) option \<Rightarrow>
     retry_policy option \<Rightarrow> ('w \<Rightarrow> memory_entry \<Rightarrow> 'w) option \<Rightarrow> string \<Rightarrow> u32 \<Rightarrow> 'w \<Rightarrow> 'a \<Rightarrow> 'w \<times> 'a \<times> plugin_outcome" where
  "plugin_loop env p beh cfg hooks retry mem prompt attempt w a =
     (if pc_max_turns cfg \<le> attempt then (w, a, Returned (Inl (MaxTurnsExceeded (pc_max_turns cfg))))
      else case plugin_turn env p beh cfg hooks retry mem prompt attempt w a of
             Stop w1 a1 r \<Rightarrow> (w1, a1, r)
           | Again w1 a1 prompt1 \<Rightarrow> plugin_loop env p beh cfg hooks retry mem prompt1 (attempt + 1) w1 a1)"
  by pat_completeness auto
termination
proof (relation "measure (\<lambda>(env, p, beh, cfg, hooks, retry, mem, prompt, attempt, w, a).
    unat (pc_max_turns cfg) - unat attempt)", goal_cases)
  case (2 env p beh cfg hooks retry mem prompt attempt w a)
  then show ?case using next_attempt(1,2) [of "pc_max_turns cfg" attempt] by simp
qed simp

declare plugin_loop.simps [simp del]

definition contract_delta :: "('a, 'w) plugin_env \<Rightarrow> json \<Rightarrow> system_prompt_delta" where
  "contract_delta env schema =
     \<lparr>sd_template = ''Output contract:'' @ [newline] @ ''Return only valid JSON matching this schema:''
        @ [newline] @ ''{{output_schema}}'',
      sd_variables = [(''output_schema'', pe_to_string_pretty env schema)], sd_layer = ContractLayer\<rparr>"

definition prepare_agent :: "('a, 'w) plugin_env \<Rightarrow> erased_plugin \<Rightarrow> 'a \<Rightarrow> 'a" where
  "prepare_agent env p a =
     (let ops = pe_agent env;
          a = pa_set_system_prompt_delta ops a (ep_system_prompt_delta p);
          a = (if ep_tools p = [] then a else pa_add_tools ops a (ep_tools p))
      in pa_set_output_contract_delta ops a (map_option (contract_delta env) (ep_output_schema p)))"

definition input_tokens :: "string \<Rightarrow> u32" where
  "input_tokens prompt = of_nat ((unat (of_nat (length prompt) :: u32) + 3) div 4)"

definition run_plugin_loop ::
  "('a, 'w) plugin_env \<Rightarrow> erased_plugin \<Rightarrow> behavior \<Rightarrow> 'a \<Rightarrow> json \<Rightarrow> plugin_config \<Rightarrow>
     ('w \<Rightarrow> hook_event \<Rightarrow> 'w) option \<Rightarrow> retry_policy option \<Rightarrow> ('w \<Rightarrow> memory_entry \<Rightarrow> 'w) option \<Rightarrow> 'w \<Rightarrow>
     'w \<times> 'a \<times> plugin_outcome" where
  "run_plugin_loop env p beh a context cfg hooks retry mem w =
     (let a = prepare_agent env p a
      in case ep_to_prompt_json p context of
           Inl e \<Rightarrow> (w, a, Returned (Inl e))
         | Inr prompt \<Rightarrow>
             plugin_loop env p beh cfg hooks retry mem prompt 0
               (notify hooks (OnStart (ep_name p) (input_tokens prompt)) w) a)"

text \<open>\<open>PluginRunner::run\<close>, whose input is typed.\<close>

definition plugin_runner_run ::
  "('a, 'w) plugin_env \<Rightarrow> (json \<Rightarrow> (string, 'i) res) \<Rightarrow> ('i \<Rightarrow> (string, json) res) \<Rightarrow> ('o \<Rightarrow> (string, json) res) \<Rightarrow>
     ('i, 'o) plugin \<Rightarrow> behavior \<Rightarrow> 'a \<Rightarrow> 'i \<Rightarrow> plugin_config \<Rightarrow>
     ('w \<Rightarrow> hook_event \<Rightarrow> 'w) option \<Rightarrow> retry_policy option \<Rightarrow> ('w \<Rightarrow> memory_entry \<Rightarrow> 'w) option \<Rightarrow> 'w \<Rightarrow>
     'w \<times> 'a \<times> plugin_outcome" where
  "plugin_runner_run env from_value input_to_value to_value p beh a input cfg hooks retry mem w =
     (case input_to_value input of
        Inl e \<Rightarrow> (w, a, Returned (Inl (Other e)))
      | Inr context \<Rightarrow>
          run_plugin_loop env (erased_plugin_adapter from_value to_value p) beh a context cfg hooks retry mem w)"

text \<open>
  The agent as a plugin sees it. The implementation of the trait for \<open>Agent\<close> leaves \<open>add_tools\<close> at the
  trait's empty default, although the type has an \<open>add_tools\<close> of its own.
\<close>

definition agent_as_plugin_agent :: "'w agent_env \<Rightarrow> (agent, 'w) plugin_agent" where
  "agent_as_plugin_agent env =
     \<lparr>pa_set_system_prompt_delta = (\<lambda>ag d.
        ag\<lparr>ag_registry := (ag_registry ag)\<lparr>pr_system_stack := set_agent_delta (pr_system_stack (ag_registry ag)) d\<rparr>\<rparr>),
      pa_set_output_contract_delta = (\<lambda>ag d.
        ag\<lparr>ag_registry := (ag_registry ag)\<lparr>pr_system_stack := set_contract_delta (pr_system_stack (ag_registry ag)) d\<rparr>\<rparr>),
      pa_add_tools = (\<lambda>ag tools. ag),
      pa_send_message_with_tools = (\<lambda>w ag message. send_message_with_tools env message ag w)\<rparr>"

end
