(* ===== verification/Plugin_Run.thy ===== *)
theory Plugin_Run
  imports Plugin
begin

text \<open>
  What a run of \<open>run_plugin_loop\<close> guarantees: the requests it sends, the panics it can end in, the
  results it may report, the calls its hooks see. The contract of an agent towards the loop is the
  locale \<open>request_budget\<close>; it is interpreted on the model of \<open>Agent\<close>.
\<close>

section \<open>The steps of the loop\<close>

lemma plugin_loop_steps:
  "pc_max_turns cfg \<le> attempt \<Longrightarrow> plugin_loop env p beh cfg hooks retry mem prompt attempt w a =
     (w, a, Returned (Inl (MaxTurnsExceeded (pc_max_turns cfg))))"
  "\<not> pc_max_turns cfg \<le> attempt \<Longrightarrow> plugin_turn env p beh cfg hooks retry mem prompt attempt w a = Stop w1 a1 r \<Longrightarrow>
     plugin_loop env p beh cfg hooks retry mem prompt attempt w a = (w1, a1, r)"
  "\<not> pc_max_turns cfg \<le> attempt \<Longrightarrow> plugin_turn env p beh cfg hooks retry mem prompt attempt w a = Again w1 a1 prompt1 \<Longrightarrow>
     plugin_loop env p beh cfg hooks retry mem prompt attempt w a =
     plugin_loop env p beh cfg hooks retry mem prompt1 (attempt + 1) w1 a1"
  by (subst plugin_loop.simps, simp)+

section \<open>The contract of an agent\<close>

locale request_budget =
  fixes ops :: "('a, 'w) plugin_agent"
    and calls :: "'w \<Rightarrow> nat"
    and keeps :: "'a \<Rightarrow> bool"
    and budget :: nat
  assumes send_returns: "keeps a \<Longrightarrow> \<exists>w' a' r. pa_send_message_with_tools ops w a m = Some (w', a', r) \<and>
      keeps a' \<and> calls w' \<le> calls w + budget"
    and delta_inv: "keeps a \<Longrightarrow> keeps (pa_set_system_prompt_delta ops a d)"
    and contract_inv: "keeps a \<Longrightarrow> keeps (pa_set_output_contract_delta ops a d)"
    and tools_inv: "keeps a \<Longrightarrow> keeps (pa_add_tools ops a ts)"

text \<open>
  The rest of the world: random numbers of the unit interval, and nothing but the agent sends a
  request. A request that the timer drops has sent at most its budget.
\<close>

definition unit_draws :: "('a, 'w) plugin_env \<Rightarrow> bool" where
  "unit_draws env \<longleftrightarrow> (\<forall>w. \<exists>x. snd (pe_random env w) = Fin x \<and> 0 \<le> x \<and> x < 1)"

definition quiet ::
  "('a, 'w) plugin_env \<Rightarrow> ('w \<Rightarrow> hook_event \<Rightarrow> 'w) option \<Rightarrow> ('w \<Rightarrow> memory_entry \<Rightarrow> 'w) option \<Rightarrow> ('w \<Rightarrow> nat) \<Rightarrow> bool" where
  "quiet env hooks mem calls \<longleftrightarrow>
     (\<forall>w. calls (fst (pe_random env w)) = calls w) \<and> (\<forall>w d. calls (pe_sleep env w d) = calls w) \<and>
     (\<forall>w. calls (fst (pe_now_ms env w)) = calls w) \<and>
     (\<forall>h w e. hooks = Some h \<longrightarrow> calls (h w e) = calls w) \<and>
     (\<forall>save w e. mem = Some save \<longrightarrow> calls (save w e) = calls w)"

definition drops_within :: "('a, 'w) plugin_env \<Rightarrow> ('w \<Rightarrow> nat) \<Rightarrow> ('a \<Rightarrow> bool) \<Rightarrow> nat \<Rightarrow> bool" where
  "drops_within env calls keeps budget \<longleftrightarrow>
     (\<forall>w a m s w' a'. keeps a \<longrightarrow> pe_expired env w a m s = Some (w', a') \<longrightarrow> keeps a' \<and> calls w' \<le> calls w + budget)"

text \<open>The panics that are left: a slice of the hint that cuts a character.\<close>

fun slice_panic :: "('a, 'w) plugin_env \<Rightarrow> erased_plugin \<Rightarrow> plugin_outcome \<Rightarrow> bool" where
  "slice_panic env p (Panicked (RawSliced raw)) \<longleftrightarrow> 2000 < length raw \<and> \<not> is_char_boundary raw 2000"
| "slice_panic env p (Panicked (SchemaSliced s)) \<longleftrightarrow>
     1000 < length s \<and> \<not> is_char_boundary s 1000 \<and> map_option (pe_to_string env) (ep_output_schema p) = Some s"
| "slice_panic env p r \<longleftrightarrow> False"

definition sound_outcome :: "('a, 'w) plugin_env \<Rightarrow> erased_plugin \<Rightarrow> plugin_outcome \<Rightarrow> bool" where
  "sound_outcome env p r \<longleftrightarrow> (\<exists>res. r = Returned res) \<or> slice_panic env p r"

lemma sound_Returned [simp]: "sound_outcome env p (Returned res)"
  by (simp add: sound_outcome_def)

lemma correction_hint_Inl:
  "correction_hint env e raw (ep_output_schema p) = Inl site \<Longrightarrow> sound_outcome env p (Panicked site)"
  by (auto simp: correction_hint_def cut_with_def sound_outcome_def Let_def split: option.splits if_splits)

lemma notify_quiet: "quiet env hooks mem calls \<Longrightarrow> calls (notify hooks e w) = calls w"
  by (auto simp: notify_def quiet_def split: option.split)

lemma save_quiet:
  "quiet env hooks (Some save) calls \<Longrightarrow> calls (save_memory_entries env save n prompt r w) = calls w"
  by (auto simp: save_memory_entries_def quiet_def Let_def split: prod.split) (metis fst_conv)

lemma back_off_quiet:
  assumes "quiet env hooks mem calls" and "unit_draws env" and "retry = None \<or> retry = Some retry_default"
  shows "\<exists>w'. back_off env retry attempt w = Some w' \<and> calls w' = calls w"
proof (cases retry)
  case (Some p)
  obtain w1 x where x: "pe_random env w = (w1, Fin x)" "0 \<le> x" "x < 1"
    using assms(2) unfolding unit_draws_def by (metis prod.collapse)
  obtain d where d: "jittered_backoff retry_default attempt (Fin x) = Some d"
    using backoff_default_delay [OF x(2,3)] by metis
  have "calls w1 = calls w" using assms(1) x(1) unfolding quiet_def by (metis fst_conv)
  then show ?thesis using assms Some by (simp add: back_off_def x(1) d quiet_def)
qed (simp add: back_off_def)

context request_budget
begin

text \<open>An attempt: what the loop may rely on, whichever way it ends.\<close>

definition turn_ok :: "('a, 'w) plugin_env \<Rightarrow> erased_plugin \<Rightarrow> 'w \<Rightarrow> ('a, 'w) turn \<Rightarrow> bool" where
  "turn_ok env p w t \<longleftrightarrow>
     (case t of
        Stop w' a' r \<Rightarrow> calls w' \<le> calls w + budget \<and> keeps a' \<and> sound_outcome env p r
      | Again w' a' _ \<Rightarrow> calls w' \<le> calls w + budget \<and> keeps a')"

lemma turn_output_ok:
  assumes "quiet env hooks mem calls" and "unit_draws env" and "retry = None \<or> retry = Some retry_default"
    and "keeps a" and "calls w1 \<le> calls w + budget"
  shows "turn_ok env p w (turn_output env p beh cfg hooks retry mem prompt attempt w1 a raw output)"
proof (cases "bh_decide beh (extract_confidence raw)")
  case ActRetry
  obtain w' where "back_off env retry (attempt + 1) (notify hooks (OnTurn attempt ActRetry) w1) = Some w'"
    "calls w' = calls w1"
    using back_off_quiet [OF assms(1-3)] notify_quiet [OF assms(1)] by metis
  then show ?thesis using assms(4,5) by (simp add: turn_output_def ActRetry turn_ok_def)
next
  case ActDone
  show ?thesis using assms(4,5) notify_quiet [OF assms(1)] save_quiet [of env hooks _ calls] assms(1)
    by (auto simp: turn_output_def ActDone turn_ok_def Let_def split: option.split)
qed

lemma turn_error_ok:
  assumes "quiet env hooks mem calls" and "unit_draws env" and "retry = None \<or> retry = Some retry_default"
    and "keeps a" and "calls w1 \<le> calls w + budget"
  shows "turn_ok env p w (turn_error env p beh hooks retry prompt attempt w1 a raw e)"
proof -
  obtain w' where "back_off env retry (attempt + 1) (notify hooks (OnErr attempt e) w1) = Some w'" "calls w' = calls w1"
    using back_off_quiet [OF assms(1-3)] notify_quiet [OF assms(1)] by metis
  then show ?thesis using assms(4,5) notify_quiet [OF assms(1)] correction_hint_Inl [of env e raw p]
    by (auto simp: turn_error_def turn_ok_def Let_def split: error_action.split sum.split)
qed

lemma plugin_turn_ok:
  assumes "pe_agent env = ops" and "drops_within env calls keeps budget" and "quiet env hooks mem calls"
    and "unit_draws env" and "retry = None \<or> retry = Some retry_default" and "keeps a"
  shows "turn_ok env p w (plugin_turn env p beh cfg hooks retry mem prompt attempt w a)"
proof (cases "pe_expired env w a prompt (pc_timeout_per_call_secs cfg)")
  case None
  obtain w1 a1 r where s: "pa_send_message_with_tools ops w a prompt = Some (w1, a1, r)" "keeps a1"
    "calls w1 \<le> calls w + budget"
    using send_returns [OF assms(6)] by blast
  then show ?thesis
    using turn_output_ok [OF assms(3-5) s(2,3)] turn_error_ok [OF assms(3-5) s(2,3)]
    by (cases r) (auto simp: plugin_turn_def None assms(1) turn_ok_def [of _ _ _ "Stop _ _ _"] split: sum.split)
next
  case (Some x)
  then show ?thesis using assms(2,6)
    by (cases x) (auto simp: plugin_turn_def turn_ok_def drops_within_def)
qed

lemma plugin_loop_bounded:
  assumes "pe_agent env = ops" and "drops_within env calls keeps budget" and "quiet env hooks mem calls"
    and "unit_draws env" and "retry = None \<or> retry = Some retry_default" and "keeps a"
    and "plugin_loop env p beh cfg hooks retry mem prompt attempt w a = (w', a', r)"
  shows "calls w' \<le> calls w + budget * (unat (pc_max_turns cfg) - unat attempt) \<and> keeps a' \<and> sound_outcome env p r"
  using assms
proof (induction env p beh cfg hooks retry mem prompt attempt w a rule: plugin_loop.induct)
  case (1 env p beh cfg hooks retry mem prompt attempt w a)
  show ?case
  proof (cases "pc_max_turns cfg \<le> attempt")
    case True
    then show ?thesis using 1(7,8) by (auto simp: plugin_loop_steps(1))
  next
    case False
    note split = next_attempt(3) [OF False, of budget]
    let ?t = "plugin_turn env p beh cfg hooks retry mem prompt attempt w a"
    have t: "turn_ok env p w ?t" by (rule plugin_turn_ok [OF 1(2-7)])
    show ?thesis
    proof (cases ?t)
      case (Stop w1 a1 r1)
      then show ?thesis using t 1(8) by (simp add: plugin_loop_steps(2) [OF False Stop] turn_ok_def split)
    next
      case (Again w1 a1 prompt1)
      then have a1: "keeps a1" "calls w1 \<le> calls w + budget" using t by (simp_all add: turn_ok_def)
      have "plugin_loop env p beh cfg hooks retry mem prompt1 (attempt + 1) w1 a1 = (w', a', r)"
        using 1(8) by (simp add: plugin_loop_steps(3) [OF False Again])
      from 1(1) [OF False Again 1(2-6) a1(1) this] a1(2) show ?thesis by (simp add: split)
    qed
  qed
qed

lemma run_plugin_loop_bounded:
  assumes "pe_agent env = ops" and "drops_within env calls keeps budget" and "quiet env hooks mem calls"
    and "unit_draws env" and "retry = None \<or> retry = Some retry_default" and "keeps a"
    and "run_plugin_loop env p beh a ctx cfg hooks retry mem w = (w', a', r)"
  shows "calls w' \<le> calls w + budget * unat (pc_max_turns cfg) \<and> keeps a' \<and> sound_outcome env p r"
proof -
  have a: "keeps (prepare_agent env p a)"
    using assms(1,6) by (simp add: prepare_agent_def Let_def delta_inv contract_inv tools_inv)
  show ?thesis
  proof (cases "ep_to_prompt_json p ctx")
    case (Inl e)
    then show ?thesis using assms(7) a by (auto simp: run_plugin_loop_def Let_def)
  next
    case (Inr prompt)
    have "plugin_loop env p beh cfg hooks retry mem prompt 0 (notify hooks (OnStart (ep_name p) (input_tokens prompt)) w)
        (prepare_agent env p a) = (w', a', r)"
      using assms(7) by (simp add: run_plugin_loop_def Let_def Inr)
    from plugin_loop_bounded [OF assms(1-5) a this] notify_quiet [OF assms(3)] show ?thesis by simp
  qed
qed

end

section \<open>The agent keeps the contract\<close>

lemma send_message_with_tools_bounded:
  assumes "unit_random env" and "counts_requests env calls" and "ag_retry ag = retry_default"
  shows "\<exists>w' ag' r. send_message_with_tools env m ag w = Some (w', ag', r) \<and> ag_retry ag' = retry_default \<and>
    calls w' \<le> calls w + 120"
proof -
  obtain w' ag' events emitted where r: "run_with_observer env m MAX_TOOL_TURNS True ag w = Some (w', ag', events, emitted)"
    "ag_retry ag' = retry_default" "calls w' \<le> calls w + 12 * MAX_TOOL_TURNS"
    using run_rounds_bounded [OF assms] unfolding run_with_observer_def by blast
  then show ?thesis by (simp add: send_message_with_tools_def run_def MAX_TOOL_TURNS_def)
qed

interpretation agent_budget: request_budget "agent_as_plugin_agent env" calls
  "\<lambda>ag. unit_random env \<and> counts_requests env calls \<and> ag_retry ag = retry_default" 120
  for env :: "'w agent_env" and calls :: "'w \<Rightarrow> nat"
proof
qed (use send_message_with_tools_bounded in \<open>auto simp: agent_as_plugin_agent_def\<close>)

lemma agent_plugin_run:
  assumes "unit_random aenv" and "counts_requests aenv calls" and "ag_retry ag = retry_default"
    and "pe_agent env = agent_as_plugin_agent aenv" and "unit_draws env" and "quiet env hooks mem calls"
    and "drops_within env calls (\<lambda>a. ag_retry a = retry_default) 120"
    and "retry = None \<or> retry = Some retry_default"
    and "run_plugin_loop env p beh ag ctx cfg hooks retry mem w = (w', ag', r)"
  shows "calls w' \<le> calls w + 120 * unat (pc_max_turns cfg) \<and> sound_outcome env p r"
proof -
  have drops: "drops_within env calls (\<lambda>a. unit_random aenv \<and> counts_requests aenv calls \<and> ag_retry a = retry_default) 120"
    using assms(1,2,7) unfolding drops_within_def by blast
  have ag: "unit_random aenv \<and> counts_requests aenv calls \<and> ag_retry ag = retry_default" using assms(1-3) by simp
  note agent_budget.run_plugin_loop_bounded [OF assms(4) drops assms(6,5,8) ag assms(9)]
  then show ?thesis by simp
qed

section \<open>Accepted results\<close>

text \<open>The attempt that accepts an answer.\<close>

definition accepts ::
  "('a, 'w) plugin_env \<Rightarrow> erased_plugin \<Rightarrow> behavior \<Rightarrow> plugin_config \<Rightarrow> 'a \<Rightarrow> run_result \<Rightarrow> bool" where
  "accepts env p beh cfg a' res \<longleftrightarrow>
     (\<exists>w1 a1 m w2 raw output.
        pa_send_message_with_tools (pe_agent env) w1 a1 m = Some (w2, a', Inr raw) \<and>
        ep_parse_output_json p raw = Inr output \<and>
        bh_decide beh (extract_confidence raw) = ActDone \<and>
        rr_output res = pe_to_string env output \<and> length (rr_output res) \<le> pc_max_output_bytes cfg)"

lemma turn_accepts:
  assumes "plugin_turn env p beh cfg hooks retry mem prompt attempt w a = Stop w' a' (Returned (Inr res))"
  shows "accepts env p beh cfg a' res \<and> rr_turns res = attempt + 1 \<and> rr_final_action res = ActDone"
proof -
  obtain w1 a1 raw where s: "pa_send_message_with_tools (pe_agent env) w a prompt = Some (w1, a1, Inr raw)"
    and t: "(case ep_parse_output_json p raw of
        Inr output \<Rightarrow> turn_output env p beh cfg hooks retry mem prompt attempt w1 a1 raw output
      | Inl e \<Rightarrow> turn_error env p beh hooks retry prompt attempt w1 a1 raw e) = Stop w' a' (Returned (Inr res))"
    using assms by (auto simp: plugin_turn_def split: option.splits sum.splits)
  obtain v where v: "ep_parse_output_json p raw = Inr v"
    using t by (auto simp: turn_error_def Let_def split: sum.splits error_action.splits option.splits)
  have "bh_decide beh (extract_confidence raw) = ActDone" "a' = a1"
    "rr_output res = pe_to_string env v" "length (pe_to_string env v) \<le> pc_max_output_bytes cfg"
    "rr_turns res = attempt + 1" "rr_final_action res = ActDone"
    using t by (auto simp: v turn_output_def Let_def split: action.splits option.splits if_splits)
  with s v show ?thesis unfolding accepts_def by metis
qed

lemma loop_accepts:
  "plugin_loop env p beh cfg hooks retry mem prompt attempt w a = (w', a', Returned (Inr res)) \<Longrightarrow>
     accepts env p beh cfg a' res \<and> 0 < rr_turns res \<and> rr_turns res \<le> pc_max_turns cfg \<and> rr_final_action res = ActDone"
proof (induction env p beh cfg hooks retry mem prompt attempt w a rule: plugin_loop.induct)
  case (1 env p beh cfg hooks retry mem prompt attempt w a)
  show ?case
  proof (cases "pc_max_turns cfg \<le> attempt")
    case False
    note n = next_attempt(1,2) [OF False]
    show ?thesis
    proof (cases "plugin_turn env p beh cfg hooks retry mem prompt attempt w a")
      case (Stop w1 a1 r1)
      then have "plugin_turn env p beh cfg hooks retry mem prompt attempt w a = Stop w' a' (Returned (Inr res))"
        using 1(2) by (simp add: plugin_loop_steps(2) [OF False Stop])
      from turn_accepts [OF this] n show ?thesis by (simp add: word_less_nat_alt word_le_nat_alt)
    next
      case (Again w1 a1 prompt1)
      then show ?thesis using 1 False by (simp add: plugin_loop_steps(3) [OF False Again])
    qed
  qed (use 1(2) in \<open>simp add: plugin_loop_steps(1)\<close>)
qed

section \<open>Answers that are never accepted\<close>

lemma loop_all_again:
  assumes "\<And>prompt attempt w a. \<exists>w' a' prompt'. plugin_turn env p beh cfg hooks retry mem prompt attempt w a = Again w' a' prompt'"
  shows "\<exists>w' a'. plugin_loop env p beh cfg hooks retry mem prompt attempt w a =
    (w', a', Returned (Inl (MaxTurnsExceeded (pc_max_turns cfg))))"
  using assms
proof (induction env p beh cfg hooks retry mem prompt attempt w a rule: plugin_loop.induct)
  case (1 env p beh cfg hooks retry mem prompt attempt w a)
  obtain w1 a1 prompt1 where t: "plugin_turn env p beh cfg hooks retry mem prompt attempt w a = Again w1 a1 prompt1"
    using 1(2) by blast
  show ?case
  proof (cases "pc_max_turns cfg \<le> attempt")
    case False
    from 1(1) [OF False t 1(2)] show ?thesis by (simp add: plugin_loop_steps(3) [OF False t])
  qed (simp add: plugin_loop_steps(1))
qed

text \<open>A number after the confidence on its line spoils the text that is parsed.\<close>

lemma trailing_number_hides:
  assumes "raw = ''{'' @ quoted ''confidence'' @ '':'' @ c # d @ '','' @ rest @ n # ''}''"
    and "number_char c" and "is_digit n" and "newline \<notin> set (d @ rest)"
  shows "extract_confidence raw = Fin 0"
proof -
  let ?number = "c # d @ '','' @ rest @ [n]"
  have c: "byte c < 128" "c \<notin> set ascii_ws" "c \<noteq> newline"
    using assms(2) by (auto simp: number_char_def is_digit_def ascii_ws_def byte_def newline_def)
  have number: "number_char n" "\<not> number_char (CHR ''}'')"
    using assms(3) by (simp_all add: number_char_def is_digit_def byte_def)
  have n: "n \<noteq> newline" using assms(3) by (auto simp: is_digit_def byte_def newline_def)
  have q: "newline \<notin> set (''{'' @ quoted ''confidence'' @ '':'')" by (simp add: quoted_def dquote_def newline_def)
  have "newline \<notin> set raw" using assms(4) c(3) n q by (auto simp: assms(1) newline_def)
  then have lines: "str_lines raw = [raw]" by (intro str_lines_single) (simp_all add: assms(1))
  have "str_find raw (quoted ''confidence'') = Some 1"
    by (simp add: assms(1) quoted_def dquote_def)
  moreover have "drop (1 + length (quoted ''confidence'')) raw = '':'' @ c # d @ '','' @ rest @ n # ''}''"
    by (simp add: assms(1))
  moreover have "trim (?number @ ''}'') = ?number @ ''}''"
    by (intro trim_trimmed trimmed_ascii) (use c in \<open>auto simp: ascii_ws_def byte_def\<close>)
  moreover have "trim_to_number (?number @ ''}'') = ?number"
    using assms(2) number by (simp add: trim_to_number_def)
  moreover have "parse_f64 ?number = None" by (intro parse_f64_comma) simp
  ultimately have "line_confidence raw = None" by (simp add: line_confidence_def)
  then show ?thesis by (simp add: extract_confidence_def lines map_filter_simps)
qed

section \<open>What the hooks see\<close>

text \<open>A log on the world that the hooks write and nothing else touches.\<close>

definition hooks_log ::
  "('a, 'w) plugin_env \<Rightarrow> ('w \<Rightarrow> hook_event \<Rightarrow> 'w) \<Rightarrow> ('w \<Rightarrow> memory_entry \<Rightarrow> 'w) option \<Rightarrow> ('w \<Rightarrow> hook_event list) \<Rightarrow> bool" where
  "hooks_log env h mem seen \<longleftrightarrow>
     (\<forall>w e. seen (h w e) = seen w @ [e]) \<and>
     (\<forall>w a m w' a' r. pa_send_message_with_tools (pe_agent env) w a m = Some (w', a', r) \<longrightarrow> seen w' = seen w) \<and>
     (\<forall>w a m s w' a'. pe_expired env w a m s = Some (w', a') \<longrightarrow> seen w' = seen w) \<and>
     (\<forall>w. seen (fst (pe_random env w)) = seen w) \<and> (\<forall>w d. seen (pe_sleep env w d) = seen w) \<and>
     (\<forall>w. seen (fst (pe_now_ms env w)) = seen w) \<and>
     (\<forall>save w e. mem = Some save \<longrightarrow> seen (save w e) = seen w)"

fun turn_number :: "hook_event \<Rightarrow> u32 option" where
  "turn_number (OnTurn n _) = Some n"
| "turn_number (OnErr n _) = Some n"
| "turn_number _ = None"

definition final_events :: "plugin_outcome \<Rightarrow> hook_event list" where
  "final_events r = (case r of Returned (Inr res) \<Rightarrow> [OnComplete res] | _ \<Rightarrow> [])"

lemma back_off_log:
  "hooks_log env h mem seen \<Longrightarrow> back_off env retry attempt w = Some w' \<Longrightarrow> seen w' = seen w"
  by (auto simp: back_off_def hooks_log_def Let_def split: option.splits prod.splits) (metis fst_conv)

lemma save_log:
  "hooks_log env h (Some save) seen \<Longrightarrow> seen (save_memory_entries env save n prompt res w) = seen w"
  by (auto simp: save_memory_entries_def hooks_log_def Let_def split: prod.split) (metis fst_conv)

text \<open>What one attempt adds to the log.\<close>

definition turn_logs :: "('w \<Rightarrow> hook_event list) \<Rightarrow> u32 \<Rightarrow> 'w \<Rightarrow> ('a, 'w) turn \<Rightarrow> bool" where
  "turn_logs seen attempt w t \<longleftrightarrow>
     (case t of
        Stop w' _ r \<Rightarrow> \<exists>ts. seen w' = seen w @ ts @ final_events r \<and>
          (ts = [] \<and> final_events r = [] \<or> map turn_number ts = [Some attempt]) \<and>
          (\<forall>res. r = Returned (Inr res) \<longrightarrow> rr_turns res = attempt + 1)
      | Again w' _ _ \<Rightarrow> \<exists>e. seen w' = seen w @ [e] \<and> turn_number e = Some attempt)"

lemma turn_logs_simps:
  "turn_logs seen attempt w (Stop w' a r) \<longleftrightarrow>
     (\<exists>ts. seen w' = seen w @ ts @ final_events r \<and>
        (ts = [] \<and> final_events r = [] \<or> map turn_number ts = [Some attempt]) \<and>
        (\<forall>res. r = Returned (Inr res) \<longrightarrow> rr_turns res = attempt + 1))"
  "turn_logs seen attempt w (Again w' a prompt) \<longleftrightarrow> (\<exists>e. seen w' = seen w @ [e] \<and> turn_number e = Some attempt)"
  by (simp_all add: turn_logs_def)

lemma turn_logs_stop:
  "seen w' = seen w @ [e] @ final_events r \<Longrightarrow> turn_number e = Some attempt \<Longrightarrow>
     (\<And>res. r = Returned (Inr res) \<Longrightarrow> rr_turns res = attempt + 1) \<Longrightarrow> turn_logs seen attempt w (Stop w' a r)"
  unfolding turn_logs_simps by (intro exI [of _ "[e]"]) simp

lemma turn_output_logs:
  assumes "hooks_log env h mem seen" and "seen w1 = seen w"
  shows "turn_logs seen attempt w (turn_output env p beh cfg (Some h) retry mem prompt attempt w1 a raw v)"
proof -
  let ?act = "bh_decide beh (extract_confidence raw)"
  have l: "seen (notify (Some h) e x) = seen x @ [e]" for e x using assms(1) by (simp add: hooks_log_def notify_def)
  show ?thesis
  proof (cases ?act)
    case ActRetry
    then show ?thesis using back_off_log [OF assms(1), of retry "attempt + 1" "notify (Some h) (OnTurn attempt ActRetry) w1"]
      by (auto simp: turn_output_def turn_logs_simps(2) final_events_def l assms(2) Let_def
          intro!: turn_logs_stop [where e = "OnTurn attempt ActRetry"] split: option.split)
  next
    case ActDone
    show ?thesis
    proof (cases mem)
      case None
      then show ?thesis
        by (auto simp: turn_output_def ActDone final_events_def l assms(2) Let_def
            intro!: turn_logs_stop [where e = "OnTurn attempt ActDone"])
    next
      case (Some save)
      then have "seen (save_memory_entries env save n prompt res x) = seen x" for n res x
        using save_log [of env h save seen] assms(1) by simp
      then show ?thesis
        by (auto simp: turn_output_def ActDone Some final_events_def l assms(2) Let_def
            intro!: turn_logs_stop [where e = "OnTurn attempt ActDone"])
    qed
  qed
qed

lemma turn_error_logs:
  assumes "hooks_log env h mem seen" and "seen w1 = seen w"
  shows "turn_logs seen attempt w (turn_error env p beh (Some h) retry prompt attempt w1 a raw e)"
proof -
  have l: "seen (notify (Some h) e w1) = seen w @ [e]" for e
    using assms by (simp add: hooks_log_def notify_def)
  show ?thesis using back_off_log [OF assms(1), of retry "attempt + 1" "notify (Some h) (OnErr attempt e) w1"]
    by (auto simp: turn_error_def turn_logs_simps(2) final_events_def l Let_def
        intro!: turn_logs_stop [where e = "OnErr attempt e"] split: error_action.split sum.split option.split)
qed

lemma plugin_turn_logs:
  assumes "hooks_log env h mem seen"
  shows "turn_logs seen attempt w (plugin_turn env p beh cfg (Some h) retry mem prompt attempt w a)"
proof (cases "pe_expired env w a prompt (pc_timeout_per_call_secs cfg)")
  case None
  show ?thesis
  proof (cases "pa_send_message_with_tools (pe_agent env) w a prompt")
    case (Some x)
    obtain w1 a1 r where x: "x = (w1, a1, r)" by (cases x) auto
    then have "seen w1 = seen w" using assms Some unfolding hooks_log_def by blast
    then show ?thesis using turn_output_logs [OF assms] turn_error_logs [OF assms]
      by (auto simp: plugin_turn_def None Some x final_events_def turn_logs_simps(1) split: sum.split)
  qed (simp add: plugin_turn_def None turn_logs_simps final_events_def)
next
  case (Some x)
  obtain w1 a1 where x: "x = (w1, a1)" by (cases x) auto
  then have "seen w1 = seen w" using assms Some unfolding hooks_log_def by blast
  then show ?thesis by (simp add: plugin_turn_def Some x turn_logs_simps final_events_def)
qed

definition loop_logs :: "u32 \<Rightarrow> nat \<Rightarrow> hook_event list \<Rightarrow> hook_event list \<Rightarrow> plugin_outcome \<Rightarrow> bool" where
  "loop_logs limit start before after r \<longleftrightarrow>
     (\<exists>ts. after = before @ ts @ final_events r \<and> start + length ts \<le> unat limit \<and>
        map turn_number ts = map (\<lambda>k. Some (of_nat k)) [start ..< start + length ts] \<and>
        (\<forall>res. r = Returned (Inr res) \<longrightarrow> unat (rr_turns res) = start + length ts))"

lemma plugin_loop_logs:
  assumes "hooks_log env h mem seen" and "attempt \<le> pc_max_turns cfg"
    and "plugin_loop env p beh cfg (Some h) retry mem prompt attempt w a = (w', a', r)"
  shows "loop_logs (pc_max_turns cfg) (unat attempt) (seen w) (seen w') r"
  using assms
proof (induction env p beh cfg "Some h" retry mem prompt attempt w a rule: plugin_loop.induct)
  case (1 env p beh cfg retry mem prompt attempt w a)
  show ?case
  proof (cases "pc_max_turns cfg \<le> attempt")
    case True
    then show ?thesis using 1(3,4)
      by (auto simp: plugin_loop_steps(1) loop_logs_def final_events_def word_le_nat_alt)
  next
    case False
    note n = next_attempt(1,2) [OF False]
    let ?t = "plugin_turn env p beh cfg (Some h) retry mem prompt attempt w a"
    have t: "turn_logs seen attempt w ?t" by (rule plugin_turn_logs [OF 1(2)])
    show ?thesis
    proof (cases ?t)
      case (Stop w1 a1 r1)
      then have r: "w1 = w'" "r1 = r" using 1(4) by (simp_all add: plugin_loop_steps(2) [OF False Stop])
      obtain ts where "seen w' = seen w @ ts @ final_events r"
        "ts = [] \<and> final_events r = [] \<or> map turn_number ts = [Some attempt]"
        "\<forall>res. r = Returned (Inr res) \<longrightarrow> rr_turns res = attempt + 1"
        using t unfolding Stop turn_logs_simps r by (elim exE conjE) (rule that)
      moreover from this(2) have "length ts \<le> 1" "ts \<noteq> [] \<Longrightarrow> map turn_number ts = [Some attempt]"
        by (auto simp: map_eq_Cons_conv)
      ultimately show ?thesis using n unfolding loop_logs_def
        by (intro exI [of _ ts]) (auto simp: final_events_def map_eq_Cons_conv)
    next
      case (Again w1 a1 prompt1)
      obtain e where e: "seen w1 = seen w @ [e]" "turn_number e = Some attempt"
        using t unfolding Again turn_logs_simps by blast
      have "plugin_loop env p beh cfg (Some h) retry mem prompt1 (attempt + 1) w1 a1 = (w', a', r)"
        using 1(4) by (simp add: plugin_loop_steps(3) [OF False Again])
      with 1(1) [OF False Again 1(2)] have "loop_logs (pc_max_turns cfg) (unat (attempt + 1)) (seen w1) (seen w') r"
        using n by (simp add: word_le_nat_alt)
      then obtain ts where ts: "seen w' = seen w1 @ ts @ final_events r"
        "unat attempt + 1 + length ts \<le> unat (pc_max_turns cfg)"
        "map turn_number ts = map (\<lambda>k. Some (of_nat k)) [unat attempt + 1 ..< unat attempt + 1 + length ts]"
        "\<forall>res. r = Returned (Inr res) \<longrightarrow> unat (rr_turns res) = unat attempt + 1 + length ts"
        unfolding loop_logs_def n(2) by auto
      have "[unat attempt ..< unat attempt + length (e # ts)] =
          unat attempt # [unat attempt + 1 ..< unat attempt + 1 + length ts]" by (simp add: upt_rec)
      then show ?thesis using ts e unfolding loop_logs_def by (intro exI [of _ "e # ts"]) simp
    qed
  qed
qed

section \<open>A small world\<close>

text \<open>An agent that always answers the same, and a world in which nothing else happens.\<close>

definition mock_agent :: "string \<Rightarrow> (unit, 'w) plugin_agent" where
  "mock_agent raw =
     \<lparr>pa_set_system_prompt_delta = (\<lambda>a _. a), pa_set_output_contract_delta = (\<lambda>a _. a), pa_add_tools = (\<lambda>a _. a),
      pa_send_message_with_tools = (\<lambda>w a _. Some (w, a, Inr raw))\<rparr>"

definition still_env :: "('a, 'w) plugin_agent \<Rightarrow> ('a, 'w) plugin_env" where
  "still_env ops =
     \<lparr>pe_agent = ops, pe_expired = (\<lambda>_ _ _ _. None), pe_random = (\<lambda>w. (w, Fin 0)), pe_sleep = (\<lambda>w _. w),
      pe_now_ms = (\<lambda>w. (w, 0)), pe_to_string = (\<lambda>_. ''{}''), pe_to_string_pretty = (\<lambda>_. ''{}'')\<rparr>"

definition demo_plugin :: erased_plugin where
  "demo_plugin =
     \<lparr>ep_name = ''p'', ep_system_prompt = ''s'', ep_system_prompt_delta = default_prompt_delta ''s'',
      ep_to_prompt_json = (\<lambda>_. Inr ''go''), ep_parse_output_json = (\<lambda>_. Inr (JObj [])), ep_tools = [],
      ep_preferred_model = [], ep_output_schema = None\<rparr>"

lemma demo_run:
  fixes w :: 'w
  defines "res \<equiv> \<lparr>rr_output = ''{}'', rr_turns = 1, rr_final_action = ActDone\<rparr>"
  shows "run_plugin_loop (still_env (mock_agent raw)) demo_plugin yolo_behavior () ctx plugin_config_default hooks None None w =
    (notify hooks (OnComplete res) (notify hooks (OnTurn 0 ActDone) (notify hooks (OnStart ''p'' 1) w)), (), Returned (Inr res))"
proof -
  let ?env = "still_env (mock_agent raw) :: (unit, 'w) plugin_env"
  have tokens: "input_tokens ''go'' = 1" by (simp add: input_tokens_def)
  have turn: "plugin_turn ?env demo_plugin yolo_behavior plugin_config_default hooks None None prompt 0 w () =
      Stop (notify hooks (OnComplete res) (notify hooks (OnTurn 0 ActDone) w)) () (Returned (Inr res))" for prompt and w :: 'w
    by (simp add: plugin_turn_def still_env_def mock_agent_def turn_output_def yolo_behavior_def
        plugin_config_default_def res_def demo_plugin_def Let_def)
  have limit: "\<not> pc_max_turns plugin_config_default \<le> 0" by (simp add: plugin_config_default_def)
  have "ep_to_prompt_json demo_plugin ctx = Inr ''go''" "ep_name demo_plugin = ''p''" by (simp_all add: demo_plugin_def)
  then show ?thesis
    by (simp add: run_plugin_loop_def plugin_loop_steps(2) [OF limit turn] tokens)
qed

section \<open>Properties\<close>

text \<open>
  A plugin run over the agent always returns, unless a slice of its correction hint cuts a
  character in two, and it sends at most 120 requests per turn of the plugin: ten tool rounds of twelve
  requests each, however often the behaviour asks again.
\<close>

theorem plugin_run_bounded:
  assumes "unit_random aenv" and "counts_requests aenv calls" and "ag_retry ag = retry_default"
    and "pe_agent env = agent_as_plugin_agent aenv" and "unit_draws env" and "quiet env hooks mem calls"
    and "drops_within env calls (\<lambda>a. ag_retry a = retry_default) 120"
    and "retry = None \<or> retry = Some retry_default"
  shows "case run_plugin_loop env p beh ag ctx cfg hooks retry mem w of (w', ag', r) \<Rightarrow>
    calls w' \<le> calls w + 120 * unat (pc_max_turns cfg) \<and> ((\<exists>res. r = Returned res) \<or> slice_panic env p r)"
proof -
  obtain w' ag' r where r: "run_plugin_loop env p beh ag ctx cfg hooks retry mem w = (w', ag', r)"
    by (metis prod_cases3)
  from agent_plugin_run [OF assms r] show ?thesis by (simp only: r prod.case sound_outcome_def simp_thms)
qed

theorem plugin_run_bounded_witness:
  "case run_plugin_loop (still_env (agent_as_plugin_agent (scripted (\<lambda>_. Inl (RateLimit None ''p''))))) demo_plugin
     strict_default demo_agent JNull plugin_config_default None None None 0 of (w', ag', r) \<Rightarrow>
     w' \<le> 1200 \<and> ((\<exists>res. r = Returned res) \<or>
       slice_panic (still_env (agent_as_plugin_agent (scripted (\<lambda>_. Inl (RateLimit None ''p''))))) demo_plugin r)"
proof -
  let ?aenv = "scripted (\<lambda>_. Inl (RateLimit None ''p''))"
  let ?env = "still_env (agent_as_plugin_agent ?aenv)"
  have "ag_retry demo_agent = retry_default" by (simp add: demo_agent_def agent_new_def)
  moreover have "pe_agent ?env = agent_as_plugin_agent ?aenv" "unit_draws ?env" "quiet ?env None None (\<lambda>n. n)"
    "drops_within ?env (\<lambda>n. n) (\<lambda>a. ag_retry a = retry_default) 120"
    by (simp_all add: still_env_def unit_draws_def quiet_def drops_within_def)
  ultimately show ?thesis
    using plugin_run_bounded [where aenv = "?aenv" and calls = "\<lambda>n. n" and ag = demo_agent and env = "?env" and hooks = None and mem = None
        and retry = None and p = demo_plugin and beh = strict_default and ctx = JNull and cfg = plugin_config_default
        and w = "0", OF scripted_ok(1,2)]
    by (simp add: plugin_config_default_def)
qed

text \<open>
  C32: a run reports a result only for an answer of its agent that the plugin could parse and that the
  behaviour accepted on the confidence read from it; the result is that output, no larger than the
  limit, after at least one turn and at most \<open>max_turns\<close> of them.
\<close>

theorem plugin_result_vouched:
  assumes "run_plugin_loop env p beh a ctx cfg hooks retry mem w = (w', a', Returned (Inr res))"
  shows "\<exists>w1 a1 m w2 raw v.
    pa_send_message_with_tools (pe_agent env) w1 a1 m = Some (w2, a', Inr raw) \<and>
    ep_parse_output_json p raw = Inr v \<and> bh_decide beh (extract_confidence raw) = ActDone \<and>
    rr_output res = pe_to_string env v \<and> length (rr_output res) \<le> pc_max_output_bytes cfg \<and>
    0 < rr_turns res \<and> rr_turns res \<le> pc_max_turns cfg \<and> rr_final_action res = ActDone"
proof -
  from assms have "accepts env p beh cfg a' res \<and> 0 < rr_turns res \<and> rr_turns res \<le> pc_max_turns cfg \<and> rr_final_action res = ActDone"
    by (auto simp: run_plugin_loop_def Let_def split: sum.splits dest: loop_accepts)
  then show ?thesis unfolding accepts_def by blast
qed

theorem plugin_result_vouched_witness:
  "\<exists>w1 a1 m w2 raw.
    pa_send_message_with_tools (pe_agent (still_env (mock_agent ''x''))) w1 a1 m = Some (w2 :: nat, (), Inr raw) \<and>
    bh_decide yolo_behavior (extract_confidence raw) = ActDone"
  using plugin_result_vouched [OF demo_run [of "''x''" JNull None 0]] by blast

text \<open>
  An answer that is one line of JSON with a number after the confidence reads as confidence zero, so
  a strict behaviour with any positive threshold asks again until the turns are used up, whatever the
  confidence of the answer.
\<close>

theorem trailing_number_never_accepted:
  assumes "raw = ''{'' @ quoted ''confidence'' @ '':'' @ c # d @ '','' @ rest @ n # ''}''"
    and "number_char c" and "is_digit n" and "newline \<notin> set (d @ rest)"
    and "f64_lt (Fin 0) threshold"
    and "\<And>w a m. pe_expired env w a m (pc_timeout_per_call_secs cfg) = None"
    and "\<And>w a m. \<exists>w' a'. pa_send_message_with_tools (pe_agent env) w a m = Some (w', a', Inr raw)"
    and "ep_to_prompt_json p ctx = Inr prompt" and "ep_parse_output_json p raw = Inr v"
  shows "\<exists>w' a'. run_plugin_loop env p (strict_behavior threshold retries escalate_to) a ctx cfg hooks None mem w =
    (w', a', Returned (Inl (MaxTurnsExceeded (pc_max_turns cfg))))"
proof -
  let ?beh = "strict_behavior threshold retries escalate_to"
  have "extract_confidence raw = Fin 0" by (rule trailing_number_hides [OF assms(1-4)])
  moreover have "\<not> f64_le threshold (Fin 0)"
    using assms(5) by (cases threshold) (auto simp: f64_le_def f64_lt_def split: if_splits)
  ultimately have act: "bh_decide ?beh (extract_confidence raw) = ActRetry" by (simp add: strict_behavior_def)
  have "\<exists>w' a' prompt'. plugin_turn env p ?beh cfg hooks None mem prompt attempt w a = Again w' a' prompt'"
    for prompt attempt w a
  proof -
    obtain w1 a1 where "pa_send_message_with_tools (pe_agent env) w a prompt = Some (w1, a1, Inr raw)"
      using assms(7) by blast
    then show ?thesis by (simp add: plugin_turn_def assms(6,9) turn_output_def act back_off_def)
  qed
  from loop_all_again [OF this] show ?thesis by (simp add: run_plugin_loop_def assms(8))
qed

theorem trailing_number_never_accepted_witness:
  "\<exists>w' a'. run_plugin_loop
     (still_env (mock_agent (''{'' @ quoted ''confidence'' @ '':0.95,'' @ quoted ''line'' @ '':3}''))) demo_plugin
     (strict_behavior (Fin (1 / 2)) 3 None) () JNull plugin_config_default None None None (0 :: nat) =
     (w', a', Returned (Inl (MaxTurnsExceeded 10)))"
proof -
  let ?raw = "''{'' @ quoted ''confidence'' @ '':0.95,'' @ quoted ''line'' @ '':3}''"
  let ?env = "still_env (mock_agent ?raw) :: (unit, nat) plugin_env"
  have "?raw = ''{'' @ quoted ''confidence'' @ '':'' @ CHR ''0'' # ''.95'' @ '','' @ (quoted ''line'' @ '':'') @ CHR ''3'' # ''}''"
    by simp
  moreover have "number_char (CHR ''0'')" "is_digit (CHR ''3'')" by (simp_all add: number_char_def is_digit_def byte_def)
  moreover have "newline \<notin> set (''.95'' @ (quoted ''line'' @ '':''))" by (simp add: newline_def quoted_def dquote_def)
  moreover have "f64_lt (Fin 0) (Fin (1 / 2))" by (simp add: f64_lt_def)
  moreover have "pe_expired ?env w a m s = None" "\<exists>w' a'. pa_send_message_with_tools (pe_agent ?env) w a m = Some (w', a', Inr ?raw)"
    for w a m s by (simp_all add: still_env_def mock_agent_def)
  moreover have "ep_to_prompt_json demo_plugin JNull = Inr ''go''" "ep_parse_output_json demo_plugin ?raw = Inr (JObj [])"
    by (simp_all add: demo_plugin_def)
  ultimately have "\<exists>w' a'. run_plugin_loop ?env demo_plugin (strict_behavior (Fin (1 / 2)) 3 None) () JNull
      plugin_config_default None None None 0 = (w', a', Returned (Inl (MaxTurnsExceeded (pc_max_turns plugin_config_default))))"
    by (rule trailing_number_never_accepted)
  then show ?thesis by (simp add: plugin_config_default_def)
qed

text \<open>
  The hooks of a run see its start once, then exactly one event per answered turn, numbered from
  zero without gaps and at most \<open>max_turns\<close> of them, and its completion last, once, exactly when the run
  reports a result, whose number of turns is the number of those events.
\<close>

theorem plugin_hooks_lifecycle:
  assumes "hooks_log env h mem seen" and "ep_to_prompt_json p ctx = Inr prompt"
    and "run_plugin_loop env p beh a ctx cfg (Some h) retry mem w = (w', a', r)"
  shows "\<exists>turns. seen w' = seen w @ [OnStart (ep_name p) (input_tokens prompt)] @ turns
        @ (case r of Returned (Inr res) \<Rightarrow> [OnComplete res] | _ \<Rightarrow> []) \<and>
      length turns \<le> unat (pc_max_turns cfg) \<and>
      map turn_number turns = map (\<lambda>k. Some (of_nat k)) [0 ..< length turns] \<and>
      (\<forall>res. r = Returned (Inr res) \<longrightarrow> unat (rr_turns res) = length turns)"
proof -
  let ?start = "OnStart (ep_name p) (input_tokens prompt)"
  have "plugin_loop env p beh cfg (Some h) retry mem prompt 0 (h w ?start) (prepare_agent env p a) = (w', a', r)"
    using assms(3) by (simp add: run_plugin_loop_def assms(2) notify_def)
  from plugin_loop_logs [OF assms(1) _ this] have "loop_logs (pc_max_turns cfg) 0 (seen w @ [?start]) (seen w') r"
    using assms(1) by (simp add: hooks_log_def)
  then show ?thesis by (auto simp: loop_logs_def final_events_def)
qed

theorem plugin_hooks_lifecycle_witness:
  "\<exists>turns. fst (run_plugin_loop (still_env (mock_agent ''x'')) demo_plugin yolo_behavior () JNull plugin_config_default
        (Some (\<lambda>w e. w @ [e])) None None []) =
      [OnStart ''p'' 1] @ turns @ [OnComplete \<lparr>rr_output = ''{}'', rr_turns = 1, rr_final_action = ActDone\<rparr>] \<and>
      length turns = 1"
proof -
  let ?env = "still_env (mock_agent ''x'') :: (unit, hook_event list) plugin_env"
  have s: "hooks_log ?env (\<lambda>w e. w @ [e]) None (\<lambda>w. w)" by (simp add: hooks_log_def still_env_def mock_agent_def)
  have p: "ep_to_prompt_json demo_plugin JNull = Inr ''go''" "ep_name demo_plugin = ''p''" by (simp_all add: demo_plugin_def)
  from plugin_hooks_lifecycle [OF s p(1) demo_run [of "''x''" JNull "Some (\<lambda>w e. w @ [e])" "[]"]]
  show ?thesis by (simp add: demo_run p(2) input_tokens_def) (metis length_0_conv)
qed

end
