(* ===== verification/Tools.thy ===== *)
theory Tools
  imports Core_Types Rust_Path
begin

text \<open>
  \<open>tools/tool_registry.rs\<close> and \<open>tools/tool_definitions.rs\<close>: the registry of tools and their handlers,
  the merge of the tool lists of an agent, and the definitions of the built-in tools. A native
  handler is a function on the world; \<open>order\<close> is the order in which the \<open>HashMap\<close> yields its values.
\<close>

section \<open>The registry\<close>

datatype registry_error =
  Execution string
| NotFound string
| InvalidArgs string
| McpUnreachable string string
| TimeoutMs nat

fun registry_error_display :: "registry_error \<Rightarrow> string" where
  "registry_error_display (Execution s) = ''execution failed: '' @ s"
| "registry_error_display (NotFound s) = ''not found: '' @ s"
| "registry_error_display (InvalidArgs s) = ''invalid arguments: '' @ s"
| "registry_error_display (McpUnreachable server m) = ''MCP server '' @ quoted server @ '': '' @ m"
| "registry_error_display (TimeoutMs ms) = ''timeout after '' @ show_nat ms @ ''ms''"

datatype 'w tool_handler =
  Native "'w \<Rightarrow> json \<Rightarrow> 'w \<times> (registry_error, string) res"
| McpBacked string string

record 'w registered_tool =
  rt_definition :: tool_definition
  rt_handler :: "'w tool_handler"

type_synonym 'w tool_registry = "(string, 'w registered_tool) imap"

definition tools_register ::
  "'w tool_registry \<Rightarrow> string \<Rightarrow> 'w tool_handler \<Rightarrow> tool_definition \<Rightarrow> 'w tool_registry" where
  "tools_register reg name handler td = im_insert name \<lparr>rt_definition = td, rt_handler = handler\<rparr> reg"

definition tools_get :: "'w tool_registry \<Rightarrow> string \<Rightarrow> 'w registered_tool option" where
  "tools_get reg name = map_of reg name"

definition tools_is_empty :: "'w tool_registry \<Rightarrow> bool" where
  "tools_is_empty reg \<longleftrightarrow> reg = []"

definition tools_definitions ::
  "('w registered_tool list \<Rightarrow> 'w registered_tool list) \<Rightarrow> 'w tool_registry \<Rightarrow> tool_definition list" where
  "tools_definitions order reg = map rt_definition (order (im_values reg))"

text \<open>The handler the executor runs: errors become their text; a tool of an MCP server has none.\<close>

definition get_handler :: "'w tool_registry \<Rightarrow> string \<Rightarrow> ('w \<Rightarrow> json \<Rightarrow> 'w \<times> string) option" where
  "get_handler reg name =
     Option.bind (tools_get reg name) (\<lambda>entry.
       case rt_handler entry of
         Native f \<Rightarrow> Some (\<lambda>w args. case f w args of
             (w1, Inr s) \<Rightarrow> (w1, s)
           | (w1, Inl e) \<Rightarrow> (w1, registry_error_display e))
       | McpBacked _ _ \<Rightarrow> None)"

section \<open>Merging\<close>

definition merge_names ::
  "'w tool_registry \<Rightarrow> string list \<Rightarrow> (string, tool_definition) imap \<Rightarrow> (string, tool_definition) imap" where
  "merge_names reg names merged =
     fold (\<lambda>name m. case tools_get reg name of Some t \<Rightarrow> im_insert name (rt_definition t) m | None \<Rightarrow> m) names merged"

definition merged_tools ::
  "'w tool_registry \<Rightarrow> string list \<Rightarrow> string list \<Rightarrow> tool_definition list \<Rightarrow> (string, tool_definition) imap" where
  "merged_tools reg shared_names slot_names plugin_tools =
     fold (\<lambda>td. im_insert (td_name td) td) plugin_tools
       (merge_names reg slot_names (merge_names reg shared_names []))"

definition merge_tool_definitions ::
  "'w tool_registry \<Rightarrow> string list \<Rightarrow> string list \<Rightarrow> tool_definition list \<Rightarrow> tool_definition list" where
  "merge_tool_definitions reg shared_names slot_names plugin_tools =
     im_values (merged_tools reg shared_names slot_names plugin_tools)"

section \<open>Built-in tools\<close>

text \<open>A schema of string parameters, as \<open>json!\<close> builds it.\<close>

definition string_param :: "string \<times> string \<Rightarrow> string \<times> json" where
  "string_param p = (fst p, obj_of [(''type'', JStr ''string''), (''description'', JStr (snd p))])"

definition object_schema :: "(string \<times> string) list \<Rightarrow> string list \<Rightarrow> json" where
  "object_schema params required =
     obj_of [(''type'', JStr ''object''), (''properties'', obj_of (map string_param params)),
             (''required'', JArr (map JStr required))]"

definition tool_def :: "string \<Rightarrow> string \<Rightarrow> json \<Rightarrow> tool_definition" where
  "tool_def name description parameters =
     \<lparr>td_name = name, td_description = description, td_parameters = parameters\<rparr>"

definition default_tool_definitions :: "tool_definition list" where
  "default_tool_definitions =
     [tool_def ''read_file'' ''Read the contents of a file at the given absolute path.''
        (object_schema [(''path'', ''Absolute path to the file'')] [''path'']),
      tool_def ''grep'' ''Search for a pattern in files in a directory.''
        (object_schema [(''pattern'', ''Regex pattern to search for''),
           (''path'', ''Directory to search in (default: current dir)'')] [''pattern'']),
      tool_def ''write_file'' ''Write content to a file. Only allowed under the project source directories.''
        (object_schema [(''path'', ''Relative path under project root''), (''content'', ''File content to write'')]
           [''path'', ''content'']),
      tool_def ''list_directory'' ''List files and directories in a given path.''
        (object_schema [(''path'', ''Directory path to list'')] [''path'']),
      tool_def ''bash'' ''Run a command and return its output. Prefer other tools when possible.''
        (object_schema [(''command'', ''Shell command to run'')] [''command'']),
      tool_def ''patch'' ''Apply a find/replace edit to a file. Safer than write_file for targeted changes.''
        (object_schema [(''file_path'', ''Relative path under project root''),
           (''search'', ''Exact text to find (must appear exactly once)''), (''insert'', ''Replacement text'')]
           [''file_path'', ''search'', ''insert'']),
      tool_def ''web_search'' ''Fetch a URL and return its text content.''
        (object_schema [(''url'', ''URL to fetch'')] [''url''])]"

section \<open>Lemmas\<close>

lemma map_of_fold_insert:
  "map_of (fold (\<lambda>td. im_insert (k td) (v td)) xs m) n =
     (case find (\<lambda>td. k td = n) (rev xs) of Some td \<Rightarrow> Some (v td) | None \<Rightarrow> map_of m n)"
  by (induction xs arbitrary: m) (auto simp: find_append or_else_def split: option.splits)

lemma im_wf_fold_insert: "im_wf m \<Longrightarrow> im_wf (fold (\<lambda>td. im_insert (k td) (v td)) xs m)"
  by (induction xs arbitrary: m) auto

lemma map_of_merge_names:
  "map_of (merge_names reg names m) n =
     (if n \<in> set names \<and> tools_get reg n \<noteq> None then map_option rt_definition (tools_get reg n) else map_of m n)"
  unfolding merge_names_def by (induction names arbitrary: m) (auto split: option.split)

lemma im_wf_merge_names: "im_wf m \<Longrightarrow> im_wf (merge_names reg names m)"
  unfolding merge_names_def by (induction names arbitrary: m) (auto split: option.split)

lemma tools_get_register:
  "tools_get (tools_register reg name h td) n =
     (if n = name then Some \<lparr>rt_definition = td, rt_handler = h\<rparr> else tools_get reg n)"
  by (simp add: tools_get_def tools_register_def)

section \<open>Properties\<close>

text \<open>
  The merged tool list has one entry per name: the last plugin tool of that name if there is one,
  otherwise the registered tool when the shared or the slot list names it, otherwise nothing; names
  that the registry does not know are dropped.
\<close>

theorem merge_priority:
  shows "merge_tool_definitions reg shared slot plugin = map snd (merged_tools reg shared slot plugin)
    \<and> distinct (map fst (merged_tools reg shared slot plugin))
    \<and> map_of (merged_tools reg shared slot plugin) name =
        (case find (\<lambda>td. td_name td = name) (rev plugin) of
           Some td \<Rightarrow> Some td
         | None \<Rightarrow> if name \<in> set shared \<union> set slot then map_option rt_definition (tools_get reg name) else None)"
proof -
  have "im_wf (merged_tools reg shared slot plugin)"
    unfolding merged_tools_def by (intro im_wf_fold_insert im_wf_merge_names im_wf_simps)
  then show ?thesis
    by (auto simp: merge_tool_definitions_def im_values_def im_wf_def merged_tools_def map_of_fold_insert
        map_of_merge_names split: option.split)
qed

end
