(* ===== verification/Handoff.thy ===== *)
theory Handoff
  imports Json
begin

text \<open>
  \<open>core/handoff.rs\<close>: where a run goes next. Targets and their text form, conditions over the
  JSON output of an agent (a field path, an operator, a value), and the first-match rule table.
  \<open>json_str\<close>, an argument of the definitions that need it, is \<open>serde_json\<close>'s printing of a value.
\<close>

section \<open>Targets\<close>

definition MAX_FORK_TARGETS :: nat where "MAX_FORK_TARGETS = 10"
definition MAX_JSON_DEPTH :: nat where "MAX_JSON_DEPTH = 50"
definition FLOAT_EQ_EPSILON :: f64 where "FLOAT_EQ_EPSILON = round_f64 (1 / 10 ^ 9)"

datatype handoff_target = Single string | Fork "string list"

fun target_display :: "handoff_target \<Rightarrow> string" where
  "target_display (Single name) = name"
| "target_display (Fork names) = ''fork:'' @ str_join '','' names"

definition target_parse :: "string \<Rightarrow> handoff_target" where
  "target_parse s =
     (let trimmed_s = trim s
      in case strip_prefix ''fork:'' trimmed_s of
           Some fork_part \<Rightarrow>
             let targets = filter (\<lambda>w. w \<noteq> []) (map trim (str_split (CHR '','') fork_part))
             in Fork (if length targets > MAX_FORK_TARGETS then take MAX_FORK_TARGETS targets
                      else targets)
         | None \<Rightarrow> Single trimmed_s)"

fun agent_names :: "handoff_target \<Rightarrow> string list" where
  "agent_names (Single name) = [name]"
| "agent_names (Fork names) = names"

definition target_serialize :: "handoff_target \<Rightarrow> json" where
  "target_serialize t =
     (case t of Single name \<Rightarrow> JStr name | Fork names \<Rightarrow> JStr (''fork:'' @ str_join '','' names))"

definition target_deserialize :: "json \<Rightarrow> handoff_target option" where
  "target_deserialize v = map_option target_parse (as_str v)"

section \<open>Paths\<close>

datatype path_segment = Key string | Index nat | Any

fun path_step :: "path_segment list \<times> string \<Rightarrow> char \<Rightarrow> path_segment list \<times> string" where
  "path_step (segments, current) ch =
     (if ch = CHR ''.'' \<or> ch = CHR ''['' then
        (if current \<noteq> [] then (segments @ [Key current], []) else (segments, current))
      else if ch = CHR '']'' then
        (if current = ''any'' then (segments @ [Any], [])
         else case parse_uint 64 current of
                Some i \<Rightarrow> (segments @ [Index i], [])
              | None \<Rightarrow> (segments, []))
      else (segments, current @ [ch]))"

definition parse_path :: "string \<Rightarrow> path_segment list" where
  "parse_path path =
     (let (segments, current) = foldl path_step ([], []) path
      in if current \<noteq> [] then segments @ [Key current] else segments)"

fun rebuild_step :: "string \<Rightarrow> path_segment \<Rightarrow> string" where
  "rebuild_step path (Key k) = (if path \<noteq> [] then path @ ''.'' @ k else k)"
| "rebuild_step path (Index i) = path @ ''['' @ show_nat i @ '']''"
| "rebuild_step path Any = path @ ''[any]''"

definition rebuild_path :: "path_segment list \<Rightarrow> string" where
  "rebuild_path segments = foldl rebuild_step [] segments"

definition split_at_any :: "string \<Rightarrow> (string \<times> string) option" where
  "split_at_any path =
     (let segments = parse_path path
      in map_option (\<lambda>p. (rebuild_path (take p segments), rebuild_path (drop (p + 1) segments)))
           (position (\<lambda>s. s = Any) segments))"

text \<open>\<open>resolve_segs depth current segments\<close> is the loop of \<open>resolve_field\<close> from \<open>depth\<close> on.\<close>

fun resolve_segs :: "nat \<Rightarrow> json \<Rightarrow> path_segment list \<Rightarrow> json option" where
  "resolve_segs depth current [] = Some current"
| "resolve_segs depth current (seg # segs) =
     (if depth + 1 > MAX_JSON_DEPTH then None
      else case seg of
             Key k \<Rightarrow> Option.bind (json_get current k) (\<lambda>v. resolve_segs (depth + 1) v segs)
           | Index i \<Rightarrow> Option.bind (json_nth current i) (\<lambda>v. resolve_segs (depth + 1) v segs)
           | Any \<Rightarrow> Some current)"

definition resolve_field :: "json \<Rightarrow> string \<Rightarrow> json option" where
  "resolve_field v path = resolve_segs 0 v (parse_path path)"

section \<open>Operators\<close>

definition float_equal :: "f64 \<Rightarrow> f64 \<Rightarrow> bool" where
  "float_equal a b \<longleftrightarrow> f64_lt (f64_abs (f64_sub a b)) FLOAT_EQ_EPSILON"

definition parse_bool :: "string \<Rightarrow> bool option" where
  "parse_bool s = (if s = ''true'' then Some True else if s = ''false'' then Some False else None)"

definition num_str_equal :: "jnum \<Rightarrow> string \<Rightarrow> bool" where
  "num_str_equal n s = (case parse_f64 s of None \<Rightarrow> False | Some f \<Rightarrow> float_equal (num_as_f64 n) f)"

definition values_equal :: "json \<Rightarrow> json \<Rightarrow> bool" where
  "values_equal a b =
     (case (a, b) of
        (JStr s, JStr t) \<Rightarrow> s = t
      | (JNum n, JStr s) \<Rightarrow> num_str_equal n s
      | (JStr s, JNum n) \<Rightarrow> num_str_equal n s
      | (JBool b1, JBool b2) \<Rightarrow> b1 = b2
      | (JBool b, JStr s) \<Rightarrow> parse_bool s = Some b
      | (JNull, JNull) \<Rightarrow> True
      | _ \<Rightarrow> a = b)"

definition to_f64 :: "json \<Rightarrow> f64 option" where
  "to_f64 v = (case v of JNum n \<Rightarrow> Some (num_as_f64 n) | JStr s \<Rightarrow> parse_f64 s | _ \<Rightarrow> None)"

definition compare_values :: "json \<Rightarrow> json \<Rightarrow> ordering option" where
  "compare_values a b =
     Option.bind (to_f64 a) (\<lambda>x. Option.bind (to_f64 b) (\<lambda>y. partial_cmp x y))"

definition string_contains :: "(json \<Rightarrow> string) \<Rightarrow> json \<Rightarrow> json \<Rightarrow> bool" where
  "string_contains json_str a b =
     (case a of
        JStr sa \<Rightarrow> str_contains sa (case b of JStr s \<Rightarrow> s | other \<Rightarrow> json_str other)
      | _ \<Rightarrow> False)"

record handoff_condition =
  cond_field :: string
  cond_op :: string
  cond_value :: json

definition eval_operator :: "(json \<Rightarrow> string) \<Rightarrow> json \<Rightarrow> handoff_condition \<Rightarrow> bool" where
  "eval_operator json_str v cond =
     (if cond_op cond = ''=='' then values_equal v (cond_value cond)
      else if cond_op cond = ''!='' then \<not> values_equal v (cond_value cond)
      else if cond_op cond = ''<'' then compare_values v (cond_value cond) = Some Less
      else if cond_op cond = ''>'' then compare_values v (cond_value cond) = Some Greater
      else if cond_op cond = ''<='' then compare_values v (cond_value cond) \<in> {Some Less, Some Equal}
      else if cond_op cond = ''>='' then compare_values v (cond_value cond) \<in> {Some Greater, Some Equal}
      else if cond_op cond = ''contains'' then string_contains json_str v (cond_value cond)
      else False)"

section \<open>Conditions and rules\<close>

definition eval_condition :: "(json \<Rightarrow> string) \<Rightarrow> handoff_condition \<Rightarrow> json \<Rightarrow> bool" where
  "eval_condition json_str cond output =
     (case split_at_any (cond_field cond) of
        Some (before, after) \<Rightarrow>
          (case resolve_field output before of
             Some (JArr arr) \<Rightarrow>
               list_ex (\<lambda>elem. case resolve_field elem after of
                                 Some v \<Rightarrow> eval_operator json_str v cond
                               | None \<Rightarrow> False) arr
           | _ \<Rightarrow> False)
      | None \<Rightarrow>
          (case resolve_field output (cond_field cond) of
             Some v \<Rightarrow> eval_operator json_str v cond
           | None \<Rightarrow> False))"

record handoff_rule =
  rule_condition :: "handoff_condition option"
  rule_all :: "handoff_condition list option"
  rule_any :: "handoff_condition list option"
  rule_default :: bool
  rule_target :: "handoff_target option"

definition rule_eval :: "(json \<Rightarrow> string) \<Rightarrow> handoff_rule \<Rightarrow> json \<Rightarrow> bool" where
  "rule_eval json_str r output =
     (if rule_default r then True
      else case rule_condition r of Some c \<Rightarrow> eval_condition json_str c output
      | None \<Rightarrow>
        (case rule_all r of Some cs \<Rightarrow> cs \<noteq> [] \<and> list_all (\<lambda>c. eval_condition json_str c output) cs
         | None \<Rightarrow>
           (case rule_any r of Some cs \<Rightarrow> cs \<noteq> [] \<and> list_ex (\<lambda>c. eval_condition json_str c output) cs
            | None \<Rightarrow> False)))"

definition eval_rules :: "(json \<Rightarrow> string) \<Rightarrow> handoff_rule list \<Rightarrow> json \<Rightarrow> handoff_target option" where
  "eval_rules json_str rules output =
     Option.bind (find (\<lambda>r. rule_eval json_str r output) rules) rule_target"

section \<open>Targets survive printing and parsing\<close>

fun target_wf :: "handoff_target \<Rightarrow> bool" where
  "target_wf (Single n) \<longleftrightarrow> trimmed n \<and> \<not> prefix ''fork:'' n"
| "target_wf (Fork ns) \<longleftrightarrow> length ns \<le> MAX_FORK_TARGETS \<and>
     (\<forall>n \<in> set ns. trimmed n \<and> n \<noteq> [] \<and> CHR '','' \<notin> set n)"

lemma target_wf_parse: "target_wf (target_parse s)"
proof (cases "strip_prefix ''fork:'' (trim s)")
  case None
  then have "\<not> prefix ''fork:'' (trim s)" by (simp add: strip_prefix_None_iff)
  with None show ?thesis by (simp add: target_parse_def Let_def)
next
  case (Some f)
  define ts where "ts = filter (\<lambda>w. w \<noteq> []) (map trim (str_split (CHR '','') f))"
  have "\<forall>n \<in> set ts. trimmed n \<and> n \<noteq> [] \<and> CHR '','' \<notin> set n"
    using str_split_no_delim [of _ "CHR '',''" f] set_trim_subset by (fastforce simp: ts_def)
  then show ?thesis
    using Some by (auto simp: target_parse_def ts_def [symmetric] Let_def dest: in_set_takeD)
qed

lemma trimmed_fork_text:
  assumes "target_wf (Fork ns)"
  shows "trimmed (''fork:'' @ str_join '','' ns)"
proof (cases "ns = []")
  case True
  then show ?thesis by (auto intro!: trimmed_ascii simp: ascii_ws_def byte_def)
next
  case False
  then obtain b n where ns: "ns = b @ [n]" by (cases ns rule: rev_cases) auto
  define p where "p = (if b = [] then ''fork:'' else ''fork:'' @ str_join '','' b @ '','')"
  have eq: "''fork:'' @ str_join '','' ns = p @ n"
    by (simp add: ns p_def str_join_snoc)
  obtain q c where p: "p = q @ [c]" and c: "byte c < 128" and f: "p @ n = CHR ''f'' # tl (p @ n)"
    by (cases "b = []") (auto simp: p_def byte_def intro: that [of "''fork''"])
  have "trimmed n" "n \<noteq> []" using assms ns by auto
  then have "lead_len (map rev ws_encodings) (rev (p @ n)) = 0"
    unfolding p using c by (simp add: trimmed_end_append)
  moreover have "lead_len ws_encodings (p @ n) = 0"
    by (subst f, rule ascii_nonspace_start) (simp_all add: byte_def ascii_ws_def)
  ultimately show ?thesis unfolding eq trimmed_def by simp
qed

lemma target_parse_display:
  assumes "target_wf t"
  shows "target_parse (target_display t) = t"
proof (cases t)
  case (Single n)
  with assms show ?thesis by (simp add: target_parse_def trim_trimmed Let_def strip_prefix_def)
next
  case (Fork ns)
  have "trim (target_display t) = ''fork:'' @ str_join '','' ns"
    using assms Fork trimmed_fork_text [of ns] by (simp add: trim_trimmed)
  moreover have "filter (\<lambda>w. w \<noteq> []) (map trim (str_split (CHR '','') (str_join '','' ns))) = ns"
  proof (cases "ns = []")
    case False
    then have "str_split (CHR '','') (str_join '','' ns) = ns"
      using assms Fork by (auto intro: str_split_join)
    moreover have "map trim ns = ns"
      using assms Fork by (auto intro: map_idI simp: trim_trimmed)
    ultimately show ?thesis using assms Fork by (simp add: filter_id_conv)
  qed simp
  ultimately show ?thesis
    using assms Fork by (simp add: target_parse_def Let_def del: append.simps)
qed

section \<open>Paths survive rebuilding and parsing\<close>

fun seg_wf :: "path_segment \<Rightarrow> bool" where
  "seg_wf (Key k) \<longleftrightarrow> k \<noteq> [] \<and> CHR ''.'' \<notin> set k \<and> CHR ''['' \<notin> set k \<and> CHR '']'' \<notin> set k"
| "seg_wf (Index i) \<longleftrightarrow> i < 2 ^ 64"
| "seg_wf Any \<longleftrightarrow> True"

lemma path_step_plain:
  "CHR ''.'' \<notin> set k \<Longrightarrow> CHR ''['' \<notin> set k \<Longrightarrow> CHR '']'' \<notin> set k \<Longrightarrow>
     foldl path_step (segs, cur) k = (segs, cur @ k)"
  by (induction k arbitrary: cur) auto

lemma path_step_digits:
  "list_all is_digit ds \<Longrightarrow> foldl path_step (segs, cur) ds = (segs, cur @ ds)"
  by (rule path_step_plain) (auto simp: list_all_iff is_digit_def byte_def)

text \<open>What the scanner holds: the segments so far, the last one possibly still open.\<close>

definition scanned :: "path_segment list \<times> string \<Rightarrow> path_segment list \<Rightarrow> bool" where
  "scanned st segs \<longleftrightarrow>
     (snd st = [] \<and> fst st = segs) \<or> (snd st \<noteq> [] \<and> fst st @ [Key (snd st)] = segs)"

lemma scanned_close:
  "scanned st segs \<Longrightarrow> c \<in> {CHR ''.'', CHR ''[''} \<Longrightarrow> path_step st c = (segs, [])"
  by (cases st) (auto simp: scanned_def)

lemma show_nat_not_any: "show_nat i \<noteq> ''any''"
  using show_nat_digits [of i] by (auto simp: is_digit_def byte_def)

lemma scan_rebuild:
  "list_all seg_wf segs \<Longrightarrow> scanned (foldl path_step ([], []) (rebuild_path segs)) segs"
proof (induction segs rule: rev_induct)
  case Nil
  then show ?case by (simp add: rebuild_path_def scanned_def)
next
  case (snoc x segs)
  let ?p = "rebuild_path segs" and ?st = "foldl path_step ([], []) (rebuild_path segs)"
  have IH: "scanned ?st segs" using snoc by simp
  have reb: "rebuild_path (segs @ [x]) = rebuild_step ?p x" by (simp add: rebuild_path_def)
  show ?case
  proof (cases x)
    case (Key k)
    then have k: "k \<noteq> []" "CHR ''.'' \<notin> set k" "CHR ''['' \<notin> set k" "CHR '']'' \<notin> set k"
      using snoc.prems by auto
    show ?thesis
    proof (cases "?p = []")
      case True
      with IH have "segs = []" by (simp add: scanned_def)
      moreover have "rebuild_path [Key k] = k" by (simp add: rebuild_path_def)
      ultimately show ?thesis using Key k by (simp add: path_step_plain scanned_def)
    next
      case False
      with k scanned_close [OF IH, of "CHR ''.''"] show ?thesis
        unfolding Key by (simp add: reb [unfolded Key] path_step_plain scanned_def del: path_step.simps)
    qed
  next
    case (Index i)
    then have "parse_uint 64 (show_nat i) = Some i" using snoc.prems by (simp add: parse_show_nat)
    then have "path_step (segs, show_nat i) (CHR '']'') = (segs @ [Index i], [])"
      by (simp add: show_nat_not_any)
    with scanned_close [OF IH, of "CHR ''[''"] show ?thesis
      unfolding Index by (simp add: reb [unfolded Index] path_step_digits show_nat_digits scanned_def del: path_step.simps)
  next
    case Any
    have "foldl path_step (segs, []) ''any]'' = (segs @ [Any], [])" by simp
    with scanned_close [OF IH, of "CHR ''[''"] show ?thesis
      unfolding Any by (simp add: reb [unfolded Any] scanned_def del: path_step.simps)
  qed
qed

lemma parse_rebuild_path: "list_all seg_wf segs \<Longrightarrow> parse_path (rebuild_path segs) = segs"
  using scan_rebuild [of segs] by (auto simp: parse_path_def scanned_def split: prod.splits)


section \<open>What a path and a condition mean\<close>

text \<open>The specification of field access: follow the segments, with no limit on their number.\<close>

fun json_lookup :: "json \<Rightarrow> path_segment list \<Rightarrow> json option" where
  "json_lookup v [] = Some v"
| "json_lookup v (Key k # segs) = Option.bind (json_get v k) (\<lambda>w. json_lookup w segs)"
| "json_lookup v (Index i # segs) = Option.bind (json_nth v i) (\<lambda>w. json_lookup w segs)"
| "json_lookup v (Any # segs) = Some v"

lemma resolve_segs_spec:
  assumes "Any \<notin> set segs"
  shows "resolve_segs d v segs =
    (if segs = [] \<or> d + length segs \<le> MAX_JSON_DEPTH then json_lookup v segs else None)"
  using assms
proof (induction segs arbitrary: d v)
  case (Cons seg segs)
  then show ?case
    by (cases seg) (auto simp: bind_eq_None_conv intro!: bind_option_cong)
qed simp

lemma resolve_field_rebuild:
  assumes "list_all seg_wf segs" and "Any \<notin> set segs"
  shows "resolve_field v (rebuild_path segs) =
    (if length segs \<le> MAX_JSON_DEPTH then json_lookup v segs else None)"
  using assms by (auto simp: resolve_field_def parse_rebuild_path resolve_segs_spec)

lemma split_at_any_rebuild:
  assumes "list_all seg_wf (before @ Any # after)" and "Any \<notin> set before"
  shows "split_at_any (rebuild_path (before @ Any # after)) =
    Some (rebuild_path before, rebuild_path after)"
proof -
  have "position (\<lambda>s. s = Any) (before @ Any # after) = Some (length before)"
    using assms(2) by (intro position_append_Cons) auto
  with assms(1) show ?thesis by (simp add: split_at_any_def parse_rebuild_path Let_def)
qed

lemma split_at_any_None:
  assumes "list_all seg_wf segs" and "Any \<notin> set segs"
  shows "split_at_any (rebuild_path segs) = None"
  using assms by (auto simp: split_at_any_def parse_rebuild_path position_None_iff)

section \<open>Comparing numbers\<close>

lemma bitlen_rec: "n \<noteq> 0 \<Longrightarrow> bitlen n = Suc (bitlen (n div 2))"
  by (subst bitlen.simps) simp

lemma float_eq_epsilon: "FLOAT_EQ_EPSILON = Fin (4835703278458517 / 4835703278458516698824704)"
proof -
  have quo: "quotient_of (1 / 1000000000) = (1, 1000000000)"
    by (simp add: rat_divide_code quotient_of_int Rat.normalize_def)
  have lg: "floor_log2 (1 / 1000000000) = - 30"
    by (simp add: floor_log2_def quo pow2_def Let_def bitlen_rec)
  have div: "1 / 1000000000 / pow2 (- 82) = 4835703278458516698824704 / 1000000000"
    by (simp add: pow2_def)
  have fl: "\<lfloor>9444732965739290427392 / 1953125 :: rat\<rfloor> = 4835703278458516"
    by (rule floor_unique) simp_all
  have rnd: "round_half_even (4835703278458516698824704 / 1000000000) = 4835703278458517"
    by (simp add: round_half_even_def Let_def fl)
  have pos: "round_pos (1 / 1000000000) = 4835703278458517 / 4835703278458516698824704"
    unfolding round_pos_def lg by (simp add: div [simplified] rnd [simplified] pow2_def Let_def)
  have "\<not> (2 :: rat) ^ 1024 \<le> 1"
    using power_increasing [of 1 1024 "2 :: rat"] by (simp only: not_le) (rule one_less_power, simp_all)
  then have "\<not> (2 :: rat) ^ 1024 \<le> round_pos (1 / 1000000000)"
    unfolding pos by linarith
  then have "round_f64 (1 / 1000000000) = Fin (round_pos (1 / 1000000000))"
    unfolding round_f64_def Let_def by simp
  then show ?thesis by (simp add: FLOAT_EQ_EPSILON_def pos)
qed


lemma float_equal_nat:
  assumes "m < 2 ^ 53" and "n < 2 ^ 53"
  shows "float_equal (Fin (of_nat m)) (Fin (of_nat n)) \<longleftrightarrow> m = n"
proof -
  have "(of_nat m :: rat) + - of_nat n = of_int (int m - int n)" by simp
  moreover have "round_f64 (of_int (int m - int n)) = Fin (of_int (int m - int n))"
    using assms by (intro round_f64_of_int) auto
  ultimately have "f64_abs (f64_sub (Fin (of_nat m)) (Fin (of_nat n))) = Fin (of_int \<bar>int m - int n\<bar>)"
    by (simp add: f64_sub_def)
  then have "float_equal (Fin (of_nat m)) (Fin (of_nat n)) \<longleftrightarrow>
      (of_int \<bar>int m - int n\<bar> :: rat) < 4835703278458517 / 4835703278458516698824704"
    by (simp add: float_equal_def f64_lt_def float_eq_epsilon)
  also have "\<dots> \<longleftrightarrow> \<bar>int m - int n\<bar> = 0"
  proof
    assume "(of_int \<bar>int m - int n\<bar> :: rat) < 4835703278458517 / 4835703278458516698824704"
    then have "(of_int \<bar>int m - int n\<bar> :: rat) < of_int 1" by simp
    then show "\<bar>int m - int n\<bar> = 0" by (simp only: of_int_less_iff)
  qed simp
  finally show ?thesis by simp
qed

definition nat_ordering :: "nat \<Rightarrow> nat \<Rightarrow> ordering" where
  "nat_ordering m n = (if m < n then Less else if m = n then Equal else Greater)"

text \<open>A JSON value that denotes the whole number \<open>n\<close>: a number, or its decimal text.\<close>

definition denotes_nat :: "json \<Rightarrow> nat \<Rightarrow> bool" where
  "denotes_nat v n \<longleftrightarrow> n < 2 ^ 53 \<and> (v = JNum (PosInt (of_nat n)) \<or> v = JStr (show_nat n))"

lemma unat_of_nat_small: "n < 2 ^ 53 \<Longrightarrow> unat (of_nat n :: u64) = n"
  by (simp add: unat_of_nat)

lemma to_f64_denotes: "denotes_nat v n \<Longrightarrow> to_f64 v = Some (Fin (of_nat n))"
  by (auto simp: denotes_nat_def to_f64_def parse_f64_show_nat u64_to_f64_exact unat_of_nat_small)

lemma compare_values_denotes:
  "denotes_nat v m \<Longrightarrow> denotes_nat w n \<Longrightarrow> compare_values v w = Some (nat_ordering m n)"
  by (simp add: compare_values_def to_f64_denotes nat_ordering_def)

lemma values_equal_denotes:
  assumes "denotes_nat v m" and "denotes_nat w n"
  shows "values_equal v w \<longleftrightarrow> m = n"
proof -
  have w: "(of_nat m :: u64) = of_nat n \<longleftrightarrow> m = n" if "m < 2 ^ 53" "n < 2 ^ 53"
    using that unat_of_nat_small by metis
  show ?thesis
    using assms w
    by (auto simp: denotes_nat_def values_equal_def num_str_equal_def parse_f64_show_nat show_nat_inj
        u64_to_f64_exact unat_of_nat_small float_equal_nat)
qed


section \<open>Properties\<close>

text \<open>
  C39: a parsed target is well formed (a fork has at most ten names, each trimmed, non-empty and
  free of commas; a single name is trimmed), and writing it to JSON and reading it back gives the
  same target.
\<close>

theorem handoff_target_roundtrip:
  "target_wf (target_parse s) \<and>
   target_deserialize (target_serialize (target_parse s)) = Some (target_parse s)"
proof -
  have "target_serialize t = JStr (target_display t)" for t
    by (cases t) (simp_all add: target_serialize_def)
  then show ?thesis
    by (simp add: target_deserialize_def target_parse_display target_wf_parse)
qed

text \<open>
  Rewriting a field path from its segments and parsing the text again gives the same segments,
  for keys without the three punctuation characters and indices of a machine word.
\<close>

theorem handoff_path_roundtrip:
  assumes "list_all seg_wf segs"
  shows "parse_path (rebuild_path segs) = segs"
  using assms by (rule parse_rebuild_path)

theorem handoff_path_roundtrip_witness:
  "parse_path (rebuild_path [Key ''issues'', Index 12, Any, Key ''level'']) =
     [Key ''issues'', Index 12, Any, Key ''level'']"
  by (rule handoff_path_roundtrip) simp

text \<open>
  C20: a condition on a plain path of at most fifty segments applies its operator to the value found
  by following the segments, and is false when there is none; a condition with an \<open>[any]\<close> segment
  holds exactly when the path before it leads to an array that has an element in which the path
  after it leads to a value the operator accepts.
\<close>

theorem handoff_condition_meaning:
  assumes "list_all seg_wf (before @ after)" and "Any \<notin> set (before @ after)"
    and "length before \<le> MAX_JSON_DEPTH" and "length after \<le> MAX_JSON_DEPTH"
  shows "(eval_condition json_str (c\<lparr>cond_field := rebuild_path before\<rparr>) output \<longleftrightarrow>
       (\<exists>v. json_lookup output before = Some v \<and> eval_operator json_str v c))
     \<and> (eval_condition json_str (c\<lparr>cond_field := rebuild_path (before @ Any # after)\<rparr>) output \<longleftrightarrow>
       (\<exists>arr elem v. json_lookup output before = Some (JArr arr) \<and> elem \<in> set arr
          \<and> json_lookup elem after = Some v \<and> eval_operator json_str v c))"
proof -
  have op: "eval_operator json_str v (c\<lparr>cond_field := f\<rparr>) = eval_operator json_str v c" for v f
    by (simp add: eval_operator_def)
  have plain: "split_at_any (rebuild_path before) = None"
    using assms by (intro split_at_any_None) auto
  have any: "split_at_any (rebuild_path (before @ Any # after)) =
      Some (rebuild_path before, rebuild_path after)"
    using assms by (intro split_at_any_rebuild) auto
  have res: "resolve_field v (rebuild_path before) = json_lookup v before"
    "resolve_field v (rebuild_path after) = json_lookup v after" for v
    using assms by (auto simp: resolve_field_rebuild)
  show ?thesis
    by (auto simp: eval_condition_def plain any res op list_ex_iff split: option.splits json.splits)
qed

theorem handoff_condition_meaning_witness:
  "eval_condition (\<lambda>_. []) \<lparr>cond_field = rebuild_path [Key ''items'', Any, Key ''n''],
       cond_op = ''contains'', cond_value = JStr ''b''\<rparr>
     (JObj [(''items'', JArr [JNull, JObj [(''n'', JStr ''abc'')]])])"
proof -
  let ?c = "\<lparr>cond_field = [], cond_op = ''contains'', cond_value = JStr ''b''\<rparr>"
  have "eval_condition (\<lambda>_. []) (?c\<lparr>cond_field := rebuild_path ([Key ''items''] @ Any # [Key ''n''])\<rparr>)
      (JObj [(''items'', JArr [JNull, JObj [(''n'', JStr ''abc'')]])])"
    by (subst handoff_condition_meaning [THEN conjunct2])
      (auto simp: MAX_JSON_DEPTH_def eval_operator_def string_contains_def str_contains_def)
  then show ?thesis by simp
qed

text \<open>
  On whole numbers below \<open>2 ^ 53\<close>, whether they arrive as JSON numbers or as their decimal
  text, the six comparison operators decide the order of the numbers exactly, through the code's
  conversion to doubles and its epsilon comparison.
\<close>

theorem handoff_numeric_operators:
  assumes "denotes_nat v m" and "denotes_nat (cond_value c) n"
  shows "(eval_operator json_str v (c\<lparr>cond_op := ''==''\<rparr>) \<longleftrightarrow> m = n)
    \<and> (eval_operator json_str v (c\<lparr>cond_op := ''!=''\<rparr>) \<longleftrightarrow> m \<noteq> n)
    \<and> (eval_operator json_str v (c\<lparr>cond_op := ''<''\<rparr>) \<longleftrightarrow> m < n)
    \<and> (eval_operator json_str v (c\<lparr>cond_op := ''>''\<rparr>) \<longleftrightarrow> m > n)
    \<and> (eval_operator json_str v (c\<lparr>cond_op := ''<=''\<rparr>) \<longleftrightarrow> m \<le> n)
    \<and> (eval_operator json_str v (c\<lparr>cond_op := ''>=''\<rparr>) \<longleftrightarrow> m \<ge> n)"
  using values_equal_denotes [OF assms] compare_values_denotes [OF assms]
  by (auto simp: eval_operator_def nat_ordering_def)

theorem handoff_numeric_operators_witness:
  "eval_operator (\<lambda>_. []) (JStr (show_nat 41))
     \<lparr>cond_field = [], cond_op = ''<'', cond_value = JNum (PosInt 42)\<rparr>"
proof -
  let ?c = "\<lparr>cond_field = [], cond_op = [], cond_value = JNum (PosInt 42)\<rparr>"
  have "denotes_nat (JStr (show_nat 41)) 41" "denotes_nat (cond_value ?c) 42"
    by (simp_all add: denotes_nat_def)
  from handoff_numeric_operators [OF this, of "\<lambda>_. []"] show ?thesis by simp
qed

text \<open>
  The rule table answers with the target of the first rule that holds, whatever follows it
  (a default rule always holds), and with no target when no rule holds.
\<close>

theorem handoff_first_match:
  assumes "\<forall>r \<in> set before. \<not> rule_eval json_str r output"
  shows "eval_rules json_str before output = None
    \<and> (rule_eval json_str r output \<or> rule_default r \<longrightarrow>
         eval_rules json_str (before @ r # after) output = rule_target r)"
proof -
  have "find (\<lambda>r. rule_eval json_str r output) before = None"
    using assms by (auto simp: find_None_iff)
  moreover have "rule_default r \<Longrightarrow> rule_eval json_str r output" by (simp add: rule_eval_def)
  ultimately show ?thesis by (auto simp: eval_rules_def find_append)
qed

theorem handoff_first_match_witness:
  "eval_rules (\<lambda>_. [])
     [\<lparr>rule_condition = None, rule_all = Some [], rule_any = None, rule_default = False,
        rule_target = Some (Single ''a'')\<rparr>,
      \<lparr>rule_condition = None, rule_all = None, rule_any = None, rule_default = True,
        rule_target = Some (Fork [''b'', ''c''])\<rparr>] JNull = Some (Fork [''b'', ''c''])"
proof -
  let ?r1 = "\<lparr>rule_condition = None, rule_all = Some [], rule_any = None, rule_default = False,
        rule_target = Some (Single ''a'')\<rparr>"
  let ?r2 = "\<lparr>rule_condition = None, rule_all = None, rule_any = None, rule_default = True,
        rule_target = Some (Fork [''b'', ''c''])\<rparr>"
  have "\<forall>r \<in> set [?r1]. \<not> rule_eval (\<lambda>_. []) r JNull" by (simp add: rule_eval_def)
  from handoff_first_match [OF this, of ?r2 "[]"] show ?thesis by simp
qed

end
