(* ===== verification/Router.thy ===== *)
theory Router
  imports Security "HOL-Library.List_Lexorder" "HOL-Library.Char_ord"
begin

text \<open>
  \<open>core/router.rs\<close>: from a model name to a provider, an endpoint and a credential. The credential
  cache sits behind a mutex in the code, so the operations that consult it return the router they
  leave behind. The two regular expressions, the environment, the URL parser and the resolver are
  the fields of \<open>router_ext\<close>.
\<close>

record router_ext =
  re_suffix_replace :: "string \<Rightarrow> string"
  re_dots_replace_all :: "string \<Rightarrow> string"
  env_var :: "string \<Rightarrow> string option"
  ext_url_parse :: "string \<Rightarrow> (string, url_parts) res"
  ext_to_socket_addrs :: "string \<Rightarrow> ip_addr list option"

definition check_url :: "router_ext \<Rightarrow> string \<Rightarrow> (lattice_error, unit) res" where
  "check_url x url = validate_base_url (ext_url_parse x) (ext_to_socket_addrs x) url"

record model_router =
  mr_catalog :: catalog
  mr_custom_models :: "(string, model_catalog_entry) imap"
  mr_credential_cache :: "(string \<times> string, string option) imap"
  mr_external_credentials :: "(string, string) imap"

definition PROVIDER_CREDENTIALS_RAW :: "(string \<times> (string \<times> string) list) list" where
  "PROVIDER_CREDENTIALS_RAW =
     [(''openrouter'', [(''OPENROUTER_API_KEY'', ''api_key'')]),
      (''anthropic'', [(''ANTHROPIC_API_KEY'', ''api_key'')]),
      (''openai'', [(''OPENAI_API_KEY'', ''api_key'')]),
      (''gemini'', [(''GEMINI_API_KEY'', ''api_key'')]),
      (''deepseek'', [(''DEEPSEEK_API_KEY'', ''api_key'')]),
      (''groq'', [(''GROQ_API_KEY'', ''api_key'')]),
      (''mistral'', [(''MISTRAL_API_KEY'', ''api_key'')]),
      (''xai'', [(''XAI_API_KEY'', ''api_key'')]),
      (''ollama'', []),
      (''nous'', [(''NOUS_API_KEY'', ''api_key'')]),
      (''copilot'', [(''GITHUB_TOKEN'', ''token'')]),
      (''opencode-zen'', [(''OPENCODE_ZEN_API_KEY'', ''api_key'')]),
      (''kilocode'', [(''KILO_API_KEY'', ''api_key'')]),
      (''ai-gateway'', [(''AI_GATEWAY_API_KEY'', ''api_key'')]),
      (''openai-codex'', [(''OPENAI_API_KEY'', ''api_key'')]),
      (''minimax'', [(''MINIMAX_API_KEY'', ''api_key'')]),
      (''qwen'', [(''QWEN_API_KEY'', ''api_key'')]),
      (''volces'', [(''ARK_API_KEY'', ''api_key'')]),
      (''infini-ai'', [(''INFINI_AI_API_KEY'', ''api_key'')]),
      (''opencode-go'', [(''OPENCODE_GO_API_KEY'', ''api_key'')])]"

text \<open>The map built from the table; a later row would replace an earlier one.\<close>

definition PROVIDER_CREDENTIALS_MAP :: "string \<Rightarrow> (string \<times> string) list option" where
  "PROVIDER_CREDENTIALS_MAP = map_of (fold (\<lambda>(slug, creds). im_insert slug creds) PROVIDER_CREDENTIALS_RAW [])"

section \<open>Normalisation\<close>

function trim_start_matches :: "string \<Rightarrow> string \<Rightarrow> string" where
  "trim_start_matches p s =
     (if p = [] then s
      else case strip_prefix p s of Some r \<Rightarrow> trim_start_matches p r | None \<Rightarrow> s)"
  by pat_completeness auto
termination
  by (relation "measure (\<lambda>(p, s). length s)") (auto simp: strip_prefix_Some_iff)

declare trim_start_matches.simps [simp del]

text \<open>The part after the last slash (\<open>rsplit_once\<close>), the whole text when there is none.\<close>

definition after_last_slash :: "string \<Rightarrow> string" where
  "after_last_slash s = last (str_split (CHR ''/'') s)"

definition normalize_model_id :: "router_ext \<Rightarrow> string \<Rightarrow> string" where
  "normalize_model_id x model_id =
     (let mid = after_last_slash (to_lowercase model_id);
          mid = trim_start_matches ''us.anthropic.'' mid;
          mid = trim_start_matches ''us.amazon.'' mid;
          mid = trim_start_matches ''us.meta.'' mid;
          mid = re_suffix_replace x mid
      in if prefix ''claude-'' mid then re_dots_replace_all x mid else mid)"

section \<open>Credentials\<close>

definition router_new :: "catalog \<Rightarrow> model_router" where
  "router_new c =
     \<lparr>mr_catalog = c, mr_custom_models = [], mr_credential_cache = [], mr_external_credentials = []\<rparr>"

definition with_credentials :: "catalog \<Rightarrow> (string, string) imap \<Rightarrow> model_router" where
  "with_credentials c creds = (router_new c)\<lparr>mr_external_credentials := creds\<rparr>"

definition is_credentialless :: "catalog_provider_entry \<Rightarrow> bool" where
  "is_credentialless entry \<longleftrightarrow>
     pe_credential_keys entry = [] \<and>
     (case PROVIDER_CREDENTIALS_MAP (pe_provider_id entry) of Some creds \<Rightarrow> creds = [] | None \<Rightarrow> False)"

definition credential_status_from_key :: "string option \<Rightarrow> catalog_provider_entry \<Rightarrow> credential_status" where
  "credential_status_from_key api_key entry =
     (if api_key \<noteq> None then Present else if is_credentialless entry then NotRequired else Missing)"

definition credential_cache_key :: "catalog_provider_entry \<Rightarrow> string \<times> string" where
  "credential_cache_key entry =
     (pe_provider_id entry, str_join '','' (sort (im_values (pe_credential_keys entry))))"

definition raw_env_vars :: "string \<Rightarrow> string list" where
  "raw_env_vars provider_id =
     concat (map (\<lambda>(s, creds). if s = provider_id then map fst creds else []) PROVIDER_CREDENTIALS_RAW)"

definition missing_credential_error :: "string \<Rightarrow> string \<Rightarrow> lattice_error" where
  "missing_credential_error provider_id model_id =
     (let keys = raw_env_vars provider_id
      in Config
        (if keys = [] then
           ''provider '' @ quoted provider_id @ '' requires a credential for model '' @ quoted model_id
         else ''provider '' @ quoted provider_id @ '' requires one of: '' @ str_join '', '' keys
           @ '' for model '' @ quoted model_id))"

text \<open>One variable: the external credentials first, then the environment; blank values do not count.\<close>

definition nonblank :: "string option \<Rightarrow> string option" where
  "nonblank v = (case v of Some val \<Rightarrow> if trim val \<noteq> [] then Some (trim val) else None | None \<Rightarrow> None)"

definition lookup_var :: "router_ext \<Rightarrow> (string, string) imap \<Rightarrow> string \<Rightarrow> string option" where
  "lookup_var x external v = or_else (nonblank (map_of external v)) (nonblank (env_var x v))"

text \<open>The look-up behind the cache: the entry's own variables, then the built-in table's.\<close>

definition credential_lookup ::
  "router_ext \<Rightarrow> (string, string) imap \<Rightarrow> catalog_provider_entry \<Rightarrow> string option" where
  "credential_lookup x external entry =
     or_else (first_some (lookup_var x external) (im_values (pe_credential_keys entry)))
       (case PROVIDER_CREDENTIALS_MAP (pe_provider_id entry) of
          Some creds \<Rightarrow> first_some (\<lambda>c. lookup_var x external (fst c)) creds
        | None \<Rightarrow> None)"

definition resolve_credentials ::
  "router_ext \<Rightarrow> model_router \<Rightarrow> catalog_provider_entry \<Rightarrow> model_router \<times> string option" where
  "resolve_credentials x r entry =
     (let cache_key = credential_cache_key entry
      in case map_of (mr_credential_cache r) cache_key of
           Some cached \<Rightarrow> (r, cached)
         | None \<Rightarrow>
             (let result = credential_lookup x (mr_external_credentials r) entry
              in (r\<lparr>mr_credential_cache := im_insert cache_key result (mr_credential_cache r)\<rparr>, result)))"

section \<open>Finding the entry\<close>

definition resolve_alias :: "router_ext \<Rightarrow> model_router \<Rightarrow> string \<Rightarrow> string option" where
  "resolve_alias x r name =
     (let normalized = normalize_model_id x name
      in case catalog_resolve_alias (mr_catalog r) normalized of
           Some canonical \<Rightarrow> Some canonical
         | None \<Rightarrow>
             if get_model (mr_catalog r) normalized \<noteq> None then Some normalized
             else if map_of (mr_custom_models r) normalized \<noteq> None then Some normalized
             else first_some
               (\<lambda>(canonical_id, entry).
                  if list_ex (\<lambda>alias. alias = normalized) (ce_aliases entry) then Some canonical_id else None)
               (mr_custom_models r))"

definition known_id :: "model_router \<Rightarrow> string \<Rightarrow> bool" where
  "known_id r k \<longleftrightarrow> get_model (mr_catalog r) k \<noteq> None \<or> map_of (mr_custom_models r) k \<noteq> None"

definition find_entry ::
  "router_ext \<Rightarrow> model_router \<Rightarrow> string \<Rightarrow> (lattice_error, string \<times> model_catalog_entry) res" where
  "find_entry x r model_name =
     (let normalized = normalize_model_id x model_name
      in case (case resolve_alias x r normalized of
                 Some k \<Rightarrow> Some k
               | None \<Rightarrow> if known_id r normalized then Some normalized else None) of
           None \<Rightarrow> Inl (ModelNotFound model_name)
         | Some canonical_id \<Rightarrow>
             (case or_else (get_model (mr_catalog r) canonical_id) (map_of (mr_custom_models r) canonical_id) of
                Some entry \<Rightarrow> Inr (canonical_id, entry)
              | None \<Rightarrow> Inl (ModelNotFound model_name)))"

definition resolve_base_url :: "model_router \<Rightarrow> string \<Rightarrow> string option \<Rightarrow> string" where
  "resolve_base_url r provider_id entry_url =
     (case entry_url of
        Some url \<Rightarrow>
          if url \<noteq> [] then url
          else unwrap_or (map_option pd_base_url (get_provider_defaults (mr_catalog r) provider_id)) []
      | None \<Rightarrow> unwrap_or (map_option pd_base_url (get_provider_defaults (mr_catalog r) provider_id)) [])"

definition build_model ::
  "model_router \<Rightarrow> string \<Rightarrow> model_catalog_entry \<Rightarrow> catalog_provider_entry \<Rightarrow> string option \<Rightarrow>
     credential_status \<Rightarrow> resolved_model" where
  "build_model r canonical_id entry pe api_key status =
     \<lparr>rm_canonical_id = canonical_id, rm_provider = pe_provider_id pe, rm_api_key = api_key,
      rm_base_url = resolve_base_url r (pe_provider_id pe) (pe_base_url pe),
      rm_api_protocol = pe_api_protocol pe, rm_api_model_id = pe_api_model_id pe,
      rm_context_length = ce_context_length entry, rm_provider_specific = pe_provider_specific pe,
      rm_credential_status = status\<rparr>"

section \<open>Choosing a provider\<close>

text \<open>
  The loop over the providers sorted by priority, which \<open>resolve\<close> and \<open>inspect_model\<close> share: the
  first provider with a credential wins, and the first one of a priority level that needs none
  wins when that level has no other.
\<close>

datatype provider_choice = NoKey catalog_provider_entry | WithKey catalog_provider_entry string

fun pick_provider ::
  "router_ext \<Rightarrow> model_router \<Rightarrow> catalog_provider_entry list \<Rightarrow> catalog_provider_entry option \<Rightarrow> u32 \<Rightarrow>
     model_router \<times> provider_choice option" where
  "pick_provider x r [] best current_priority = (r, map_option NoKey best)"
| "pick_provider x r (pe # pes) best current_priority =
     (if pe_priority pe \<noteq> current_priority \<and> best \<noteq> None then (r, map_option NoKey best)
      else
        let current_priority = pe_priority pe
        in if is_credentialless pe then
             pick_provider x r pes (if best = None then Some pe else best) current_priority
           else
             (case resolve_credentials x r pe of
                (r1, Some k) \<Rightarrow> (r1, Some (WithKey pe k))
              | (r1, None) \<Rightarrow> pick_provider x r1 pes best current_priority))"

definition U32_MAX :: u32 where "U32_MAX = - 1"

definition sorted_providers :: "model_catalog_entry \<Rightarrow> catalog_provider_entry list" where
  "sorted_providers entry = sort_key pe_priority (ce_providers entry)"

text \<open>A model is returned only with a base URL that passes the check.\<close>

definition checked_model :: "router_ext \<Rightarrow> resolved_model \<Rightarrow> (lattice_error, resolved_model) res" where
  "checked_model x m = and_then_r (check_url x (rm_base_url m)) (\<lambda>_. Inr m)"

definition callable_model ::
  "router_ext \<Rightarrow> string \<Rightarrow> resolved_model \<Rightarrow> (lattice_error, resolved_model) res" where
  "callable_model x canonical_id m =
     and_then_r (checked_model x m) (\<lambda>m.
       if rm_base_url m = [] \<and> rm_credential_status m \<noteq> NotRequired then
         config_err (''Model '' @ quoted canonical_id @ '' resolved with empty base_url for provider ''
           @ quoted (rm_provider m) @ '' (credential required). ''
           @ ''Set a valid API endpoint URL in catalog defaults or config.'')
       else Inr m)"

definition no_providers_error :: "string \<Rightarrow> (lattice_error, 'a) res" where
  "no_providers_error canonical_id =
     config_err (''no providers available for model '' @ quoted canonical_id)"

definition all_missing_error :: "string \<Rightarrow> catalog_provider_entry list \<Rightarrow> (lattice_error, 'a) res" where
  "all_missing_error canonical_id pes =
     (let provider_details =
        map (\<lambda>pe. pe_provider_id pe @ '' ('' @ str_join '', '' (raw_env_vars (pe_provider_id pe)) @ '')'')
          (filter (\<lambda>pe. \<not> is_credentialless pe) pes)
      in config_err
        (if provider_details = [] then
           ''No credentialled providers available for model '' @ quoted canonical_id
         else ''All providers Missing credentials for '' @ quoted canonical_id @ '': ''
           @ str_join ''; '' provider_details
           @ ''. Set one of these env vars or use with_credentials()''))"

definition resolve_override ::
  "router_ext \<Rightarrow> model_router \<Rightarrow> string \<Rightarrow> model_catalog_entry \<Rightarrow> string \<Rightarrow>
     model_router \<times> (lattice_error, resolved_model) res" where
  "resolve_override x r canonical_id entry override_provider =
     (case find (\<lambda>pe. pe_provider_id pe = override_provider) (ce_providers entry) of
        None \<Rightarrow> (r, Inl (ModelNotFound (''provider '' @ quoted override_provider
          @ '' not found for model '' @ quoted canonical_id)))
      | Some pe \<Rightarrow>
          (let (r1, api_key) = resolve_credentials x r pe;
               status = credential_status_from_key api_key pe
           in if status = Missing \<and> \<not> is_credentialless pe then
                (r1, Inl (missing_credential_error (pe_provider_id pe) canonical_id))
              else
                (r1, callable_model x canonical_id (build_model r1 canonical_id entry pe api_key status))))"

definition resolve ::
  "router_ext \<Rightarrow> model_router \<Rightarrow> string \<Rightarrow> string option \<Rightarrow>
     model_router \<times> (lattice_error, resolved_model) res" where
  "resolve x r model_name provider_override =
     (case find_entry x r model_name of
        Inl e \<Rightarrow> (r, Inl e)
      | Inr (canonical_id, entry) \<Rightarrow>
          (case provider_override of
             Some override_provider \<Rightarrow> resolve_override x r canonical_id entry override_provider
           | None \<Rightarrow>
               (case pick_provider x r (sorted_providers entry) None U32_MAX of
                  (r1, Some (NoKey pe)) \<Rightarrow>
                    (r1, checked_model x (build_model r1 canonical_id entry pe None NotRequired))
                | (r1, Some (WithKey pe k)) \<Rightarrow>
                    (r1, callable_model x canonical_id (build_model r1 canonical_id entry pe (Some k) Present))
                | (r1, None) \<Rightarrow>
                    (r1, if sorted_providers entry = [] then no_providers_error canonical_id
                         else all_missing_error canonical_id (sorted_providers entry)))))"

section \<open>Inspecting, registering, listing\<close>

definition split_once :: "char \<Rightarrow> string \<Rightarrow> (string \<times> string) option" where
  "split_once c s =
     (if c \<in> set s then Some (takeWhile (\<lambda>d. d \<noteq> c) s, tl (dropWhile (\<lambda>d. d \<noteq> c) s)) else None)"

definition inspect_permissive ::
  "router_ext \<Rightarrow> model_router \<Rightarrow> string \<Rightarrow> string \<Rightarrow> string \<Rightarrow>
     model_router \<times> (lattice_error, resolved_model) res" where
  "inspect_permissive x r model_name provider_part model_part =
     (let provider_lower = to_lowercase provider_part; model_lower = to_lowercase model_part
      in case get_provider_defaults (mr_catalog r) provider_lower of
           None \<Rightarrow> (r, Inl (ModelNotFound model_name))
         | Some defaults \<Rightarrow>
             (let temp_entry =
                    \<lparr>pe_provider_id = provider_lower, pe_api_model_id = model_lower, pe_priority = 1,
                     pe_credential_keys = pd_credential_keys defaults,
                     pe_base_url = Some (pd_base_url defaults),
                     pe_api_protocol = pd_api_protocol defaults, pe_provider_specific = []\<rparr>;
                  (r1, api_key) = resolve_credentials x r temp_entry
              in (r1, checked_model x
                   \<lparr>rm_canonical_id = model_lower, rm_provider = provider_lower, rm_api_key = api_key,
                    rm_base_url = pd_base_url defaults, rm_api_protocol = pd_api_protocol defaults,
                    rm_api_model_id = model_lower, rm_context_length = 0, rm_provider_specific = [],
                    rm_credential_status = credential_status_from_key api_key temp_entry\<rparr>)))"

definition inspect_model ::
  "router_ext \<Rightarrow> model_router \<Rightarrow> string \<Rightarrow> model_router \<times> (lattice_error, resolved_model) res" where
  "inspect_model x r model_name =
     (case split_once (CHR ''/'') model_name of
        Some (provider_part, model_part) \<Rightarrow> inspect_permissive x r model_name provider_part model_part
      | None \<Rightarrow>
          (case find_entry x r model_name of
             Inl e \<Rightarrow> (r, Inl e)
           | Inr (canonical_id, entry) \<Rightarrow>
               if ce_providers entry = [] then (r, no_providers_error canonical_id)
               else
                 (case pick_provider x r (sorted_providers entry) None U32_MAX of
                    (r1, Some (NoKey pe)) \<Rightarrow>
                      (r1, checked_model x (build_model r1 canonical_id entry pe None NotRequired))
                  | (r1, Some (WithKey pe k)) \<Rightarrow>
                      (r1, checked_model x (build_model r1 canonical_id entry pe (Some k) Present))
                  | (r1, None) \<Rightarrow>
                      (r1, checked_model x
                        (build_model r1 canonical_id entry (hd (sorted_providers entry)) None Missing)))))"

text \<open>Registering a model only warns about bad base URLs; the entry goes into the custom table.\<close>

definition register_model :: "model_router \<Rightarrow> model_catalog_entry \<Rightarrow> model_router" where
  "register_model r entry =
     r\<lparr>mr_custom_models := im_insert (ce_canonical_id entry) entry (mr_custom_models r)\<rparr>"

definition list_models :: "model_router \<Rightarrow> string list" where
  "list_models r = sort (catalog_list_models (mr_catalog r) @ map fst (mr_custom_models r))"

fun any_authenticated ::
  "router_ext \<Rightarrow> model_router \<Rightarrow> catalog_provider_entry list \<Rightarrow> model_router \<times> bool" where
  "any_authenticated x r [] = (r, False)"
| "any_authenticated x r (pe # pes) =
     (if is_credentialless pe then (r, True)
      else (case resolve_credentials x r pe of
              (r1, Some _) \<Rightarrow> (r1, True)
            | (r1, None) \<Rightarrow> any_authenticated x r1 pes))"

fun authenticated_ids ::
  "router_ext \<Rightarrow> model_router \<Rightarrow> (string, model_catalog_entry) imap \<Rightarrow> model_router \<times> string list" where
  "authenticated_ids x r [] = (r, [])"
| "authenticated_ids x r ((model_id, entry) # ms) =
     (let (r1, ok) = any_authenticated x r (ce_providers entry);
          (r2, ids) = authenticated_ids x r1 ms
      in (r2, if ok then model_id # ids else ids))"

definition list_authenticated_models :: "router_ext \<Rightarrow> model_router \<Rightarrow> model_router \<times> string list" where
  "list_authenticated_models x r =
     (let (r1, from_catalog) = authenticated_ids x r (cat_models (mr_catalog r));
          (r2, custom) = authenticated_ids x r1 (mr_custom_models r1)
      in (r2, sort (from_catalog @ custom)))"

section \<open>The provider that is chosen\<close>

text \<open>
  The specification: with a credential for each provider given by \<open>look\<close>, the first usable provider
  that no usable one outranks, where a lower priority number goes first and, within a level, a
  provider with a credential before one that needs none.
\<close>

definition usable :: "(catalog_provider_entry \<Rightarrow> string option) \<Rightarrow> catalog_provider_entry \<Rightarrow> bool" where
  "usable look pe \<longleftrightarrow> is_credentialless pe \<or> look pe \<noteq> None"

definition rank :: "catalog_provider_entry \<Rightarrow> nat" where
  "rank pe = 2 * unat (pe_priority pe) + (if is_credentialless pe then 1 else 0)"

definition best_provider ::
  "(catalog_provider_entry \<Rightarrow> string option) \<Rightarrow> catalog_provider_entry list \<Rightarrow> catalog_provider_entry option" where
  "best_provider look pes =
     (let us = filter (usable look) pes in find (\<lambda>p. list_all (\<lambda>q. rank p \<le> rank q) us) us)"

definition choice_of :: "(catalog_provider_entry \<Rightarrow> string option) \<Rightarrow> catalog_provider_entry \<Rightarrow> provider_choice" where
  "choice_of look pe = (if is_credentialless pe then NoKey pe else WithKey pe (the (look pe)))"

lemma best_provider_skip: "\<not> usable look pe \<Longrightarrow> best_provider look (xs @ pe # ys) = best_provider look (xs @ ys)"
  by (simp add: best_provider_def)

lemma best_provider_dup:
  "usable look b \<Longrightarrow> usable look pe \<Longrightarrow> rank pe = rank b \<Longrightarrow>
     best_provider look (b # pe # pes) = best_provider look (b # pes)"
  by (simp add: best_provider_def Let_def)

lemma best_provider_hd:
  "usable look pe \<Longrightarrow> (\<And>q. q \<in> set pes \<Longrightarrow> rank pe \<le> rank q) \<Longrightarrow> best_provider look (pe # pes) = Some pe"
  by (auto simp: best_provider_def Let_def list_all_iff)

lemma best_provider_second:
  "usable look b \<Longrightarrow> usable look pe \<Longrightarrow> rank pe < rank b \<Longrightarrow>
     (\<And>q. q \<in> set pes \<Longrightarrow> rank pe \<le> rank q) \<Longrightarrow> best_provider look (b # pe # pes) = Some pe"
  by (auto simp: best_provider_def Let_def list_all_iff)

text \<open>Stability of the sort: the choice from the sorted list is the choice from the catalog's list.\<close>

lemma find_filter_hd: "find P xs = (case filter P xs of [] \<Rightarrow> None | y # _ \<Rightarrow> Some y)"
  by (induction xs) auto

lemma best_provider_stable: "best_provider look (sort_key pe_priority pes) = best_provider look pes"
proof -
  let ?s = "sort_key pe_priority pes"
  define P where "P = (\<lambda>p. usable look p \<and> (\<forall>q \<in> set pes. usable look q \<longrightarrow> rank p \<le> rank q))"
  have b: "best_provider look xs = find P xs" if "set xs = set pes" for xs
  proof -
    have "filter (\<lambda>p. list_all (\<lambda>q. rank p \<le> rank q) (filter (usable look) xs)) (filter (usable look) xs)
      = filter P xs"
      using that unfolding filter_filter by (intro filter_cong) (auto simp: P_def list_all_iff)
    then show ?thesis by (simp add: best_provider_def Let_def find_filter_hd)
  qed
  have "filter P ?s = filter P pes"
  proof (cases "filter P pes")
    case Nil
    then have "\<forall>p \<in> set ?s. \<not> P p" by (auto simp: filter_empty_conv)
    then show ?thesis using Nil by (simp add: filter_empty_conv)
  next
    case (Cons p ps)
    then have "p \<in> set (filter P pes)" by simp
    then have p: "P p" "p \<in> set pes" by auto
    have same: "pe_priority q = pe_priority p" if "P q" "q \<in> set pes" for q
    proof -
      have "rank q = rank p" using p that unfolding P_def by (meson le_antisym)
      then show ?thesis by (auto simp: rank_def word_unat_eq_iff split: if_splits)
    qed
    have "filter P xs = filter P (filter (\<lambda>q. pe_priority q = pe_priority p) xs)" if "set xs = set pes" for xs
      using that same unfolding filter_filter by (intro filter_cong) auto
    from this [of ?s] this [of pes] show ?thesis by (simp add: sort_key_stable)
  qed
  then show ?thesis by (simp add: b find_filter_hd)
qed

section \<open>The cache does not change the answer\<close>

text \<open>
  \<open>cache_ok\<close>: what the cache holds for these entries is what the look-up would give.
  \<open>keys_agree\<close>: entries that share a cache key share their credential.
\<close>

definition looks :: "router_ext \<Rightarrow> model_router \<Rightarrow> catalog_provider_entry \<Rightarrow> string option" where
  "looks x r = credential_lookup x (mr_external_credentials r)"

definition cache_ok :: "router_ext \<Rightarrow> catalog_provider_entry set \<Rightarrow> model_router \<Rightarrow> bool" where
  "cache_ok x E r \<longleftrightarrow>
     (\<forall>pe \<in> E. \<forall>v. map_of (mr_credential_cache r) (credential_cache_key pe) = Some v \<longrightarrow> v = looks x r pe)"

definition keys_agree :: "router_ext \<Rightarrow> catalog_provider_entry set \<Rightarrow> model_router \<Rightarrow> bool" where
  "keys_agree x E r \<longleftrightarrow>
     (\<forall>p \<in> E. \<forall>q \<in> E. credential_cache_key p = credential_cache_key q \<longrightarrow> looks x r p = looks x r q)"

definition same_router :: "model_router \<Rightarrow> model_router \<Rightarrow> bool" where
  "same_router r r' \<longleftrightarrow> (\<exists>c. r' = r\<lparr>mr_credential_cache := c\<rparr>)"

lemma same_router_refl [simp]: "same_router r r"
  by (auto simp: same_router_def intro: exI [of _ "mr_credential_cache r"])

lemma same_router_trans: "same_router r s \<Longrightarrow> same_router s t \<Longrightarrow> same_router r t"
  by (auto simp: same_router_def)

lemma same_router_simps:
  assumes "same_router r r'"
  shows "mr_catalog r' = mr_catalog r" "mr_external_credentials r' = mr_external_credentials r"
    "looks x r' = looks x r" "keys_agree x E r' = keys_agree x E r"
    "build_model r' cid entry pe key st = build_model r cid entry pe key st"
proof -
  from assms obtain c where r': "r' = r\<lparr>mr_credential_cache := c\<rparr>" by (auto simp: same_router_def)
  show "mr_catalog r' = mr_catalog r" "mr_external_credentials r' = mr_external_credentials r"
    "looks x r' = looks x r" by (simp_all add: r' looks_def)
  then show "keys_agree x E r' = keys_agree x E r"
    "build_model r' cid entry pe key st = build_model r cid entry pe key st"
    by (simp_all add: keys_agree_def build_model_def resolve_base_url_def split: option.split)
qed

lemma resolve_credentials_same: "resolve_credentials x r pe = (r', k) \<Longrightarrow> same_router r r'"
  by (auto simp: resolve_credentials_def same_router_def Let_def split: option.splits
      intro: exI [of _ "mr_credential_cache r"])

lemma resolve_credentials_ok:
  assumes "cache_ok x E r" and "keys_agree x E r" and "pe \<in> E"
  shows "\<exists>r'. resolve_credentials x r pe = (r', looks x r pe) \<and> cache_ok x E r' \<and> same_router r r'"
proof (cases "map_of (mr_credential_cache r) (credential_cache_key pe)")
  case None
  define r1 where
    "r1 = r\<lparr>mr_credential_cache := im_insert (credential_cache_key pe) (looks x r pe) (mr_credential_cache r)\<rparr>"
  have c: "mr_credential_cache r1 = im_insert (credential_cache_key pe) (looks x r pe) (mr_credential_cache r)"
    and same: "same_router r r1" by (auto simp: r1_def same_router_def)
  have "v = looks x r q" if "q \<in> E" "map_of (mr_credential_cache r1) (credential_cache_key q) = Some v" for q v
  proof (cases "credential_cache_key q = credential_cache_key pe")
    case True
    then have "v = looks x r pe" using that(2) by (simp add: c)
    moreover have "looks x r q = looks x r pe"
      using assms(2,3) that(1) True unfolding keys_agree_def by blast
    ultimately show ?thesis by simp
  next
    case False
    then show ?thesis using assms(1) that by (simp add: c cache_ok_def)
  qed
  then have "cache_ok x E r1" by (simp add: cache_ok_def same_router_simps [OF same])
  moreover have "resolve_credentials x r pe = (r1, looks x r pe)"
    using None by (simp add: resolve_credentials_def looks_def Let_def r1_def)
  ultimately show ?thesis using same by blast
next
  case (Some v)
  then show ?thesis using assms by (auto simp: resolve_credentials_def cache_ok_def intro!: exI [of _ r])
qed

definition opt_list :: "'a option \<Rightarrow> 'a list" where
  "opt_list v = (case v of Some y \<Rightarrow> [y] | None \<Rightarrow> [])"

lemma pick_provider_best:
  assumes "cache_ok x E r" and "keys_agree x E r" and "set ps \<subseteq> E" and "sorted_wrt (\<lambda>p q. pe_priority p \<le> pe_priority q) ps"
    and "\<And>b. best = Some b \<Longrightarrow> is_credentialless b \<and> pe_priority b = cur \<and> (\<forall>p \<in> set ps. cur \<le> pe_priority p)"
  shows "\<exists>r'. pick_provider x r ps best cur =
     (r', map_option (choice_of (looks x r)) (best_provider (looks x r) (opt_list best @ ps)))
     \<and> same_router r r' \<and> cache_ok x E r'"
  using assms
proof (induction ps arbitrary: r best cur)
  case Nil
  then show ?case
    by (cases best) (auto simp: opt_list_def best_provider_def usable_def choice_of_def)
next
  case (Cons pe pes)
  let ?look = "looks x r"
  have le: "pe_priority pe \<le> pe_priority q" if "q \<in> set pes" for q using Cons.prems(4) that by simp
  have mono: "2 * unat (pe_priority pe) \<le> rank q" if "q \<in> set pes" for q
    using le [OF that] by (simp add: rank_def word_le_nat_alt)
  have srt: "sorted_wrt (\<lambda>p q. pe_priority p \<le> pe_priority q) pes" using Cons.prems(4) by simp
  have E: "pe \<in> E" "set pes \<subseteq> E" using Cons.prems(3) by auto
  show ?case
  proof (cases "pe_priority pe \<noteq> cur \<and> best \<noteq> None")
    case True
    then obtain b where b: "best = Some b" by auto
    with Cons.prems(5) have bb: "is_credentialless b" "pe_priority b = cur" "cur \<le> pe_priority pe" by auto
    with True have "unat cur < unat (pe_priority pe)"
      unfolding word_less_nat_alt [symmetric] by (metis order_le_imp_less_or_eq)
    then have rb: "rank b < 2 * unat (pe_priority pe)" using bb by (simp add: rank_def)
    have "rank b \<le> rank q" if "q \<in> set (pe # pes)" for q
    proof -
      have "2 * unat (pe_priority pe) \<le> rank q" using that mono [of q] by (auto simp: rank_def)
      with rb show ?thesis by simp
    qed
    then have "best_provider ?look (b # pe # pes) = Some b"
      using bb by (intro best_provider_hd) (simp_all add: usable_def)
    with True b bb Cons.prems(1) show ?thesis by (auto simp: opt_list_def choice_of_def)
  next
    case False
    show ?thesis
    proof (cases "is_credentialless pe")
      case True
      let ?b = "if best = None then Some pe else best"
      have eq: "best_provider ?look (opt_list best @ pe # pes) = best_provider ?look (opt_list ?b @ pes)"
        using True False Cons.prems(5)
        by (cases best) (auto simp: opt_list_def usable_def rank_def intro!: best_provider_dup)
      have b: "is_credentialless b \<and> pe_priority b = pe_priority pe \<and> (\<forall>p \<in> set pes. pe_priority pe \<le> pe_priority p)"
        if "?b = Some b" for b
        using that True False Cons.prems(5) le by (auto split: if_splits)
      have step: "pick_provider x r (pe # pes) best cur = pick_provider x r pes ?b (pe_priority pe)"
        using True False by auto
      show ?thesis
        unfolding step eq by (rule Cons.IH [OF Cons.prems(1,2) E(2) srt b])
    next
      case ncl: False
      obtain r1 where r1: "resolve_credentials x r pe = (r1, ?look pe)" "cache_ok x E r1" "same_router r r1"
        using resolve_credentials_ok [OF Cons.prems(1,2) E(1)] by blast
      show ?thesis
      proof (cases "?look pe")
        case None
        have "\<exists>r'. pick_provider x r1 pes best (pe_priority pe) =
            (r', map_option (choice_of (looks x r1)) (best_provider (looks x r1) (opt_list best @ pes)))
            \<and> same_router r1 r' \<and> cache_ok x E r'"
          using False Cons.prems(2,5) le r1 E(2) srt
          by (intro Cons.IH) (auto simp: same_router_simps [OF r1(3)])
        moreover have "best_provider ?look (opt_list best @ pe # pes) = best_provider ?look (opt_list best @ pes)"
          using None ncl by (intro best_provider_skip) (simp add: usable_def)
        ultimately show ?thesis
          using None ncl False r1 by (auto simp: same_router_simps [OF r1(3)] intro: same_router_trans)
      next
        case (Some k)
        have "best_provider ?look (opt_list best @ pe # pes) = Some pe"
        proof (cases best)
          case None
          then show ?thesis using Some ncl mono
            by (auto simp: opt_list_def usable_def rank_def intro!: best_provider_hd)
        next
          case (Some b)
          with False Cons.prems(5) have "is_credentialless b" "pe_priority b = pe_priority pe" by auto
          then show ?thesis using Some \<open>?look pe = Some k\<close> ncl mono
            by (auto simp: opt_list_def usable_def rank_def intro!: best_provider_second)
        qed
        then show ?thesis using Some ncl False r1 by (simp add: choice_of_def)
      qed
    qed
  qed
qed

section \<open>Properties\<close>

lemma sort_key_sorted_wrt: "sorted_wrt (\<lambda>p q. f p \<le> f q) (sort_key f xs)"
  using sorted_sort_key [of f xs] by (simp add: sorted_map)

lemma checked_model_Inr: "checked_model x m = Inr m' \<longleftrightarrow> m' = m \<and> check_url x (rm_base_url m) = Inr ()"
  by (auto simp: checked_model_def and_then_r_Inr_iff)

lemma callable_model_Inr:
  "callable_model x cid m = Inr m' \<longleftrightarrow>
     m' = m \<and> check_url x (rm_base_url m) = Inr () \<and> (rm_base_url m = [] \<longrightarrow> rm_credential_status m = NotRequired)"
  by (auto simp: callable_model_def and_then_r_Inr_iff checked_model_Inr)

text \<open>
  One credential variable per entry, as in the embedded catalog: entries that share a cache key then
  name the same variable of the same provider.
\<close>

lemma single_key_agree:
  assumes "\<forall>pe \<in> E. length (pe_credential_keys pe) \<le> 1 \<and> [] \<notin> set (im_values (pe_credential_keys pe))"
  shows "keys_agree x E r"
proof -
  have join: "im_values ks = im_values ls"
    if "length ks \<le> 1" "length ls \<le> 1" "[] \<notin> set (im_values ks)" "[] \<notin> set (im_values ls)"
      "str_join '','' (sort (im_values ks)) = str_join '','' (sort (im_values ls))"
    for ks ls :: "(string, string) imap"
    using that by (cases ks; cases ls) (auto simp: im_values_def)
  have v: "im_values (pe_credential_keys p) = im_values (pe_credential_keys q)"
    if "p \<in> E" "q \<in> E" "credential_cache_key p = credential_cache_key q" for p q
    using assms that by (intro join) (auto simp: credential_cache_key_def)
  have i: "pe_provider_id p = pe_provider_id q"
    if "credential_cache_key p = credential_cache_key q" for p q
    using that by (simp add: credential_cache_key_def)
  have "looks x r p = looks x r q"
    if "p \<in> E" "q \<in> E" "credential_cache_key p = credential_cache_key q" for p q
    unfolding looks_def credential_lookup_def v [OF that] i [OF that(3)] by (rule refl)
  then show ?thesis unfolding keys_agree_def by blast
qed


definition sample_ext :: router_ext where
  "sample_ext = \<lparr>re_suffix_replace = (\<lambda>s. s), re_dots_replace_all = (\<lambda>s. s),
     env_var = (\<lambda>v. if v = ''GROQ_API_KEY'' then Some '' k1 '' else None),
     ext_url_parse = (\<lambda>_. Inr \<lparr>url_scheme = ''https'', url_host = Some ''api.local'', url_username = [], url_password = None\<rparr>),
     ext_to_socket_addrs = (\<lambda>_. None)\<rparr>"

definition sample_provider :: "string \<Rightarrow> u32 \<Rightarrow> catalog_provider_entry" where
  "sample_provider p n = \<lparr>pe_provider_id = p, pe_api_model_id = ''m'', pe_priority = n,
     pe_credential_keys = [], pe_base_url = Some ''https://api.local'', pe_api_protocol = OpenAiChat,
     pe_provider_specific = []\<rparr>"

definition sample_entry :: model_catalog_entry where
  "sample_entry = \<lparr>ce_canonical_id = ''m'', ce_context_length = 8192,
     ce_providers = [sample_provider ''ollama'' 2, sample_provider ''openai'' 1, sample_provider ''groq'' 2],
     ce_aliases = []\<rparr>"

definition sample_router :: model_router where
  "sample_router = register_model (router_new \<lparr>cat_models = [], cat_aliases = [], cat_provider_defaults = []\<rparr>) sample_entry"

lemma sample_find: "find_entry sample_ext sample_router ''m'' = Inr (''m'', sample_entry)"
  by (simp add: find_entry_def resolve_alias_def sample_router_def register_model_def router_new_def
      sample_entry_def catalog_resolve_alias_def get_model_def normalize_model_id_def sample_ext_def
      after_last_slash_def to_lowercase_def ascii_lower_def is_upper_def byte_def
      trim_start_matches.simps strip_prefix_def Let_def)


text \<open>
  C6: a model that \<open>resolve\<close> returns can be called: its base URL has passed the check, and either it
  has a credential and a base URL, or it needs no credential and carries none.
\<close>

theorem resolve_usable:
  assumes "snd (resolve x r model_name provider_override) = Inr m"
  shows "check_url x (rm_base_url m) = Inr () \<and>
    (rm_credential_status m = Present \<and> rm_api_key m \<noteq> None \<and> rm_base_url m \<noteq> []
     \<or> rm_credential_status m = NotRequired \<and> rm_api_key m = None)"
proof -
  obtain cid entry where f: "find_entry x r model_name = Inr (cid, entry)"
    using assms by (cases "find_entry x r model_name") (auto simp: resolve_def)
  show ?thesis
  proof (cases provider_override)
    case None
    obtain r1 c where p: "pick_provider x r (sorted_providers entry) None U32_MAX = (r1, c)" by fastforce
    show ?thesis
    proof (cases c)
      case None
      with assms \<open>provider_override = None\<close> f p show ?thesis
        by (auto simp: resolve_def no_providers_error_def all_missing_error_def Let_def split: if_splits)
    next
      case (Some ch)
      with assms \<open>provider_override = None\<close> f p show ?thesis
        by (cases ch) (auto simp: resolve_def checked_model_Inr callable_model_Inr, simp_all add: build_model_def)
    qed
  next
    case (Some ov)
    obtain pe where pe: "find (\<lambda>pe. pe_provider_id pe = ov) (ce_providers entry) = Some pe"
      using assms f Some by (auto simp: resolve_def resolve_override_def split: option.splits)
    obtain r1 k where k: "resolve_credentials x r pe = (r1, k)" by fastforce
    show ?thesis
      using assms f Some pe k
      by (cases k) (auto simp: resolve_def resolve_override_def callable_model_Inr credential_status_from_key_def
          build_model_def split: if_splits)
  qed
qed

theorem resolve_usable_witness:
  "snd (resolve sample_ext sample_router ''m'' (Some ''groq'')) =
     Inr (build_model sample_router ''m'' sample_entry (sample_provider ''groq'' 2) (Some ''k1'') Present)
   \<and> (\<exists>m. snd (resolve sample_ext sample_router ''m'' (Some ''groq'')) = Inr m \<and> rm_base_url m \<noteq> [])"
proof -
  have "snd (resolve sample_ext sample_router ''m'' (Some ''groq'')) =
     Inr (build_model sample_router ''m'' sample_entry (sample_provider ''groq'' 2) (Some ''k1'') Present)"
    by code_simp
  from this resolve_usable [OF this] show ?thesis by (auto simp: build_model_def)
qed

text \<open>
  The provider path in front of a model name is not part of the name: normalisation drops
  everything up to the last slash, and the case of the letters.
\<close>

theorem normalize_ignores_route:
  "normalize_model_id x (route @ ''/'' @ name) = normalize_model_id x name \<and>
   normalize_model_id x (to_lowercase name) = normalize_model_id x name"
proof -
  have "to_lowercase (CHR ''/'' # s) = CHR ''/'' # to_lowercase s" for s
    by (simp add: to_lowercase_def ascii_lower_def is_upper_def byte_def)
  then have "after_last_slash (to_lowercase (route @ ''/'' @ name)) = after_last_slash (to_lowercase name)"
    by (simp add: after_last_slash_def str_split_append_delim)
  then show ?thesis by (simp add: normalize_model_id_def)
qed

text \<open>
  A registered model is found under every name that normalises to its id, when the catalog has
  neither an alias nor a model of that id; the catalog's own entries cannot be replaced.
\<close>

theorem register_then_found:
  assumes "ce_canonical_id entry = normalize_model_id x (normalize_model_id x name)"
    and "catalog_resolve_alias (mr_catalog r) (ce_canonical_id entry) = None"
  shows "find_entry x (register_model r entry) name =
    Inr (ce_canonical_id entry, unwrap_or (get_model (mr_catalog r) (ce_canonical_id entry)) entry)"
  using assms
  by (cases "get_model (mr_catalog r) (ce_canonical_id entry)")
    (auto simp: find_entry_def resolve_alias_def register_model_def Let_def)

theorem register_then_found_witness:
  "find_entry sample_ext (register_model sample_router (sample_entry\<lparr>ce_canonical_id := ''local-x''\<rparr>)) ''me/Local-X'' =
    Inr (''local-x'', sample_entry\<lparr>ce_canonical_id := ''local-x''\<rparr>)"
proof -
  let ?e = "sample_entry\<lparr>ce_canonical_id := ''local-x''\<rparr>"
  have n: "ce_canonical_id ?e = normalize_model_id sample_ext (normalize_model_id sample_ext ''me/Local-X'')"
    by code_simp
  have a: "catalog_resolve_alias (mr_catalog sample_router) (ce_canonical_id ?e) = None"
    "get_model (mr_catalog sample_router) (ce_canonical_id ?e) = None" by code_simp+
  show ?thesis using register_then_found [OF n a(1)] a(2) by simp
qed

end
