(* ===== verification/Plugin_Dag.thy ===== *)
theory Plugin_Dag
  imports Plugin_Run Executor Handoff Router
begin

text \<open>
  \<open>plugin/orchestration.rs\<close>, \<open>plugin/registry.rs\<close> and \<open>plugin/dag_runner.rs\<close>: the plugin slots of an agent
  profile, the registry the slots name their plugins in, and the runner that follows the edges from slot
  to slot. Each slot gets an agent of its own; what one slot puts out is part of the next one's input.
\<close>

section \<open>Configuration\<close>

record dag_edge =
  de_from :: string
  de_rule :: handoff_rule

record plugin_slot =
  ps_name :: string
  ps_plugin :: string
  ps_tools :: "string list"
  ps_model_override :: "string option"
  ps_max_turns :: "u32 option"
  ps_behavior :: "behavior_mode option"

record plugins_config =
  pcf_entry :: string
  pcf_slots :: "plugin_slot list"
  pcf_edges :: "dag_edge list"
  pcf_shared_tools :: "string list"

section \<open>The plugin registry\<close>

record plugin_meta =
  pm_name :: string
  pm_version :: string
  pm_description :: string
  pm_author :: string

record plugin_bundle =
  pb_meta :: plugin_meta
  pb_plugin :: erased_plugin
  pb_default_behavior :: behavior_mode
  pb_default_tools :: "tool_definition list"

datatype duplicate_name = DuplicateName string

type_synonym plugin_registry = "(string, plugin_bundle) imap"

definition bundle_name :: "plugin_bundle \<Rightarrow> string" where
  "bundle_name b = pm_name (pb_meta b)"

definition plugins_register :: "plugin_registry \<Rightarrow> plugin_bundle \<Rightarrow> plugin_registry \<times> (duplicate_name, unit) res" where
  "plugins_register reg b =
     (if bundle_name b \<in> fst ` set reg then (reg, Inl (DuplicateName (bundle_name b)))
      else (im_insert (bundle_name b) b reg, Inr ()))"

definition plugins_replace :: "plugin_registry \<Rightarrow> plugin_bundle \<Rightarrow> plugin_registry \<times> plugin_bundle option" where
  "plugins_replace reg b = (im_insert (bundle_name b) b reg, map_of reg (bundle_name b))"

definition plugins_remove :: "plugin_registry \<Rightarrow> string \<Rightarrow> plugin_registry \<times> plugin_bundle option" where
  "plugins_remove reg name = (im_remove name reg, map_of reg name)"

fun collect_bundles :: "plugin_registry \<Rightarrow> plugin_bundle list \<Rightarrow> (duplicate_name, plugin_registry) res" where
  "collect_bundles next_reg [] = Inr next_reg"
| "collect_bundles next_reg (b # bs) =
     (if bundle_name b \<in> fst ` set next_reg then Inl (DuplicateName (bundle_name b))
      else collect_bundles (im_insert (bundle_name b) b next_reg) bs)"

definition plugins_replace_all ::
  "plugin_registry \<Rightarrow> plugin_bundle list \<Rightarrow> plugin_registry \<times> (duplicate_name, unit) res" where
  "plugins_replace_all reg bundles =
     (case collect_bundles [] bundles of
        Inl e \<Rightarrow> (reg, Inl e)
      | Inr next_reg \<Rightarrow> (next_reg, Inr ()))"

definition plugins_get :: "plugin_registry \<Rightarrow> string \<Rightarrow> plugin_bundle option" where
  "plugins_get reg name = map_of reg name"

definition plugins_names :: "plugin_registry \<Rightarrow> string list" where
  "plugins_names reg = map fst reg"

definition plugins_list :: "plugin_registry \<Rightarrow> plugin_meta list" where
  "plugins_list reg = map pb_meta (im_values reg)"

section \<open>The runner\<close>

definition MAX_DAG_SLOT_TRANSITIONS :: u32 where "MAX_DAG_SLOT_TRANSITIONS = 50"

datatype dag_error =
  EntrySlotNotFound string
| SlotNotFound string
| PluginNotFound string
| ResolveFailed lattice_error
| MaxSlotTransitionsExceeded u32
| PluginFailed string plugin_error
| OutputParse string
| ForkNotSupportedInDag
| MissingPluginRegistry
| MissingToolRegistry
| ToolExecutorFailed string

fun dag_error_display :: "dag_error \<Rightarrow> string" where
  "dag_error_display (EntrySlotNotFound s) = ''entry slot '' @ in_quotes s @ '' not found in [plugins.slots]''"
| "dag_error_display (SlotNotFound s) = ''slot '' @ in_quotes s @ '' not found''"
| "dag_error_display (PluginNotFound s) = ''plugin '' @ in_quotes s @ '' not registered in PluginRegistry''"
| "dag_error_display (ResolveFailed e) = ''model resolve failed: '' @ lattice_error_display e"
| "dag_error_display (MaxSlotTransitionsExceeded n) =
     ''max slot transitions ('' @ show_nat (unat n) @ '') exceeded '' @ em_dash @ '' possible infinite DAG loop''"
| "dag_error_display (PluginFailed slot e) = ''plugin error in slot '' @ in_quotes slot @ '': '' @ plugin_error_display e"
| "dag_error_display (OutputParse e) = ''output JSON parse failed: '' @ e"
| "dag_error_display ForkNotSupportedInDag =
     ''fork not supported in intra-agent DAG '' @ em_dash @ '' use Pipeline fork:target''"
| "dag_error_display MissingPluginRegistry = ''plugin registry not configured''"
| "dag_error_display MissingToolRegistry = ''tool registry not configured''"
| "dag_error_display (ToolExecutorFailed e) = ''tool executor setup failed: '' @ e"

text \<open>
  What a run takes from outside: the catalogue and the resolver's environment, whether the HTTP client of
  an executor can be built, the agent over an executor, the clock and the text functions of a plugin run,
  and what the shared memory recalls (an agent sees the memory as it is when the agent is made).
\<close>

record 'w dag_env =
  dn_router_ext :: router_ext
  dn_catalog :: catalog
  dn_http_client :: "(string, unit) res"
  dn_agent_env :: "'w executor \<Rightarrow> 'w agent_env"
  dn_world :: "(agent, 'w) plugin_env"
  dn_from_str :: "string \<Rightarrow> (string, json) res"
  dn_recall :: "'w \<Rightarrow> string \<Rightarrow> nat \<Rightarrow> memory_entry list"

record 'w dag_runner =
  dr_config :: plugins_config
  dr_plugins :: plugin_registry
  dr_tools :: "'w tool_registry"
  dr_tool_access :: "'w tool_registry option"
  dr_retry :: retry_policy
  dr_memory :: "('w \<Rightarrow> memory_entry \<Rightarrow> 'w) option"
  dr_credentials :: "(string, string) imap option"

definition find_edge :: "(json \<Rightarrow> string) \<Rightarrow> dag_edge list \<Rightarrow> string \<Rightarrow> json \<Rightarrow> handoff_target option" where
  "find_edge json_str edges from_slot v =
     (case find (\<lambda>e. rule_eval json_str (de_rule e) v) (filter (\<lambda>e. de_from e = from_slot) edges) of
        None \<Rightarrow> None
      | Some e \<Rightarrow> rule_target (de_rule e))"

text \<open>The shared router keeps its credential cache between slots; without one each slot makes its own.\<close>

definition dag_resolve_model ::
  "'w dag_env \<Rightarrow> 'w dag_runner \<Rightarrow> model_router option \<Rightarrow> string \<Rightarrow> model_router option \<times> (lattice_error, resolved_model) res" where
  "dag_resolve_model env d router model =
     (case router of
        Some r \<Rightarrow> (let (r1, res) = resolve (dn_router_ext env) r model None in (Some r1, res))
      | None \<Rightarrow>
          (None, snd (resolve (dn_router_ext env)
             (case dr_credentials d of
                Some creds \<Rightarrow> with_credentials (dn_catalog env) creds
              | None \<Rightarrow> router_new (dn_catalog env)) model None)))"

definition dag_tool_executor :: "'w dag_env \<Rightarrow> 'w dag_runner \<Rightarrow> (string, 'w executor) res" where
  "dag_tool_executor env d =
     (let registry = (case dr_tool_access d of
            Some reg \<Rightarrow> if tools_is_empty reg then None else Some reg
          | None \<Rightarrow> None)
      in and_then_r (dn_http_client env) (\<lambda>_. Inr (executor_new ''.'' registry)))"

definition slot_agent ::
  "'w dag_env \<Rightarrow> 'w dag_runner \<Rightarrow> 'w executor \<Rightarrow> plugin_slot \<Rightarrow> plugin_bundle \<Rightarrow> resolved_model \<Rightarrow> 'w \<Rightarrow> agent" where
  "slot_agent env d ex slot bundle resolved w =
     (let aenv = dn_agent_env env ex;
          ag = agent_new aenv resolved;
          ag = (case dr_memory d of None \<Rightarrow> ag | Some _ \<Rightarrow> with_memory aenv ag (dn_recall env w));
          tools = merge_tool_definitions (dr_tools d) (pcf_shared_tools (dr_config d)) (ps_tools slot)
            (ep_tools (pb_plugin bundle))
      in ag\<lparr>ag_tools := tools, ag_has_executor := True\<rparr>)"

definition slot_plugin_env :: "'w dag_env \<Rightarrow> 'w executor \<Rightarrow> (agent, 'w) plugin_env" where
  "slot_plugin_env env ex = (dn_world env)\<lparr>pe_agent := agent_as_plugin_agent (dn_agent_env env ex)\<rparr>"

definition slot_behavior :: "plugin_slot \<Rightarrow> plugin_bundle \<Rightarrow> behavior" where
  "slot_behavior slot bundle = behavior_to_behavior_trait (unwrap_or (ps_behavior slot) (pb_default_behavior bundle))"

definition slot_config :: "plugin_slot \<Rightarrow> plugin_config" where
  "slot_config slot = plugin_config_default\<lparr>pc_max_turns := unwrap_or (ps_max_turns slot) 10\<rparr>"

text \<open>Running one slot: its output as a value and as text, or the end of the run.\<close>

datatype slot_outcome = SlotOutput json string | SlotError dag_error | SlotPanic panic_site

definition run_slot ::
  "'w dag_env \<Rightarrow> 'w dag_runner \<Rightarrow> string \<Rightarrow> string \<Rightarrow> json \<Rightarrow> 'w \<Rightarrow> model_router option \<Rightarrow>
     'w \<times> model_router option \<times> slot_outcome" where
  "run_slot env d default_model current ctx w router =
     (case find (\<lambda>s. ps_name s = current) (pcf_slots (dr_config d)) of
        None \<Rightarrow> (w, router, SlotError (SlotNotFound current))
      | Some slot \<Rightarrow>
          (case plugins_get (dr_plugins d) (ps_plugin slot) of
             None \<Rightarrow> (w, router, SlotError (PluginNotFound (ps_plugin slot)))
           | Some bundle \<Rightarrow>
               (case dag_resolve_model env d router (unwrap_or (ps_model_override slot) default_model) of
                  (router1, Inl e) \<Rightarrow> (w, router1, SlotError (ResolveFailed e))
                | (router1, Inr resolved) \<Rightarrow>
                    (case dag_tool_executor env d of
                       Inl e \<Rightarrow> (w, router1, SlotError (ToolExecutorFailed e))
                     | Inr ex \<Rightarrow>
                         (case run_plugin_loop (slot_plugin_env env ex) (pb_plugin bundle) (slot_behavior slot bundle)
                                 (slot_agent env d ex slot bundle resolved w) ctx (slot_config slot) None
                                 (Some (dr_retry d)) (dr_memory d) w of
                            (w1, _, Panicked site) \<Rightarrow> (w1, router1, SlotPanic site)
                          | (w1, _, Returned (Inl e)) \<Rightarrow> (w1, router1, SlotError (PluginFailed current e))
                          | (w1, _, Returned (Inr result)) \<Rightarrow>
                              (case dn_from_str env (rr_output result) of
                                 Inl e \<Rightarrow> (w1, router1, SlotError (OutputParse e))
                               | Inr v \<Rightarrow> (w1, router1, SlotOutput v (rr_output result))))))))"

definition save_slot_output ::
  "'w dag_env \<Rightarrow> 'w dag_runner \<Rightarrow> string \<Rightarrow> u32 \<Rightarrow> string \<Rightarrow> 'w \<Rightarrow> 'w" where
  "save_slot_output env d current transitions text w =
     (case dr_memory d of
        None \<Rightarrow> w
      | Some save \<Rightarrow>
          save_plugin_entry (dn_world env) save current (''dag-'' @ show_nat (unat transitions))
            (current @ '' output'') text [current] w)"

datatype dag_outcome = DagReturned "(dag_error, json) res" | DagPanicked panic_site

text \<open>The input of the next slot: the outputs so far under the names of their slots.\<close>

definition context_set :: "jobj \<Rightarrow> string \<Rightarrow> json \<Rightarrow> jobj" where
  "context_set ctx name v = obj_insert name v ctx"

function dag_loop ::
  "'w dag_env \<Rightarrow> 'w dag_runner \<Rightarrow> string \<Rightarrow> string \<Rightarrow> jobj \<Rightarrow> u32 \<Rightarrow> 'w \<Rightarrow> model_router option \<Rightarrow>
     'w \<times> model_router option \<times> dag_outcome" where
  "dag_loop env d default_model current ctx transitions w router =
     (if MAX_DAG_SLOT_TRANSITIONS \<le> transitions
      then (w, router, DagReturned (Inl (MaxSlotTransitionsExceeded MAX_DAG_SLOT_TRANSITIONS)))
      else
        case run_slot env d default_model current (JObj ctx) w router of
          (w1, router1, SlotError e) \<Rightarrow> (w1, router1, DagReturned (Inl e))
        | (w1, router1, SlotPanic site) \<Rightarrow> (w1, router1, DagPanicked site)
        | (w1, router1, SlotOutput v text) \<Rightarrow>
            let w2 = save_slot_output env d current transitions text w1
            in case find_edge (pe_to_string (dn_world env)) (pcf_edges (dr_config d)) current v of
                 Some (Single next_name) \<Rightarrow>
                   dag_loop env d default_model next_name (context_set ctx current v) (transitions + 1) w2 router1
               | Some (Fork _) \<Rightarrow> (w2, router1, DagReturned (Inl ForkNotSupportedInDag))
               | None \<Rightarrow> (w2, router1, DagReturned (Inr v)))"
  by pat_completeness auto
termination
proof (relation "measure (\<lambda>(env, d, default_model, current, ctx, transitions, w, router).
    unat MAX_DAG_SLOT_TRANSITIONS - unat transitions)", goal_cases)
  case (2 env d default_model current ctx transitions)
  then show ?case using next_attempt(1,2) [of MAX_DAG_SLOT_TRANSITIONS transitions] by simp
qed simp

declare dag_loop.simps [simp del]

definition dag_run ::
  "'w dag_env \<Rightarrow> 'w dag_runner \<Rightarrow> string \<Rightarrow> string \<Rightarrow> 'w \<Rightarrow> model_router option \<Rightarrow> 'w \<times> model_router option \<times> dag_outcome" where
  "dag_run env d initial_input default_model w router =
     dag_loop env d default_model (pcf_entry (dr_config d)) [(''input'', JStr initial_input)] 0 w router"

section \<open>The run as a path through the slots\<close>

type_synonym 'w dag_config = "string \<times> jobj \<times> u32 \<times> 'w \<times> model_router option"

text \<open>
  The specification: a configuration is the current slot, the outputs so far, the transitions made and
  the world. A step runs the slot and follows the first edge that matches its output; a run is over when
  the slot fails, when no edge leads on, when an edge asks for a fork, or at the limit.
\<close>

inductive dag_step :: "'w dag_env \<Rightarrow> 'w dag_runner \<Rightarrow> string \<Rightarrow> 'w dag_config \<Rightarrow> 'w dag_config \<Rightarrow> bool"
  for env d m where
  follow: "transitions < MAX_DAG_SLOT_TRANSITIONS \<Longrightarrow>
    run_slot env d m current (JObj ctx) w router = (w1, router1, SlotOutput v text) \<Longrightarrow>
    find_edge (pe_to_string (dn_world env)) (pcf_edges (dr_config d)) current v = Some (Single target) \<Longrightarrow>
    dag_step env d m (current, ctx, transitions, w, router)
      (target, context_set ctx current v, transitions + 1, save_slot_output env d current transitions text w1, router1)"

inductive dag_final :: "'w dag_env \<Rightarrow> 'w dag_runner \<Rightarrow> string \<Rightarrow> 'w dag_config \<Rightarrow> 'w \<times> model_router option \<times> dag_outcome \<Rightarrow> bool"
  for env d m where
  limit: "MAX_DAG_SLOT_TRANSITIONS \<le> transitions \<Longrightarrow>
    dag_final env d m (current, ctx, transitions, w, router)
      (w, router, DagReturned (Inl (MaxSlotTransitionsExceeded MAX_DAG_SLOT_TRANSITIONS)))"
| failed: "transitions < MAX_DAG_SLOT_TRANSITIONS \<Longrightarrow>
    run_slot env d m current (JObj ctx) w router = (w1, router1, SlotError e) \<Longrightarrow>
    dag_final env d m (current, ctx, transitions, w, router) (w1, router1, DagReturned (Inl e))"
| panicked: "transitions < MAX_DAG_SLOT_TRANSITIONS \<Longrightarrow>
    run_slot env d m current (JObj ctx) w router = (w1, router1, SlotPanic site) \<Longrightarrow>
    dag_final env d m (current, ctx, transitions, w, router) (w1, router1, DagPanicked site)"
| fork: "transitions < MAX_DAG_SLOT_TRANSITIONS \<Longrightarrow>
    run_slot env d m current (JObj ctx) w router = (w1, router1, SlotOutput v text) \<Longrightarrow>
    find_edge (pe_to_string (dn_world env)) (pcf_edges (dr_config d)) current v = Some (Fork names) \<Longrightarrow>
    dag_final env d m (current, ctx, transitions, w, router)
      (save_slot_output env d current transitions text w1, router1, DagReturned (Inl ForkNotSupportedInDag))"
| endpoint: "transitions < MAX_DAG_SLOT_TRANSITIONS \<Longrightarrow>
    run_slot env d m current (JObj ctx) w router = (w1, router1, SlotOutput v text) \<Longrightarrow>
    find_edge (pe_to_string (dn_world env)) (pcf_edges (dr_config d)) current v = None \<Longrightarrow>
    dag_final env d m (current, ctx, transitions, w, router)
      (save_slot_output env d current transitions text w1, router1, DagReturned (Inr v))"

inductive_cases dag_finalE: "dag_final env d m (current, ctx, transitions, w, router) r"

definition loop_of :: "'w dag_env \<Rightarrow> 'w dag_runner \<Rightarrow> string \<Rightarrow> 'w dag_config \<Rightarrow> 'w \<times> model_router option \<times> dag_outcome" where
  "loop_of env d m c = (case c of (current, ctx, transitions, w, router) \<Rightarrow> dag_loop env d m current ctx transitions w router)"

lemma loop_of_unfold:
  "loop_of env d m (current, ctx, transitions, w, router) =
     (if MAX_DAG_SLOT_TRANSITIONS \<le> transitions
      then (w, router, DagReturned (Inl (MaxSlotTransitionsExceeded MAX_DAG_SLOT_TRANSITIONS)))
      else
        case run_slot env d m current (JObj ctx) w router of
          (w1, router1, SlotError e) \<Rightarrow> (w1, router1, DagReturned (Inl e))
        | (w1, router1, SlotPanic site) \<Rightarrow> (w1, router1, DagPanicked site)
        | (w1, router1, SlotOutput v text) \<Rightarrow>
            (case find_edge (pe_to_string (dn_world env)) (pcf_edges (dr_config d)) current v of
                 Some (Single next_name) \<Rightarrow>
                   loop_of env d m (next_name, context_set ctx current v, transitions + 1,
                     save_slot_output env d current transitions text w1, router1)
               | Some (Fork _) \<Rightarrow>
                   (save_slot_output env d current transitions text w1, router1, DagReturned (Inl ForkNotSupportedInDag))
               | None \<Rightarrow> (save_slot_output env d current transitions text w1, router1, DagReturned (Inr v))))"
  unfolding loop_of_def prod.case by (subst dag_loop.simps) (simp only: Let_def)

lemma step_loop: "dag_step env d m c c' \<Longrightarrow> loop_of env d m c = loop_of env d m c'"
  by (induction rule: dag_step.induct) (subst loop_of_unfold, auto dest: leD)

lemma final_loop: "dag_final env d m c r \<Longrightarrow> loop_of env d m c = r"
  by (induction rule: dag_final.induct) (subst loop_of_unfold, auto dest: leD)+

lemma steps_loop: "(dag_step env d m)\<^sup>*\<^sup>* c c' \<Longrightarrow> loop_of env d m c = loop_of env d m c'"
  by (induction rule: rtranclp_induct) (simp_all add: step_loop)

lemma loop_reaches:
  "\<exists>c' r. (dag_step env d m)\<^sup>*\<^sup>* (current, ctx, transitions, w, router) c' \<and> dag_final env d m c' r"
proof (induction env d m current ctx transitions w router rule: dag_loop.induct)
  case (1 env d m current ctx transitions w router)
  show ?case
  proof (cases "MAX_DAG_SLOT_TRANSITIONS \<le> transitions")
    case False
    then have lt: "transitions < MAX_DAG_SLOT_TRANSITIONS" by (simp add: not_le)
    obtain w1 router1 s where s: "run_slot env d m current (JObj ctx) w router = (w1, router1, s)" by (metis prod_cases3)
    let ?edge = "find_edge (pe_to_string (dn_world env)) (pcf_edges (dr_config d)) current"
    show ?thesis
    proof (cases s)
      case (SlotOutput v t)
      show ?thesis
      proof (cases "?edge v")
        case None
        with endpoint [OF lt s [unfolded SlotOutput]] show ?thesis by blast
      next
        case (Some target)
        show ?thesis
        proof (cases target)
          case (Single name)
          note step = follow [OF lt s [unfolded SlotOutput] Some [unfolded Single]]
          from 1 [OF False s [symmetric] refl SlotOutput refl Some Single] step
          show ?thesis by (meson converse_rtranclp_into_rtranclp)
        next
          case (Fork names)
          with fork [OF lt s [unfolded SlotOutput] Some [unfolded Fork]] show ?thesis by blast
        qed
      qed
    next
      case (SlotError e)
      with failed [OF lt s [unfolded SlotError]] show ?thesis by blast
    next
      case (SlotPanic site)
      with panicked [OF lt s [unfolded SlotPanic]] show ?thesis by blast
    qed
  qed (meson limit rtranclp.rtrancl_refl)
qed

definition dag_start :: "'w dag_runner \<Rightarrow> string \<Rightarrow> 'w \<Rightarrow> model_router option \<Rightarrow> 'w dag_config" where
  "dag_start d initial_input w router = (pcf_entry (dr_config d), [(''input'', JStr initial_input)], 0, w, router)"

lemma dag_run_loop: "dag_run env d initial_input m w router = loop_of env d m (dag_start d initial_input w router)"
  by (simp add: dag_run_def loop_of_def dag_start_def)

lemma dag_run_iff:
  "dag_run env d initial_input m w router = r \<longleftrightarrow>
     (\<exists>c. (dag_step env d m)\<^sup>*\<^sup>* (dag_start d initial_input w router) c \<and> dag_final env d m c r)"
proof
  assume run: "dag_run env d initial_input m w router = r"
  obtain c r' where c: "(dag_step env d m)\<^sup>*\<^sup>* (dag_start d initial_input w router) c" "dag_final env d m c r'"
    unfolding dag_start_def using loop_reaches by metis
  from steps_loop [OF c(1)] final_loop [OF c(2)] run have "r' = r" by (simp add: dag_run_loop)
  with c show "\<exists>c. (dag_step env d m)\<^sup>*\<^sup>* (dag_start d initial_input w router) c \<and> dag_final env d m c r" by blast
qed (auto simp: dag_run_loop dest: steps_loop final_loop)

section \<open>Invariants of the path\<close>

text \<open>A path along the edges: the slots left behind, in order, and the slot it leads to.\<close>

inductive edge_path :: "dag_edge list \<Rightarrow> string \<Rightarrow> string list \<Rightarrow> string \<Rightarrow> bool" for es s where
  start: "edge_path es s [] s"
| edge: "edge_path es s p x \<Longrightarrow> e \<in> set es \<Longrightarrow> de_from e = x \<Longrightarrow> rule_target (de_rule e) = Some (Single y) \<Longrightarrow>
    edge_path es s (p @ [x]) y"

lemma find_edge_Some:
  "find_edge json_str es x v = Some target \<Longrightarrow>
     \<exists>e \<in> set es. de_from e = x \<and> rule_eval json_str (de_rule e) v \<and> rule_target (de_rule e) = Some target"
  unfolding find_edge_def by (auto split: option.splits dest!: find_Some_memb)

definition on_path :: "'w dag_runner \<Rightarrow> 'w dag_config \<Rightarrow> bool" where
  "on_path d c \<longleftrightarrow>
     (case c of (current, ctx, transitions, w, router) \<Rightarrow>
        \<exists>path. edge_path (pcf_edges (dr_config d)) (pcf_entry (dr_config d)) path current \<and>
          unat transitions = length path \<and> length path \<le> 50 \<and> fst ` set ctx = insert ''input'' (set path))"

lemma on_path_start: "on_path d (dag_start d initial_input w router)"
  by (auto simp: on_path_def dag_start_def intro: edge_path.start)

lemma on_path_step:
  assumes "dag_step env d m c c'" and "on_path d c"
  shows "on_path d c'"
  using assms
proof (induction rule: dag_step.induct)
  case (follow transitions current ctx w router w1 router1 v t target)
  obtain path where p: "edge_path (pcf_edges (dr_config d)) (pcf_entry (dr_config d)) path current"
    "unat transitions = length path" "fst ` set ctx = insert ''input'' (set path)"
    using follow(4) by (auto simp: on_path_def)
  have n: "unat transitions < 50" "unat (transitions + 1) = unat transitions + 1"
    using next_attempt(1,2) [of MAX_DAG_SLOT_TRANSITIONS transitions] follow(1)
    by (simp_all add: not_le MAX_DAG_SLOT_TRANSITIONS_def)
  from find_edge_Some [OF follow(3)] p(1)
  have "edge_path (pcf_edges (dr_config d)) (pcf_entry (dr_config d)) (path @ [current]) target"
    by (auto intro: edge_path.edge)
  then show ?case using p n unfolding on_path_def context_set_def
    by (intro case_prodI exI [of _ "path @ [current]"]) (auto simp: keys_obj_insert)
qed

lemma on_path_reachable:
  "(dag_step env d m)\<^sup>*\<^sup>* (dag_start d initial_input w router) c \<Longrightarrow> on_path d c"
  by (induction rule: rtranclp_induct) (auto intro: on_path_start on_path_step)

lemma edge_path_rank:
  assumes "edge_path es s p x"
    and "\<And>e y. e \<in> set es \<Longrightarrow> rule_target (de_rule e) = Some (Single y) \<Longrightarrow> place y < place (de_from e)"
  shows "length p + place x \<le> (place s :: nat)"
  using assms(1)
proof induction
  case (edge p x e y)
  then show ?case using assms(2) [of e y] by simp
qed simp

section \<open>The requests of a run\<close>

text \<open>The assumptions of the single runs, for every executor, and a limit of turns for every slot.\<close>

definition dag_budget :: "'w dag_env \<Rightarrow> 'w dag_runner \<Rightarrow> ('w \<Rightarrow> nat) \<Rightarrow> nat \<Rightarrow> bool" where
  "dag_budget env d calls turns \<longleftrightarrow>
     (\<forall>ex. unit_random (dn_agent_env env ex) \<and> counts_requests (dn_agent_env env ex) calls) \<and>
     unit_draws (dn_world env) \<and> quiet (dn_world env) None (dr_memory d) calls \<and>
     drops_within (dn_world env) calls (\<lambda>a. ag_retry a = retry_default) 120 \<and>
     dr_retry d = retry_default \<and>
     (\<forall>slot \<in> set (pcf_slots (dr_config d)). unat (unwrap_or (ps_max_turns slot) 10) \<le> turns)"

lemma slot_env_facts:
  "unit_draws (slot_plugin_env env ex) = unit_draws (dn_world env)"
  "quiet (slot_plugin_env env ex) hooks mem calls = quiet (dn_world env) hooks mem calls"
  "drops_within (slot_plugin_env env ex) calls keeps n = drops_within (dn_world env) calls keeps n"
  "pe_agent (slot_plugin_env env ex) = agent_as_plugin_agent (dn_agent_env env ex)"
  by (simp_all add: slot_plugin_env_def unit_draws_def quiet_def drops_within_def)

lemma run_slot_bounded:
  assumes "dag_budget env d calls turns" and "run_slot env d m current ctx w router = (w1, router1, s)"
  shows "calls w1 \<le> calls w + 120 * turns \<and>
    (\<forall>site. s = SlotPanic site \<longrightarrow> (\<exists>ex b. slice_panic (slot_plugin_env env ex) (pb_plugin (b :: plugin_bundle)) (Panicked site)))"
proof (cases "w1 = w \<and> (\<forall>site. s \<noteq> SlotPanic site)")
  case False
  then obtain slot b resolved ex w2 ag r where
    slot: "find (\<lambda>s. ps_name s = current) (pcf_slots (dr_config d)) = Some slot" and
    run: "run_plugin_loop (slot_plugin_env env ex) (pb_plugin b) (slot_behavior slot b)
       (slot_agent env d ex slot b resolved w) ctx (slot_config slot) None (Some (dr_retry d)) (dr_memory d) w = (w2, ag, r)" and
    w2: "w2 = w1" and r: "\<And>site. s = SlotPanic site \<Longrightarrow> r = Panicked site"
    using assms(2) unfolding run_slot_def
    by (auto split: option.splits prod.splits sum.splits plugin_outcome.splits)
  have retry: "ag_retry (slot_agent env d ex slot b resolved w) = retry_default"
    by (auto simp: slot_agent_def agent_new_def Agent.with_memory_def Let_def split: option.split)
  have turns: "unat (pc_max_turns (slot_config slot)) \<le> turns"
    using assms(1) find_Some_memb [OF slot] by (simp add: dag_budget_def slot_config_def)
  have "calls w2 \<le> calls w + 120 * unat (pc_max_turns (slot_config slot)) \<and>
      sound_outcome (slot_plugin_env env ex) (pb_plugin b) r"
    by (rule agent_plugin_run [OF _ _ retry _ _ _ _ _ run]) (use assms(1) in \<open>simp_all add: dag_budget_def slot_env_facts\<close>)
  moreover from this have "calls w1 \<le> calls w + 120 * turns" using turns w2 by (simp add: le_trans)
  ultimately show ?thesis using r by (auto simp: sound_outcome_def)
qed auto

lemma save_slot_quiet: "dag_budget env d calls turns \<Longrightarrow> calls (save_slot_output env d current n t w) = calls w"
  by (auto simp: save_slot_output_def save_plugin_entry_def dag_budget_def quiet_def Let_def
      split: option.split prod.split) (metis fst_conv)

definition calls_at :: "('w \<Rightarrow> nat) \<Rightarrow> nat \<Rightarrow> 'w \<Rightarrow> 'w dag_config \<Rightarrow> bool" where
  "calls_at calls b w0 c \<longleftrightarrow> (case c of (current, ctx, n, w, router) \<Rightarrow> n \<le> MAX_DAG_SLOT_TRANSITIONS \<and> calls w \<le> calls w0 + b * unat n)"

lemma calls_at_step:
  assumes "dag_step env d m c c'" and "dag_budget env d calls turns" and "calls_at calls (120 * turns) w0 c"
  shows "calls_at calls (120 * turns) w0 c'"
  using assms
proof (induction rule: dag_step.induct)
  case (follow transitions current ctx w router w1 router1 v t target)
  have "\<not> MAX_DAG_SLOT_TRANSITIONS \<le> transitions" using follow(1) by simp
  note n = next_attempt(1,2) [OF this]
  show ?case using run_slot_bounded [OF follow(4,2)] save_slot_quiet [OF follow(4)] follow(5) n
    by (simp add: calls_at_def word_le_nat_alt)
qed

lemma dag_final_bounded:
  assumes "dag_final env d m c (w', router', r)" and "dag_budget env d calls turns" and "calls_at calls (120 * turns) w0 c"
  shows "calls w' \<le> calls w0 + 120 * turns * 50 \<and>
    (\<forall>site. r = DagPanicked site \<longrightarrow> (\<exists>ex b. slice_panic (slot_plugin_env env ex) (pb_plugin (b :: plugin_bundle)) (Panicked site)))"
proof -
  obtain current ctx n w router where c: "c = (current, ctx, n, w, router)" by (metis prod_cases5)
  have at: "n \<le> 50" "calls w \<le> calls w0 + 120 * turns * unat n"
    using assms(3) by (simp_all add: c calls_at_def MAX_DAG_SLOT_TRANSITIONS_def)
  have run: "calls w1 \<le> calls w0 + 120 * turns * 50" if "n < 50" "calls w1 \<le> calls w + 120 * turns" for w1
  proof -
    have "120 * turns * unat n + 120 * turns = 120 * turns * Suc (unat n)" by simp
    also have "\<dots> \<le> 120 * turns * 50" using that(1) by (intro mult_le_mono2) (simp add: word_less_nat_alt)
    finally show ?thesis using at(2) that(2) by linarith
  qed
  have full: "calls w \<le> calls w0 + 120 * turns * 50"
  proof -
    have "120 * turns * unat n \<le> 120 * turns * 50"
      using at(1) by (intro mult_le_mono2) (simp add: word_le_nat_alt)
    then show ?thesis using at(2) by linarith
  qed
  from assms(1) show ?thesis
    unfolding c using run_slot_bounded [OF assms(2)] save_slot_quiet [OF assms(2)] run full
    by (elim dag_finalE) (fastforce simp: MAX_DAG_SLOT_TRANSITIONS_def)+
qed

lemma run_slot_no_limit: "run_slot env d m current ctx w router = (w1, router1, SlotError e) \<Longrightarrow> e \<noteq> MaxSlotTransitionsExceeded n"
  unfolding run_slot_def by (auto split: option.splits prod.splits sum.splits plugin_outcome.splits)

section \<open>Properties\<close>


text \<open>
  A graph whose edges go down along some numbering that gives the entry less than fifty never runs
  into the limit on slot transitions: only cycles and very long chains do.
\<close>

theorem dag_acyclic_within_limit:
  assumes "\<And>e y. e \<in> set (pcf_edges (dr_config d)) \<Longrightarrow> rule_target (de_rule e) = Some (Single y) \<Longrightarrow>
      place y < (place (de_from e) :: nat)"
    and "place (pcf_entry (dr_config d)) < 50"
  shows "\<nexists>w' router' n. dag_run env d initial_input m w router = (w', router', DagReturned (Inl (MaxSlotTransitionsExceeded n)))"
proof (intro notI, elim exE)
  fix w' router' n
  assume "dag_run env d initial_input m w router = (w', router', DagReturned (Inl (MaxSlotTransitionsExceeded n)))"
  then obtain c where c: "(dag_step env d m)\<^sup>*\<^sup>* (dag_start d initial_input w router) c"
    and final: "dag_final env d m c (w', router', DagReturned (Inl (MaxSlotTransitionsExceeded n)))"
    unfolding dag_run_iff by blast
  obtain current ctx transitions w1 router1 where cc: "c = (current, ctx, transitions, w1, router1)" by (metis prod_cases5)
  obtain path where path: "edge_path (pcf_edges (dr_config d)) (pcf_entry (dr_config d)) path current"
    "unat transitions = length path"
    using on_path_reachable [OF c] by (auto simp: on_path_def cc)
  have "length path < 50" using edge_path_rank [OF path(1), of place] assms by (metis add_leD1 le_less_trans)
  then have "transitions < MAX_DAG_SLOT_TRANSITIONS"
    using path(2) by (simp add: MAX_DAG_SLOT_TRANSITIONS_def word_less_nat_alt)
  with final show False unfolding cc by (elim dag_finalE) (auto dest: run_slot_no_limit leD)
qed

text \<open>Two slots, the first handing over to the second.\<close>

definition demo_edge :: dag_edge where
  "demo_edge =
     \<lparr>de_from = ''a'', de_rule = \<lparr>rule_condition = None, rule_all = None, rule_any = None, rule_default = True,
        rule_target = Some (Single ''b'')\<rparr>\<rparr>"

definition demo_slot :: "string \<Rightarrow> plugin_slot" where
  "demo_slot n = \<lparr>ps_name = n, ps_plugin = ''p'', ps_tools = [], ps_model_override = None, ps_max_turns = Some 2, ps_behavior = None\<rparr>"

definition demo_runner :: "nat dag_runner" where
  "demo_runner =
     \<lparr>dr_config = \<lparr>pcf_entry = ''a'', pcf_slots = [demo_slot ''a'', demo_slot ''b''], pcf_edges = [demo_edge], pcf_shared_tools = []\<rparr>,
      dr_plugins = [(''p'', \<lparr>pb_meta = \<lparr>pm_name = ''p'', pm_version = ''1'', pm_description = [], pm_author = []\<rparr>,
        pb_plugin = demo_plugin, pb_default_behavior = Yolo NoBash, pb_default_tools = []\<rparr>)],
      dr_tools = [], dr_tool_access = None, dr_retry = retry_default, dr_memory = None, dr_credentials = None\<rparr>"

definition demo_dag_env :: "nat dag_env" where
  "demo_dag_env =
     \<lparr>dn_router_ext = sample_ext, dn_catalog = mr_catalog sample_router, dn_http_client = Inr (),
      dn_agent_env = (\<lambda>_. scripted (\<lambda>_. Inr [Token ''x'', Done ''stop'' None])),
      dn_world = still_env (agent_as_plugin_agent (scripted (\<lambda>_. Inr []))), dn_from_str = (\<lambda>_. Inr (JObj [])),
      dn_recall = (\<lambda>_ _ _. [])\<rparr>"

theorem dag_acyclic_within_limit_witness:
  "\<nexists>w' router' n. dag_run demo_dag_env demo_runner ''go'' ''m'' 0 (Some sample_router) =
     (w', router', DagReturned (Inl (MaxSlotTransitionsExceeded n)))"
  by (rule dag_acyclic_within_limit [where place = "\<lambda>s. if s = ''a'' then 1 else 0"])
    (auto simp: demo_runner_def demo_edge_def)

text \<open>
  Whatever its edges, a run of the plugin graph returns: no more than fifty slots run, and with at most
  \<open>t\<close> turns per slot it sends at most \<open>6000 * t\<close> requests. The only panic left is a slice in the correction
  hint of a slot's plugin.
\<close>

theorem dag_run_bounded:
  assumes "dag_budget env d calls turns"
  shows "case dag_run env d initial_input m w router of (w', router', r) \<Rightarrow>
    calls w' \<le> calls w + 6000 * turns \<and>
    ((\<exists>res. r = DagReturned res) \<or>
     (\<exists>ex b site. r = DagPanicked site \<and> slice_panic (slot_plugin_env env ex) (pb_plugin (b :: plugin_bundle)) (Panicked site)))"
proof -
  obtain w' router' r where run: "dag_run env d initial_input m w router = (w', router', r)" by (metis prod_cases3)
  then obtain c where c: "(dag_step env d m)\<^sup>*\<^sup>* (dag_start d initial_input w router) c"
    and final: "dag_final env d m c (w', router', r)"
    unfolding dag_run_iff by blast
  from c have "calls_at calls (120 * turns) w c"
  proof (induction rule: rtranclp_induct)
    case base
    show ?case by (simp add: calls_at_def dag_start_def)
  qed (rule calls_at_step [OF _ assms])
  from dag_final_bounded [OF final assms this] show ?thesis by (cases r) (auto simp: run)
qed

theorem dag_run_bounded_witness:
  "fst (dag_run demo_dag_env demo_runner ''go'' ''m'' 0 (Some sample_router)) \<le> 12000"
proof -
  have "dag_budget demo_dag_env demo_runner (\<lambda>n. n) 2"
    using scripted_ok by (simp add: dag_budget_def demo_dag_env_def demo_runner_def demo_slot_def still_env_def
        unit_draws_def quiet_def drops_within_def)
  from dag_run_bounded [OF this, where w = 0 and initial_input = "''go''" and m = "''m''" and router = "Some sample_router"] show ?thesis by (auto split: prod.splits)
qed

end
