(* ===== verification/Manifest.thy ===== *)
theory Manifest
  imports Plugin_Dag Rust_Path "HOL-Library.Product_Lexorder"
begin

text \<open>
  \<open>plugin/manifest.rs\<close>, \<open>plugin/loader.rs\<close> and \<open>plugin/watcher.rs\<close>: plugins declared by a \<open>plugin.toml\<close>
  and the files it names, the loading of a directory tree of them, and the hot reload of the registry.
  Reading a file, parsing TOML into a value and parsing JSON are parameters; a directory is the finite tree
  of what reading it yields.
\<close>

section \<open>The manifest\<close>

datatype manifest_error =
  MfIo string string
| MfToml string string
| MfInvalid string string

record manifest_plugin =
  mt_name :: string
  mt_version :: string
  mt_description :: string
  mt_author :: string
  mt_preferred_model :: string

record manifest_prompt =
  mt_system :: string
  mt_system_file :: "string option"
  mt_template :: string
  mt_template_file :: "string option"

record manifest_output =
  mt_parse :: string
  mt_schema :: "json option"
  mt_schema_file :: "string option"

record manifest_behavior =
  mt_mode :: string
  mt_confidence_threshold :: f64
  mt_max_retries :: u32
  mt_escalate_to :: "string option"

record plugin_toml =
  mt_plugin :: manifest_plugin
  mt_prompt :: manifest_prompt
  mt_output :: manifest_output
  mt_behavior :: "manifest_behavior option"

text \<open>
  What \<open>derive(Deserialize)\<close> reads from a table: a field that is absent takes its default, a field of the
  wrong type is an error (\<^const>\<open>None\<close>). The defaults of the fields of a section apply when the section is
  there; a section that is absent is the section's own \<open>Default\<close>, whose texts are empty.
\<close>

definition text_field :: "json \<Rightarrow> string \<Rightarrow> string \<Rightarrow> string option" where
  "text_field t k d = (case json_get t k of None \<Rightarrow> Some d | Some v \<Rightarrow> as_str v)"

definition opt_text_field :: "json \<Rightarrow> string \<Rightarrow> string option option" where
  "opt_text_field t k = (case json_get t k of None \<Rightarrow> Some None | Some v \<Rightarrow> map_option Some (as_str v))"

definition f64_field :: "json \<Rightarrow> string \<Rightarrow> f64 \<Rightarrow> f64 option" where
  "f64_field t k d =
     (case json_get t k of
        None \<Rightarrow> Some d
      | Some (JNum n) \<Rightarrow> Some (num_as_f64 n)
      | Some _ \<Rightarrow> None)"

definition u32_field :: "json \<Rightarrow> string \<Rightarrow> u32 \<Rightarrow> u32 option" where
  "u32_field t k d =
     (case json_get t k of
        None \<Rightarrow> Some d
      | Some v \<Rightarrow> (case as_u64 v of
          Some n \<Rightarrow> if unat n < 2 ^ 32 then Some (ucast n) else None
        | None \<Rightarrow> None))"

definition is_table :: "json \<Rightarrow> bool" where
  "is_table t \<longleftrightarrow> as_object t \<noteq> None"

definition manifest_plugin_of :: "json \<Rightarrow> manifest_plugin option" where
  "manifest_plugin_of t =
     (if \<not> is_table t then None else
      do {
        name \<leftarrow> Option.bind (json_get t ''name'') as_str;
        version \<leftarrow> text_field t ''version'' ''0.1'';
        description \<leftarrow> text_field t ''description'' [];
        author \<leftarrow> text_field t ''author'' ''local'';
        preferred_model \<leftarrow> text_field t ''preferred_model'' [];
        Some \<lparr>mt_name = name, mt_version = version, mt_description = description, mt_author = author,
          mt_preferred_model = preferred_model\<rparr>
      })"

definition manifest_prompt_of :: "json \<Rightarrow> manifest_prompt option" where
  "manifest_prompt_of t =
     (if \<not> is_table t then None else
      do {
        system \<leftarrow> text_field t ''system'' [];
        system_file \<leftarrow> opt_text_field t ''system_file'';
        template \<leftarrow> text_field t ''template'' [];
        template_file \<leftarrow> opt_text_field t ''template_file'';
        Some \<lparr>mt_system = system, mt_system_file = system_file, mt_template = template, mt_template_file = template_file\<rparr>
      })"

definition manifest_output_of :: "json \<Rightarrow> manifest_output option" where
  "manifest_output_of t =
     (if \<not> is_table t then None else
      do {
        parse \<leftarrow> text_field t ''parse'' ''json'';
        schema_file \<leftarrow> opt_text_field t ''schema_file'';
        Some \<lparr>mt_parse = parse, mt_schema = json_get t ''schema'', mt_schema_file = schema_file\<rparr>
      })"

definition manifest_behavior_of :: "json \<Rightarrow> manifest_behavior option" where
  "manifest_behavior_of t =
     (if \<not> is_table t then None else
      do {
        mode \<leftarrow> text_field t ''mode'' ''yolo'';
        confidence_threshold \<leftarrow> f64_field t ''confidence_threshold'' (round_f64 0.7);
        max_retries \<leftarrow> u32_field t ''max_retries'' 3;
        escalate_to \<leftarrow> opt_text_field t ''escalate_to'';
        Some \<lparr>mt_mode = mode, mt_confidence_threshold = confidence_threshold, mt_max_retries = max_retries,
          mt_escalate_to = escalate_to\<rparr>
      })"

definition manifest_prompt_default :: manifest_prompt where
  "manifest_prompt_default = \<lparr>mt_system = [], mt_system_file = None, mt_template = [], mt_template_file = None\<rparr>"

definition manifest_output_default :: manifest_output where
  "manifest_output_default = \<lparr>mt_parse = [], mt_schema = None, mt_schema_file = None\<rparr>"

definition section_or :: "json \<Rightarrow> string \<Rightarrow> 'a \<Rightarrow> (json \<Rightarrow> 'a option) \<Rightarrow> 'a option" where
  "section_or t k d read_section = (case json_get t k of None \<Rightarrow> Some d | Some v \<Rightarrow> read_section v)"

definition plugin_toml_of :: "json \<Rightarrow> plugin_toml option" where
  "plugin_toml_of t =
     do {
       plugin \<leftarrow> Option.bind (json_get t ''plugin'') manifest_plugin_of;
       prompt \<leftarrow> section_or t ''prompt'' manifest_prompt_default manifest_prompt_of;
       result \<leftarrow> section_or t ''output'' manifest_output_default manifest_output_of;
       mode \<leftarrow> section_or t ''behavior'' None (\<lambda>v. map_option Some (manifest_behavior_of v));
       Some \<lparr>mt_plugin = plugin, mt_prompt = prompt, mt_output = result, mt_behavior = mode\<rparr>
     }"

section \<open>The declared plugin\<close>

datatype parse_mode = ParseJson | ParseText

record manifest_plugin_impl =
  mi_name :: string
  mi_system_prompt :: string
  mi_prompt_template :: string
  mi_parse_mode :: parse_mode
  mi_schema :: "json option"
  mi_preferred_model :: string

definition manifest_render :: "(json \<Rightarrow> string) \<Rightarrow> manifest_plugin_impl \<Rightarrow> json \<Rightarrow> string" where
  "manifest_render print mp ctx =
     (let rendered = (if mi_prompt_template mp = [] then ''{{context}}'' else mi_prompt_template mp);
          rendered = str_replace ''{{context}}'' (print ctx) rendered;
          rendered = (case Option.bind (json_get ctx ''input'') as_str of
            Some input \<Rightarrow> str_replace ''{{input}}'' input rendered | None \<Rightarrow> rendered)
      in case Option.bind (json_get ctx ''request'') as_str of
           Some request \<Rightarrow> str_replace ''{{request}}'' request rendered
         | None \<Rightarrow> rendered)"

definition manifest_parse ::
  "(string \<Rightarrow> (string, json) res) \<Rightarrow> manifest_plugin_impl \<Rightarrow> string \<Rightarrow> (plugin_error, json) res" where
  "manifest_parse from_str mp raw =
     (case mi_parse_mode mp of
        ParseJson \<Rightarrow> parse_json_from_response from_str raw
      | ParseText \<Rightarrow> Inr (JObj [(''content'', JStr raw)]))"

definition manifest_erased ::
  "(string \<Rightarrow> (string, json) res) \<Rightarrow> (json \<Rightarrow> string) \<Rightarrow> manifest_plugin_impl \<Rightarrow> erased_plugin" where
  "manifest_erased from_str print mp =
     \<lparr>ep_name = mi_name mp, ep_system_prompt = mi_system_prompt mp,
      ep_system_prompt_delta = default_prompt_delta (mi_system_prompt mp),
      ep_to_prompt_json = (\<lambda>ctx. Inr (manifest_render print mp ctx)),
      ep_parse_output_json = manifest_parse from_str mp, ep_tools = [],
      ep_preferred_model = mi_preferred_model mp, ep_output_schema = mi_schema mp\<rparr>"

section \<open>Loading one manifest\<close>

definition safe_relative_path :: "string \<Rightarrow> string \<Rightarrow> string \<Rightarrow> string \<Rightarrow> (manifest_error, string) res" where
  "safe_relative_path manifest_path base_dir rel field =
     (if is_absolute rel \<or> str_contains rel ''..''
      then Inl (MfInvalid manifest_path (field @ '' must be a relative path without '' @ in_quotes ''..''))
      else Inr (path_join base_dir rel))"

definition read_file :: "(string \<Rightarrow> (string, string) res) \<Rightarrow> string \<Rightarrow> (manifest_error, string) res" where
  "read_file read path = (case read path of Inr s \<Rightarrow> Inr s | Inl e \<Rightarrow> Inl (MfIo path e))"

definition read_inline_or_file ::
  "(string \<Rightarrow> (string, string) res) \<Rightarrow> string \<Rightarrow> string \<Rightarrow> string \<Rightarrow> string option \<Rightarrow> string \<Rightarrow> (manifest_error, string) res" where
  "read_inline_or_file read manifest_path base_dir inline file_ref field =
     (case file_ref of
        None \<Rightarrow> Inr inline
      | Some f \<Rightarrow>
          (if inline \<noteq> [] then Inl (MfInvalid manifest_path (''use inline '' @ field @ '' content or file reference, not both''))
           else and_then_r (safe_relative_path manifest_path base_dir f field) (read_file read)))"

definition manifest_schema ::
  "(string \<Rightarrow> (string, string) res) \<Rightarrow> (string \<Rightarrow> (string, json) res) \<Rightarrow> string \<Rightarrow> string \<Rightarrow> manifest_output \<Rightarrow>
     (manifest_error, json option) res" where
  "manifest_schema read from_str path base_dir out =
     (case (mt_schema out, mt_schema_file out) of
        (Some schema, None) \<Rightarrow> Inr (Some schema)
      | (None, Some schema_file) \<Rightarrow>
          and_then_r (safe_relative_path path base_dir schema_file ''output.schema_file'') (\<lambda>schema_path.
          and_then_r (read_file read schema_path) (\<lambda>content.
            case from_str content of
              Inr v \<Rightarrow> Inr (Some v)
            | Inl e \<Rightarrow> Inl (MfInvalid path (''output.schema_file is not valid JSON: '' @ e))))
      | (Some _, Some _) \<Rightarrow> Inl (MfInvalid path ''use output.schema or output.schema_file, not both'')
      | (None, None) \<Rightarrow> Inr None)"

definition manifest_parse_mode :: "string \<Rightarrow> string \<Rightarrow> (manifest_error, parse_mode) res" where
  "manifest_parse_mode path s =
     (if s = ''json'' then Inr ParseJson else if s = ''text'' then Inr ParseText
      else Inl (MfInvalid path (''unsupported output.parse '' @ in_quotes s)))"

definition manifest_behavior_mode :: "string \<Rightarrow> manifest_behavior option \<Rightarrow> (manifest_error, behavior_mode) res" where
  "manifest_behavior_mode path mode =
     (case mode of
        None \<Rightarrow> Inr behavior_default
      | Some b \<Rightarrow>
          (if mt_mode b = ''strict'' then Inr (Strict (mt_confidence_threshold b) (mt_max_retries b) (mt_escalate_to b))
           else if mt_mode b = ''yolo'' then Inr (Yolo EnforceCommandAllowlist)
           else Inl (MfInvalid path (''unsupported behavior mode '' @ in_quotes (mt_mode b)))))"

text \<open>
  What reading a manifest needs from outside: files, TOML (the text becomes a value, and a value of the
  wrong shape an error text), JSON.
\<close>

record manifest_env =
  me_toml :: "string \<Rightarrow> (string, json) res"
  me_shape_error :: "json \<Rightarrow> string"
  me_from_str :: "string \<Rightarrow> (string, json) res"
  me_print :: "json \<Rightarrow> string"

definition parse_manifest :: "manifest_env \<Rightarrow> string \<Rightarrow> string \<Rightarrow> (manifest_error, plugin_toml) res" where
  "parse_manifest env path content =
     (case me_toml env content of
        Inl e \<Rightarrow> Inl (MfToml path e)
      | Inr t \<Rightarrow> (case plugin_toml_of t of Some raw \<Rightarrow> Inr raw | None \<Rightarrow> Inl (MfToml path (me_shape_error env t))))"

definition manifest_bundle ::
  "manifest_env \<Rightarrow> (string \<Rightarrow> (string, string) res) \<Rightarrow> string \<Rightarrow> string \<Rightarrow> plugin_toml \<Rightarrow> (manifest_error, plugin_bundle) res" where
  "manifest_bundle env read path base_dir raw =
     (let plugin = mt_plugin raw; prompt = mt_prompt raw
      in and_then_r (read_inline_or_file read path base_dir (mt_system prompt) (mt_system_file prompt) ''prompt.system_file'') (\<lambda>system_prompt.
         and_then_r (read_inline_or_file read path base_dir (mt_template prompt) (mt_template_file prompt) ''prompt.template_file'') (\<lambda>prompt_template.
         and_then_r (manifest_schema read (me_from_str env) path base_dir (mt_output raw)) (\<lambda>schema.
         and_then_r (manifest_parse_mode path (mt_parse (mt_output raw))) (\<lambda>mode.
         and_then_r (manifest_behavior_mode path (mt_behavior raw)) (\<lambda>default_behavior.
           Inr \<lparr>pb_meta = \<lparr>pm_name = mt_name plugin, pm_version = mt_version plugin,
                   pm_description = mt_description plugin, pm_author = mt_author plugin\<rparr>,
                 pb_plugin = manifest_erased (me_from_str env) (me_print env)
                   \<lparr>mi_name = mt_name plugin, mi_system_prompt = system_prompt, mi_prompt_template = prompt_template,
                    mi_parse_mode = mode, mi_schema = schema, mi_preferred_model = mt_preferred_model plugin\<rparr>,
                 pb_default_behavior = default_behavior, pb_default_tools = []\<rparr>))))))"

definition load_manifest ::
  "manifest_env \<Rightarrow> (string \<Rightarrow> (string, string) res) \<Rightarrow> string \<Rightarrow> (manifest_error, plugin_bundle) res" where
  "load_manifest env read path =
     and_then_r (read_file read path) (\<lambda>content.
     and_then_r (parse_manifest env path content) (\<lambda>raw.
       manifest_bundle env read path (unwrap_or (path_parent path) ''.'') raw))"

section \<open>Loading a directory\<close>

datatype loader_error =
  LdIo string string
| LdManifest manifest_error
| LdDuplicateName string string string

text \<open>A directory: the entries that reading it yields, or the error.\<close>

datatype dir_entry =
  EntryError string
| TypeError string string
| FileAt string
| DirAt string "string + dir_entry list"

text \<open>The recursion visits the entries in the order they are read and stops at the first error.\<close>

fun collect_entry :: "string \<Rightarrow> dir_entry \<Rightarrow> (loader_error, string list) res"
and collect_entries :: "string \<Rightarrow> dir_entry list \<Rightarrow> (loader_error, string list) res" where
  "collect_entry dir (EntryError e) = Inl (LdIo dir e)"
| "collect_entry dir (TypeError path e) = Inl (LdIo path e)"
| "collect_entry dir (FileAt path) = Inr (if file_name path = Some ''plugin.toml'' then [path] else [])"
| "collect_entry dir (DirAt path (Inl e)) = Inl (LdIo path e)"
| "collect_entry dir (DirAt path (Inr entries)) = collect_entries path entries"
| "collect_entries dir [] = Inr []"
| "collect_entries dir (e # es) =
     and_then_r (collect_entry dir e) (\<lambda>found.
     and_then_r (collect_entries dir es) (\<lambda>rest. Inr (found @ rest)))"

text \<open>Paths compare by their components.\<close>

fun component_key :: "component \<Rightarrow> nat \<times> string" where
  "component_key RootDir = (0, [])"
| "component_key CurDir = (1, [])"
| "component_key ParentDir = (2, [])"
| "component_key (Normal s) = (3, s)"

definition path_key :: "string \<Rightarrow> (nat \<times> string) list" where
  "path_key p = map component_key (components p)"

fun load_all ::
  "(string \<Rightarrow> (manifest_error, plugin_bundle) res) \<Rightarrow> string list \<Rightarrow> (loader_error, (string \<times> plugin_bundle) list) res" where
  "load_all load [] = Inr []"
| "load_all load (m # ms) =
     (case load m of
        Inl e \<Rightarrow> Inl (LdManifest e)
      | Inr b \<Rightarrow> and_then_r (load_all load ms) (\<lambda>bs. Inr ((m, b) # bs)))"

fun check_duplicates :: "(string \<times> string) option \<Rightarrow> (string \<times> plugin_bundle) list \<Rightarrow> (loader_error, unit) res" where
  "check_duplicates previous [] = Inr ()"
| "check_duplicates previous ((path, b) # bs) =
     (case previous of
        Some (name, first) \<Rightarrow>
          (if name = bundle_name b then Inl (LdDuplicateName (bundle_name b) first path)
           else check_duplicates (Some (bundle_name b, path)) bs)
      | None \<Rightarrow> check_duplicates (Some (bundle_name b, path)) bs)"

definition load_dir ::
  "(string \<Rightarrow> (manifest_error, plugin_bundle) res) \<Rightarrow> dir_entry option \<Rightarrow> (loader_error, plugin_bundle list) res" where
  "load_dir load dir =
     (case dir of
        None \<Rightarrow> Inr []
      | Some d \<Rightarrow>
          and_then_r (collect_entry [] d) (\<lambda>manifests.
          and_then_r (load_all load (sort_key path_key manifests)) (\<lambda>bundles.
            let bundles = sort_key (\<lambda>(path, b). (bundle_name b, path_key path)) bundles
            in and_then_r (check_duplicates None bundles) (\<lambda>_. Inr (map snd bundles)))))"

section \<open>Hot reload\<close>

fun put_bundle :: "plugin_bundle \<Rightarrow> plugin_bundle list \<Rightarrow> plugin_bundle list" where
  "put_bundle b [] = [b]"
| "put_bundle b (c # cs) = (if bundle_name c = bundle_name b then b # cs else c # put_bundle b cs)"

definition load_registry_bundles ::
  "(string \<Rightarrow> (manifest_error, plugin_bundle) res) \<Rightarrow> dir_entry option \<Rightarrow> (loader_error, plugin_bundle list) res" where
  "load_registry_bundles load dir = and_then_r (load_dir load dir) (\<lambda>bs. Inr (fold put_bundle bs []))"

definition watch_start ::
  "(string \<Rightarrow> (manifest_error, plugin_bundle) res) \<Rightarrow> dir_entry option \<Rightarrow> string list" where
  "watch_start load dir =
     (case load_registry_bundles load dir of Inr bs \<Rightarrow> map bundle_name bs | Inl _ \<Rightarrow> [])"

text \<open>One notification: the names that vanished are removed, the bundles on disk replace the registered ones.\<close>

definition watch_step ::
  "(string \<Rightarrow> (manifest_error, plugin_bundle) res) \<Rightarrow> bool \<Rightarrow> dir_entry option \<Rightarrow> string list \<times> plugin_registry \<Rightarrow>
     string list \<times> plugin_registry" where
  "watch_step load include_builtins dir s =
     (case (s, load_registry_bundles load dir) of
        ((local_names, reg), Inl _) \<Rightarrow> (local_names, reg)
      | ((local_names, reg), Inr bundles) \<Rightarrow>
          (if include_builtins then
             let next_names = map bundle_name bundles;
                 removed = filter (\<lambda>n. n \<notin> set next_names) local_names;
                 reg1 = fold (\<lambda>n r. fst (plugins_remove r n)) removed reg
             in (next_names, fold (\<lambda>b r. fst (plugins_replace r b)) bundles reg1)
           else (local_names, fst (plugins_replace_all reg bundles))))"

section \<open>Where a manifest may point\<close>

lemma str_split_sublist: "w \<in> set (str_split d s) \<Longrightarrow> sublist w s"
proof (induction s arbitrary: w)
  case (Cons c s)
  obtain v vs where v: "str_split d s = v # vs" by (cases "str_split d s") auto
  have all: "sublist u (c # s)" if "u \<in> set (v # vs)" for u
    using Cons.IH [of u] that by (auto simp: v sublist_Cons_right)
  have "prefix v s"
    using str_join_split [of d s] by (cases vs) (auto simp: v)
  then have "sublist (c # v) (c # s)" by (simp add: prefix_imp_sublist)
  then show ?case using Cons.prems all by (auto simp: v split: if_splits)
qed simp

text \<open>Below a directory: its components, then names, with no step up.\<close>

definition below :: "string \<Rightarrow> string \<Rightarrow> bool" where
  "below base f \<longleftrightarrow> (\<exists>rest. components f = components base @ rest \<and> set rest \<subseteq> insert CurDir (range Normal))"

lemma segments_stay:
  assumes "\<not> sublist ''..'' p"
  shows "set (List.map_filter seg_component (str_split slash p)) \<subseteq> range Normal"
proof
  fix c assume "c \<in> set (List.map_filter seg_component (str_split slash p))"
  then obtain s where s: "s \<in> set (str_split slash p)" "seg_component s = Some c"
    by (auto simp: List.map_filter_def)
  moreover have "s \<noteq> ''..''" using str_split_sublist [OF s(1)] assms by auto
  ultimately show "c \<in> range Normal" by (auto simp: seg_component_def split: if_splits)
qed

lemma components_join:
  assumes "base \<noteq> []" and "\<not> is_absolute p"
  shows "components (path_join base p) = components base @ List.map_filter seg_component (str_split slash p)"
proof (cases "last base = slash")
  case False
  have "is_absolute (base @ slash # p) = is_absolute base" using assms(1) by (simp add: is_absolute_def)
  moreover have "hd (str_split slash base @ str_split slash p) = hd (str_split slash base)" by simp
  ultimately show ?thesis using False assms
    by (simp add: path_join_def components_def str_split_append_delim List.map_filter_def)
next
  case True
  then obtain b where b: "base = b @ [slash]" using assms(1) by (metis append_butlast_last_id)
  have "is_absolute (b @ slash # p) = is_absolute (b @ [slash])" by (cases b) (simp_all add: is_absolute_def)
  moreover have "str_split slash (b @ [slash]) = str_split slash b @ [[]]"
    by (simp add: str_split_append_delim)
  moreover have "hd (str_split slash b @ str_split slash p) = hd (str_split slash b)"
    "hd (str_split slash b @ [[]]) = hd (str_split slash b)" by simp_all
  ultimately show ?thesis using True assms
    by (simp add: path_join_def b components_def str_split_append_delim List.map_filter_def)
qed

lemma safe_path_below: "safe_relative_path manifest_path base p field = Inr f \<Longrightarrow> below base f"
proof -
  assume "safe_relative_path manifest_path base p field = Inr f"
  then have p: "\<not> is_absolute p" "\<not> sublist ''..'' p" "f = path_join base p"
    by (auto simp: safe_relative_path_def str_contains_iff split: if_splits)
  show ?thesis
  proof (cases "base = []")
    case True
    then have "components f = components base @ components p"
      by (simp add: p(3) path_join_def components_def is_absolute_def map_filter_simps)
    moreover have "set (components p) \<subseteq> insert CurDir (range Normal)"
      using segments_stay [OF p(2)] p(1) by (auto simp: components_def)
    ultimately show ?thesis unfolding below_def by blast
  next
    case False
    then show ?thesis using components_join [OF False p(1)] segments_stay [OF p(2)] p(3)
      unfolding below_def by blast
  qed
qed

lemma read_inline_cong:
  assumes "\<And>f. below base f \<Longrightarrow> read f = read' f"
  shows "read_inline_or_file read path base inline f field = read_inline_or_file read' path base inline f field"
proof (cases f)
  case (Some r)
  then show ?thesis using assms safe_path_below [of path base r field]
    by (cases "safe_relative_path path base r field") (auto simp: read_inline_or_file_def read_file_def)
qed (simp add: read_inline_or_file_def)

lemma schema_cong:
  assumes "\<And>f. below base f \<Longrightarrow> read f = read' f"
  shows "manifest_schema read from_str path base out = manifest_schema read' from_str path base out"
proof -
  have "read_file read f = read_file read' f" if "safe_relative_path path base r fld = Inr f" for f r fld
    using assms safe_path_below [OF that] by (simp add: read_file_def)
  then show ?thesis
    by (auto simp: manifest_schema_def and_then_r_def split: option.split sum.split)
qed

section \<open>Loading: lemmas\<close>

lemma load_all_Inr: "load_all load ms = Inr bs \<longleftrightarrow> map fst bs = ms \<and> (\<forall>(m, b) \<in> set bs. load m = Inr b)"
proof (induction ms arbitrary: bs)
  case (Cons m ms)
  then show ?case by (cases bs) (auto simp: and_then_r_Inr_iff split: sum.split)
qed auto

lemma load_all_complete: "\<forall>m \<in> set ms. \<exists>b. load m = Inr b \<Longrightarrow> \<exists>bs. load_all load ms = Inr bs"
proof (induction ms)
  case (Cons m ms)
  then obtain b bs where "load m = Inr b" "load_all load ms = Inr bs" by auto
  then show ?case by simp
qed simp

lemma check_duplicates_iff:
  assumes "sorted (map (bundle_name \<circ> snd) bs)"
    and "\<And>name first. previous = Some (name, first) \<Longrightarrow> \<forall>q \<in> set bs. name \<le> bundle_name (snd q)"
  shows "check_duplicates previous bs = Inr () \<longleftrightarrow>
    distinct (map (bundle_name \<circ> snd) bs) \<and>
    (\<forall>name first. previous = Some (name, first) \<longrightarrow> (\<forall>q \<in> set bs. bundle_name (snd q) \<noteq> name))"
  using assms
proof (induction bs arbitrary: previous)
  case (Cons q bs)
  obtain path b where q: "q = (path, b)" by (cases q)
  have rest: "check_duplicates (Some (bundle_name b, path)) bs = Inr () \<longleftrightarrow>
      distinct (map (bundle_name \<circ> snd) bs) \<and> (\<forall>q \<in> set bs. bundle_name (snd q) \<noteq> bundle_name b)"
    using Cons.IH [of "Some (bundle_name b, path)"] Cons.prems(1) by (auto simp: q comp_def)
  have "bundle_name (snd r) \<noteq> name"
    if "previous = Some (name, first)" "bundle_name b \<noteq> name" "r \<in> set bs" for name first r
  proof -
    have "name \<le> bundle_name b" "bundle_name b \<le> bundle_name (snd r)"
      using Cons.prems(1) Cons.prems(2) [OF that(1)] that(3) by (auto simp: q)
    then show ?thesis using that(2) by auto
  qed
  note differ = this
  have eq: "(\<forall>r \<in> set bs. bundle_name (snd r) \<noteq> bundle_name b) \<longleftrightarrow> bundle_name b \<notin> (bundle_name \<circ> snd) ` set bs"
    by (auto simp: image_iff)
  show ?case
  proof (cases previous)
    case None
    with eq rest show ?thesis by (simp add: q conj_commute comp_def)
  next
    case (Some r)
    obtain name first where r: "r = (name, first)" by (cases r)
    show ?thesis
    proof (cases "name = bundle_name b")
      case True
      then show ?thesis by (simp add: q Some r)
    next
      case False
      then have "\<forall>r \<in> set bs. bundle_name (snd r) \<noteq> name" using differ Some r by auto
      with eq rest False show ?thesis by (auto simp: q Some r comp_def)
    qed
  qed
qed simp

lemma sorted_by_name:
  "sorted (map (bundle_name \<circ> snd) (sort_key (\<lambda>(path, b). (bundle_name b, path_key path)) bs))"
proof -
  let ?key = "\<lambda>(path, b). (bundle_name b, path_key path)"
  have "sorted (map ?key (sort_key ?key bs))" by (rule sorted_sort_key)
  then have "sorted (map fst (map ?key (sort_key ?key bs)))"
    by (auto simp: sorted_wrt_map less_eq_prod_def elim!: sorted_wrt_mono_rel [rotated])
  moreover have "fst \<circ> ?key = bundle_name \<circ> snd" by (auto simp: fun_eq_iff)
  ultimately show ?thesis by simp
qed

definition dir_manifests :: "dir_entry option \<Rightarrow> (loader_error, string list) res" where
  "dir_manifests dir = (case dir of None \<Rightarrow> Inr [] | Some d \<Rightarrow> collect_entry [] d)"

lemma load_dir_Inr:
  "load_dir load dir = Inr bundles \<longleftrightarrow>
     (\<exists>ms bs. dir_manifests dir = Inr ms \<and> load_all load (sort_key path_key ms) = Inr bs \<and>
        distinct (map (bundle_name \<circ> snd) bs) \<and>
        bundles = map snd (sort_key (\<lambda>(path, b). (bundle_name b, path_key path)) bs))"
proof -
  have "check_duplicates None (sort_key (\<lambda>(path, b). (bundle_name b, path_key path)) bs) = Inr () \<longleftrightarrow>
      distinct (map (bundle_name \<circ> snd) bs)" for bs :: "(string \<times> plugin_bundle) list"
    using check_duplicates_iff [OF sorted_by_name, of None bs]
    by (simp add: distinct_map)
  then show ?thesis
    by (auto simp: load_dir_def dir_manifests_def and_then_r_Inr_iff Let_def split: option.split)
qed

lemma load_dir_sorted:
  assumes "load_dir load dir = Inr bundles"
  shows "sorted (map bundle_name bundles)" and "distinct (map bundle_name bundles)"
proof -
  obtain bs where bs: "distinct (map (bundle_name \<circ> snd) bs)"
    "bundles = map snd (sort_key (\<lambda>(path, b). (bundle_name b, path_key path)) bs)"
    using assms unfolding load_dir_Inr by blast
  show "sorted (map bundle_name bundles)" using sorted_by_name [of bs] by (simp add: bs(2))
  show "distinct (map bundle_name bundles)" using bs(1) by (simp add: bs(2) distinct_map)
qed

lemma put_bundle_new: "bundle_name b \<notin> bundle_name ` set cs \<Longrightarrow> put_bundle b cs = cs @ [b]"
  by (induction b cs rule: put_bundle.induct) auto

lemma put_bundles:
  "distinct (map bundle_name (cs @ bs)) \<Longrightarrow> fold put_bundle bs cs = cs @ bs"
proof (induction bs arbitrary: cs)
  case (Cons b bs)
  then have "put_bundle b cs = cs @ [b]" by (intro put_bundle_new) auto
  then show ?case using Cons.IH [of "cs @ [b]"] Cons.prems by simp
qed simp

lemma load_registry_bundles_eq: "load_registry_bundles load dir = load_dir load dir"
  using put_bundles [of "[]"] load_dir_sorted(2) [of load dir]
  by (cases "load_dir load dir") (auto simp: load_registry_bundles_def)

lemma collect_bundles_Inr:
  "distinct (map bundle_name bs) \<Longrightarrow> bundle_name ` set bs \<inter> fst ` set reg = {} \<Longrightarrow>
     \<exists>reg'. collect_bundles reg bs = Inr reg' \<and> map_of reg' = map_of reg ++ map_of (map (\<lambda>b. (bundle_name b, b)) bs)"
proof (induction bs arbitrary: reg)
  case (Cons b bs)
  have "distinct (map bundle_name bs)" "bundle_name ` set bs \<inter> fst ` set (im_insert (bundle_name b) b reg) = {}"
    using Cons.prems by auto
  from Cons.IH [OF this] obtain reg' where "collect_bundles (im_insert (bundle_name b) b reg) bs = Inr reg'"
    "map_of reg' = (map_of reg)(bundle_name b \<mapsto> b) ++ map_of (map (\<lambda>b. (bundle_name b, b)) bs)"
    unfolding map_of_im_insert by blast
  moreover have "map_of (map (\<lambda>b. (bundle_name b, b)) bs) (bundle_name b) = None"
    using Cons.prems(1) by (auto simp: map_of_eq_None_iff)
  ultimately show ?case using Cons.prems
    by (auto simp: fun_eq_iff map_add_def split: option.split)
qed simp

lemma fold_replace: "map_of (fold (\<lambda>b r. fst (plugins_replace r b)) bs reg) =
    map_of reg ++ map_of (rev (map (\<lambda>b. (bundle_name b, b)) bs))"
  by (induction bs arbitrary: reg) (simp_all add: plugins_replace_def)

lemma fold_remove: "map_of (fold (\<lambda>n r. fst (plugins_remove r n)) ns reg) = (map_of reg) |` (- set ns)"
  by (induction ns arbitrary: reg) (auto simp: plugins_remove_def fun_eq_iff restrict_map_def)

lemma map_of_bundles:
  "distinct (map bundle_name bs) \<Longrightarrow> b \<in> set bs \<Longrightarrow> map_of (map (\<lambda>b. (bundle_name b, b)) bs) (bundle_name b) = Some b"
  by (intro map_of_is_SomeI) (auto simp: comp_def)

section \<open>Properties\<close>

text \<open>
  C34: whatever a manifest says, loading it looks only at the manifest and at files below its directory:
  two file systems that agree on those give the same plugin or the same error.
\<close>

theorem manifest_reads_confined:
  assumes "\<And>f. f = path \<or> below (unwrap_or (path_parent path) ''.'') f \<Longrightarrow> read f = read' f"
  shows "load_manifest env read path = load_manifest env read' path"
proof -
  let ?base = "unwrap_or (path_parent path) ''.''"
  have below: "read f = read' f" if "below ?base f" for f using assms that by blast
  have "manifest_bundle env read path ?base raw = manifest_bundle env read' path ?base raw" for raw
    by (simp only: manifest_bundle_def Let_def read_inline_cong [of ?base read read', OF below]
        schema_cong [of ?base read read', OF below])
  moreover have "read_file read path = read_file read' path" using assms by (simp add: read_file_def)
  ultimately show ?thesis by (simp add: load_manifest_def)
qed

theorem manifest_reads_confined_witness:
  "load_manifest \<lparr>me_toml = (\<lambda>_. Inl ''e''), me_shape_error = (\<lambda>_. []), me_from_str = (\<lambda>_. Inl []), me_print = (\<lambda>_. [])\<rparr>
     (\<lambda>_. Inr ''x'') ''a/plugin.toml'' =
   load_manifest \<lparr>me_toml = (\<lambda>_. Inl ''e''), me_shape_error = (\<lambda>_. []), me_from_str = (\<lambda>_. Inl []), me_print = (\<lambda>_. [])\<rparr>
     (\<lambda>f. if f = ''/etc/passwd'' then Inl ''other'' else Inr ''x'') ''a/plugin.toml''"
proof (rule manifest_reads_confined)
  fix f assume f: "f = ''a/plugin.toml'' \<or> below (unwrap_or (path_parent ''a/plugin.toml'') ''.'') f"
  have "path_parent ''a/plugin.toml'' = Some ''a''" by code_simp
  moreover have "components ''/etc/passwd'' = [RootDir, Normal ''etc'', Normal ''passwd'']" by code_simp
  moreover have "components ''a'' = [Normal ''a'']" by code_simp
  ultimately have "f \<noteq> ''/etc/passwd''" using f by (auto simp: below_def)
  then show "Inr ''x'' = (if f = ''/etc/passwd'' then Inl ''other'' else Inr ''x'')" by simp
qed

text \<open>
  A manifest without an \<open>[output]\<close> section is refused, although every field of the section has a
  default: the section's own default leaves \<open>parse\<close> empty instead of \<open>json\<close>.
\<close>

theorem manifest_needs_output:
  assumes "read path = Inr content" and "me_toml env content = Inr t" and "json_get t ''output'' = None"
  shows "\<exists>e. load_manifest env read path = Inl e"
proof (cases "plugin_toml_of t")
  case (Some raw)
  have "mt_output raw = manifest_output_default"
    using Some assms(3) by (auto simp: plugin_toml_of_def section_or_def bind_eq_Some_conv)
  then have "manifest_parse_mode path (mt_parse (mt_output raw)) = Inl (MfInvalid path (''unsupported output.parse '' @ in_quotes []))"
    by (simp add: manifest_output_default_def manifest_parse_mode_def)
  then have "\<exists>e. manifest_bundle env read path base raw = Inl e" for base
    by (auto simp: manifest_bundle_def Let_def and_then_r_def split: sum.split)
  then show ?thesis by (simp add: load_manifest_def read_file_def parse_manifest_def assms(1,2) Some)
qed (simp add: load_manifest_def read_file_def parse_manifest_def assms(1,2))

theorem manifest_needs_output_witness:
  "\<exists>e. load_manifest \<lparr>me_toml = (\<lambda>_. Inr (JObj [(''plugin'', JObj [(''name'', JStr ''n'')])])), me_shape_error = (\<lambda>_. []),
     me_from_str = (\<lambda>_. Inl []), me_print = (\<lambda>_. [])\<rparr> (\<lambda>_. Inr []) ''plugin.toml'' = Inl e"
  by (rule manifest_needs_output [where content = "[]" and t = "JObj [(''plugin'', JObj [(''name'', JStr ''n'')])]"])
    (simp_all add: json_get_def)

text \<open>
  A directory whose manifests all load yields a list of bundles exactly when their names are distinct;
  the list is sorted by name and holds every bundle of the tree once, so the registry can take it whole.
\<close>

theorem load_dir_unique_names:
  assumes "dir_manifests dir = Inr ms" and "\<And>m. m \<in> set ms \<Longrightarrow> load m = Inr (made m)"
  shows "if distinct (map (bundle_name \<circ> made) ms)
    then \<exists>bs reg'. load_dir load dir = Inr bs \<and> sorted (map bundle_name bs) \<and> mset bs = mset (map made ms) \<and>
      plugins_replace_all reg bs = (reg', Inr ()) \<and>
      (\<forall>m \<in> set ms. plugins_get reg' (bundle_name (made m)) = Some (made m))
    else \<exists>e. load_dir load dir = Inl e"
proof -
  let ?bs = "map (\<lambda>m. (m, made m)) (sort_key path_key ms)"
  let ?sorted = "map snd (sort_key (\<lambda>(path, b). (bundle_name b, path_key path)) ?bs)"
  have all: "load_all load (sort_key path_key ms) = Inr ?bs"
    unfolding load_all_Inr using assms(2) by (auto simp: comp_def)
  have "mset (map (bundle_name \<circ> snd) ?bs) = mset (map (bundle_name \<circ> made) ms)" by (simp add: comp_def)
  then have names: "distinct (map (bundle_name \<circ> snd) ?bs) \<longleftrightarrow> distinct (map (bundle_name \<circ> made) ms)"
    by (rule mset_eq_imp_distinct_iff)
  have load: "load_dir load dir = Inr bs \<longleftrightarrow> distinct (map (bundle_name \<circ> made) ms) \<and> bs = ?sorted" for bs
    unfolding load_dir_Inr using assms(1) all names by auto
  show ?thesis
  proof (cases "distinct (map (bundle_name \<circ> made) ms)")
    case True
    then have l: "load_dir load dir = Inr ?sorted" by (simp add: load)
    obtain reg' where r: "collect_bundles [] ?sorted = Inr reg'"
      "map_of reg' = map_of (map (\<lambda>b. (bundle_name b, b)) ?sorted)"
      using collect_bundles_Inr [OF load_dir_sorted(2) [OF l], of "[]"] by auto
    have members: "made m \<in> set ?sorted" if "m \<in> set ms" for m using that by force
    have "mset ?sorted = mset (map made ms)" by (simp add: image_mset.compositionality comp_def)
    then show ?thesis
      using True l r load_dir_sorted [OF l] map_of_bundles [OF load_dir_sorted(2) [OF l] members]
      by (auto simp: plugins_replace_all_def plugins_get_def)
  next
    case False
    then show ?thesis using load by (cases "load_dir load dir") auto
  qed
qed

definition demo_bundle :: "string \<Rightarrow> plugin_bundle" where
  "demo_bundle name =
     \<lparr>pb_meta = \<lparr>pm_name = name, pm_version = ''1'', pm_description = [], pm_author = []\<rparr>, pb_plugin = demo_plugin,
      pb_default_behavior = behavior_default, pb_default_tools = []\<rparr>"

theorem load_dir_unique_names_witness:
  "\<exists>e. load_dir (\<lambda>m. Inr (demo_bundle ''p'')) (Some (DirAt ''d'' (Inr [DirAt ''d/x'' (Inr [FileAt ''d/x/plugin.toml'']),
     FileAt ''d/plugin.toml'']))) = Inl e"
proof -
  have "file_name ''d/x/plugin.toml'' = Some ''plugin.toml''" "file_name ''d/plugin.toml'' = Some ''plugin.toml''"
    by code_simp+
  then have "dir_manifests (Some (DirAt ''d'' (Inr [DirAt ''d/x'' (Inr [FileAt ''d/x/plugin.toml'']), FileAt ''d/plugin.toml'']))) =
      Inr [''d/x/plugin.toml'', ''d/plugin.toml'']" by (simp add: dir_manifests_def)
  from load_dir_unique_names [OF this, where load = "\<lambda>m. Inr (demo_bundle ''p'')" and made = "\<lambda>m. demo_bundle ''p''" and reg = "[]"]
  show ?thesis by simp
qed

text \<open>
  A hot reload leaves the registry untouched when the directory does not load. Otherwise every bundle
  on disk is found under its name, and every other name is as it was, except that in the mode that keeps
  the built-in plugins the names of the last reload vanish, and that in the other mode nothing else is left.
\<close>

theorem hot_reload_exact:
  assumes "watch_step load builtins dir (names, reg) = (names', reg')"
  shows "case load_dir load dir of
      Inl e \<Rightarrow> names' = names \<and> reg' = reg
    | Inr bs \<Rightarrow> (\<forall>b \<in> set bs. plugins_get reg' (bundle_name b) = Some b) \<and>
        (\<forall>n. n \<notin> bundle_name ` set bs \<longrightarrow>
           plugins_get reg' n = (if \<not> builtins \<or> n \<in> set names then None else plugins_get reg n)) \<and>
        (builtins \<longrightarrow> names' = map bundle_name bs)"
proof (cases "load_dir load dir")
  case (Inl e)
  then show ?thesis using assms by (simp add: watch_step_def load_registry_bundles_eq)
next
  case (Inr bs)
  note d = load_dir_sorted(2) [OF Inr]
  note member = map_of_bundles [OF d]
  have other: "map_of (map (\<lambda>b. (bundle_name b, b)) bs) n = None" if "n \<notin> bundle_name ` set bs" for n
    using that by (auto simp: map_of_eq_None_iff)
  have rev: "map_of (rev (map (\<lambda>b. (bundle_name b, b)) bs)) = map_of (map (\<lambda>b. (bundle_name b, b)) bs)"
  proof (rule ext)
    fix n
    show "map_of (rev (map (\<lambda>b. (bundle_name b, b)) bs)) n = map_of (map (\<lambda>b. (bundle_name b, b)) bs) n"
    proof (cases "n \<in> bundle_name ` set bs")
      case True
      have "distinct (map bundle_name (rev bs))" using d by (simp flip: rev_map)
      from map_of_bundles [OF this] member True show ?thesis by (auto simp: rev_map)
    next
      case False
      then have "map_of (rev (map (\<lambda>b. (bundle_name b, b)) bs)) n = None" by (auto simp: map_of_eq_None_iff)
      then show ?thesis using other [OF False] by simp
    qed
  qed
  show ?thesis
  proof (cases builtins)
    case True
    have "map_of reg' = map_of reg |` (- set (filter (\<lambda>n. n \<notin> bundle_name ` set bs) names)) ++ map_of (map (\<lambda>b. (bundle_name b, b)) bs)"
      "names' = map bundle_name bs"
      using assms True Inr by (auto simp: watch_step_def load_registry_bundles_eq Let_def fold_replace fold_remove rev)
    then show ?thesis using member other Inr True
      by (auto simp: plugins_get_def map_add_def restrict_map_def)
  next
    case False
    obtain reg1 where "collect_bundles [] bs = Inr reg1" "map_of reg1 = map_of (map (\<lambda>b. (bundle_name b, b)) bs)"
      using collect_bundles_Inr [OF d, of "[]"] by auto
    then have "map_of reg' = map_of (map (\<lambda>b. (bundle_name b, b)) bs)"
      using assms False Inr by (auto simp: watch_step_def load_registry_bundles_eq plugins_replace_all_def)
    then show ?thesis using member other Inr False by (simp add: plugins_get_def)
  qed
qed

theorem hot_reload_exact_witness:
  "plugins_get (snd (watch_step (\<lambda>m. Inr (demo_bundle ''p'')) True None ([''p''], [(''p'', demo_bundle ''p''), (''b'', demo_bundle ''b'')]))) ''p'' = None"
proof -
  obtain names' reg' where s: "watch_step (\<lambda>m. Inr (demo_bundle ''p'')) True None
      ([''p''], [(''p'', demo_bundle ''p''), (''b'', demo_bundle ''b'')]) = (names', reg')" by fastforce
  from hot_reload_exact [OF s] show ?thesis by (simp add: s load_dir_def)
qed

end
