(* ===== verification/Bus.thy ===== *)
theory Bus
  imports Json
begin

text \<open>
  \<open>bus/mod.rs\<close>: the in-memory bus between micro agents. Registration, discovery, subscriptions and the
  publishing of events are functions on the state of the bus. A call from agent to agent is concurrent
  with everything else, so it is a step relation: the caller is checked, takes one of the permits that
  limit the calls in progress, puts its request into the channel of the target, waits for the answer, and
  may run into its timeout at each of these points.
\<close>

section \<open>Data\<close>

datatype bus_error =
  AgentNotFound string
| AlreadyRegistered string
| RpcTimeout nat
| ChannelClosed
| SerializeFailed string
| ResolveError string
| ConfigError string
| Unauthorized string
| SubscribeUnauthorized string string
| PublishUnauthorized string string

record bus_event =
  be_topic :: string
  be_source :: string
  be_payload :: json

record agent_bus_config =
  bc_subscribe :: "string list"
  bc_publish :: "string list"
  bc_rpc :: "string list"

record agent_descriptor =
  ad_id :: string
  ad_name :: string
  ad_capabilities :: "string list"
  ad_bus_config :: agent_bus_config

datatype delivery_policy = AtMostOnce | AtLeastOnce

record bus_config =
  cf_timeout_rpc :: nat
  cf_delivery_policy :: delivery_policy
  cf_subscriber_buffer :: nat
  cf_max_concurrent_rpc :: nat
  cf_channel_buffer_size :: nat

text \<open>Durations are in nanoseconds, as elsewhere.\<close>

definition bus_config_default :: bus_config where
  "bus_config_default =
     \<lparr>cf_timeout_rpc = 30 * 10 ^ 9, cf_delivery_policy = AtMostOnce, cf_subscriber_buffer = 1024,
      cf_max_concurrent_rpc = 32, cf_channel_buffer_size = 1024\<rparr>"

definition AT_LEAST_ONCE_PUBLISH_ATTEMPTS :: nat where "AT_LEAST_ONCE_PUBLISH_ATTEMPTS = 3"
definition AT_LEAST_ONCE_RETRY_DELAY :: nat where "AT_LEAST_ONCE_RETRY_DELAY = 50 * 10 ^ 6"

text \<open>
  A request knows the call that waits for its answer. A channel belongs to the agent that registered; its
  requests are queued, in the hands of the agent, or lost because their receiver or reply channel was
  dropped and the caller is yet to notice.
\<close>

record bus_request =
  rq_payload :: json
  rq_call :: nat

record bus_channel =
  ch_owner :: string
  ch_open :: bool
  ch_queue :: "bus_request list"
  ch_held :: "bus_request list"
  ch_lost :: "bus_request list"

datatype call_state = Acquiring | Sending | Awaiting | Settled "(bus_error, json) res"

record rpc_call =
  rc_caller :: string
  rc_target :: string
  rc_payload :: json
  rc_timeout :: nat
  rc_channel :: "nat option"
  rc_state :: call_state

record 'h bus =
  bs_config :: bus_config
  bs_agents :: "(string, agent_descriptor \<times> nat) imap"
  bs_subscriptions :: "(string, 'h list) imap"
  bs_permits :: nat
  bs_channels :: "bus_channel list"
  bs_calls :: "rpc_call list"

definition bus_new :: "bus_config \<Rightarrow> 'h bus" where
  "bus_new c =
     \<lparr>bs_config = c, bs_agents = [], bs_subscriptions = [], bs_permits = cf_max_concurrent_rpc c,
      bs_channels = [], bs_calls = []\<rparr>"

section \<open>Registration and topics\<close>

text \<open>\<open>mpsc::channel\<close> panics when the buffer size is zero: \<^const>\<open>None\<close>.\<close>

definition bus_register :: "'h bus \<Rightarrow> agent_descriptor \<Rightarrow> ('h bus \<times> (bus_error, nat) res) option" where
  "bus_register b d =
     (if ad_id d \<in> fst ` set (bs_agents b) then Some (b, Inl (AlreadyRegistered (ad_id d)))
      else if cf_channel_buffer_size (bs_config b) = 0 then None
      else
        let ch = length (bs_channels b)
        in Some (b\<lparr>bs_agents := im_insert (ad_id d) (d, ch) (bs_agents b),
             bs_channels := bs_channels b @ [\<lparr>ch_owner = ad_id d, ch_open = True, ch_queue = [], ch_held = [], ch_lost = []\<rparr>]\<rparr>,
             Inr ch))"

definition bus_discover :: "'h bus \<Rightarrow> string \<Rightarrow> agent_descriptor list" where
  "bus_discover b capability = filter (\<lambda>d. capability \<in> set (ad_capabilities d)) (map fst (im_values (bs_agents b)))"

definition bus_deregister :: "'h bus \<Rightarrow> string \<Rightarrow> 'h bus \<times> (bus_error, unit) res" where
  "bus_deregister b i =
     (if i \<in> fst ` set (bs_agents b) then (b\<lparr>bs_agents := im_remove i (bs_agents b)\<rparr>, Inr ())
      else (b, Inl (AgentNotFound i)))"

text \<open>An agent that is not registered, and one whose list is empty, may use every topic.\<close>

definition topic_allowed :: "'h bus \<Rightarrow> (agent_bus_config \<Rightarrow> string list) \<Rightarrow> string \<Rightarrow> string \<Rightarrow> bool" where
  "topic_allowed b topics i topic =
     (case map_of (bs_agents b) i of
        None \<Rightarrow> True
      | Some (d, _) \<Rightarrow> topics (ad_bus_config d) = [] \<or> topic \<in> set (topics (ad_bus_config d)))"

definition bus_subscribe :: "'h bus \<Rightarrow> string \<Rightarrow> string option \<Rightarrow> 'h \<Rightarrow> 'h bus \<times> (bus_error, unit) res" where
  "bus_subscribe b topic agent_id handler =
     (case agent_id of
        Some i \<Rightarrow>
          (if \<not> topic_allowed b bc_subscribe i topic then (b, Inl (SubscribeUnauthorized i topic))
           else (b\<lparr>bs_subscriptions := im_insert topic (unwrap_or (map_of (bs_subscriptions b) topic) [] @ [handler]) (bs_subscriptions b)\<rparr>, Inr ()))
      | None \<Rightarrow>
          (b\<lparr>bs_subscriptions := im_insert topic (unwrap_or (map_of (bs_subscriptions b) topic) [] @ [handler]) (bs_subscriptions b)\<rparr>, Inr ()))"

definition bus_unsubscribe :: "'h bus \<Rightarrow> string \<Rightarrow> 'h bus" where
  "bus_unsubscribe b topic = b\<lparr>bs_subscriptions := im_remove topic (bs_subscriptions b)\<rparr>"

text \<open>
  Publishing checks the source and starts one delivery per subscriber of the topic. A delivery calls its
  handler until it succeeds, as often as the policy says.
\<close>

definition bus_publish :: "'h bus \<Rightarrow> string \<Rightarrow> bus_event \<Rightarrow> (bus_error, ('h \<times> bus_event) list) res" where
  "bus_publish b topic event =
     (if \<not> topic_allowed b bc_publish (be_source event) topic then Inl (PublishUnauthorized (be_source event) topic)
      else Inr (map (\<lambda>h. (h, event)) (unwrap_or (map_of (bs_subscriptions b) topic) [])))"

definition delivery_attempts :: "delivery_policy \<Rightarrow> nat" where
  "delivery_attempts p = (case p of AtMostOnce \<Rightarrow> 1 | AtLeastOnce \<Rightarrow> AT_LEAST_ONCE_PUBLISH_ATTEMPTS)"

fun deliver ::
  "('w \<Rightarrow> bus_event \<Rightarrow> 'w \<times> (bus_error, unit) res) \<Rightarrow> ('w \<Rightarrow> nat \<Rightarrow> 'w) \<Rightarrow> bus_event \<Rightarrow> nat \<Rightarrow> 'w \<Rightarrow> 'w \<times> bool" where
  "deliver h sleep event 0 w = (w, False)"
| "deliver h sleep event (Suc n) w =
     (case h w event of
        (w1, Inr _) \<Rightarrow> (w1, True)
      | (w1, Inl _) \<Rightarrow> if n = 0 then (w1, False) else deliver h sleep event n (sleep w1 AT_LEAST_ONCE_RETRY_DELAY))"

section \<open>Calls\<close>

definition authorize :: "'h bus \<Rightarrow> string \<Rightarrow> string \<Rightarrow> (bus_error, nat) res" where
  "authorize b caller target =
     (case map_of (bs_agents b) caller of
        None \<Rightarrow> Inl (AgentNotFound caller)
      | Some (d, _) \<Rightarrow>
          (if target \<notin> set (bc_rpc (ad_bus_config d)) then Inl (Unauthorized target)
           else case map_of (bs_agents b) target of
                  None \<Rightarrow> Inl (AgentNotFound target)
                | Some (_, ch) \<Rightarrow> Inr ch))"

text \<open>\<open>call\<close> is \<open>call_with_timeout\<close> with the configured timeout.\<close>

definition start_call :: "string \<Rightarrow> string \<Rightarrow> json \<Rightarrow> nat \<Rightarrow> 'h bus \<Rightarrow> 'h bus" where
  "start_call caller target payload timeout b =
     b\<lparr>bs_calls := bs_calls b @
       [case authorize b caller target of
          Inr ch \<Rightarrow> \<lparr>rc_caller = caller, rc_target = target, rc_payload = payload, rc_timeout = timeout,
            rc_channel = Some ch, rc_state = Acquiring\<rparr>
        | Inl e \<Rightarrow> \<lparr>rc_caller = caller, rc_target = target, rc_payload = payload, rc_timeout = timeout,
            rc_channel = None, rc_state = Settled (Inl e)\<rparr>]\<rparr>"

definition default_call :: "string \<Rightarrow> string \<Rightarrow> json \<Rightarrow> 'h bus \<Rightarrow> 'h bus" where
  "default_call caller target payload b = start_call caller target payload (cf_timeout_rpc (bs_config b)) b"

definition set_state :: "nat \<Rightarrow> call_state \<Rightarrow> 'h bus \<Rightarrow> 'h bus" where
  "set_state n s b = b\<lparr>bs_calls := (bs_calls b)[n := (bs_calls b ! n)\<lparr>rc_state := s\<rparr>]\<rparr>"

definition set_channel :: "nat \<Rightarrow> bus_channel \<Rightarrow> 'h bus \<Rightarrow> 'h bus" where
  "set_channel i c b = b\<lparr>bs_channels := (bs_channels b)[i := c]\<rparr>"

text \<open>A call holds a permit from the moment it has one until it is settled.\<close>

definition holds_permit :: "rpc_call \<Rightarrow> bool" where
  "holds_permit c \<longleftrightarrow> rc_state c = Sending \<or> rc_state c = Awaiting"

definition settle :: "nat \<Rightarrow> (bus_error, json) res \<Rightarrow> 'h bus \<Rightarrow> 'h bus" where
  "settle n r b =
     (let back = (if holds_permit (bs_calls b ! n) then 1 else 0)
      in (set_state n (Settled r) b)\<lparr>bs_permits := bs_permits b + back\<rparr>)"

text \<open>An answer reaches its call only while the call still waits for it.\<close>

definition answer :: "nat \<Rightarrow> (bus_error, json) res \<Rightarrow> 'h bus \<Rightarrow> 'h bus" where
  "answer n r b = (if rc_state (bs_calls b ! n) = Awaiting then settle n r b else b)"

definition live :: "'h bus \<Rightarrow> nat \<Rightarrow> call_state \<Rightarrow> bool" where
  "live b n s \<longleftrightarrow> n < length (bs_calls b) \<and> rc_state (bs_calls b ! n) = s"

inductive bus_step :: "'h bus \<Rightarrow> 'h bus \<Rightarrow> bool" where
  register: "bus_register b d = Some (b', Inr ch) \<Longrightarrow> bus_step b b'"
| deregister: "bus_deregister b i = (b', r) \<Longrightarrow> bus_step b b'"
| subscribe: "bus_subscribe b topic i h = (b', r) \<Longrightarrow> bus_step b b'"
| unsubscribe: "bus_step b (bus_unsubscribe b topic)"
| call: "bus_step b (start_call caller target payload timeout b)"
| acquire: "live b n Acquiring \<Longrightarrow> 0 < bs_permits b \<Longrightarrow>
    bus_step b ((set_state n Sending b)\<lparr>bs_permits := bs_permits b - 1\<rparr>)"
| send: "live b n Sending \<Longrightarrow> rc_channel (bs_calls b ! n) = Some i \<Longrightarrow> i < length (bs_channels b) \<Longrightarrow>
    c = bs_channels b ! i \<Longrightarrow> ch_open c \<Longrightarrow> length (ch_queue c) < cf_channel_buffer_size (bs_config b) \<Longrightarrow>
    bus_step b (set_channel i
      (c\<lparr>ch_queue := ch_queue c @ [\<lparr>rq_payload = rc_payload (bs_calls b ! n), rq_call = n\<rparr>]\<rparr>) (set_state n Awaiting b))"
| send_closed: "live b n Sending \<Longrightarrow> rc_channel (bs_calls b ! n) = Some i \<Longrightarrow> i < length (bs_channels b) \<Longrightarrow>
    \<not> ch_open (bs_channels b ! i) \<Longrightarrow> bus_step b (settle n (Inl ChannelClosed) b)"
| receive: "i < length (bs_channels b) \<Longrightarrow> c = bs_channels b ! i \<Longrightarrow> ch_open c \<Longrightarrow> ch_queue c = r # rs \<Longrightarrow>
    bus_step b (set_channel i (c\<lparr>ch_queue := rs, ch_held := r # ch_held c\<rparr>) b)"
| reply: "i < length (bs_channels b) \<Longrightarrow> c = bs_channels b ! i \<Longrightarrow> r \<in> set (ch_held c) \<Longrightarrow>
    bus_step b (answer (rq_call r) res (set_channel i (c\<lparr>ch_held := remove1 r (ch_held c)\<rparr>) b))"
| discard: "i < length (bs_channels b) \<Longrightarrow> c = bs_channels b ! i \<Longrightarrow> r \<in> set (ch_held c) \<Longrightarrow>
    bus_step b (set_channel i (c\<lparr>ch_held := remove1 r (ch_held c), ch_lost := r # ch_lost c\<rparr>) b)"
| close: "i < length (bs_channels b) \<Longrightarrow> c = bs_channels b ! i \<Longrightarrow> ch_open c \<Longrightarrow>
    bus_step b (set_channel i (c\<lparr>ch_open := False, ch_queue := [], ch_lost := ch_queue c @ ch_lost c\<rparr>) b)"
| notice: "i < length (bs_channels b) \<Longrightarrow> c = bs_channels b ! i \<Longrightarrow> r \<in> set (ch_lost c) \<Longrightarrow>
    bus_step b (answer (rq_call r) (Inl ChannelClosed) (set_channel i (c\<lparr>ch_lost := remove1 r (ch_lost c)\<rparr>) b))"
| timeout: "n < length (bs_calls b) \<Longrightarrow> \<forall>r. rc_state (bs_calls b ! n) \<noteq> Settled r \<Longrightarrow>
    bus_step b (settle n (Inl (RpcTimeout (rc_timeout (bs_calls b ! n)))) b)"

section \<open>What every reachable state satisfies\<close>

definition ch_requests :: "bus_channel \<Rightarrow> bus_request list" where
  "ch_requests c = ch_queue c @ ch_held c @ ch_lost c"

text \<open>
  A request carries the payload of a call that was sent to this channel and has left the sending phase.
\<close>

definition request_ok :: "rpc_call list \<Rightarrow> nat \<Rightarrow> bus_request \<Rightarrow> bool" where
  "request_ok calls i r \<longleftrightarrow> rq_call r < length calls \<and>
     rc_channel (calls ! rq_call r) = Some i \<and> rc_payload (calls ! rq_call r) = rq_payload r \<and>
     rc_state (calls ! rq_call r) \<noteq> Acquiring \<and> rc_state (calls ! rq_call r) \<noteq> Sending"

definition channel_ok :: "nat \<Rightarrow> rpc_call list \<Rightarrow> nat \<Rightarrow> bus_channel \<Rightarrow> bool" where
  "channel_ok cap calls i c \<longleftrightarrow> length (ch_queue c) \<le> cap \<and>
     distinct (map rq_call (ch_requests c)) \<and> (\<forall>r \<in> set (ch_requests c). request_ok calls i r)"

definition call_ok :: "bus_channel list \<Rightarrow> rpc_call \<Rightarrow> bool" where
  "call_ok channels c \<longleftrightarrow>
     (case rc_channel c of
        None \<Rightarrow> \<exists>e. rc_state c = Settled (Inl e)
      | Some i \<Rightarrow> i < length channels \<and> ch_owner (channels ! i) = rc_target c)"

definition bus_inv :: "'h bus \<Rightarrow> bool" where
  "bus_inv b \<longleftrightarrow>
     bs_permits b + length (filter holds_permit (bs_calls b)) = cf_max_concurrent_rpc (bs_config b) \<and>
     (\<forall>i < length (bs_channels b). channel_ok (cf_channel_buffer_size (bs_config b)) (bs_calls b) i (bs_channels b ! i)) \<and>
     (\<forall>c \<in> set (bs_calls b). call_ok (bs_channels b) c) \<and>
     (\<forall>k d ch. map_of (bs_agents b) k = Some (d, ch) \<longrightarrow> ch < length (bs_channels b) \<and> ch_owner (bs_channels b ! ch) = k)"

section \<open>The invariant is kept\<close>

lemma length_filter_update:
  "n < length xs \<Longrightarrow> length (filter P (xs[n := y])) + (if P (xs ! n) then 1 else 0) =
     length (filter P xs) + (if P y then 1 else 0)"
proof (induction xs arbitrary: n)
  case (Cons x xs)
  then show ?case by (cases n) auto
qed simp

lemma distinct_submultiset:
  assumes "mset xs \<subseteq># mset ys" and "distinct ys"
  shows "distinct xs"
proof -
  have "count (mset xs) x \<le> 1" for x
  proof -
    have "count (mset xs) x \<le> count (mset ys) x" using assms(1) by (simp add: mset_subset_eq_count)
    also have "\<dots> \<le> 1" using assms(2) by (simp add: distinct_count_atmost_1)
    finally show ?thesis .
  qed
  then show ?thesis
    by (simp add: distinct_count_atmost_1) (metis One_nat_def count_mset_0_iff le_Suc_eq le_zero_eq)
qed

lemma channel_shrinks:
  assumes "channel_ok cap calls i c" and "mset (ch_requests c') \<subseteq># mset (ch_requests c)"
    and "length (ch_queue c') \<le> length (ch_queue c)"
  shows "channel_ok cap calls i c'"
proof -
  have "mset (map rq_call (ch_requests c')) \<subseteq># mset (map rq_call (ch_requests c))"
    using image_mset_subseteq_mono [OF assms(2), of rq_call] by simp
  then have "distinct (map rq_call (ch_requests c'))"
    by (rule distinct_submultiset) (use assms(1) in \<open>simp add: channel_ok_def\<close>)
  moreover have "set (ch_requests c') \<subseteq> set (ch_requests c)" using set_mset_mono [OF assms(2)] by simp
  ultimately show ?thesis using assms(1,3) by (auto simp: channel_ok_def)
qed

lemma set_channel_inv:
  assumes "bus_inv b" and "i < length (bs_channels b)"
    and "channel_ok (cf_channel_buffer_size (bs_config b)) (bs_calls b) i c"
    and "ch_owner c = ch_owner (bs_channels b ! i)"
  shows "bus_inv (set_channel i c b)"
proof -
  have "ch_owner ((bs_channels b)[i := c] ! j) = ch_owner (bs_channels b ! j)" if "j < length (bs_channels b)" for j
    using assms(2,4) that by (cases "j = i") simp_all
  moreover have "call_ok ((bs_channels b)[i := c]) d" if "call_ok (bs_channels b) d" for d
    using that calculation by (auto simp: call_ok_def split: option.splits)
  ultimately show ?thesis using assms unfolding bus_inv_def set_channel_def
    by (auto simp: nth_list_update)
qed

lemma set_state_inv:
  assumes "bus_inv b" and "n < length (bs_calls b)" and "rc_channel (bs_calls b ! n) \<noteq> None"
    and "s \<noteq> Acquiring"
    and "s = Sending \<Longrightarrow> rc_state (bs_calls b ! n) = Acquiring"
    and "p + (if s = Sending \<or> s = Awaiting then 1 else 0) = bs_permits b + (if holds_permit (bs_calls b ! n) then 1 else 0)"
  shows "bus_inv ((set_state n s b)\<lparr>bs_permits := p\<rparr>)"
proof -
  let ?calls = "(bs_calls b)[n := (bs_calls b ! n)\<lparr>rc_state := s\<rparr>]"
  have r: "request_ok ?calls i r" if "request_ok (bs_calls b) i r" for i r
    using that assms(2,4,5) by (cases "rq_call r = n") (auto simp: request_ok_def)
  then have "channel_ok cap ?calls i c" if "channel_ok cap (bs_calls b) i c" for cap i c
    using that by (auto simp: channel_ok_def)
  moreover have "call_ok (bs_channels b) c" if "c \<in> set ?calls" for c
  proof -
    from that have "c \<in> set (bs_calls b) \<or> c = (bs_calls b ! n)\<lparr>rc_state := s\<rparr>"
      using set_update_subset_insert [of "bs_calls b" n] by blast
    then show ?thesis
    proof
      assume "c = (bs_calls b ! n)\<lparr>rc_state := s\<rparr>"
      moreover have "call_ok (bs_channels b) (bs_calls b ! n)" using assms(1,2) by (simp add: bus_inv_def)
      ultimately show ?thesis using assms(3) by (auto simp: call_ok_def split: option.splits)
    qed (use assms(1) in \<open>simp add: bus_inv_def\<close>)
  qed
  moreover have "p + length (filter holds_permit ?calls) = cf_max_concurrent_rpc (bs_config b)"
    using length_filter_update [OF assms(2), of holds_permit "(bs_calls b ! n)\<lparr>rc_state := s\<rparr>"] assms(1,6)
    by (auto simp: bus_inv_def holds_permit_def split: if_splits)
  ultimately show ?thesis using assms(1) by (simp add: bus_inv_def set_state_def)
qed

lemma settle_inv:
  assumes "bus_inv b" and "n < length (bs_calls b)" and "rc_channel (bs_calls b ! n) \<noteq> None"
  shows "bus_inv (settle n r b)"
  unfolding settle_def Let_def using assms by (intro set_state_inv) auto

lemma answer_inv:
  assumes "bus_inv b" and "n < length (bs_calls b)" and "rc_channel (bs_calls b ! n) \<noteq> None"
  shows "bus_inv (answer n r b)"
  using assms by (simp add: answer_def settle_inv)

text \<open>Only a call that was refused has no channel, and it is settled.\<close>

lemma unsettled_has_channel:
  assumes "bus_inv b" and "n < length (bs_calls b)" and "\<And>r. rc_state (bs_calls b ! n) \<noteq> Settled r"
  shows "rc_channel (bs_calls b ! n) \<noteq> None"
proof -
  have "call_ok (bs_channels b) (bs_calls b ! n)" using assms(1,2) by (simp add: bus_inv_def)
  then show ?thesis using assms(3) by (auto simp: call_ok_def split: option.splits)
qed

lemma inv_channel: "bus_inv b \<Longrightarrow> i < length (bs_channels b) \<Longrightarrow>
    channel_ok (cf_channel_buffer_size (bs_config b)) (bs_calls b) i (bs_channels b ! i)"
  by (simp add: bus_inv_def)

text \<open>A request leaves the channel and its call is answered.\<close>

lemma take_and_answer_inv:
  assumes "bus_inv b" and "i < length (bs_channels b)" and "r \<in> set (ch_requests (bs_channels b ! i))"
    and "mset (ch_requests c) \<subseteq># mset (ch_requests (bs_channels b ! i))"
    and "length (ch_queue c) \<le> length (ch_queue (bs_channels b ! i))" and "ch_owner c = ch_owner (bs_channels b ! i)"
  shows "bus_inv (answer (rq_call r) res (set_channel i c b))"
proof (rule answer_inv)
  have ok: "request_ok (bs_calls b) i r" using inv_channel [OF assms(1,2)] assms(3) by (simp add: channel_ok_def)
  show "bus_inv (set_channel i c b)"
    by (rule set_channel_inv [OF assms(1,2) channel_shrinks [OF inv_channel [OF assms(1,2)] assms(4,5)] assms(6)])
  show "rq_call r < length (bs_calls (set_channel i c b))" "rc_channel (bs_calls (set_channel i c b) ! rq_call r) \<noteq> None"
    using ok by (simp_all add: request_ok_def set_channel_def)
qed

lemma remove1_mset: "r \<in> set xs \<Longrightarrow> add_mset r (mset (remove1 r xs)) = mset xs"
  by simp

lemma send_inv:
  assumes "bus_inv b" and "live b n Sending" and "rc_channel (bs_calls b ! n) = Some i" and "i < length (bs_channels b)"
    and "c = bs_channels b ! i" and "length (ch_queue c) < cf_channel_buffer_size (bs_config b)"
  shows "bus_inv (set_channel i
      (c\<lparr>ch_queue := ch_queue c @ [\<lparr>rq_payload = rc_payload (bs_calls b ! n), rq_call = n\<rparr>]\<rparr>) (set_state n Awaiting b))"
    (is "bus_inv (set_channel i ?c ?b)")
proof (rule set_channel_inv)
  have n: "n < length (bs_calls b)" "rc_state (bs_calls b ! n) = Sending" using assms(2) by (simp_all add: live_def)
  then have "bus_inv (?b\<lparr>bs_permits := bs_permits b\<rparr>)"
    using assms(1,3) by (intro set_state_inv) (auto simp: holds_permit_def)
  then show b: "bus_inv ?b" by (simp add: set_state_def)
  show "i < length (bs_channels ?b)" "ch_owner ?c = ch_owner (bs_channels ?b ! i)"
    using assms(4,5) by (simp_all add: set_state_def)
  have old: "channel_ok (cf_channel_buffer_size (bs_config b)) (bs_calls b) i c"
    using inv_channel [OF assms(1,4)] assms(5) by simp
  then have fresh: "n \<notin> rq_call ` set (ch_requests c)" using n by (auto simp: channel_ok_def request_ok_def)
  have new: "channel_ok (cf_channel_buffer_size (bs_config b)) (bs_calls ?b) i c"
    using inv_channel [OF b] assms(4,5) by (simp add: set_state_def)
  show "channel_ok (cf_channel_buffer_size (bs_config ?b)) (bs_calls ?b) i ?c"
    using new fresh assms(3,6) n
    by (auto simp: channel_ok_def ch_requests_def request_ok_def set_state_def)
qed

lemma register_inv:
  assumes "bus_inv b" and "bus_register b d = Some (b', Inr ch)"
  shows "bus_inv b'"
proof -
  let ?new = "\<lparr>ch_owner = ad_id d, ch_open = True, ch_queue = [], ch_held = [], ch_lost = []\<rparr>"
  have b': "b' = b\<lparr>bs_agents := im_insert (ad_id d) (d, length (bs_channels b)) (bs_agents b), bs_channels := bs_channels b @ [?new]\<rparr>"
    using assms(2) by (auto simp: bus_register_def Let_def split: if_splits)
  have new: "channel_ok cap calls i ?new" for cap calls i by (simp add: channel_ok_def ch_requests_def)
  have channels: "channel_ok (cf_channel_buffer_size (bs_config b)) (bs_calls b) i ((bs_channels b @ [?new]) ! i)"
    if "i < Suc (length (bs_channels b))" for i
    using that assms(1) new by (cases "i = length (bs_channels b)") (simp_all add: nth_append bus_inv_def)
  have calls: "call_ok (bs_channels b @ [?new]) c" if "call_ok (bs_channels b) c" for c
    using that by (auto simp: call_ok_def nth_append split: option.splits)
  have agents: "ch < Suc (length (bs_channels b)) \<and> ch_owner ((bs_channels b @ [?new]) ! ch) = k"
    if "map_of (im_insert (ad_id d) (d, length (bs_channels b)) (bs_agents b)) k = Some (e, ch)" for k e ch
  proof (cases "k = ad_id d")
    case False
    then have "map_of (bs_agents b) k = Some (e, ch)" using that by simp
    then have "ch < length (bs_channels b) \<and> ch_owner (bs_channels b ! ch) = k" using assms(1) unfolding bus_inv_def by blast
    then show ?thesis by (simp add: nth_append)
  qed (use that in \<open>auto simp: nth_append\<close>)
  show ?thesis unfolding bus_inv_def
  proof (intro conjI allI ballI impI)
    show "bs_permits b' + length (filter holds_permit (bs_calls b')) = cf_max_concurrent_rpc (bs_config b')"
      using assms(1) by (simp add: b' bus_inv_def)
    show "channel_ok (cf_channel_buffer_size (bs_config b')) (bs_calls b') i (bs_channels b' ! i)" if "i < length (bs_channels b')" for i
      using that channels [of i] assms(1) by (simp add: b' bus_inv_def)
    show "call_ok (bs_channels b') c" if "c \<in> set (bs_calls b')" for c
      using that calls assms(1) by (simp add: b' bus_inv_def)
    show "ch < length (bs_channels b')" "ch_owner (bs_channels b' ! ch) = k" if "map_of (bs_agents b') k = Some (e, ch)" for k e ch
      using agents [of k e ch] that by (simp_all add: b')
  qed
qed

lemma bus_step_inv: "bus_step b b' \<Longrightarrow> bus_inv b \<Longrightarrow> bus_inv b'"
proof (induction rule: bus_step.induct)
  case (register b d b' ch)
  then show ?case using register_inv [of b d b' ch] by blast
next
  case (deregister b i b' r)
  then have "b' = b \<or> b' = b\<lparr>bs_agents := im_remove i (bs_agents b)\<rparr>" by (auto simp: bus_deregister_def split: if_splits)
  then show ?case using deregister(2) by (auto simp: bus_inv_def split: if_splits)
next
  case (subscribe b topic i h b' r)
  then have "bs_config b' = bs_config b" "bs_agents b' = bs_agents b" "bs_permits b' = bs_permits b"
    "bs_channels b' = bs_channels b" "bs_calls b' = bs_calls b"
    by (auto simp: bus_subscribe_def split: option.splits if_splits)
  then show ?case using subscribe(2) by (simp add: bus_inv_def)
next
  case (unsubscribe b topic)
  then show ?case by (simp add: bus_inv_def bus_unsubscribe_def)
next
  case (call b caller target payload timeout)
  let ?calls = "bs_calls (start_call caller target payload timeout b)"
  obtain c where c: "?calls = bs_calls b @ [c]" "\<not> holds_permit c" "call_ok (bs_channels b) c"
  proof (cases "authorize b caller target")
    case (Inl e)
    then show ?thesis by (intro that) (auto simp: start_call_def holds_permit_def call_ok_def)
  next
    case (Inr ch)
    then have "\<exists>d. map_of (bs_agents b) target = Some (d, ch)" by (auto simp: authorize_def split: option.splits if_splits)
    with call Inr show ?thesis
      by (intro that) (auto simp: start_call_def holds_permit_def call_ok_def bus_inv_def)
  qed
  have "request_ok ?calls i r" if "request_ok (bs_calls b) i r" for i r
    using that by (auto simp: c(1) request_ok_def nth_append)
  then have "channel_ok cap ?calls i ch" if "channel_ok cap (bs_calls b) i ch" for cap i ch
    using that by (auto simp: channel_ok_def)
  with call c show ?case by (auto simp: bus_inv_def start_call_def)
next
  case (acquire b n)
  then have "rc_channel (bs_calls b ! n) \<noteq> None" by (intro unsettled_has_channel) (auto simp: live_def)
  then show ?case using acquire by (intro set_state_inv) (auto simp: live_def holds_permit_def)
next
  case (send b n i c)
  then show ?case by (intro send_inv)
next
  case (send_closed b n i)
  then show ?case by (intro settle_inv) (auto simp: live_def)
next
  case (receive i b c r rs)
  show ?case
    by (rule set_channel_inv [OF receive(5,1) channel_shrinks [OF inv_channel [OF receive(5,1)]]])
      (use receive in \<open>simp_all add: ch_requests_def\<close>)
next
  case (reply i b c r res)
  show ?case
    by (rule take_and_answer_inv [OF reply(4,1)]) (use reply(2,3) in \<open>auto simp: ch_requests_def\<close>)
next
  case (discard i b c r)
  show ?case
    by (rule set_channel_inv [OF discard(4,1) channel_shrinks [OF inv_channel [OF discard(4,1)]]])
      (use discard in \<open>simp_all add: ch_requests_def\<close>)
next
  case (close i b c)
  show ?case
    by (rule set_channel_inv [OF close(4,1) channel_shrinks [OF inv_channel [OF close(4,1)]]])
      (use close in \<open>simp_all add: ch_requests_def\<close>)
next
  case (notice i b c r)
  show ?case
    by (rule take_and_answer_inv [OF notice(4,1)]) (use notice(2,3) in \<open>auto simp: ch_requests_def\<close>)
next
  case (timeout n b)
  then have "rc_channel (bs_calls b ! n) \<noteq> None" by (intro unsettled_has_channel) auto
  then show ?case using timeout by (intro settle_inv)
qed

lemma bus_new_inv: "bus_inv (bus_new c)"
  by (simp add: bus_inv_def bus_new_def)

lemma bus_run_inv: "bus_step\<^sup>*\<^sup>* b b' \<Longrightarrow> bus_inv b \<Longrightarrow> bus_inv b'"
  by (induction rule: rtranclp_induct) (auto intro: bus_step_inv)

section \<open>What a step does to the calls\<close>

text \<open>Who calls whom with what, and through which channel, is fixed when the call starts.\<close>

definition call_fixed :: "rpc_call \<Rightarrow> string \<times> string \<times> json \<times> nat \<times> nat option" where
  "call_fixed c = (rc_caller c, rc_target c, rc_payload c, rc_timeout c, rc_channel c)"

definition calls_kept :: "'h bus \<Rightarrow> 'h bus \<Rightarrow> bool" where
  "calls_kept b b' \<longleftrightarrow> bs_config b' = bs_config b \<and> map call_fixed (bs_calls b') = map call_fixed (bs_calls b) \<and>
     (\<forall>n < length (bs_calls b). \<forall>r. rc_state (bs_calls b ! n) = Settled r \<longrightarrow> bs_calls b' ! n = bs_calls b ! n)"

lemma calls_kept_same: "bs_config b' = bs_config b \<Longrightarrow> bs_calls b' = bs_calls b \<Longrightarrow> calls_kept b b'"
  by (simp add: calls_kept_def)

lemma calls_kept_state:
  assumes "\<And>r. rc_state (bs_calls b ! n) \<noteq> Settled r"
  shows "calls_kept b ((set_state n s b)\<lparr>bs_permits := p\<rparr>)"
  using assms
  by (cases "n < length (bs_calls b)")
    (auto simp: calls_kept_def set_state_def call_fixed_def nth_list_update map_update list_update_same_conv list_update_beyond)

lemma calls_kept_settle: "(\<And>r. rc_state (bs_calls b ! n) \<noteq> Settled r) \<Longrightarrow> calls_kept b (settle n res b)"
  unfolding settle_def Let_def by (rule calls_kept_state)

lemma calls_kept_channel: "calls_kept b (set_channel i c b')" if "calls_kept b b'"
  using that by (simp add: calls_kept_def set_channel_def)

lemma calls_kept_answer: "calls_kept b (answer n res (set_channel i c b))"
proof (cases "rc_state (bs_calls b ! n) = Awaiting")
  case True
  then have "calls_kept (set_channel i c b) (settle n res (set_channel i c b))"
    by (intro calls_kept_settle) (simp add: set_channel_def)
  with True show ?thesis by (simp add: answer_def calls_kept_def set_channel_def)
qed (simp add: answer_def set_channel_def calls_kept_def)

lemma bus_step_calls:
  assumes "bus_step b b'"
  shows "calls_kept b b' \<or> (\<exists>caller target payload timeout. b' = start_call caller target payload timeout b)"
  using assms
proof (cases rule: bus_step.cases)
  case (register d ch)
  then show ?thesis by (intro disjI1 calls_kept_same) (auto simp: bus_register_def Let_def split: if_splits)
next
  case (deregister i r)
  then show ?thesis by (intro disjI1 calls_kept_same) (auto simp: bus_deregister_def split: if_splits)
next
  case (subscribe topic i h r)
  then show ?thesis by (intro disjI1 calls_kept_same) (auto simp: bus_subscribe_def split: option.splits if_splits)
next
  case (unsubscribe topic)
  then show ?thesis by (intro disjI1 calls_kept_same) (auto simp: bus_unsubscribe_def)
next
  case (acquire n)
  then show ?thesis by (auto simp: live_def intro!: calls_kept_state)
next
  case (send n i c)
  then have "calls_kept b ((set_state n Awaiting b)\<lparr>bs_permits := bs_permits b\<rparr>)"
    by (intro calls_kept_state) (simp add: live_def)
  then have "calls_kept b (set_state n Awaiting b)" by (simp add: set_state_def)
  with send show ?thesis by (auto intro: calls_kept_channel)
next
  case (send_closed n i)
  then show ?thesis by (auto simp: live_def intro!: calls_kept_settle)
next
  case (timeout n)
  then show ?thesis by (auto intro!: calls_kept_settle)
qed (auto intro: calls_kept_answer calls_kept_channel calls_kept_same)

lemma calls_kept_nth:
  assumes "calls_kept b b'" and "n < length (bs_calls b)"
  shows "n < length (bs_calls b')" "call_fixed (bs_calls b' ! n) = call_fixed (bs_calls b ! n)"
    "rc_state (bs_calls b ! n) = Settled r \<Longrightarrow> bs_calls b' ! n = bs_calls b ! n"
proof -
  have len: "length (bs_calls b') = length (bs_calls b)" using assms(1) unfolding calls_kept_def by (metis length_map)
  then show "n < length (bs_calls b')" using assms(2) by simp
  show "call_fixed (bs_calls b' ! n) = call_fixed (bs_calls b ! n)"
    using assms len unfolding calls_kept_def by (metis nth_map)
  show "bs_calls b' ! n = bs_calls b ! n" if "rc_state (bs_calls b ! n) = Settled r"
    using assms that by (simp add: calls_kept_def)
qed

lemma start_call_nth:
  assumes "n < length (bs_calls b)"
  shows "n < length (bs_calls (start_call caller target payload timeout b))"
    "bs_calls (start_call caller target payload timeout b) ! n = bs_calls b ! n"
  using assms by (simp_all add: start_call_def nth_append)

lemma bus_step_config: "bus_step b b' \<Longrightarrow> bs_config b' = bs_config b"
  using bus_step_calls [of b b'] by (auto simp: calls_kept_def start_call_def)

lemma bus_run_config: "bus_step\<^sup>*\<^sup>* b b' \<Longrightarrow> bs_config b' = bs_config b"
  by (induction rule: rtranclp_induct) (auto dest: bus_step_config)

text \<open>A call that has a channel was authorised, in the state in which it started, to use that channel.\<close>

lemma call_origin:
  assumes "bus_step\<^sup>*\<^sup>* b0 b" and "bs_calls b0 = []"
    and "n < length (bs_calls b)" and "rc_channel (bs_calls b ! n) = Some i"
  shows "\<exists>b1. bus_step\<^sup>*\<^sup>* b0 b1 \<and> bus_step\<^sup>*\<^sup>* b1 b \<and>
    authorize b1 (rc_caller (bs_calls b ! n)) (rc_target (bs_calls b ! n)) = Inr i"
  using assms(1,3,4)
proof (induction rule: rtranclp_induct)
  case base
  then show ?case using assms(2) by simp
next
  case (step b b')
  show ?case
  proof (cases "n < length (bs_calls b)")
    case True
    have "call_fixed (bs_calls b' ! n) = call_fixed (bs_calls b ! n)"
      using bus_step_calls [OF step.hyps(2)] calls_kept_nth(2) [OF _ True] start_call_nth(2) [OF True] by auto
    then have same: "rc_caller (bs_calls b' ! n) = rc_caller (bs_calls b ! n)" "rc_target (bs_calls b' ! n) = rc_target (bs_calls b ! n)"
      "rc_channel (bs_calls b' ! n) = rc_channel (bs_calls b ! n)" by (simp_all add: call_fixed_def)
    then obtain b1 where "bus_step\<^sup>*\<^sup>* b0 b1" "bus_step\<^sup>*\<^sup>* b1 b"
      "authorize b1 (rc_caller (bs_calls b ! n)) (rc_target (bs_calls b ! n)) = Inr i"
      using step.IH [OF True] step.prems(2) by auto
    then show ?thesis unfolding same using step.hyps(2) by (blast intro: rtranclp.rtrancl_into_rtrancl)
  next
    case False
    have "\<not> calls_kept b b'"
    proof
      assume "calls_kept b b'"
      then have "length (bs_calls b') = length (bs_calls b)" unfolding calls_kept_def by (metis length_map)
      with False step.prems(1) show False by simp
    qed
    then obtain caller target payload timeout where b': "b' = start_call caller target payload timeout b"
      using bus_step_calls [OF step.hyps(2)] by auto
    then have "n = length (bs_calls b)" using False step.prems(1) by (simp add: start_call_def)
    with b' step.prems(2) have "authorize b caller target = Inr i" "rc_caller (bs_calls b' ! n) = caller" "rc_target (bs_calls b' ! n) = target"
      by (auto simp: start_call_def nth_append split: sum.splits)
    then show ?thesis using step.hyps by (blast intro: rtranclp.rtrancl_into_rtrancl)
  qed
qed

lemma settled_stays:
  assumes "bus_step\<^sup>*\<^sup>* b b'" and "live b n (Settled r)"
  shows "n < length (bs_calls b') \<and> bs_calls b' ! n = bs_calls b ! n"
  using assms(1)
proof (induction rule: rtranclp_induct)
  case base
  then show ?case using assms(2) by (simp add: live_def)
next
  case (step b1 b2)
  then have n: "n < length (bs_calls b1)" "rc_state (bs_calls b1 ! n) = Settled r" using assms(2) by (simp_all add: live_def)
  then show ?case
    using bus_step_calls [OF step.hyps(2)] calls_kept_nth(1) [OF _ n(1)] calls_kept_nth(3) [OF _ n] start_call_nth [OF n(1)] step.IH by auto
qed

section \<open>The bus keeps its limits and delivers to whom it may\<close>

text \<open>
  C14: Whatever the interleaving of registrations, calls, answers, closed channels and timeouts: the permits
  in use and the free ones always add up to \<open>max_concurrent_rpc\<close>, so no permit leaks and no more calls than
  that are ever in progress, and no request queue is longer than \<open>channel_buffer_size\<close>.
\<close>

theorem rpc_limits:
  assumes "bus_step\<^sup>*\<^sup>* (bus_new c) b"
  shows "bs_permits b + length (filter holds_permit (bs_calls b)) = cf_max_concurrent_rpc c \<and>
    (\<forall>ch \<in> set (bs_channels b). length (ch_queue ch) \<le> cf_channel_buffer_size c)"
proof -
  have "bus_inv b" using assms bus_new_inv by (rule bus_run_inv)
  moreover have "bs_config b = c" using bus_run_config [OF assms] by (simp add: bus_new_def)
  ultimately show ?thesis by (auto simp: bus_inv_def channel_ok_def in_set_conv_nth)
qed


text \<open>
  A call has one outcome. Once it has returned, with an answer, an error or its timeout, nothing that
  happens on the bus afterwards changes it, and a late answer is dropped without touching the permits.
\<close>

theorem settled_call_final:
  assumes "bus_step\<^sup>*\<^sup>* b b'" and "live b n (Settled r)"
  shows "live b' n (Settled r) \<and> bs_calls b' ! n = bs_calls b ! n \<and> answer n r' b' = b'"
  using settled_stays [OF assms] assms(2) by (auto simp: live_def answer_def)

section \<open>Witnesses\<close>

definition demo_agents :: "agent_descriptor list" where
  "demo_agents =
     [\<lparr>ad_id = ''lead'', ad_name = ''Lead'', ad_capabilities = [''plan''],
        ad_bus_config = \<lparr>bc_subscribe = [], bc_publish = [], bc_rpc = [''dev'']\<rparr>\<rparr>,
      \<lparr>ad_id = ''dev'', ad_name = ''Dev'', ad_capabilities = [''code''],
        ad_bus_config = \<lparr>bc_subscribe = [''news''], bc_publish = [], bc_rpc = []\<rparr>\<rparr>]"

text \<open>The bus after both have registered and the lead has called the developer and got a permit.\<close>

definition demo_registered :: "'h bus" where
  "demo_registered =
     (bus_new bus_config_default)\<lparr>
       bs_agents := [(''lead'', demo_agents ! 0, 0), (''dev'', demo_agents ! 1, 1)],
       bs_channels := map (\<lambda>i. \<lparr>ch_owner = i, ch_open = True, ch_queue = [], ch_held = [], ch_lost = []\<rparr>) [''lead'', ''dev'']\<rparr>"

definition demo_called :: "'h bus" where
  "demo_called = (set_state 0 Sending (default_call ''lead'' ''dev'' JNull demo_registered))\<lparr>bs_permits := 31\<rparr>"

definition demo_sent :: "'h bus" where
  "demo_sent = set_channel 1
     ((bs_channels (demo_called :: 'h bus) ! 1)\<lparr>ch_queue := [\<lparr>rq_payload = JNull, rq_call = 0\<rparr>]\<rparr>) (set_state 0 Awaiting demo_called)"

lemmas demo_defs = demo_agents_def demo_registered_def demo_called_def demo_sent_def bus_new_def bus_config_default_def
  default_call_def start_call_def authorize_def set_state_def set_channel_def

lemma demo_registered_run: "bus_step\<^sup>*\<^sup>* (bus_new bus_config_default) (demo_registered :: 'h bus)"
proof -
  let ?b = "fst (the (bus_register (bus_new bus_config_default) (demo_agents ! 0))) :: 'h bus"
  have lead: "bus_register (bus_new bus_config_default) (demo_agents ! 0) = Some (?b, Inr 0)"
    by (simp add: bus_register_def demo_defs Let_def)
  have dev: "bus_register ?b (demo_agents ! 1) = Some ((demo_registered :: 'h bus), Inr 1)"
    by (simp add: bus_register_def demo_defs Let_def)
  have "bus_step\<^sup>*\<^sup>* (bus_new bus_config_default) ?b" using bus_step.register [OF lead] by (rule r_into_rtranclp)
  then show ?thesis using bus_step.register [OF dev] by (rule rtranclp.rtrancl_into_rtrancl)
qed

lemma demo_called_run: "bus_step\<^sup>*\<^sup>* (bus_new bus_config_default) (demo_called :: 'h bus)"
proof -
  let ?b = "default_call ''lead'' ''dev'' JNull (demo_registered :: 'h bus)"
  have call: "bus_step (demo_registered :: 'h bus) ?b" unfolding default_call_def by (rule bus_step.call)
  have "bus_step ?b ((set_state 0 Sending ?b)\<lparr>bs_permits := bs_permits ?b - 1\<rparr>)"
    by (rule bus_step.acquire) (simp_all add: live_def demo_defs)
  moreover have "bs_permits ?b - 1 = 31" by (simp add: demo_defs)
  ultimately have acquire: "bus_step ?b (demo_called :: 'h bus)" by (simp only: demo_called_def)
  have "bus_step\<^sup>*\<^sup>* (bus_new bus_config_default) ?b" using demo_registered_run call by (rule rtranclp.rtrancl_into_rtrancl)
  then show ?thesis using acquire by (rule rtranclp.rtrancl_into_rtrancl)
qed

lemma demo_sent_run: "bus_step\<^sup>*\<^sup>* (bus_new bus_config_default) (demo_sent :: 'h bus)"
proof -
  have "bus_step (demo_called :: 'h bus) (set_channel 1 ((bs_channels (demo_called :: 'h bus) ! 1)\<lparr>ch_queue := ch_queue (bs_channels (demo_called :: 'h bus) ! 1) @
      [\<lparr>rq_payload = rc_payload (bs_calls (demo_called :: 'h bus) ! 0), rq_call = 0\<rparr>]\<rparr>) (set_state 0 Awaiting (demo_called :: 'h bus)))"
    by (rule bus_step.send) (simp_all add: live_def demo_defs)
  moreover have "ch_queue (bs_channels (demo_called :: 'h bus) ! 1) = []" "rc_payload (bs_calls (demo_called :: 'h bus) ! 0) = JNull"
    by (simp_all add: demo_defs)
  ultimately have "bus_step (demo_called :: 'h bus) (demo_sent :: 'h bus)" by (simp add: demo_sent_def)
  with demo_called_run show ?thesis by (rule rtranclp.rtrancl_into_rtrancl)
qed

text \<open>One permit is in use and the developer's queue holds one request.\<close>

theorem rpc_limits_witness:
  "bs_permits (demo_sent :: unit bus) + length (filter holds_permit (bs_calls (demo_sent :: unit bus))) = cf_max_concurrent_rpc bus_config_default \<and>
   length (filter holds_permit (bs_calls (demo_sent :: unit bus))) = 1"
  using rpc_limits [OF demo_sent_run] by (simp add: demo_defs holds_permit_def)


text \<open>A call that ran into its timeout keeps that outcome when the agent answers after all.\<close>

theorem settled_call_final_witness:
  "live (settle 0 (Inl (RpcTimeout 5)) (demo_sent :: unit bus)) 0 (Settled (Inl (RpcTimeout 5))) \<and>
   answer 0 (Inr JNull) (settle 0 (Inl (RpcTimeout 5)) (demo_sent :: unit bus)) = settle 0 (Inl (RpcTimeout 5)) (demo_sent :: unit bus)"
proof -
  have "live (settle 0 (Inl (RpcTimeout 5)) (demo_sent :: unit bus)) 0 (Settled (Inl (RpcTimeout 5)))"
    by (simp add: live_def settle_def Let_def demo_defs)
  from settled_call_final [OF rtranclp.rtrancl_refl this] show ?thesis by blast
qed

end
