(* ===== verification/Profile.thy ===== *)
theory Profile
  imports Manifest Bus
begin

text \<open>
  \<open>bus/profile.rs\<close>, \<open>bus/registry.rs\<close> and \<open>bus/lattice_dir.rs\<close>: the definition of an agent in TOML, its two
  loaders, the registry of a directory of agents and the discovery of a project. Reading and writing files,
  parsing TOML into a value, the hash and its hexadecimal form are parameters.
\<close>

section \<open>Profiles\<close>

record agent_config =
  acf_name :: string
  acf_model :: string
  acf_description :: string
  acf_skippable :: bool
  acf_tags :: "string list"

record system_config =
  sy_prompt :: string
  sy_file :: "string option"

record behavior_config =
  bv_behavior_type :: string
  bv_confidence_threshold :: f64
  bv_max_retries :: u32
  bv_enforce_sandbox :: "string option"

definition behavior_config_default :: behavior_config where
  "behavior_config_default =
     \<lparr>bv_behavior_type = ''strict'', bv_confidence_threshold = round_f64 0.7, bv_max_retries = 3, bv_enforce_sandbox = None\<rparr>"

record bus_config_profile =
  bp_subscribe :: "string list"
  bp_publish :: "string list"
  bp_rpc :: "string list"

record memory_config_profile =
  mp_shared_read :: "string list"
  mp_shared_write :: "string list"

record handoff_config =
  hc_rules :: "handoff_rule list"
  hc_fallback :: "handoff_target option"
  hc_output_schema :: "string option"
  hc_max_turns :: "u32 option"

record agent_profile =
  ap_agent :: agent_config
  ap_system :: system_config
  ap_tools :: "string list"
  ap_behavior :: behavior_config
  ap_handoff :: handoff_config
  ap_bus :: bus_config_profile
  ap_memory :: memory_config_profile
  ap_plugins :: "plugins_config option"

record behavior_mode_toml =
  bt_mode :: string
  bt_confidence_threshold :: "f64 option"
  bt_max_retries :: "u32 option"
  bt_escalate_to :: "string option"
  bt_enforce_sandbox :: "string option"

definition to_behavior_mode :: "behavior_mode_toml \<Rightarrow> behavior_mode option" where
  "to_behavior_mode b =
     (if bt_mode b = ''yolo''
      then Some (Yolo (if bt_enforce_sandbox b = Some ''nobash'' then NoBash else EnforceCommandAllowlist))
      else if bt_mode b = ''strict''
      then Some (Strict (unwrap_or (bt_confidence_threshold b) (round_f64 0.7)) (unwrap_or (bt_max_retries b) 3) (bt_escalate_to b))
      else None)"

record plugin_slot_toml =
  sl_name :: string
  sl_plugin :: string
  sl_tools :: "string list"
  sl_model_override :: "string option"
  sl_max_turns :: "u32 option"
  sl_behavior :: "behavior_mode_toml option"

definition slot_of_toml :: "plugin_slot_toml \<Rightarrow> plugin_slot" where
  "slot_of_toml raw =
     \<lparr>ps_name = sl_name raw, ps_plugin = sl_plugin raw, ps_tools = sl_tools raw,
      ps_model_override = sl_model_override raw, ps_max_turns = sl_max_turns raw,
      ps_behavior = Option.bind (sl_behavior raw) to_behavior_mode\<rparr>"

record plugins_config_toml =
  pt_entry :: string
  pt_slots :: "plugin_slot_toml list"
  pt_edges :: "dag_edge list"
  pt_shared_tools :: "string list"

definition plugins_of_toml :: "plugins_config_toml \<Rightarrow> plugins_config" where
  "plugins_of_toml raw =
     \<lparr>pcf_entry = pt_entry raw, pcf_slots = map slot_of_toml (pt_slots raw), pcf_edges = pt_edges raw,
      pcf_shared_tools = pt_shared_tools raw\<rparr>"

section \<open>From TOML\<close>

text \<open>
  What \<open>derive(Deserialize)\<close> reads from a table: a required field, an optional one, a list; \<^const>\<open>None\<close> is
  an error. \<^const>\<open>section_or\<close> is a field with \<open>serde(default)\<close>.
\<close>

definition required :: "json \<Rightarrow> string \<Rightarrow> (json \<Rightarrow> 'a option) \<Rightarrow> 'a option" where
  "required t k f = Option.bind (json_get t k) f"

definition optional :: "json \<Rightarrow> string \<Rightarrow> (json \<Rightarrow> 'a option) \<Rightarrow> 'a option option" where
  "optional t k f = section_or t k None (\<lambda>v. map_option Some (f v))"

definition list_of :: "(json \<Rightarrow> 'a option) \<Rightarrow> json \<Rightarrow> 'a list option" where
  "list_of f v = Option.bind (as_array v) (\<lambda>vs. those (map f vs))"

definition u32_of :: "json \<Rightarrow> u32 option" where
  "u32_of v = (case as_u64 v of Some n \<Rightarrow> if unat n < 2 ^ 32 then Some (ucast n) else None | None \<Rightarrow> None)"

definition f64_of :: "json \<Rightarrow> f64 option" where
  "f64_of v = (case v of JNum n \<Rightarrow> Some (num_as_f64 n) | _ \<Rightarrow> None)"

definition texts_or_none :: "json \<Rightarrow> string \<Rightarrow> string list option" where
  "texts_or_none t k = section_or t k [] (list_of as_str)"

definition condition_of :: "json \<Rightarrow> handoff_condition option" where
  "condition_of t =
     do {
       field \<leftarrow> required t ''field'' as_str;
       operator \<leftarrow> required t ''op'' as_str;
       v \<leftarrow> required t ''value'' Some;
       Some \<lparr>cond_field = field, cond_op = operator, cond_value = v\<rparr>
     }"

definition rule_of :: "json \<Rightarrow> handoff_rule option" where
  "rule_of t =
     do {
       condition \<leftarrow> optional t ''condition'' condition_of;
       all_of \<leftarrow> optional t ''all'' (list_of condition_of);
       any_of \<leftarrow> optional t ''any'' (list_of condition_of);
       always \<leftarrow> section_or t ''default'' False as_bool;
       target \<leftarrow> optional t ''target'' target_deserialize;
       Some \<lparr>rule_condition = condition, rule_all = all_of, rule_any = any_of, rule_default = always, rule_target = target\<rparr>
     }"

definition agent_config_of :: "json \<Rightarrow> agent_config option" where
  "agent_config_of t =
     do {
       name \<leftarrow> required t ''name'' as_str;
       model \<leftarrow> required t ''model'' as_str;
       description \<leftarrow> section_or t ''description'' [] as_str;
       skippable \<leftarrow> section_or t ''skippable'' False as_bool;
       tags \<leftarrow> texts_or_none t ''tags'';
       Some \<lparr>acf_name = name, acf_model = model, acf_description = description, acf_skippable = skippable, acf_tags = tags\<rparr>
     }"

definition system_config_of :: "json \<Rightarrow> system_config option" where
  "system_config_of t =
     do {
       prompt \<leftarrow> required t ''prompt'' as_str;
       prompt_file \<leftarrow> optional t ''file'' as_str;
       Some \<lparr>sy_prompt = prompt, sy_file = prompt_file\<rparr>
     }"

definition behavior_config_of :: "json \<Rightarrow> behavior_config option" where
  "behavior_config_of t =
     (if \<not> is_table t then None else
      do {
        behavior_type \<leftarrow> section_or t ''behavior_type'' ''strict'' as_str;
        threshold \<leftarrow> section_or t ''confidence_threshold'' (round_f64 0.7) f64_of;
        retries \<leftarrow> section_or t ''max_retries'' 3 u32_of;
        sandbox \<leftarrow> optional t ''enforce_sandbox'' as_str;
        Some \<lparr>bv_behavior_type = behavior_type, bv_confidence_threshold = threshold, bv_max_retries = retries,
          bv_enforce_sandbox = sandbox\<rparr>
      })"

definition bus_config_profile_of :: "json \<Rightarrow> bus_config_profile option" where
  "bus_config_profile_of t =
     (if \<not> is_table t then None else
      do {
        subscribe \<leftarrow> texts_or_none t ''subscribe'';
        publish \<leftarrow> texts_or_none t ''publish'';
        rpc \<leftarrow> texts_or_none t ''rpc'';
        Some \<lparr>bp_subscribe = subscribe, bp_publish = publish, bp_rpc = rpc\<rparr>
      })"

definition memory_config_profile_of :: "json \<Rightarrow> memory_config_profile option" where
  "memory_config_profile_of t =
     (if \<not> is_table t then None else
      do {
        shared_read \<leftarrow> texts_or_none t ''shared_read'';
        shared_write \<leftarrow> texts_or_none t ''shared_write'';
        Some \<lparr>mp_shared_read = shared_read, mp_shared_write = shared_write\<rparr>
      })"

definition handoff_config_of :: "json \<Rightarrow> handoff_config option" where
  "handoff_config_of t =
     (if \<not> is_table t then None else
      do {
        rules \<leftarrow> section_or t ''rules'' [] (list_of rule_of);
        fallback \<leftarrow> optional t ''fallback'' target_deserialize;
        schema \<leftarrow> optional t ''output_schema'' as_str;
        turns \<leftarrow> optional t ''max_turns'' u32_of;
        Some \<lparr>hc_rules = rules, hc_fallback = fallback, hc_output_schema = schema, hc_max_turns = turns\<rparr>
      })"

definition handoff_config_default :: handoff_config where
  "handoff_config_default = \<lparr>hc_rules = [], hc_fallback = None, hc_output_schema = None, hc_max_turns = None\<rparr>"

text \<open>The section \<open>plugins\<close> is not a field of the profile: \<open>serde(skip)\<close> leaves it out.\<close>

definition agent_profile_of :: "json \<Rightarrow> agent_profile option" where
  "agent_profile_of t =
     do {
       agent \<leftarrow> required t ''agent'' agent_config_of;
       system \<leftarrow> required t ''system'' system_config_of;
       tools \<leftarrow> section_or t ''tools'' [] (\<lambda>v. required v ''enabled'' (list_of as_str));
       behavior \<leftarrow> section_or t ''behavior'' behavior_config_default behavior_config_of;
       handoff \<leftarrow> section_or t ''handoff'' handoff_config_default handoff_config_of;
       bus \<leftarrow> section_or t ''bus'' \<lparr>bp_subscribe = [], bp_publish = [], bp_rpc = []\<rparr> bus_config_profile_of;
       memory \<leftarrow> section_or t ''memory'' \<lparr>mp_shared_read = [], mp_shared_write = []\<rparr> memory_config_profile_of;
       Some \<lparr>ap_agent = agent, ap_system = system, ap_tools = tools, ap_behavior = behavior, ap_handoff = handoff,
         ap_bus = bus, ap_memory = memory, ap_plugins = None\<rparr>
     }"

definition behavior_mode_toml_of :: "json \<Rightarrow> behavior_mode_toml option" where
  "behavior_mode_toml_of t =
     do {
       mode \<leftarrow> required t ''mode'' as_str;
       threshold \<leftarrow> optional t ''confidence_threshold'' f64_of;
       retries \<leftarrow> optional t ''max_retries'' u32_of;
       escalate \<leftarrow> optional t ''escalate_to'' as_str;
       sandbox \<leftarrow> optional t ''enforce_sandbox'' as_str;
       Some \<lparr>bt_mode = mode, bt_confidence_threshold = threshold, bt_max_retries = retries, bt_escalate_to = escalate,
         bt_enforce_sandbox = sandbox\<rparr>
     }"

definition plugin_slot_toml_of :: "json \<Rightarrow> plugin_slot_toml option" where
  "plugin_slot_toml_of t =
     do {
       name \<leftarrow> required t ''name'' as_str;
       plugin \<leftarrow> required t ''plugin'' as_str;
       tools \<leftarrow> texts_or_none t ''tools'';
       model \<leftarrow> optional t ''model_override'' as_str;
       turns \<leftarrow> optional t ''max_turns'' u32_of;
       behavior \<leftarrow> optional t ''behavior'' behavior_mode_toml_of;
       Some \<lparr>sl_name = name, sl_plugin = plugin, sl_tools = tools, sl_model_override = model, sl_max_turns = turns,
         sl_behavior = behavior\<rparr>
     }"

definition edge_of :: "json \<Rightarrow> dag_edge option" where
  "edge_of t =
     do {
       from_slot \<leftarrow> required t ''from'' as_str;
       rule \<leftarrow> required t ''rule'' rule_of;
       Some \<lparr>de_from = from_slot, de_rule = rule\<rparr>
     }"

definition plugins_config_toml_of :: "json \<Rightarrow> plugins_config_toml option" where
  "plugins_config_toml_of t =
     do {
       entry \<leftarrow> required t ''entry'' as_str;
       slots \<leftarrow> section_or t ''slots'' [] (list_of plugin_slot_toml_of);
       edges \<leftarrow> section_or t ''edges'' [] (list_of edge_of);
       shared \<leftarrow> texts_or_none t ''shared_tools'';
       Some \<lparr>pt_entry = entry, pt_slots = slots, pt_edges = edges, pt_shared_tools = shared\<rparr>
     }"

definition agent_profile_raw_of :: "json \<Rightarrow> (agent_profile \<times> plugins_config_toml option) option" where
  "agent_profile_raw_of t =
     do {
       profile \<leftarrow> agent_profile_of t;
       plugins \<leftarrow> optional t ''plugins'' plugins_config_toml_of;
       Some (profile, plugins)
     }"

section \<open>Loading a profile\<close>

datatype profile_error =
  ProfileIo string
| ProfileToml string
| InvalidHash
| Tampered string string string

fun profile_error_display :: "profile_error \<Rightarrow> string" where
  "profile_error_display (ProfileIo e) = ''I/O error: '' @ e"
| "profile_error_display (ProfileToml e) = ''TOML parse error: '' @ e"
| "profile_error_display InvalidHash = ''hash file corrupted: invalid hex''"
| "profile_error_display (Tampered path expected found) =
     ''profile tampered: '' @ path @ '' (expected '' @ expected @ '', found '' @ found @ '')''"

text \<open>
  The outside of the loaders. A directory is what reading it yields: an entry that cannot be read, one whose
  type cannot be read, a plain file, or a directory with its path.
\<close>

datatype agents_entry = UnreadableEntry string | UntypedEntry string | PlainEntry | AgentDir string

record 'w profile_env =
  pv_read :: "'w \<Rightarrow> string \<Rightarrow> (string, string) res"
  pv_write :: "'w \<Rightarrow> string \<Rightarrow> string \<Rightarrow> 'w \<times> (string, unit) res"
  pv_exists :: "'w \<Rightarrow> string \<Rightarrow> bool"
  pv_read_dir :: "'w \<Rightarrow> string \<Rightarrow> (string, agents_entry list) res"
  pv_canonicalize :: "'w \<Rightarrow> string \<Rightarrow> (string, string) res"
  pv_current_dir :: "'w \<Rightarrow> (string, string) res"
  pv_toml :: "string \<Rightarrow> (string, json) res"
  pv_shape_error :: "json \<Rightarrow> string"
  pv_hash :: "string \<Rightarrow> string"
  pv_hex_encode :: "string \<Rightarrow> string"
  pv_hex_decode :: "string \<Rightarrow> string option"

definition from_toml :: "'w profile_env \<Rightarrow> (json \<Rightarrow> 'a option) \<Rightarrow> string \<Rightarrow> (string, 'a) res" where
  "from_toml env shape content =
     (case pv_toml env content of
        Inl e \<Rightarrow> Inl e
      | Inr t \<Rightarrow> (case shape t of Some p \<Rightarrow> Inr p | None \<Rightarrow> Inl (pv_shape_error env t)))"

definition with_plugins :: "agent_profile \<times> plugins_config_toml option \<Rightarrow> (string, agent_profile) res" where
  "with_plugins raw =
     (case raw of
        (profile, None) \<Rightarrow> Inr profile
      | (profile, Some plugins_toml) \<Rightarrow>
          (let config = plugins_of_toml plugins_toml
           in if \<not> list_ex (\<lambda>s. ps_name s = pcf_entry config) (pcf_slots config)
              then Inl (''entry slot '' @ in_quotes (pcf_entry config) @ '' not found in [plugins.slots]'')
              else Inr (profile\<lparr>ap_plugins := Some config\<rparr>)))"

definition profile_load :: "'w profile_env \<Rightarrow> 'w \<Rightarrow> string \<Rightarrow> (string, agent_profile) res" where
  "profile_load env w path =
     and_then_r (pv_read env w path) (\<lambda>content.
     and_then_r (from_toml env agent_profile_raw_of content) with_plugins)"

definition load_from_dir :: "'w profile_env \<Rightarrow> 'w \<Rightarrow> string \<Rightarrow> (string, agent_profile) res" where
  "load_from_dir env w dir = profile_load env w (path_join dir ''agent.toml'')"

text \<open>A path starts with another when its components do.\<close>

definition path_starts_with :: "string \<Rightarrow> string \<Rightarrow> bool" where
  "path_starts_with path base \<longleftrightarrow> prefix (components base) (components path)"

definition system_prompt :: "'w profile_env \<Rightarrow> 'w \<Rightarrow> agent_profile \<Rightarrow> (string, string) res" where
  "system_prompt env w profile =
     (case sy_file (ap_system profile) of
        None \<Rightarrow> Inr (sy_prompt (ap_system profile))
      | Some f \<Rightarrow>
          (let named = ''system.file '' @ in_quotes f
           in if is_absolute f \<or> str_contains f ''..''
              then Inl (named @ '' rejected: must be a relative path without '' @ in_quotes ''..'')
              else case pv_canonicalize env w f of
                Inl e \<Rightarrow> Inl (named @ '' not found: '' @ e)
              | Inr canonical \<Rightarrow>
                  (if (case pv_current_dir env w of Inr cwd \<Rightarrow> \<not> path_starts_with canonical cwd | Inl _ \<Rightarrow> False)
                   then Inl (named @ '' resolved to '' @ in_quotes canonical @ '' which is outside the working directory'')
                   else case pv_read env w canonical of
                     Inl e \<Rightarrow> Inl (named @ '' read failed: '' @ e)
                   | Inr content \<Rightarrow> Inr content)))"

section \<open>Loading with a hash\<close>

text \<open>
  \<open>with_extension\<close>: the path up to the stem of its file name (the name before its last dot, the whole name
  when that dot is the first character or missing), then the extension.
\<close>

definition file_stem :: "string \<Rightarrow> string" where
  "file_stem name =
     (let front = rev (dropWhile (\<lambda>c. c \<noteq> CHR ''.'') (rev name))
      in if length front \<le> 1 then name else butlast front)"

definition with_extension :: "string \<Rightarrow> string \<Rightarrow> string" where
  "with_extension path ext =
     (case file_name path of
        None \<Rightarrow> path
      | Some name \<Rightarrow>
          (let shown = unwrap_or (find (\<lambda>q. components q = components path) (prefixes path)) path
           in take (length shown - length name) shown @ file_stem name @ ''.'' @ ext))"

definition load_profile_verified ::
  "'w profile_env \<Rightarrow> 'w \<Rightarrow> string \<Rightarrow> 'w \<times> (profile_error, agent_profile \<times> string) res" where
  "load_profile_verified env w path =
     (case pv_read env w path of
        Inl e \<Rightarrow> (w, Inl (ProfileIo e))
      | Inr content \<Rightarrow>
          (let digest = pv_hash env content;
               hash_path = with_extension path ''toml.hash'';
               checked = (if pv_exists env w hash_path
                 then (w, case pv_read env w hash_path of
                     Inl e \<Rightarrow> Inl (ProfileIo e)
                   | Inr stored_hex \<Rightarrow>
                       (case pv_hex_decode env (trim stored_hex) of
                          None \<Rightarrow> Inl InvalidHash
                        | Some stored \<Rightarrow>
                            (if digest \<noteq> stored then Inl (Tampered path (pv_hex_encode env digest) (pv_hex_encode env stored))
                             else Inr ())))
                 else case pv_write env w hash_path (pv_hex_encode env digest) of
                     (w1, Inl e) \<Rightarrow> (w1, Inl (ProfileIo e))
                   | (w1, Inr _) \<Rightarrow> (w1, Inr ()))
           in case checked of
                (w1, Inl e) \<Rightarrow> (w1, Inl e)
              | (w1, Inr _) \<Rightarrow>
                  (case from_toml env agent_profile_of content of
                     Inl e \<Rightarrow> (w1, Inl (ProfileToml e))
                   | Inr profile \<Rightarrow> (w1, Inr (profile, digest)))))"

section \<open>The registry of agents\<close>

record failed_load =
  fl_path :: string
  fl_error :: string

record agent_registry =
  rg_agents :: "(string, agent_profile) imap"
  rg_failed_loads :: "failed_load list"

definition registry_empty :: agent_registry where
  "registry_empty = \<lparr>rg_agents = [], rg_failed_loads = []\<rparr>"

definition registry_put :: "agent_profile \<Rightarrow> agent_registry \<Rightarrow> agent_registry" where
  "registry_put profile reg = reg\<lparr>rg_agents := im_insert (acf_name (ap_agent profile)) profile (rg_agents reg)\<rparr>"

definition from_profiles :: "agent_profile list \<Rightarrow> agent_registry" where
  "from_profiles profiles = fold registry_put profiles registry_empty"

definition load_agent_dir :: "'w profile_env \<Rightarrow> string \<Rightarrow> 'w \<Rightarrow> agent_registry \<Rightarrow> 'w \<times> agent_registry" where
  "load_agent_dir env dir w reg =
     (let agent_toml = path_join dir ''agent.toml''
      in if \<not> pv_exists env w agent_toml then (w, reg)
         else case load_profile_verified env w agent_toml of
             (w1, Inr (profile, _)) \<Rightarrow> (w1, registry_put profile reg)
           | (w1, Inl e) \<Rightarrow>
               (w1, reg\<lparr>rg_failed_loads := rg_failed_loads reg @ [\<lparr>fl_path = agent_toml, fl_error = profile_error_display e\<rparr>]\<rparr>))"

fun load_agent_entries ::
  "'w profile_env \<Rightarrow> agents_entry list \<Rightarrow> 'w \<Rightarrow> agent_registry \<Rightarrow> 'w \<times> (string, agent_registry) res" where
  "load_agent_entries env [] w reg = (w, Inr reg)"
| "load_agent_entries env (UnreadableEntry e # es) w reg = (w, Inl e)"
| "load_agent_entries env (UntypedEntry e # es) w reg = (w, Inl e)"
| "load_agent_entries env (PlainEntry # es) w reg = load_agent_entries env es w reg"
| "load_agent_entries env (AgentDir dir # es) w reg =
     (let (w1, reg1) = load_agent_dir env dir w reg in load_agent_entries env es w1 reg1)"

definition registry_load_dir :: "'w profile_env \<Rightarrow> 'w \<Rightarrow> string \<Rightarrow> 'w \<times> (string, agent_registry) res" where
  "registry_load_dir env w dir =
     (if \<not> pv_exists env w dir then (w, Inr registry_empty)
      else case pv_read_dir env w dir of
          Inl e \<Rightarrow> (w, Inl e)
        | Inr entries \<Rightarrow> load_agent_entries env entries w registry_empty)"

definition registry_get :: "agent_registry \<Rightarrow> string \<Rightarrow> agent_profile option" where
  "registry_get reg name = map_of (rg_agents reg) name"

definition registry_list :: "agent_registry \<Rightarrow> agent_profile list" where
  "registry_list reg = im_values (rg_agents reg)"

definition registry_merge :: "agent_registry \<Rightarrow> agent_registry \<Rightarrow> agent_registry" where
  "registry_merge reg other =
     \<lparr>rg_agents = fold (\<lambda>(name, profile). im_insert name profile) (rg_agents other) (rg_agents reg),
      rg_failed_loads = rg_failed_loads reg @ rg_failed_loads other\<rparr>"

section \<open>A project directory\<close>

record bus_toml =
  tb_timeout_rpc_secs :: u64
  tb_delivery_policy :: string
  tb_subscriber_buffer :: u64
  tb_max_concurrent_rpc :: u64
  tb_channel_buffer_size :: u64

definition bus_toml_default :: bus_toml where
  "bus_toml_default =
     \<lparr>tb_timeout_rpc_secs = 30, tb_delivery_policy = ''at_most_once'', tb_subscriber_buffer = 1024,
      tb_max_concurrent_rpc = 32, tb_channel_buffer_size = 1024\<rparr>"

text \<open>A field and its alias name the same field: giving both is an error.\<close>

definition bus_toml_of :: "json \<Rightarrow> bus_toml option" where
  "bus_toml_of t =
     (if \<not> is_table t \<or> json_get t ''max_concurrent_rpc'' \<noteq> None \<and> json_get t ''max_concurrent_calls'' \<noteq> None then None
      else
        do {
          timeout \<leftarrow> section_or t ''timeout_rpc_secs'' (tb_timeout_rpc_secs bus_toml_default) as_u64;
          policy \<leftarrow> section_or t ''delivery_policy'' (tb_delivery_policy bus_toml_default) as_str;
          buffer \<leftarrow> section_or t ''subscriber_buffer'' (tb_subscriber_buffer bus_toml_default) as_u64;
          calls \<leftarrow> (case json_get t ''max_concurrent_calls'' of
            Some v \<Rightarrow> as_u64 v
          | None \<Rightarrow> section_or t ''max_concurrent_rpc'' (tb_max_concurrent_rpc bus_toml_default) as_u64);
          channel \<leftarrow> section_or t ''channel_buffer_size'' (tb_channel_buffer_size bus_toml_default) as_u64;
          Some \<lparr>tb_timeout_rpc_secs = timeout, tb_delivery_policy = policy, tb_subscriber_buffer = buffer,
            tb_max_concurrent_rpc = calls, tb_channel_buffer_size = channel\<rparr>
        })"

definition bus_toml_load :: "'w profile_env \<Rightarrow> 'w \<Rightarrow> string \<Rightarrow> (string, bus_toml) res" where
  "bus_toml_load env w path = and_then_r (pv_read env w path) (from_toml env bus_toml_of)"

definition to_bus_config :: "bus_toml \<Rightarrow> bus_config" where
  "to_bus_config b =
     \<lparr>cf_timeout_rpc = unat (tb_timeout_rpc_secs b) * 10 ^ 9,
      cf_delivery_policy = (if tb_delivery_policy b = ''at_least_once'' then AtLeastOnce else AtMostOnce),
      cf_subscriber_buffer = unat (tb_subscriber_buffer b), cf_max_concurrent_rpc = unat (tb_max_concurrent_rpc b),
      cf_channel_buffer_size = unat (tb_channel_buffer_size b)\<rparr>"

definition load_bus_config :: "'w profile_env \<Rightarrow> 'w \<Rightarrow> string \<Rightarrow> (string, bus_toml) res" where
  "load_bus_config env w lattice_dir =
     (let path = path_join lattice_dir ''bus.toml''
      in if pv_exists env w path then bus_toml_load env w path else Inr bus_toml_default)"

record lattice_dir =
  ld_root :: string
  ld_bus_config :: bus_toml
  ld_registry :: agent_registry

definition ld_discover :: "'w profile_env \<Rightarrow> 'w \<Rightarrow> string \<Rightarrow> 'w \<times> (string, lattice_dir) res" where
  "ld_discover env w project_root =
     (let dir = path_join project_root ''.lattice''
      in if \<not> pv_exists env w dir then (w, Inl (''.lattice/ directory not found at '' @ dir))
         else case load_bus_config env w dir of
             Inl e \<Rightarrow> (w, Inl e)
           | Inr bus_conf \<Rightarrow>
               (case registry_load_dir env w (path_join dir ''agents'') of
                  (w1, Inl e) \<Rightarrow> (w1, Inl e)
                | (w1, Inr reg) \<Rightarrow> (w1, Inr \<lparr>ld_root = dir, ld_bus_config = bus_conf, ld_registry = reg\<rparr>)))"

definition discover_with_global :: "'w profile_env \<Rightarrow> 'w \<Rightarrow> string \<Rightarrow> string \<Rightarrow> 'w \<times> (string, lattice_dir) res" where
  "discover_with_global env w project_root global_dir =
     (let dir = path_join project_root ''.lattice''
      in if \<not> pv_exists env w dir
         then case registry_load_dir env w global_dir of
             (w1, Inl e) \<Rightarrow> (w1, Inl e)
           | (w1, Inr reg) \<Rightarrow> (w1, Inr \<lparr>ld_root = global_dir, ld_bus_config = bus_toml_default, ld_registry = reg\<rparr>)
         else case load_bus_config env w dir of
             Inl e \<Rightarrow> (w, Inl e)
           | Inr bus_conf \<Rightarrow>
               (case registry_load_dir env w global_dir of
                  (w1, Inl e) \<Rightarrow> (w1, Inl e)
                | (w1, Inr global_reg) \<Rightarrow>
                    (case registry_load_dir env w1 (path_join dir ''agents'') of
                       (w2, Inl e) \<Rightarrow> (w2, Inl e)
                     | (w2, Inr project_reg) \<Rightarrow>
                         (w2, Inr \<lparr>ld_root = dir, ld_bus_config = bus_conf, ld_registry = registry_merge global_reg project_reg\<rparr>))))"

definition shared_db_path :: "lattice_dir \<Rightarrow> string" where
  "shared_db_path d = path_join (path_join (ld_root d) ''memory'') ''shared.db''"

section \<open>What a loaded profile satisfies\<close>

fun opt_list :: "'a option \<Rightarrow> 'a list" where
  "opt_list None = []"
| "opt_list (Some x) = [x]"

definition profile_targets :: "agent_profile \<Rightarrow> handoff_target list" where
  "profile_targets p =
     concat (map (\<lambda>r. opt_list (rule_target r)) (hc_rules (ap_handoff p))) @ opt_list (hc_fallback (ap_handoff p))"

definition targets_ok :: "agent_profile \<Rightarrow> bool" where
  "targets_ok p \<longleftrightarrow> (\<forall>t \<in> set (profile_targets p). target_wf t)"

lemma set_opt_list [simp]: "x \<in> set (opt_list xs) \<longleftrightarrow> xs = Some x"
  by (cases xs) auto

lemma those_Some: "those ys = Some xs \<Longrightarrow> x \<in> set xs \<Longrightarrow> Some x \<in> set ys"
proof (induction ys arbitrary: xs)
  case (Cons y ys)
  then show ?case by (cases y) auto
qed simp

lemma list_of_Some: "list_of f v = Some xs \<Longrightarrow> x \<in> set xs \<Longrightarrow> \<exists>u. f u = Some x"
  by (fastforce simp: list_of_def Option.bind_eq_Some_conv dest: those_Some)

lemma section_or_Some: "section_or t k d f = Some x \<Longrightarrow> x = d \<or> (\<exists>v. f v = Some x)"
  by (auto simp: section_or_def split: option.splits)

lemma optional_Some: "optional t k f = Some (Some x) \<Longrightarrow> \<exists>v. f v = Some x"
  by (auto simp: optional_def dest: section_or_Some)

lemma required_Some: "required t k f = Some x \<Longrightarrow> \<exists>v. f v = Some x"
  by (auto simp: required_def Option.bind_eq_Some_conv)

lemma target_of_wf: "target_deserialize v = Some t \<Longrightarrow> target_wf t"
  by (auto simp: target_deserialize_def target_wf_parse)

lemma rule_of_target: "rule_of v = Some r \<Longrightarrow> rule_target r = Some t \<Longrightarrow> target_wf t"
  by (auto simp: rule_of_def Option.bind_eq_Some_conv dest!: optional_Some intro: target_of_wf)

lemma handoff_config_targets:
  assumes "handoff_config_of v = Some h"
  shows "\<forall>r \<in> set (hc_rules h). \<forall>t. rule_target r = Some t \<longrightarrow> target_wf t"
    and "hc_fallback h = Some t \<Longrightarrow> target_wf t"
proof -
  obtain rules fallback schema turns where *: "section_or v ''rules'' [] (list_of rule_of) = Some rules"
    "optional v ''fallback'' target_deserialize = Some fallback"
    "h = \<lparr>hc_rules = rules, hc_fallback = fallback, hc_output_schema = schema, hc_max_turns = turns\<rparr>"
    using assms by (auto simp: handoff_config_of_def Option.bind_eq_Some_conv split: if_splits)
  show "\<forall>r \<in> set (hc_rules h). \<forall>t. rule_target r = Some t \<longrightarrow> target_wf t"
    using section_or_Some [OF *(1)] *(3) by (auto dest!: list_of_Some intro: rule_of_target)
  show "hc_fallback h = Some t \<Longrightarrow> target_wf t" using *(2,3) by (auto dest!: optional_Some intro: target_of_wf)
qed

lemma agent_profile_of_targets:
  assumes "agent_profile_of v = Some p"
  shows "targets_ok p" and "ap_plugins p = None"
proof -
  obtain h where h: "section_or v ''handoff'' handoff_config_default handoff_config_of = Some h" "ap_handoff p = h"
    and plugins: "ap_plugins p = None"
    using assms by (auto simp: agent_profile_of_def Option.bind_eq_Some_conv)
  show "ap_plugins p = None" by (rule plugins)
  from section_or_Some [OF h(1)] show "targets_ok p"
    using h(2) handoff_config_targets
    by (fastforce simp: targets_ok_def profile_targets_def handoff_config_default_def)
qed

lemma from_toml_Inr: "from_toml env shape content = Inr p \<Longrightarrow> \<exists>t. shape t = Some p"
  by (auto simp: from_toml_def split: sum.splits option.splits)

text \<open>A loaded profile: its targets are well formed, and the entry of its plugin graph is one of its slots.\<close>

definition profile_ok :: "agent_profile \<Rightarrow> bool" where
  "profile_ok p \<longleftrightarrow> targets_ok p \<and>
     (\<forall>c. ap_plugins p = Some c \<longrightarrow> (\<exists>s \<in> set (pcf_slots c). ps_name s = pcf_entry c))"

lemma targets_ok_plugins [simp]: "targets_ok (p\<lparr>ap_plugins := c\<rparr>) = targets_ok p"
  by (simp add: targets_ok_def profile_targets_def)

lemma profile_load_ok:
  assumes "profile_load env w path = Inr p"
  shows "profile_ok p"
proof -
  obtain content raw where raw: "from_toml env agent_profile_raw_of content = Inr raw" and plugins: "with_plugins raw = Inr p"
    using assms by (auto simp: profile_load_def and_then_r_Inr_iff)
  obtain t where "agent_profile_raw_of t = Some raw" using from_toml_Inr [OF raw] by auto
  then have parsed: "agent_profile_of t = Some (fst raw)" by (auto simp: agent_profile_raw_of_def Option.bind_eq_Some_conv)
  have "targets_ok (fst raw)" "ap_plugins (fst raw) = None" using agent_profile_of_targets [OF parsed] by auto
  then show ?thesis using plugins
    by (auto simp: with_plugins_def profile_ok_def Let_def list_ex_iff split: prod.splits option.splits if_splits)
qed

lemma verified_parses:
  assumes "load_profile_verified env w path = (w1, Inr (p, h))"
  shows "\<exists>content. pv_read env w path = Inr content \<and> h = pv_hash env content \<and> from_toml env agent_profile_of content = Inr p"
  using assms by (auto simp: load_profile_verified_def Let_def split: sum.splits prod.splits option.splits if_splits)

lemma verified_ok:
  assumes "load_profile_verified env w path = (w1, Inr (p, h))"
  shows "profile_ok p" and "ap_plugins p = None"
proof -
  obtain content where content: "from_toml env agent_profile_of content = Inr p" using verified_parses [OF assms] by auto
  obtain t where "agent_profile_of t = Some p" using from_toml_Inr [OF content] by auto
  then have "targets_ok p" "ap_plugins p = None" by (rule agent_profile_of_targets)+
  then show "profile_ok p" "ap_plugins p = None" by (simp_all add: profile_ok_def)
qed

definition registry_ok :: "agent_registry \<Rightarrow> bool" where
  "registry_ok reg \<longleftrightarrow> im_wf (rg_agents reg) \<and>
     (\<forall>name p. registry_get reg name = Some p \<longrightarrow> acf_name (ap_agent p) = name \<and> profile_ok p)"

lemma registry_put_get:
  "registry_get (registry_put p reg) name = (if name = acf_name (ap_agent p) then Some p else registry_get reg name)"
  by (simp add: registry_get_def registry_put_def)

lemma registry_put_ok: "registry_ok reg \<Longrightarrow> profile_ok p \<Longrightarrow> registry_ok (registry_put p reg)"
  unfolding registry_ok_def registry_put_get by (auto simp: registry_put_def)

lemma registry_failed_simps [simp]:
  "registry_ok (reg\<lparr>rg_failed_loads := fs\<rparr>) = registry_ok reg"
  "registry_get (reg\<lparr>rg_failed_loads := fs\<rparr>) name = registry_get reg name"
  by (simp_all add: registry_ok_def registry_get_def)

lemma load_agent_dir_keeps:
  assumes "load_agent_dir env dir w reg = (w1, reg1)" and "Q reg"
    and "\<And>p h w2. load_profile_verified env w (path_join dir ''agent.toml'') = (w2, Inr (p, h)) \<Longrightarrow> Q (registry_put p reg)"
    and "\<And>fs. Q (reg\<lparr>rg_failed_loads := fs\<rparr>)"
  shows "Q reg1"
  using assms by (auto simp: load_agent_dir_def Let_def split: if_splits prod.splits sum.splits)

text \<open>What every load keeps holds of the registry of a directory.\<close>

lemma load_entries_induct:
  assumes "load_agent_entries env es w reg = (w1, Inr reg1)" and "Q reg"
    and "\<And>reg p h w path w2. Q reg \<Longrightarrow> load_profile_verified env w path = (w2, Inr (p, h)) \<Longrightarrow> Q (registry_put p reg)"
    and "\<And>reg fs. Q reg \<Longrightarrow> Q (reg\<lparr>rg_failed_loads := fs\<rparr>)"
  shows "Q reg1"
  using assms(1,2)
proof (induction es arbitrary: w reg)
  case (Cons e es)
  show ?case
  proof (cases e)
    case (AgentDir dir)
    obtain w2 reg2 where step: "load_agent_dir env dir w reg = (w2, reg2)" by fastforce
    have "Q reg2"
    proof (rule load_agent_dir_keeps [of env dir w reg w2 reg2 Q])
      show "Q (registry_put p reg)" if "load_profile_verified env w (path_join dir ''agent.toml'') = (w3, Inr (p, h))" for p h w3
        using Cons.prems(2) that by (rule assms(3))
    qed (use step Cons.prems assms(4) in auto)
    then show ?thesis using Cons AgentDir step by simp
  qed (use Cons in simp_all)
qed simp

lemma registry_get_merge:
  assumes "im_wf (rg_agents other)"
  shows "registry_get (registry_merge reg other) name =
    (case registry_get other name of Some p \<Rightarrow> Some p | None \<Rightarrow> registry_get reg name)"
proof -
  have "map_of (fold (\<lambda>(name, profile). im_insert name profile) xs m) name =
      (case map_of xs name of Some p \<Rightarrow> Some p | None \<Rightarrow> map_of m name)" if "im_wf xs" for xs and m :: "(string, agent_profile) imap"
    using that
  proof (induction xs arbitrary: m)
    case (Cons x xs)
    obtain k v where x: "x = (k, v)" by fastforce
    then have "map_of xs k = None" using Cons.prems by (simp add: map_of_eq_None_iff)
    then show ?case using Cons x by (auto split: option.splits)
  qed simp
  then show ?thesis using assms by (auto simp: registry_get_def registry_merge_def split: option.splits)
qed

section \<open>Loading profiles\<close>

lemma loaded_registry_ok:
  assumes "registry_load_dir env w dir = (w1, Inr reg)"
  shows "registry_ok reg \<and> (\<forall>name p. registry_get reg name = Some p \<longrightarrow> ap_plugins p = None)"
proof -
  let ?Q = "\<lambda>reg. registry_ok reg \<and> (\<forall>name p. registry_get reg name = Some p \<longrightarrow> ap_plugins p = None)"
  have empty: "?Q registry_empty" by (simp add: registry_ok_def registry_empty_def registry_get_def)
  show ?thesis
  proof (cases "pv_exists env w dir")
    case True
    then obtain es where "load_agent_entries env es w registry_empty = (w1, Inr reg)"
      using assms by (auto simp: registry_load_dir_def split: sum.splits)
    then show ?thesis
    proof (rule load_entries_induct [where Q = ?Q])
      show "?Q (registry_put p reg)" if "?Q reg" "load_profile_verified env w path = (w2, Inr (p, h))" for reg p h w path w2
        using that verified_ok [OF that(2)] registry_put_ok [of reg p] by (auto simp: registry_put_get)
    qed (use empty in auto)
  qed (use assms empty in \<open>auto simp: registry_load_dir_def\<close>)
qed

lemma merge_ok:
  assumes "registry_ok reg" and "registry_ok other"
  shows "registry_ok (registry_merge reg other)"
proof -
  have "im_wf m \<Longrightarrow> im_wf (fold (\<lambda>(name, profile). im_insert name profile) xs m)" for xs and m :: "(string, agent_profile) imap"
    by (induction xs arbitrary: m) auto
  then have "im_wf (rg_agents (registry_merge reg other))" using assms(1) by (simp add: registry_ok_def registry_merge_def)
  then show ?thesis
    using assms registry_get_merge [of other reg] by (auto simp: registry_ok_def split: option.splits)
qed

lemma discovered_registry_ok:
  assumes "ld_discover env w project = (w1, Inr d) \<or> discover_with_global env w project global = (w1, Inr d)"
  shows "registry_ok (ld_registry d)"
  using assms
proof
  assume "ld_discover env w project = (w1, Inr d)"
  then show ?thesis
    by (auto simp: ld_discover_def Let_def split: if_splits sum.splits prod.splits dest: loaded_registry_ok)
next
  assume "discover_with_global env w project global = (w1, Inr d)"
  then show ?thesis
    by (auto simp: discover_with_global_def Let_def split: if_splits sum.splits prod.splits dest!: loaded_registry_ok intro: merge_ok)
qed

text \<open>
  C23: Whatever a directory of agents holds, the registry loaded from it is well typed: every agent is filed
  under its own name, once; every hand-off target is well formed (a fork has at most ten names, each trimmed,
  non-empty and free of commas); and no agent has a plugin graph, because the verifying loader does not read
  that section.
\<close>

theorem registry_well_typed:
  assumes "registry_load_dir env w dir = (w1, Inr reg)"
  shows "registry_ok reg \<and> (\<forall>name p. registry_get reg name = Some p \<longrightarrow> ap_plugins p = None)"
  using assms by (rule loaded_registry_ok)


text \<open>
  The hash is recorded before the file is parsed. A first load of a file that is no valid profile fails,
  but leaves its hash behind, and once the mistake is corrected the loader reports tampering.
\<close>

theorem failed_first_load_pins_hash:
  assumes "pv_read env w path = Inr content" and "\<not> pv_exists env w (with_extension path ''toml.hash'')"
    and "pv_write env w (with_extension path ''toml.hash'') (pv_hex_encode env (pv_hash env content)) = (w1, Inr ())"
    and "from_toml env agent_profile_of content = Inl e"
    and "pv_exists env w2 (with_extension path ''toml.hash'')"
    and "pv_read env w2 (with_extension path ''toml.hash'') = Inr (pv_hex_encode env (pv_hash env content))"
    and "pv_hex_decode env (trim (pv_hex_encode env (pv_hash env content))) = Some (pv_hash env content)"
    and "pv_read env w2 path = Inr corrected" and "pv_hash env corrected \<noteq> pv_hash env content"
  shows "load_profile_verified env w path = (w1, Inl (ProfileToml e)) \<and>
    (\<exists>expected found. load_profile_verified env w2 path = (w2, Inl (Tampered path expected found)))"
  using assms by (simp add: load_profile_verified_def Let_def)

text \<open>
  A prompt that comes from a file comes from below the working directory: the name in the profile is
  relative and has no \<open>..\<close>, and the file that is read is the resolved path, links included, which starts with
  the working directory. (When the working directory cannot be determined the last check is left out.)
\<close>

theorem system_prompt_confined:
  assumes "system_prompt env w p = Inr text" and "sy_file (ap_system p) = Some f" and "pv_current_dir env w = Inr cwd"
  shows "\<not> is_absolute f \<and> \<not> str_contains f ''..'' \<and>
    (\<exists>canonical. pv_canonicalize env w f = Inr canonical \<and> path_starts_with canonical cwd \<and> pv_read env w canonical = Inr text)"
  using assms by (auto simp: system_prompt_def Let_def split: if_splits sum.splits)

text \<open>
  In a project directory, an agent defined there wins over a global one of the same name; every other
  global agent is still found.
\<close>

theorem project_agents_win:
  assumes "discover_with_global env w project_root global_dir = (w3, Inr d)"
    and "pv_exists env w (path_join project_root ''.lattice'')"
  shows "\<exists>w1 w2 global_reg project_reg.
    registry_load_dir env w global_dir = (w1, Inr global_reg) \<and>
    registry_load_dir env w1 (path_join (path_join project_root ''.lattice'') ''agents'') = (w2, Inr project_reg) \<and>
    (\<forall>name. registry_get (ld_registry d) name =
       (case registry_get project_reg name of Some p \<Rightarrow> Some p | None \<Rightarrow> registry_get global_reg name))"
proof -
  obtain w1 w2 global_reg project_reg where loads: "registry_load_dir env w global_dir = (w1, Inr global_reg)"
    "registry_load_dir env w1 (path_join (path_join project_root ''.lattice'') ''agents'') = (w2, Inr project_reg)"
    and d: "ld_registry d = registry_merge global_reg project_reg"
    using assms by (auto simp: discover_with_global_def Let_def split: sum.splits prod.splits)
  have "im_wf (rg_agents project_reg)"
  proof (cases "pv_exists env w1 (path_join (path_join project_root ''.lattice'') ''agents'')")
    case True
    then obtain es where "load_agent_entries env es w1 registry_empty = (w2, Inr project_reg)"
      using loads(2) by (auto simp: registry_load_dir_def split: sum.splits)
    then show ?thesis
      by (rule load_entries_induct [where Q = "\<lambda>r. im_wf (rg_agents r)"]) (auto simp: registry_empty_def registry_put_def)
  qed (use loads(2) in \<open>auto simp: registry_load_dir_def registry_empty_def\<close>)
  then show ?thesis using loads d registry_get_merge by auto
qed

section \<open>Witnesses\<close>

text \<open>A disk of a few files, a parser that knows one document, and a hash that is the text itself.\<close>

definition demo_profile_toml :: json where
  "demo_profile_toml =
     JObj [(''agent'', JObj [(''name'', JStr ''rev''), (''model'', JStr ''sonnet'')]),
       (''system'', JObj [(''prompt'', JStr ''hi''), (''file'', JStr ''p.md'')]),
       (''handoff'', JObj [(''fallback'', JStr ''fork:a, b'')])]"

definition demo_disk :: "(string, string) imap profile_env" where
  "demo_disk =
     \<lparr>pv_read = (\<lambda>w p. case map_of w p of Some s \<Rightarrow> Inr s | None \<Rightarrow> Inl ''no such file''),
      pv_write = (\<lambda>w p s. (im_insert p s w, Inr ())),
      pv_exists = (\<lambda>w p. map_of w p \<noteq> None),
      pv_read_dir = (\<lambda>w p. Inr [PlainEntry, AgentDir ''d/rev'']),
      pv_canonicalize = (\<lambda>w p. Inr (''/w/'' @ p)),
      pv_current_dir = (\<lambda>w. Inr ''/w''),
      pv_toml = (\<lambda>s. if s = ''good'' then Inr demo_profile_toml else Inl ''bad''),
      pv_shape_error = (\<lambda>t. ''shape''),
      pv_hash = (\<lambda>s. s), pv_hex_encode = (\<lambda>h. h), pv_hex_decode = Some\<rparr>"

definition demo_files :: "(string, string) imap" where
  "demo_files = [(''d'', []), (''p/.lattice'', []), (''d/rev/agent.toml'', ''good''), (''/w/p.md'', ''be kind'')]"

lemma demo_hash_path: "with_extension ''d/rev/agent.toml'' ''toml.hash'' = ''d/rev/agent.toml.hash''"
  by code_simp

lemma demo_disk_simps [simp]:
  "pv_read demo_disk w p = (case map_of w p of Some s \<Rightarrow> Inr s | None \<Rightarrow> Inl ''no such file'')"
  "pv_write demo_disk w p s = (im_insert p s w, Inr ())"
  "pv_exists demo_disk w p \<longleftrightarrow> map_of w p \<noteq> None"
  "pv_read_dir demo_disk w p = Inr [PlainEntry, AgentDir ''d/rev'']"
  "pv_canonicalize demo_disk w p = Inr (''/w/'' @ p)"
  "pv_current_dir demo_disk w = Inr ''/w''"
  "pv_hash demo_disk s = s" "pv_hex_encode demo_disk s = s" "pv_hex_decode demo_disk s = Some s"
  by (simp_all add: demo_disk_def)

text \<open>The agent of the demonstration directory: its fallback is a fork to two agents.\<close>

definition demo_reviewer :: agent_profile where
  "demo_reviewer =
     \<lparr>ap_agent = \<lparr>acf_name = ''rev'', acf_model = ''sonnet'', acf_description = [], acf_skippable = False, acf_tags = []\<rparr>,
      ap_system = \<lparr>sy_prompt = ''hi'', sy_file = Some ''p.md''\<rparr>, ap_tools = [], ap_behavior = behavior_config_default,
      ap_handoff = \<lparr>hc_rules = [], hc_fallback = Some (Fork [''a'', ''b'']), hc_output_schema = None, hc_max_turns = None\<rparr>,
      ap_bus = \<lparr>bp_subscribe = [], bp_publish = [], bp_rpc = []\<rparr>,
      ap_memory = \<lparr>mp_shared_read = [], mp_shared_write = []\<rparr>, ap_plugins = None\<rparr>"

lemma demo_target: "target_parse ''fork:a, b'' = Fork [''a'', ''b'']"
  by code_simp

lemma demo_parse: "from_toml demo_disk agent_profile_of ''good'' = Inr demo_reviewer"
  by (simp add: from_toml_def demo_disk_def demo_profile_toml_def agent_profile_of_def required_def section_or_def optional_def
    agent_config_of_def system_config_of_def handoff_config_of_def texts_or_none_def json_get_def as_str_def is_table_def
    as_object_def target_deserialize_def demo_target demo_reviewer_def)

lemma demo_verified:
  "load_profile_verified demo_disk demo_files ''d/rev/agent.toml'' =
     (demo_files @ [(''d/rev/agent.toml.hash'', ''good'')], Inr (demo_reviewer, ''good''))"
  by (simp add: load_profile_verified_def demo_hash_path Let_def demo_files_def demo_parse)

lemma demo_load:
  "registry_load_dir demo_disk demo_files ''d'' =
     (demo_files @ [(''d/rev/agent.toml.hash'', ''good'')], Inr \<lparr>rg_agents = [(''rev'', demo_reviewer)], rg_failed_loads = []\<rparr>)"
proof -
  have "path_join ''d/rev'' ''agent.toml'' = ''d/rev/agent.toml''" by code_simp
  moreover have "pv_exists demo_disk demo_files ''d''" "pv_exists demo_disk demo_files ''d/rev/agent.toml''"
    by (simp_all add: demo_files_def)
  ultimately show ?thesis
    by (simp add: registry_load_dir_def load_agent_dir_def demo_verified registry_put_def registry_empty_def Let_def
      demo_reviewer_def)
qed

theorem registry_well_typed_witness:
  "registry_ok \<lparr>rg_agents = [(''rev'', demo_reviewer)], rg_failed_loads = []\<rparr> \<and>
   Fork [''a'', ''b''] \<in> set (profile_targets demo_reviewer)"
  using registry_well_typed [OF demo_load] by (simp add: profile_targets_def demo_reviewer_def)


theorem failed_first_load_pins_hash_witness:
  "fst (load_profile_verified demo_disk [(''a'', ''bad'')] ''a'') = [(''a'', ''bad''), (''a.toml.hash'', ''bad'')] \<and>
   (\<exists>expected found. snd (load_profile_verified demo_disk [(''a'', ''good''), (''a.toml.hash'', ''bad'')] ''a'') =
      Inl (Tampered ''a'' expected found))"
proof -
  have names: "with_extension ''a'' ''toml.hash'' = ''a.toml.hash''" and trimmed: "trim ''bad'' = ''bad''" by code_simp+
  have parse: "from_toml demo_disk agent_profile_of ''bad'' = Inl ''bad''" by (simp add: from_toml_def demo_disk_def)
  let ?before = "[(''a'', ''bad'')]" and ?after = "[(''a'', ''bad''), (''a.toml.hash'', ''bad'')]"
    and ?later = "[(''a'', ''good''), (''a.toml.hash'', ''bad'')]"
  have "load_profile_verified demo_disk ?before ''a'' = (?after, Inl (ProfileToml ''bad'')) \<and>
      (\<exists>expected found. load_profile_verified demo_disk ?later ''a'' = (?later, Inl (Tampered ''a'' expected found)))"
    by (rule failed_first_load_pins_hash [where content = "''bad''" and corrected = "''good''"])
      (simp_all add: names trimmed parse)
  then show ?thesis by auto
qed

theorem system_prompt_confined_witness:
  "system_prompt demo_disk demo_files demo_reviewer = Inr ''be kind'' \<and> path_starts_with ''/w/p.md'' ''/w''"
proof -
  have facts: "is_absolute ''p.md'' = False" "str_contains ''p.md'' ''..'' = False" "path_starts_with ''/w/p.md'' ''/w''" by code_simp+
  have "system_prompt demo_disk demo_files demo_reviewer = Inr ''be kind''"
    by (simp add: system_prompt_def demo_reviewer_def demo_files_def facts)
  with system_prompt_confined [OF this, of "''p.md''" "''/w''"] show ?thesis by (simp add: demo_reviewer_def)
qed

text \<open>A project without agents of its own keeps the global one.\<close>

theorem project_agents_win_witness:
  "\<exists>d w. discover_with_global demo_disk demo_files ''p'' ''d'' = (w, Inr d) \<and> registry_get (ld_registry d) ''rev'' \<noteq> None"
proof -
  let ?w = "demo_files @ [(''d/rev/agent.toml.hash'', ''good'')]"
  have paths: "path_join ''p'' ''.lattice'' = ''p/.lattice''" "path_join ''p/.lattice'' ''bus.toml'' = ''p/.lattice/bus.toml''"
    "path_join ''p/.lattice'' ''agents'' = ''p/.lattice/agents''" by code_simp+
  have own: "registry_load_dir demo_disk ?w ''p/.lattice/agents'' = (?w, Inr registry_empty)"
    by (simp add: registry_load_dir_def demo_files_def)
  have found: "\<exists>d. discover_with_global demo_disk demo_files ''p'' ''d'' = (?w, Inr d)"
    using demo_load own by (simp add: discover_with_global_def load_bus_config_def paths Let_def) (simp add: demo_files_def)
  then obtain d where d: "discover_with_global demo_disk demo_files ''p'' ''d'' = (?w, Inr d)" by blast
  have "pv_exists demo_disk demo_files (path_join ''p'' ''.lattice'')" by (simp add: paths demo_files_def)
  from project_agents_win [OF d this] have "registry_get (ld_registry d) ''rev'' = Some demo_reviewer"
    using demo_load own by (simp add: paths registry_get_def registry_empty_def)
  with d show ?thesis by blast
qed

end
