(* ===== verification/Runner.thy ===== *)
theory Runner
  imports Profile
begin

text \<open>
  \<open>bus/runner.rs\<close>, \<open>bus/assembly.rs\<close> and \<open>bus/json_output.rs\<close>: an agent put together from its profile, and
  the run that turns its answer into JSON and checks it against the schema of the profile. JSON and JSON
  Schema are parameters; a validator maps a value to the texts of its errors.
\<close>

section \<open>The runner\<close>

definition MAX_SCHEMA_RETRIES :: nat where "MAX_SCHEMA_RETRIES = 2"

record agent_runner =
  ru_profile :: agent_profile
  ru_agent :: agent
  ru_shared_memory :: "(string \<Rightarrow> nat \<Rightarrow> memory_entry list) option"

definition runner_from_profile :: "agent_profile \<Rightarrow> agent \<Rightarrow> agent_runner" where
  "runner_from_profile profile ag = \<lparr>ru_profile = profile, ru_agent = ag, ru_shared_memory = None\<rparr>"

record runner_env =
  rn_from_str :: "string \<Rightarrow> (string, json) res"
  rn_pretty :: "json \<Rightarrow> string"
  rn_validator :: "json \<Rightarrow> (string, json \<Rightarrow> string list) res"

definition parse_json_or_content :: "runner_env \<Rightarrow> string \<Rightarrow> json" where
  "parse_json_or_content env content =
     (case rn_from_str env (strip_markdown_fence content) of
        Inr v \<Rightarrow> v
      | Inl _ \<Rightarrow> JObj [(''content'', JStr content)])"

definition looks_like_error :: "string \<Rightarrow> bool" where
  "looks_like_error content \<longleftrightarrow>
     (let trimmed_text = trim content; lower = to_lowercase trimmed_text
      in list_ex (\<lambda>p. prefix p trimmed_text)
           [''Error:'', ''error:'', ''Provider error:'', ''API error:'', ''Authentication error:'', ''Rate limit'',
            ''401'', ''403'', ''429'', ''500'', ''502'', ''503'', ''504''] \<or>
         list_ex (\<lambda>p. prefix p lower)
           [''rate limit'', ''authentication'', ''unauthorized'', ''forbidden'', ''api key'', ''invalid api key'',
            ''invalid request'', ''bad request'', ''server error'', ''internal server error'', ''service unavailable'',
            ''temporarily unavailable'', ''timeout'', ''request timeout'', ''connection refused'', ''connection reset'',
            ''connection closed'', ''network error'', ''dns'', ''tls'', ''certificate''] \<or>
         list_ex (str_contains lower)
           [quoted ''error'', ''context_length_exceeded'', ''rate_limit'', ''invalid_api_key''])"

text \<open>What the events of a run amount to, with and without a schema.\<close>

definition read_answer :: "runner_env \<Rightarrow> bool \<Rightarrow> loop_event list \<Rightarrow> (string, json) res" where
  "read_answer env has_schema events =
     (case error_messages events of
        message # _ \<Rightarrow> Inl (''Agent error: '' @ message)
      | [] \<Rightarrow>
          (let content = token_text events
           in if content = [] \<and> has_schema
              then Inl ''Agent produced empty output; output_schema requires structured response''
              else if looks_like_error content then Inl (''Agent returned error-like output: '' @ content)
              else case rn_from_str env (strip_markdown_fence content) of
                Inr v \<Rightarrow> Inr v
              | Inl _ \<Rightarrow>
                  (if has_schema then Inl ''Agent output is not valid JSON; output_schema requires structured output''
                   else Inr (JObj [(''_raw_text'', JBool True), (''content'', JStr content)]))))"

definition run_once ::
  "'w agent_env \<Rightarrow> runner_env \<Rightarrow> u32 \<Rightarrow> string \<Rightarrow> agent_runner \<Rightarrow> 'w \<Rightarrow> ('w \<times> agent_runner \<times> (string, json) res) option" where
  "run_once aenv env max_turns input ru w =
     map_option (\<lambda>(w1, ag1, events).
         (w1, ru\<lparr>ru_agent := ag1\<rparr>, read_answer env (hc_output_schema (ap_handoff (ru_profile ru)) \<noteq> None) events))
       (run aenv input (unat max_turns) (ru_agent ru) w)"

definition schema_hint :: "runner_env \<Rightarrow> string \<Rightarrow> json \<Rightarrow> string list \<Rightarrow> string" where
  "schema_hint env input schema errors =
     input @ [newline, newline] @ ''Your previous response did not match the required JSON format. Errors:'' @ [newline] @
     str_join [newline] (map (\<lambda>e. ''- '' @ e) (take 3 errors)) @ [newline, newline] @ ''Expected schema:'' @ [newline] @
     rn_pretty env schema @ [newline, newline] @
     ''Please correct your response. Return ONLY valid JSON that matches the schema, no markdown.''"

text \<open>
  The rounds of the schema check: \<open>once\<close> is one run of the agent, \<open>n\<close> the rounds that are left. The output
  of the last correction is not looked at.
\<close>

fun schema_rounds ::
  "(string \<Rightarrow> 'a \<Rightarrow> 'w \<Rightarrow> ('w \<times> 'a \<times> (string, json) res) option) \<Rightarrow> (json \<Rightarrow> string list) \<Rightarrow> (string list \<Rightarrow> string) \<Rightarrow>
     string \<Rightarrow> nat \<Rightarrow> json \<Rightarrow> 'a \<Rightarrow> 'w \<Rightarrow> ('w \<times> 'a \<times> (string, json) res) option" where
  "schema_rounds once validate hint failed 0 out a w = Some (w, a, Inl failed)"
| "schema_rounds once validate hint failed (Suc n) out a w =
     (case validate out of
        [] \<Rightarrow> Some (w, a, Inr out)
      | errors \<Rightarrow>
          (case once (hint errors) a w of
             None \<Rightarrow> None
           | Some (w1, a1, Inl e) \<Rightarrow> Some (w1, a1, Inl e)
           | Some (w1, a1, Inr out1) \<Rightarrow> schema_rounds once validate hint failed n out1 a1 w1))"

definition runner_schema :: "runner_env \<Rightarrow> agent_profile \<Rightarrow> (string, (json \<times> (json \<Rightarrow> string list)) option) res" where
  "runner_schema env profile =
     (case hc_output_schema (ap_handoff profile) of
        None \<Rightarrow> Inr None
      | Some s \<Rightarrow>
          (case rn_from_str env s of
             Inl e \<Rightarrow> Inl (''output_schema is not valid JSON for '' @ acf_name (ap_agent profile) @ '': '' @ e)
           | Inr schema \<Rightarrow>
               (case rn_validator env schema of
                  Inl e \<Rightarrow> Inl (''output_schema is not a valid JSON Schema for '' @ acf_name (ap_agent profile) @ '': '' @ e)
                | Inr validate \<Rightarrow> Inr (Some (schema, validate)))))"

definition schema_failed :: "agent_profile \<Rightarrow> string" where
  "schema_failed profile =
     ''Agent '' @ in_quotes (acf_name (ap_agent profile)) @ '' output still fails schema validation after '' @
     show_nat MAX_SCHEMA_RETRIES @ '' retries''"

definition runner_run ::
  "'w agent_env \<Rightarrow> runner_env \<Rightarrow> string \<Rightarrow> u32 \<Rightarrow> agent_runner \<Rightarrow> 'w \<Rightarrow> ('w \<times> agent_runner \<times> (string, json) res) option" where
  "runner_run aenv env input max_turns ru w =
     (case runner_schema env (ru_profile ru) of
        Inl e \<Rightarrow> Some (w, ru, Inl e)
      | Inr schema \<Rightarrow>
          (case run_once aenv env max_turns input ru w of
             None \<Rightarrow> None
           | Some (w1, ru1, Inl e) \<Rightarrow> Some (w1, ru1, Inl e)
           | Some (w1, ru1, Inr out) \<Rightarrow>
               (case schema of
                  None \<Rightarrow> Some (w1, ru1, Inr out)
                | Some (schema_json, validate) \<Rightarrow>
                    schema_rounds (run_once aenv env max_turns) validate (schema_hint env input schema_json)
                      (schema_failed (ru_profile ru)) MAX_SCHEMA_RETRIES out ru1 w1)))"

section \<open>Assembly\<close>

record 'w assembly_env =
  as_files :: "'w profile_env"
  as_http_client :: "(string, unit) res"
  as_agent_env :: "'w executor \<Rightarrow> 'w agent_env"
  as_tool_order :: "'w registered_tool list \<Rightarrow> 'w registered_tool list"
  as_recall :: "'w \<Rightarrow> string \<Rightarrow> nat \<Rightarrow> memory_entry list"

definition tool_enabled :: "agent_profile \<Rightarrow> tool_definition \<Rightarrow> bool" where
  "tool_enabled profile td \<longleftrightarrow> ap_tools profile = [] \<or> td_name td \<in> set (ap_tools profile)"

definition enabled_defaults :: "agent_profile \<Rightarrow> tool_definition list" where
  "enabled_defaults profile = filter (tool_enabled profile) default_tool_definitions"

definition assembled_tools ::
  "('w registered_tool list \<Rightarrow> 'w registered_tool list) \<Rightarrow> agent_profile \<Rightarrow> 'w tool_registry option \<Rightarrow> tool_definition list" where
  "assembled_tools order profile tools =
     (case tools of
        None \<Rightarrow> enabled_defaults profile
      | Some reg \<Rightarrow>
          (if tools_is_empty reg then enabled_defaults profile
           else enabled_defaults profile @
             filter (tool_enabled profile)
               (filter (\<lambda>d. \<not> list_ex (\<lambda>et. td_name et = td_name d) (enabled_defaults profile)) (tools_definitions order reg))))"

definition assembled_executor :: "'w assembly_env \<Rightarrow> 'w tool_registry option \<Rightarrow> (string, 'w executor) res" where
  "assembled_executor env tools =
     (case as_http_client env of
        Inl e \<Rightarrow> Inl (''failed to build DefaultToolExecutor: '' @ e)
      | Inr _ \<Rightarrow> Inr (executor_new ''.'' (case tools of Some reg \<Rightarrow> if tools_is_empty reg then None else Some reg | None \<Rightarrow> None)))"

text \<open>The runner and the executor its agent calls; an agent without tools has none.\<close>

definition assemble_agent ::
  "'w assembly_env \<Rightarrow> agent_profile \<Rightarrow> resolved_model \<Rightarrow> bool \<Rightarrow> 'w tool_registry option \<Rightarrow> 'w \<Rightarrow>
     (string, agent_runner \<times> 'w executor) res" where
  "assemble_agent env profile resolved memory tools w =
     and_then_r (system_prompt (as_files env) w profile) (\<lambda>prompt.
     and_then_r (assembled_executor env tools) (\<lambda>ex.
       let aenv = as_agent_env env ex;
           ag = agent_set_system_prompt (agent_new aenv resolved) prompt;
           offered = assembled_tools (as_tool_order env) profile tools;
           ag = (if offered = [] then ag else ag\<lparr>ag_tools := offered, ag_has_executor := True\<rparr>);
           recalled = (if memory then Some (as_recall env w) else None);
           ag = (case recalled of Some m \<Rightarrow> with_memory aenv ag m | None \<Rightarrow> ag)
       in Inr ((runner_from_profile profile ag)\<lparr>ru_shared_memory := recalled\<rparr>, ex)))"

section \<open>The rounds return\<close>

locale one_shot =
  fixes once :: "string \<Rightarrow> 'a \<Rightarrow> 'w \<Rightarrow> ('w \<times> 'a \<times> (string, json) res) option"
    and calls :: "'w \<Rightarrow> nat"
    and keeps :: "'a \<Rightarrow> bool"
    and budget :: nat
  assumes once_returns: "keeps a \<Longrightarrow> \<exists>w' a' r. once input a w = Some (w', a', r) \<and> keeps a' \<and> calls w' \<le> calls w + budget"
begin

lemma schema_rounds_return:
  "keeps a \<Longrightarrow> \<exists>w' a' r. schema_rounds once validate hint failed n out a w = Some (w', a', r) \<and> keeps a' \<and>
    calls w' \<le> calls w + n * budget"
proof (induction n arbitrary: out a w)
  case (Suc n)
  show ?case
  proof (cases "validate out")
    case (Cons e es)
    obtain w1 a1 r where once: "once (hint (e # es)) a w = Some (w1, a1, r)" "keeps a1" "calls w1 \<le> calls w + budget"
      using once_returns [OF Suc.prems] by metis
    show ?thesis
    proof (cases r)
      case (Inr out1)
      obtain w' a' r' where "schema_rounds once validate hint failed n out1 a1 w1 = Some (w', a', r')" "keeps a'"
        "calls w' \<le> calls w1 + n * budget"
        using Suc.IH [OF once(2)] by metis
      with once Inr Cons show ?thesis by simp
    qed (use once Cons in simp)
  qed (use Suc.prems in simp)
qed simp

end

definition runner_keeps :: "'w agent_env \<Rightarrow> ('w \<Rightarrow> nat) \<Rightarrow> agent_runner \<Rightarrow> bool" where
  "runner_keeps aenv calls ru \<longleftrightarrow> unit_random aenv \<and> counts_requests aenv calls \<and> ag_retry (ru_agent ru) = retry_default"

lemma run_once_returns:
  assumes "runner_keeps aenv calls ru"
  shows "\<exists>w' ru' r. run_once aenv env max_turns input ru w = Some (w', ru', r) \<and> runner_keeps aenv calls ru' \<and>
    calls w' \<le> calls w + 12 * unat max_turns"
proof -
  obtain w' ag' es emitted where "run_rounds aenv input (length (st_messages (ag_state (ru_agent ru)))) True (unat max_turns) (ru_agent ru) w =
      Some (w', ag', es, emitted)" "ag_retry ag' = retry_default" "calls w' \<le> calls w + 12 * unat max_turns"
    using assms run_rounds_bounded [of aenv calls "ru_agent ru"] unfolding runner_keeps_def by blast
  then show ?thesis using assms by (simp add: run_once_def run_def run_with_observer_def runner_keeps_def)
qed

interpretation runner_once: one_shot "run_once aenv env max_turns" calls "runner_keeps aenv calls" "12 * unat max_turns"
  for aenv :: "'w agent_env" and env :: runner_env and max_turns :: u32 and calls :: "'w \<Rightarrow> nat"
  by unfold_locales (rule run_once_returns)

lemma schema_rounds_valid:
  "schema_rounds once validate hint failed n out a w = Some (w', a', Inr v) \<Longrightarrow> validate v = []"
  by (induction n arbitrary: out a w) (auto split: list.splits option.splits sum.splits)

lemma run_once_profile: "run_once aenv env max_turns input ru w = Some (w', ru', r) \<Longrightarrow> ru_profile ru' = ru_profile ru"
  by (auto simp: run_once_def)

lemma runner_schema_None: "runner_schema env p = Inr None \<longleftrightarrow> hc_output_schema (ap_handoff p) = None"
  by (auto simp: runner_schema_def split: option.splits sum.splits)

lemma runner_run_returns:
  assumes "runner_keeps aenv calls ru"
  shows "\<exists>w' ru' r. runner_run aenv env input max_turns ru w = Some (w', ru', r) \<and> runner_keeps aenv calls ru' \<and>
    calls w' \<le> calls w + 36 * unat max_turns"
proof (cases "runner_schema env (ru_profile ru)")
  case (Inr schema)
  obtain w1 ru1 r1 where once: "run_once aenv env max_turns input ru w = Some (w1, ru1, r1)" "runner_keeps aenv calls ru1"
    "calls w1 \<le> calls w + 12 * unat max_turns"
    using run_once_returns [OF assms] by metis
  show ?thesis
  proof (cases r1)
    case (Inr out)
    obtain sj validate where s: "schema = None \<or> schema = Some (sj, validate)" by (cases schema) auto
    obtain w' ru' r' where "schema_rounds (run_once aenv env max_turns) validate (schema_hint env input sj)
        (schema_failed (ru_profile ru)) MAX_SCHEMA_RETRIES out ru1 w1 = Some (w', ru', r')" "runner_keeps aenv calls ru'"
      "calls w' \<le> calls w1 + MAX_SCHEMA_RETRIES * (12 * unat max_turns)"
      using runner_once.schema_rounds_return [OF once(2)] by metis
    with s once Inr \<open>runner_schema env (ru_profile ru) = Inr schema\<close> show ?thesis
      by (auto simp: runner_run_def MAX_SCHEMA_RETRIES_def)
  qed (use once Inr in \<open>simp add: runner_run_def\<close>)
qed (use assms in \<open>simp add: runner_run_def\<close>)

section \<open>Running a profile\<close>

text \<open>
  Running a profile returns: there is no panic and no endless correction, and the model is asked at most
  thirty-six times per turn (the run and two corrections, each of at most twelve requests per turn).
\<close>

theorem runner_run_bounded:
  assumes "unit_random aenv" and "counts_requests aenv calls" and "ag_retry (ru_agent ru) = retry_default"
  shows "\<exists>w' ru' r. runner_run aenv env input max_turns ru w = Some (w', ru', r) \<and> calls w' \<le> calls w + 36 * unat max_turns"
  using runner_run_returns [of aenv calls ru] assms unfolding runner_keeps_def by blast

text \<open>
  C26: When the profile names a schema, an output that the runner hands on has passed it: the text of the
  schema is JSON, it is a valid schema, and the validator found no error in the output.
\<close>

theorem runner_output_valid:
  assumes "runner_run aenv env input max_turns ru w = Some (w', ru', Inr v)"
    and "hc_output_schema (ap_handoff (ru_profile ru)) = Some s"
  shows "\<exists>schema validate. rn_from_str env s = Inr schema \<and> rn_validator env schema = Inr validate \<and> validate v = []"
proof -
  obtain schema validate where s: "rn_from_str env s = Inr schema" "rn_validator env schema = Inr validate"
    "runner_schema env (ru_profile ru) = Inr (Some (schema, validate))"
    using assms by (auto simp: runner_run_def runner_schema_def split: sum.splits)
  then have "validate v = []"
    using assms(1) schema_rounds_valid by (fastforce simp: runner_run_def split: option.splits sum.splits)
  with s show ?thesis by blast
qed

text \<open>
  The last correction is asked for and thrown away. When the first output and the first correction fail
  the schema, the run fails, whatever the second correction is.
\<close>

theorem last_correction_ignored:
  assumes "runner_schema env (ru_profile ru) = Inr (Some (schema, validate))"
    and "run_once aenv env max_turns input ru w = Some (w1, ru1, Inr out1)" and "validate out1 \<noteq> []"
    and "run_once aenv env max_turns (schema_hint env input schema (validate out1)) ru1 w1 = Some (w2, ru2, Inr out2)"
    and "validate out2 \<noteq> []"
    and "run_once aenv env max_turns (schema_hint env input schema (validate out2)) ru2 w2 = Some (w3, ru3, Inr out3)"
  shows "runner_run aenv env input max_turns ru w = Some (w3, ru3, Inl (schema_failed (ru_profile ru)))"
proof -
  obtain e es where "validate out1 = e # es" using assms(3) by (cases "validate out1") auto
  moreover obtain f fs where "validate out2 = f # fs" using assms(5) by (cases "validate out2") auto
  ultimately show ?thesis using assms by (simp add: runner_run_def MAX_SCHEMA_RETRIES_def numeral_2_eq_2)
qed

text \<open>
  An assembled agent is offered only tools that its profile enables, each name once, and a built-in tool
  is never replaced by a registered one of the same name.
\<close>

theorem assembled_tools_allowed:
  assumes "\<And>xs. mset (order xs) = mset xs" and "distinct (map td_name (tools_definitions order reg))"
  shows "distinct (map td_name (assembled_tools order profile (Some reg))) \<and>
    (\<forall>td \<in> set (assembled_tools order profile (Some reg)). tool_enabled profile td) \<and>
    (\<forall>td \<in> set (assembled_tools order profile (Some reg)).
       td \<in> set default_tool_definitions \<or>
       td \<in> rt_definition ` set (im_values reg) \<and> td_name td \<notin> td_name ` set (enabled_defaults profile))"
proof -
  let ?new = "filter (\<lambda>d. \<not> list_ex (\<lambda>et. td_name et = td_name d) (enabled_defaults profile)) (tools_definitions order reg)"
  have defaults: "distinct (map td_name (enabled_defaults profile))"
  proof -
    have "distinct (map td_name default_tool_definitions)" by code_simp
    then show ?thesis unfolding enabled_defaults_def by (rule distinct_map_filter)
  qed
  have new: "distinct (map td_name (filter (tool_enabled profile) ?new))"
    using assms(2) by (intro distinct_map_filter)
  have apart: "td_name ` set (enabled_defaults profile) \<inter> td_name ` set ?new = {}"
    by (auto simp: list_ex_iff image_iff)
  have from_reg: "set (tools_definitions order reg) = rt_definition ` set (im_values reg)"
    using assms(1) [of "im_values reg"] by (auto simp: tools_definitions_def dest: mset_eq_setD)
  show ?thesis
    using defaults new apart from_reg
    by (auto simp: assembled_tools_def enabled_defaults_def list_ex_iff)
qed

section \<open>Witnesses\<close>

text \<open>The prompt of a round always compiles: the registry gives as many budgets as sections.\<close>

lemma prepare_round_compiles: "snd (prepare_round env input start ag) = None"
  by (auto simp: prepare_round_def collect_def compile_def Let_def split: prod.splits)

lemma run_scripted_text:
  assumes "script w = Inr [Token s, Done reason None]"
  shows "\<exists>ag'. run (scripted script) input (Suc n) ag w = Some (Suc w, ag', [TokenEvent s, DoneEvent None])"
proof -
  let ?start = "length (st_messages (ag_state ag))"
  obtain ag1 where p: "prepare_round (scripted script) input ?start ag = (ag1, None)"
    using prepare_round_compiles by (metis prod.collapse)
  have "chat_with_retry (scripted script) ag1 w = Some (Suc w, Inr [Token s, Done reason None])"
    using assms by (simp add: chat_with_retry_def chat_loop.simps scripted_def)
  then obtain ag2 where "run_chat (scripted script) ag1 w = Some (Suc w, ag2, [TokenEvent s, DoneEvent None])"
    by (simp add: run_chat_def collect_stream_def acc_emit_def Let_def)
  then have "request_round (scripted script) True ag1 w =
      Some (Suc w, ag2, [TokenEvent s, DoneEvent None], [TokenEvent s, DoneEvent None])"
    by (simp add: request_round_def MAX_STREAM_RETRIES_def numeral_2_eq_2 retryable_error_def)
  then show ?thesis using p
    by (simp add: run_def run_with_observer_def required_calls_def)
qed

lemma run_once_scripted:
  assumes "script w = Inr [Token s, Done reason None]" and "unat max_turns = Suc n"
  shows "\<exists>ru'. run_once (scripted script) env max_turns input ru w =
      Some (Suc w, ru', read_answer env (hc_output_schema (ap_handoff (ru_profile ru)) \<noteq> None) [TokenEvent s, DoneEvent None]) \<and>
    ru_profile ru' = ru_profile ru"
proof -
  obtain ag' where "run (scripted script) input (Suc n) (ru_agent ru) w = Some (Suc w, ag', [TokenEvent s, DoneEvent None])"
    using run_scripted_text [where script = script and w = w, OF assms(1)] by metis
  then show ?thesis using assms(2) by (simp add: run_once_def)
qed

text \<open>JSON of one digit; the schema accepts the one.\<close>

definition demo_runner_env :: runner_env where
  "demo_runner_env =
     \<lparr>rn_from_str = (\<lambda>s. if s = ''1'' then Inr (JBool True) else if s = ''2'' then Inr (JBool False)
        else if s = ''S'' then Inr JNull else Inl ''bad''),
      rn_pretty = (\<lambda>v. ''s''), rn_validator = (\<lambda>schema. Inr (\<lambda>v. if v = JBool True then [] else [''not one'']))\<rparr>"

definition demo_profile_runner :: "string option \<Rightarrow> agent_runner" where
  "demo_profile_runner schema =
     runner_from_profile (demo_reviewer\<lparr>ap_handoff := (ap_handoff demo_reviewer)\<lparr>hc_output_schema := schema\<rparr>\<rparr>) demo_agent"

lemma demo_profile_runner_simps [simp]:
  "ru_agent (demo_profile_runner schema) = demo_agent" "hc_output_schema (ap_handoff (ru_profile (demo_profile_runner schema))) = schema"
  by (simp_all add: demo_profile_runner_def runner_from_profile_def)

lemma demo_answers:
  "read_answer demo_runner_env b [TokenEvent ''1'', DoneEvent None] = Inr (JBool True)"
  "read_answer demo_runner_env b [TokenEvent ''2'', DoneEvent None] = Inr (JBool False)"
proof -
  have "\<not> looks_like_error ''1''" "\<not> looks_like_error ''2''" "strip_markdown_fence ''1'' = ''1''" "strip_markdown_fence ''2'' = ''2''"
    by code_simp+
  then show "read_answer demo_runner_env b [TokenEvent ''1'', DoneEvent None] = Inr (JBool True)"
    "read_answer demo_runner_env b [TokenEvent ''2'', DoneEvent None] = Inr (JBool False)"
    by (simp_all add: read_answer_def error_messages_def token_text_def Let_def demo_runner_env_def map_filter_simps)
qed

lemma demo_once:
  assumes "script w = Inr [Token s, Done ''stop'' None]" and "\<And>b. read_answer demo_runner_env b [TokenEvent s, DoneEvent None] = Inr v"
  shows "\<exists>ru'. run_once (scripted script) demo_runner_env 1 input ru w = Some (Suc w, ru', Inr v)"
proof -
  obtain ru' where "run_once (scripted script) demo_runner_env 1 input ru w = Some (Suc w, ru',
      read_answer demo_runner_env (hc_output_schema (ap_handoff (ru_profile ru)) \<noteq> None) [TokenEvent s, DoneEvent None])"
    using run_once_scripted [where script = script and w = w and max_turns = 1 and n = 0 and env = demo_runner_env
        and input = input and ru = ru, OF assms(1)] by auto
  then show ?thesis unfolding assms(2) by blast
qed

lemma demo_schema:
  "runner_schema demo_runner_env (ru_profile (demo_profile_runner (Some ''S''))) =
     Inr (Some (JNull, \<lambda>v. if v = JBool True then [] else [''not one'']))"
  by (simp add: runner_schema_def demo_runner_env_def)

theorem runner_run_bounded_witness:
  "\<exists>w' ru' r. runner_run (scripted (\<lambda>_. Inr [Token ''2'', Done ''stop'' None])) demo_runner_env ''hi'' 1 (demo_profile_runner (Some ''S'')) 0 =
     Some (w', ru', r) \<and> w' \<le> 36"
  using runner_run_bounded [OF scripted_ok(1,2), of "demo_profile_runner (Some ''S'')" "\<lambda>_. Inr [Token ''2'', Done ''stop'' None]"
      demo_runner_env "''hi''" 1 0]
  by (simp add: demo_agent_def agent_new_def)

theorem runner_output_valid_witness:
  "\<exists>ru' schema validate. runner_run (scripted (\<lambda>_. Inr [Token ''1'', Done ''stop'' None])) demo_runner_env ''hi'' 1
       (demo_profile_runner (Some ''S'')) 0 = Some (1, ru', Inr (JBool True)) \<and>
     rn_validator demo_runner_env schema = Inr validate \<and> validate (JBool True) = []"
proof -
  obtain ru' where "run_once (scripted (\<lambda>_. Inr [Token ''1'', Done ''stop'' None])) demo_runner_env 1 ''hi''
      (demo_profile_runner (Some ''S'')) 0 = Some (Suc 0, ru', Inr (JBool True))"
    using demo_once [where script = "\<lambda>_. Inr [Token ''1'', Done ''stop'' None]" and w = 0, OF refl demo_answers(1)] by metis
  then have r: "runner_run (scripted (\<lambda>_. Inr [Token ''1'', Done ''stop'' None])) demo_runner_env ''hi'' 1
      (demo_profile_runner (Some ''S'')) 0 = Some (1, ru', Inr (JBool True))"
    by (simp add: runner_run_def demo_schema MAX_SCHEMA_RETRIES_def numeral_2_eq_2)
  from runner_output_valid [OF this, of "''S''"] r show ?thesis by auto
qed

text \<open>The third answer would pass; it is not looked at.\<close>

theorem last_correction_ignored_witness:
  "\<exists>ru'. runner_run (scripted (\<lambda>n. Inr [Token (if n = 2 then ''1'' else ''2''), Done ''stop'' None])) demo_runner_env ''hi'' 1
     (demo_profile_runner (Some ''S'')) 0 = Some (3, ru', Inl (schema_failed (ru_profile (demo_profile_runner (Some ''S'')))))"
proof -
  let ?script = "\<lambda>n :: nat. Inr [Token (if n = 2 then ''1'' else ''2''), Done ''stop'' None] :: (lattice_error, stream_event list) res"
  let ?once = "run_once (scripted ?script) demo_runner_env 1"
  let ?hint = "schema_hint demo_runner_env ''hi'' JNull [''not one'']"
  obtain ru1 where r1: "?once ''hi'' (demo_profile_runner (Some ''S'')) 0 = Some (Suc 0, ru1, Inr (JBool False))"
    using demo_once [where script = ?script and w = 0 and s = "''2''", OF _ demo_answers(2)] by auto
  obtain ru2 where r2: "?once ?hint ru1 (Suc 0) = Some (Suc (Suc 0), ru2, Inr (JBool False))"
    using demo_once [where script = ?script and w = "Suc 0" and s = "''2''", OF _ demo_answers(2)] by auto
  obtain ru3 where r3: "?once ?hint ru2 (Suc (Suc 0)) = Some (Suc (Suc (Suc 0)), ru3, Inr (JBool True))"
    using demo_once [where script = ?script and w = "Suc (Suc 0)" and s = "''1''", OF _ demo_answers(1)] by auto
  show ?thesis
    using last_correction_ignored [OF demo_schema r1 _ _ _, of "Suc (Suc 0)" ru2 "JBool False" "Suc (Suc (Suc 0))" ru3 "JBool True"] r2 r3
    by (auto simp: numeral_3_eq_3)
qed

text \<open>Only reading is enabled; the registered tool of the same name does not replace the built-in one.\<close>

theorem assembled_tools_allowed_witness:
  "let reg = [(''read_file'', \<lparr>rt_definition = tool_def ''read_file'' ''evil'' JNull, rt_handler = McpBacked [] []\<rparr>),
       (''mine'', \<lparr>rt_definition = tool_def ''mine'' ''ok'' JNull, rt_handler = McpBacked [] []\<rparr>),
       (''other'', \<lparr>rt_definition = tool_def ''other'' ''off'' JNull, rt_handler = McpBacked [] []\<rparr>)] :: unit tool_registry;
     offered = assembled_tools (\<lambda>ts. ts) (demo_reviewer\<lparr>ap_tools := [''read_file'', ''mine'']\<rparr>) (Some reg)
   in distinct (map td_name offered) \<and> tool_def ''read_file'' ''evil'' JNull \<notin> set offered"
proof -
  let ?reg = "[(''read_file'', \<lparr>rt_definition = tool_def ''read_file'' ''evil'' JNull, rt_handler = McpBacked [] []\<rparr>),
       (''mine'', \<lparr>rt_definition = tool_def ''mine'' ''ok'' JNull, rt_handler = McpBacked [] []\<rparr>),
       (''other'', \<lparr>rt_definition = tool_def ''other'' ''off'' JNull, rt_handler = McpBacked [] []\<rparr>)] :: unit tool_registry"
  let ?p = "demo_reviewer\<lparr>ap_tools := [''read_file'', ''mine'']\<rparr>"
  have "distinct (map td_name (tools_definitions (\<lambda>ts. ts) ?reg))"
    by (simp add: tools_definitions_def tool_def_def)
  note offered = assembled_tools_allowed [OF refl this, of ?p]
  let ?evil = "tool_def ''read_file'' ''evil'' JNull"
  have name: "td_name ?evil \<in> td_name ` set (enabled_defaults ?p)"
    by (simp add: enabled_defaults_def tool_enabled_def default_tool_definitions_def tool_def_def)
  have other: "?evil \<notin> set default_tool_definitions"
    by (simp add: default_tool_definitions_def tool_def_def)
  have "?evil \<notin> set (assembled_tools (\<lambda>ts. ts) ?p (Some ?reg))"
    using offered [THEN conjunct2, THEN conjunct2, THEN bspec, of ?evil] name other by blast
  with offered show ?thesis unfolding Let_def by blast
qed

end
