(* ===== verification/Pipeline.thy ===== *)
theory Pipeline
  imports Runner
begin

text \<open>
  \<open>bus/pipeline.rs\<close>: a run of agents that hand over to each other by the rules of their profiles, with forks
  into parallel branches, and the dry run that checks the graph of profiles beforehand. The effects of the
  agents and of the branches that run beside each other go through a world of type \<open>'w\<close>.
\<close>

section \<open>Data\<close>

definition DEFAULT_MAX_MEMORY_ENTRIES :: nat where "DEFAULT_MAX_MEMORY_ENTRIES = 1000"
definition DEFAULT_MAX_MEMORY_BYTES :: nat where "DEFAULT_MAX_MEMORY_BYTES = 10 * 1024 * 1024"
definition DEFAULT_FORK_TIMEOUT_SECS :: u64 where "DEFAULT_FORK_TIMEOUT_SECS = 120"
definition DEFAULT_MAX_PIPELINE_ITERATIONS :: nat where "DEFAULT_MAX_PIPELINE_ITERATIONS = 20"

datatype pipeline_event =
  AgentStarted string nat
| AgentCompleted string string "handoff_target option" u64
| HandoffEvent string handoff_target
| ForkEvent string "string list"
| PipelineCompleted nat u64
| PipelineError string string bool

record agent_result =
  ar_agent_name :: string
  ar_output :: json
  ar_next :: "handoff_target option"
  ar_duration_ms :: u64

record agent_error =
  er_agent_name :: string
  er_message :: string
  er_skippable :: bool

record pipeline_result =
  pn_results :: "agent_result list"
  pn_errors :: "agent_error list"
  pn_completed :: bool
  pn_skipped :: "string list"
  pn_duration_ms :: u64

record 'w pipeline =
  pp_name :: string
  pp_registry :: agent_registry
  pp_memory :: bool
  pp_event_bus :: bool
  pp_plugins :: "plugin_registry option"
  pp_tools :: "'w tool_registry option"
  pp_credentials :: "(string, string) imap option"
  pp_max_memory_entries :: nat
  pp_max_memory_bytes :: nat
  pp_max_iterations :: nat

definition pipeline_new :: "string \<Rightarrow> agent_registry \<Rightarrow> bool \<Rightarrow> bool \<Rightarrow> 'w pipeline" where
  "pipeline_new name reg memory event_bus =
     \<lparr>pp_name = name, pp_registry = reg, pp_memory = memory, pp_event_bus = event_bus, pp_plugins = None, pp_tools = None,
      pp_credentials = None, pp_max_memory_entries = DEFAULT_MAX_MEMORY_ENTRIES,
      pp_max_memory_bytes = DEFAULT_MAX_MEMORY_BYTES, pp_max_iterations = DEFAULT_MAX_PIPELINE_ITERATIONS\<rparr>"

text \<open>
  What changes during a run: the world, the shared router (it caches credentials), the counters of memory
  entries, which belong to the pipeline and last beyond the run, and what the run reports.
\<close>

record 'w pipeline_state =
  px_world :: 'w
  px_router :: "model_router option"
  px_entry_count :: nat
  px_entry_bytes :: nat
  px_results :: "agent_result list"
  px_errors :: "agent_error list"
  px_skipped :: "string list"

text \<open>
  The outside. Branches of a fork run beside each other: \<open>pw_branch_world\<close> is the world as a branch meets it,
  \<open>pw_branch_late\<close> whether the timer drops it, \<open>pw_join\<close> the world once the branches are joined.
\<close>

record 'w pipeline_env =
  pw_assembly :: "'w assembly_env"
  pw_runner :: runner_env
  pw_dag :: "'w dag_env"
  pw_print :: "json \<Rightarrow> string"
  pw_emit :: "'w \<Rightarrow> pipeline_event \<Rightarrow> 'w"
  pw_save :: "'w \<Rightarrow> memory_entry \<Rightarrow> 'w"
  pw_millis :: "'w \<Rightarrow> 'w \<Rightarrow> u64"
  pw_branch_world :: "'w \<Rightarrow> nat \<Rightarrow> 'w"
  pw_branch_late :: "'w \<Rightarrow> nat \<Rightarrow> bool"
  pw_join :: "'w \<Rightarrow> 'w option list \<Rightarrow> 'w"
  pw_join_error :: "'w \<Rightarrow> nat \<Rightarrow> string"

datatype loop_outcome = Advance string string | ChainEnd | Halted

section \<open>Steps\<close>

definition emit :: "'w pipeline_env \<Rightarrow> 'w pipeline \<Rightarrow> pipeline_event \<Rightarrow> 'w pipeline_state \<Rightarrow> 'w pipeline_state" where
  "emit env p e s = (if pp_event_bus p then s\<lparr>px_world := pw_emit env (px_world s) e\<rparr> else s)"

definition push_error :: "agent_error \<Rightarrow> 'w pipeline_state \<Rightarrow> 'w pipeline_state" where
  "push_error e s = s\<lparr>px_errors := px_errors s @ [e]\<rparr>"

definition pipeline_resolve ::
  "'w pipeline_env \<Rightarrow> 'w pipeline \<Rightarrow> model_router option \<Rightarrow> string \<Rightarrow> model_router option \<times> (lattice_error, resolved_model) res" where
  "pipeline_resolve env p router model =
     (let ext = dn_router_ext (pw_dag env); cat = dn_catalog (pw_dag env)
      in case router of
           Some r \<Rightarrow> (let (r1, res) = resolve ext r model None in (Some r1, res))
         | None \<Rightarrow>
             (None, snd (resolve ext
                (case pp_credentials p of Some creds \<Rightarrow> with_credentials cat creds | None \<Rightarrow> router_new cat) model None)))"

definition handle_fallback :: "agent_profile \<Rightarrow> agent_registry \<Rightarrow> string option" where
  "handle_fallback profile reg =
     (case hc_fallback (ap_handoff profile) of
        None \<Rightarrow> None
      | Some (Single name) \<Rightarrow> if registry_get reg name \<noteq> None then Some name else None
      | Some (Fork names) \<Rightarrow>
          (case names of
             [] \<Rightarrow> None
           | first # _ \<Rightarrow> if registry_get reg first \<noteq> None then Some first else None))"

definition handle_error ::
  "'w pipeline_env \<Rightarrow> 'w pipeline \<Rightarrow> string \<Rightarrow> agent_profile \<Rightarrow> string \<Rightarrow> 'w pipeline_state \<Rightarrow> 'w pipeline_state \<times> loop_outcome" where
  "handle_error env p message profile input s =
     (let name = acf_name (ap_agent profile); skippable = acf_skippable (ap_agent profile);
          err = \<lparr>er_agent_name = name, er_message = message, er_skippable = skippable\<rparr>;
          s1 = emit env p (PipelineError name message skippable) s
      in if skippable
         then (push_error err (s1\<lparr>px_skipped := px_skipped s1 @ [name]\<rparr>),
               case handle_fallback profile (pp_registry p) of Some next_name \<Rightarrow> Advance next_name input | None \<Rightarrow> Halted)
         else (push_error err s1, Halted))"

definition next_target :: "'w pipeline_env \<Rightarrow> agent_profile \<Rightarrow> json \<Rightarrow> handoff_target option" where
  "next_target env profile out =
     (if hc_rules (ap_handoff profile) = [] then hc_fallback (ap_handoff profile)
      else eval_rules (pw_print env) (hc_rules (ap_handoff profile)) out)"

definition session_entry :: "agent_profile \<Rightarrow> string \<Rightarrow> nat \<Rightarrow> memory_entry" where
  "session_entry profile text ms =
     (let name = acf_name (ap_agent profile)
      in \<lparr>me_id = name @ ''-'' @ show_nat ms, me_kind = SessionLog, me_session_id = name,
          me_summary = name @ '': '' @ show_nat (length text) @ '' chars output'', me_content = text,
          me_tags = acf_tags (ap_agent profile), me_created_at = show_nat ms\<rparr>)"

definition save_session :: "'w pipeline_env \<Rightarrow> 'w pipeline \<Rightarrow> agent_profile \<Rightarrow> json \<Rightarrow> 'w pipeline_state \<Rightarrow> 'w pipeline_state" where
  "save_session env p profile out s =
     (if \<not> pp_memory p then s
      else
        let text = pw_print env out; entry_size = length text
        in if px_entry_count s \<ge> pp_max_memory_entries p then s
           else if px_entry_bytes s + entry_size > pp_max_memory_bytes p then s
           else
             let (w1, ms) = pe_now_ms (dn_world (pw_dag env)) (px_world s)
             in s\<lparr>px_entry_count := px_entry_count s + 1, px_entry_bytes := px_entry_bytes s + entry_size,
                  px_world := pw_save env w1 (session_entry profile text ms)\<rparr>)"

section \<open>Forks\<close>

type_synonym branch_result = "(agent_error, json \<times> u64 \<times> handoff_target option) res"

text \<open>One branch, run from the world it meets; \<^const>\<open>None\<close> when it panics.\<close>

definition fork_branch ::
  "'w pipeline_env \<Rightarrow> 'w pipeline \<Rightarrow> string \<Rightarrow> string \<Rightarrow> u32 \<Rightarrow> model_router option \<Rightarrow> 'w \<Rightarrow>
     model_router option \<times> ('w \<times> branch_result) option" where
  "fork_branch env p name input max_turns router w =
     (case registry_get (pp_registry p) name of
        None \<Rightarrow>
          (router, Some (w, Inl \<lparr>er_agent_name = name,
             er_message = ''Agent '' @ in_quotes name @ '' not found in registry'', er_skippable = False\<rparr>))
      | Some profile \<Rightarrow>
          (let failed = (\<lambda>message. Inl \<lparr>er_agent_name = name, er_message = message, er_skippable = acf_skippable (ap_agent profile)\<rparr>)
           in case pipeline_resolve env p router (acf_model (ap_agent profile)) of
                (router1, Inl e) \<Rightarrow> (router1, Some (w, failed (''Resolve failed: '' @ lattice_error_display e)))
              | (router1, Inr resolved) \<Rightarrow>
                  (router1,
                   case assemble_agent (pw_assembly env) profile resolved (pp_memory p) (pp_tools p) w of
                     Inl e \<Rightarrow> Some (w, failed (''Assembly failed: '' @ e))
                   | Inr (ru, ex) \<Rightarrow>
                       (case runner_run (as_agent_env (pw_assembly env) ex) (pw_runner env) input
                               (unwrap_or (hc_max_turns (ap_handoff profile)) max_turns) ru w of
                          None \<Rightarrow> None
                        | Some (w1, _, Inl e) \<Rightarrow> Some (w1, failed e)
                        | Some (w1, _, Inr out) \<Rightarrow>
                            Some (w1, Inr (out, pw_millis env w w1, next_target env profile out))))))"

definition branch_timed_out :: "string \<Rightarrow> agent_error" where
  "branch_timed_out name =
     \<lparr>er_agent_name = name,
      er_message = ''fork branch '' @ in_quotes name @ '' timed out after '' @ show_nat (unat DEFAULT_FORK_TIMEOUT_SECS) @ ''s'',
      er_skippable = False\<rparr>"

definition branch_panicked :: "string \<Rightarrow> agent_error" where
  "branch_panicked e =
     \<lparr>er_agent_name = ''fork-async-task-error'', er_message = ''fork async task panicked: '' @ e, er_skippable = False\<rparr>"

definition branch_output ::
  "'w pipeline_env \<Rightarrow> 'w pipeline \<Rightarrow> string \<Rightarrow> u32 \<Rightarrow> 'w \<Rightarrow> model_router option \<Rightarrow> nat \<Rightarrow> string \<Rightarrow>
     model_router option \<times> 'w option \<times> string \<times> branch_result" where
  "branch_output env p input max_turns w router i name =
     (case fork_branch env p name input max_turns router (pw_branch_world env w i) of
        (router1, r) \<Rightarrow>
          (router1,
           if pw_branch_late env w i then (None, name, Inl (branch_timed_out name))
           else case r of
             None \<Rightarrow> (None, ''fork-async-task-error'', Inl (branch_panicked (pw_join_error env w i)))
           | Some (w1, out) \<Rightarrow> (Some w1, name, out)))"

text \<open>The branches in the order of the targets; the shared router is locked by one branch at a time.\<close>

fun branch_outputs ::
  "'w pipeline_env \<Rightarrow> 'w pipeline \<Rightarrow> string \<Rightarrow> u32 \<Rightarrow> 'w \<Rightarrow> model_router option \<Rightarrow> nat \<Rightarrow> string list \<Rightarrow>
     model_router option \<times> ('w option \<times> string \<times> branch_result) list" where
  "branch_outputs env p input max_turns w router i [] = (router, [])"
| "branch_outputs env p input max_turns w router i (name # names) =
     (let (router1, out) = branch_output env p input max_turns w router i name;
          (router2, outs) = branch_outputs env p input max_turns w router1 (Suc i) names
      in (router2, out # outs))"

text \<open>Joining in order: an error of an agent that may not be skipped aborts the branches that are left.\<close>

fun await_branches ::
  "(string \<times> branch_result) list \<Rightarrow> agent_result list \<times> agent_error list \<times> string list" where
  "await_branches [] = ([], [], [])"
| "await_branches ((name, Inr (out, ms, next)) # bs) =
     (let (rs, es, sk) = await_branches bs
      in (\<lparr>ar_agent_name = name, ar_output = out, ar_next = next, ar_duration_ms = ms\<rparr> # rs, es, sk))"
| "await_branches ((name, Inl err) # bs) =
     (if er_skippable err
      then let (rs, es, sk) = await_branches bs in (rs, err # es, er_agent_name err # sk)
      else ([], [err], []))"

definition run_fork ::
  "'w pipeline_env \<Rightarrow> 'w pipeline \<Rightarrow> string list \<Rightarrow> string \<Rightarrow> u32 \<Rightarrow> 'w pipeline_state \<Rightarrow> 'w pipeline_state \<times> agent_result list" where
  "run_fork env p targets input max_turns s =
     (let w = px_world s;
          (router1, outs) = branch_outputs env p input max_turns w (px_router s) 0 targets;
          (rs, es, sk) = await_branches (map snd outs)
      in (s\<lparr>px_world := pw_join env w (map fst outs), px_router := router1, px_errors := px_errors s @ es,
            px_skipped := px_skipped s @ sk\<rparr>, rs))"

definition merge_fork_outputs :: "agent_result list \<Rightarrow> json" where
  "merge_fork_outputs rs = JObj (foldl (\<lambda>m r. obj_insert (ar_agent_name r) (ar_output r) m) [] rs)"

text \<open>Where a fork leads: the first branch that says so, or the fallback of the agent that forked.\<close>

definition fork_next :: "agent_profile \<Rightarrow> agent_result list \<Rightarrow> handoff_target option" where
  "fork_next profile rs =
     (case List.map_filter ar_next rs of t # _ \<Rightarrow> Some t | [] \<Rightarrow> hc_fallback (ap_handoff profile))"

definition after_fork ::
  "'w pipeline_env \<Rightarrow> agent_profile \<Rightarrow> agent_result list \<Rightarrow> 'w pipeline_state \<Rightarrow> 'w pipeline_state \<times> loop_outcome" where
  "after_fork env profile rs s =
     (let name = acf_name (ap_agent profile)
      in if rs = []
         then (push_error \<lparr>er_agent_name = name, er_message = ''All fork branches failed'',
             er_skippable = acf_skippable (ap_agent profile)\<rparr> s, ChainEnd)
         else
           let merged = pw_print env (merge_fork_outputs rs)
           in case fork_next profile rs of
                Some (Single n) \<Rightarrow> (s, Advance n merged)
              | Some (Fork names) \<Rightarrow>
                  (case names of
                     first # _ \<Rightarrow> (s, Advance first merged)
                   | [] \<Rightarrow> (push_error \<lparr>er_agent_name = name, er_message = ''Fork target has no agent names'', er_skippable = False\<rparr> s,
                            ChainEnd))
              | None \<Rightarrow> (s, ChainEnd))"

section \<open>The run\<close>

definition route_after_success ::
  "'w pipeline_env \<Rightarrow> 'w pipeline \<Rightarrow> agent_profile \<Rightarrow> json \<Rightarrow> u64 \<Rightarrow> u32 \<Rightarrow> 'w pipeline_state \<Rightarrow> 'w pipeline_state \<times> loop_outcome" where
  "route_after_success env p profile out ms max_turns s =
     (let name = acf_name (ap_agent profile); target = next_target env profile out; text = pw_print env out;
          s1 = emit env p (AgentCompleted name (take_chars 500 text) target ms) (save_session env p profile out s);
          s2 = s1\<lparr>px_results := px_results s1 @ [\<lparr>ar_agent_name = name, ar_output = out, ar_next = target, ar_duration_ms = ms\<rparr>]\<rparr>
      in case target of
           Some (Single n) \<Rightarrow> (emit env p (HandoffEvent name (Single n)) s2, Advance n text)
         | Some (Fork targets) \<Rightarrow>
             (let (s3, rs) = run_fork env p targets text max_turns (emit env p (ForkEvent name targets) s2)
              in after_fork env profile rs s3)
         | None \<Rightarrow> (s2, ChainEnd))"

definition pipeline_dag :: "'w pipeline_env \<Rightarrow> 'w pipeline \<Rightarrow> plugins_config \<Rightarrow> plugin_registry \<Rightarrow> 'w dag_runner" where
  "pipeline_dag env p config plugins =
     \<lparr>dr_config = config, dr_plugins = plugins, dr_tools = unwrap_or (pp_tools p) [], dr_tool_access = pp_tools p,
      dr_retry = retry_default, dr_memory = (if pp_memory p then Some (pw_save env) else None),
      dr_credentials = pp_credentials p\<rparr>"

text \<open>One agent, through its plugin graph or through its runner; \<^const>\<open>None\<close> when it panics.\<close>

definition run_agent ::
  "'w pipeline_env \<Rightarrow> 'w pipeline \<Rightarrow> agent_profile \<Rightarrow> string \<Rightarrow> u32 \<Rightarrow> resolved_model \<Rightarrow> 'w pipeline_state \<Rightarrow>
     ('w pipeline_state \<times> (string, json) res) option" where
  "run_agent env p profile input max_turns resolved s =
     (case (ap_plugins profile, pp_plugins p) of
        (Some config, Some plugins) \<Rightarrow>
          (case dag_run (pw_dag env) (pipeline_dag env p config plugins) input (acf_model (ap_agent profile)) (px_world s) (px_router s) of
             (w1, router1, DagPanicked _) \<Rightarrow> None
           | (w1, router1, DagReturned (Inl e)) \<Rightarrow> Some (s\<lparr>px_world := w1, px_router := router1\<rparr>, Inl (dag_error_display e))
           | (w1, router1, DagReturned (Inr v)) \<Rightarrow> Some (s\<lparr>px_world := w1, px_router := router1\<rparr>, Inr v))
      | _ \<Rightarrow>
          (case assemble_agent (pw_assembly env) profile resolved (pp_memory p) (pp_tools p) (px_world s) of
             Inl e \<Rightarrow> Some (s, Inl e)
           | Inr (ru, ex) \<Rightarrow>
               map_option (\<lambda>(w1, _, r). (s\<lparr>px_world := w1\<rparr>, r))
                 (runner_run (as_agent_env (pw_assembly env) ex) (pw_runner env) input max_turns ru (px_world s))))"

text \<open>One turn of the loop: the agent that is due and its input.\<close>

definition pipeline_turn ::
  "'w pipeline_env \<Rightarrow> 'w pipeline \<Rightarrow> string \<Rightarrow> string \<Rightarrow> 'w pipeline_state \<Rightarrow> ('w pipeline_state \<times> loop_outcome) option" where
  "pipeline_turn env p current input s =
     (case registry_get (pp_registry p) current of
        None \<Rightarrow>
          Some (push_error \<lparr>er_agent_name = current, er_message = ''Agent '' @ in_quotes current @ '' not found in registry'',
            er_skippable = False\<rparr> s, Halted)
      | Some profile \<Rightarrow>
          (let max_turns = unwrap_or (hc_max_turns (ap_handoff profile)) 10;
               s1 = emit env p (AgentStarted (acf_name (ap_agent profile)) (length input)) s
           in case pipeline_resolve env p (px_router s1) (acf_model (ap_agent profile)) of
                (router1, Inl e) \<Rightarrow>
                  Some (handle_error env p (''Resolve failed: '' @ lattice_error_display e) profile input (s1\<lparr>px_router := router1\<rparr>))
              | (router1, Inr resolved) \<Rightarrow>
                  (let s2 = s1\<lparr>px_router := router1\<rparr>
                   in if ap_plugins profile \<noteq> None \<and> pp_plugins p = None
                      then
                        let message = ''Agent profile declares plugins but Pipeline has no plugin_registry '' @ em_dash @
                              '' call Pipeline::with_plugin_registry() before run()''
                        in Some (push_error \<lparr>er_agent_name = current, er_message = message, er_skippable = False\<rparr>
                             (emit env p (PipelineError current message False) s2), Halted)
                      else case run_agent env p profile input max_turns resolved s2 of
                        None \<Rightarrow> None
                      | Some (s3, Inr out) \<Rightarrow>
                          Some (route_after_success env p profile out (pw_millis env (px_world s) (px_world s3)) max_turns s3)
                      | Some (s3, Inl message) \<Rightarrow> Some (handle_error env p message profile input s3))))"

fun pipeline_loop ::
  "'w pipeline_env \<Rightarrow> 'w pipeline \<Rightarrow> nat \<Rightarrow> string \<Rightarrow> string \<Rightarrow> 'w pipeline_state \<Rightarrow> ('w pipeline_state \<times> bool) option" where
  "pipeline_loop env p 0 current input s = Some (s, False)"
| "pipeline_loop env p (Suc n) current input s =
     (case pipeline_turn env p current input s of
        None \<Rightarrow> None
      | Some (s1, Advance next_agent next_input) \<Rightarrow> pipeline_loop env p n next_agent next_input s1
      | Some (s1, ChainEnd) \<Rightarrow> Some (s1, True)
      | Some (s1, Halted) \<Rightarrow> Some (s1, False))"

definition pipeline_run ::
  "'w pipeline_env \<Rightarrow> 'w pipeline \<Rightarrow> string \<Rightarrow> string \<Rightarrow> 'w pipeline_state \<Rightarrow> ('w pipeline_state \<times> pipeline_result) option" where
  "pipeline_run env p start_agent input s =
     (case pipeline_loop env p (pp_max_iterations p) start_agent input
             (s\<lparr>px_results := [], px_errors := [], px_skipped := []\<rparr>) of
        None \<Rightarrow> None
      | Some (s1, completed) \<Rightarrow>
          (let ms = pw_millis env (px_world s) (px_world s1);
               s2 = emit env p (PipelineCompleted (length (px_results s1)) ms) s1
           in Some (s2, \<lparr>pn_results = px_results s2, pn_errors = px_errors s2, pn_completed = completed,
                pn_skipped = px_skipped s2, pn_duration_ms = ms\<rparr>)))"

section \<open>The dry run\<close>

record dry_run_report =
  dy_valid :: bool
  dy_agents_in_chain :: "string list"
  dy_reachable_end :: bool
  dy_circular :: bool
  dy_issues :: "string list"

definition rule_names :: "agent_profile \<Rightarrow> string list list" where
  "rule_names profile =
     map (\<lambda>r. case rule_target r of Some t \<Rightarrow> agent_names t | None \<Rightarrow> []) (hc_rules (ap_handoff profile))"

definition fallback_names :: "agent_profile \<Rightarrow> string list" where
  "fallback_names profile = (case hc_fallback (ap_handoff profile) of Some t \<Rightarrow> agent_names t | None \<Rightarrow> [])"

text \<open>The names an agent may hand over to, by its rules and its fallback.\<close>

definition target_names :: "agent_profile \<Rightarrow> string list" where
  "target_names profile = concat (rule_names profile) @ fallback_names profile"

definition has_outgoing :: "agent_profile \<Rightarrow> bool" where
  "has_outgoing profile \<longleftrightarrow>
     list_ex (\<lambda>r. rule_target r \<noteq> None) (hc_rules (ap_handoff profile)) \<or> hc_fallback (ap_handoff profile) \<noteq> None"

definition rule_issue :: "agent_profile \<Rightarrow> nat \<Rightarrow> string \<Rightarrow> string" where
  "rule_issue profile i name =
     ''Agent '' @ in_quotes (acf_name (ap_agent profile)) @ '' rule['' @ show_nat i @ ''] targets '' @ in_quotes name @
     '' which is not registered''"

definition fallback_issue :: "agent_profile \<Rightarrow> string \<Rightarrow> string" where
  "fallback_issue profile name =
     ''Agent '' @ in_quotes (acf_name (ap_agent profile)) @ '' fallback '' @ in_quotes name @ '' is not registered''"

definition target_issues :: "agent_registry \<Rightarrow> agent_profile \<Rightarrow> string list" where
  "target_issues reg profile =
     concat (map (\<lambda>(i, names). map (rule_issue profile i) (filter (\<lambda>n. registry_get reg n = None) names))
       (enumerate 0 (rule_names profile))) @
     map (fallback_issue profile) (filter (\<lambda>n. registry_get reg n = None) (fallback_names profile))"

text \<open>One agent taken from the queue, which has not been visited before.\<close>

definition visit_agent :: "agent_registry \<Rightarrow> string \<Rightarrow> dry_run_report \<Rightarrow> dry_run_report" where
  "visit_agent reg current report =
     (case registry_get reg current of
        None \<Rightarrow> report\<lparr>dy_issues := dy_issues report @ [''Agent '' @ in_quotes current @ '' not found in registry'']\<rparr>
      | Some profile \<Rightarrow>
          (let name = acf_name (ap_agent profile);
               chain = (if name \<in> set (dy_agents_in_chain report) then dy_agents_in_chain report
                        else dy_agents_in_chain report @ [name])
           in report\<lparr>dy_agents_in_chain := chain, dy_issues := dy_issues report @ target_issues reg profile,
                dy_reachable_end := dy_reachable_end report \<or> \<not> has_outgoing profile\<rparr>))"

definition next_in_queue :: "agent_registry \<Rightarrow> string \<Rightarrow> string list \<Rightarrow> string list" where
  "next_in_queue reg current visited =
     (case registry_get reg current of
        None \<Rightarrow> []
      | Some profile \<Rightarrow> filter (\<lambda>n. registry_get reg n \<noteq> None \<and> n \<notin> set visited) (target_names profile))"

definition unvisited :: "agent_registry \<Rightarrow> string list \<Rightarrow> string set" where
  "unvisited reg visited = {n \<in> fst ` set (rg_agents reg). n \<notin> set visited}"

function explore :: "agent_registry \<Rightarrow> string list \<Rightarrow> string list \<Rightarrow> dry_run_report \<Rightarrow> string list \<times> dry_run_report" where
  "explore reg [] visited report = (visited, report)"
| "explore reg (current # rest) visited report =
     (if current \<in> set visited then explore reg rest visited report
      else explore reg (rest @ next_in_queue reg current (current # visited)) (current # visited) (visit_agent reg current report))"
  by pat_completeness auto
termination
proof (relation "measures [\<lambda>(reg, queue, visited, report). card (unvisited reg visited), \<lambda>(reg, queue, visited, report). length queue]",
    goal_cases)
  case (3 reg current rest visited report)
  show ?case
  proof (cases "registry_get reg current")
    case None
    then have "current \<notin> fst ` set (rg_agents reg)" by (simp add: registry_get_def map_of_eq_None_iff)
    then have "unvisited reg (current # visited) = unvisited reg visited" by (auto simp: unvisited_def)
    with None show ?thesis by (simp add: next_in_queue_def)
  next
    case (Some profile)
    then have "current \<in> fst ` set (rg_agents reg)" by (force simp: registry_get_def dest: map_of_SomeD)
    then have "unvisited reg (current # visited) \<subset> unvisited reg visited" using 3 by (auto simp: unvisited_def)
    then have "card (unvisited reg (current # visited)) < card (unvisited reg visited)"
      by (intro psubset_card_mono) (simp_all add: unvisited_def)
    then show ?thesis by simp
  qed
qed simp_all

declare explore.simps [simp del]

text \<open>
  \<open>can_reach_self\<close>: the set of visited names is shared by the calls; a name leaves it again when its agent was
  searched without success, but a name that is not registered stays. The recursion is as deep as there are
  registered agents, plus one: that is the fuel; without fuel the result is \<^const>\<open>None\<close>.
\<close>

fun reach_self :: "nat \<Rightarrow> agent_registry \<Rightarrow> string \<Rightarrow> string list \<Rightarrow> (bool \<times> string list) option"
and reach_any :: "nat \<Rightarrow> agent_registry \<Rightarrow> string list \<Rightarrow> string list \<Rightarrow> (bool \<times> string list) option" where
  "reach_self 0 reg agent visited = None"
| "reach_self (Suc n) reg agent visited =
     (if agent \<in> set visited then Some (True, visited)
      else case registry_get reg agent of
        None \<Rightarrow> Some (False, agent # visited)
      | Some profile \<Rightarrow>
          (case reach_any n reg (target_names profile) (agent # visited) of
             None \<Rightarrow> None
           | Some (True, visited1) \<Rightarrow> Some (True, visited1)
           | Some (False, visited1) \<Rightarrow> Some (False, removeAll agent visited1)))"
| "reach_any n reg [] visited = Some (False, visited)"
| "reach_any n reg (t # ts) visited =
     (case reach_self n reg t visited of
        None \<Rightarrow> None
      | Some (True, visited1) \<Rightarrow> Some (True, visited1)
      | Some (False, visited1) \<Rightarrow> reach_any n reg ts visited1)"

definition can_reach_self :: "agent_registry \<Rightarrow> string \<Rightarrow> bool" where
  "can_reach_self reg agent = (case reach_self (length (rg_agents reg) + 2) reg agent [] of Some (r, _) \<Rightarrow> r | None \<Rightarrow> False)"

definition check_cycle :: "agent_registry \<Rightarrow> string \<Rightarrow> dry_run_report \<Rightarrow> dry_run_report" where
  "check_cycle reg name report =
     (if can_reach_self reg name
      then report\<lparr>dy_circular := True,
        dy_issues := dy_issues report @ [''Circular routing: '' @ in_quotes name @ '' can reach itself through handoff chain'']\<rparr>
      else report)"

definition dry_run :: "agent_registry \<Rightarrow> string \<Rightarrow> dry_run_report" where
  "dry_run reg start_agent =
     (let report = snd (explore reg [start_agent] []
            \<lparr>dy_valid = False, dy_agents_in_chain = [], dy_reachable_end = False, dy_circular = False, dy_issues = []\<rparr>);
          report = fold (check_cycle reg) (dy_agents_in_chain report) report;
          report = (if length (dy_agents_in_chain report) \<ge> 100
            then report\<lparr>dy_issues := dy_issues report @ [''Chain exceeded 100 agents (infinite loop?)'']\<rparr> else report)
      in report\<lparr>dy_valid := dy_issues report = [] \<and> dy_reachable_end report \<and> \<not> dy_circular report\<rparr>)"

end
