(* ===== verification/Pipeline_Run.thy ===== *)
theory Pipeline_Run
  imports Pipeline
begin

text \<open>
  What a run of the pipeline guarantees, and what a dry run promises about it: the graph that the rules and
  fallbacks span, the agents a run can arrive at, and the limits a run keeps.
\<close>

section \<open>The graph of the profiles\<close>

definition hands_over :: "agent_registry \<Rightarrow> string \<Rightarrow> string \<Rightarrow> bool" where
  "hands_over reg a b \<longleftrightarrow> (\<exists>p. registry_get reg a = Some p \<and> b \<in> set (target_names p))"

lemma finite_unvisited [simp]: "finite (unvisited reg visited)"
  by (simp add: unvisited_def)

lemma unvisited_antimono: "set vs \<subseteq> set vs' \<Longrightarrow> card (unvisited reg vs') \<le> card (unvisited reg vs)"
  by (intro card_mono) (auto simp: unvisited_def)

lemma unvisited_registered:
  assumes "registry_get reg a = Some p" and "a \<notin> set vs"
  shows "card (unvisited reg (a # vs)) < card (unvisited reg vs)"
proof (rule psubset_card_mono)
  have "a \<in> fst ` set (rg_agents reg)" using assms(1) by (force simp: registry_get_def dest: map_of_SomeD)
  then show "unvisited reg (a # vs) \<subset> unvisited reg vs" using assms(2) by (auto simp: unvisited_def)
qed simp

subsection \<open>The search for cycles\<close>

lemma reach_visited:
  "reach_self n reg a vs = Some (False, vs') \<Longrightarrow> set vs \<subseteq> set vs'"
  "reach_any n reg ts vs = Some (False, vs') \<Longrightarrow> set vs \<subseteq> set vs'"
proof (induction n reg a vs and n reg ts vs arbitrary: vs' and vs' rule: reach_self_reach_any.induct)
  case (2 n reg a vs)
  then show ?case by (fastforce split: if_splits option.splits prod.splits bool.splits)
next
  case (4 n reg t ts vs)
  then show ?case by (fastforce split: option.splits prod.splits bool.splits)
qed simp_all

lemma reach_enough_fuel:
  "card (unvisited reg vs) + 2 \<le> n \<Longrightarrow> reach_self n reg a vs \<noteq> None"
  "card (unvisited reg vs) + 2 \<le> n \<Longrightarrow> reach_any n reg ts vs \<noteq> None"
proof (induction n reg a vs and n reg ts vs rule: reach_self_reach_any.induct)
  case (2 n reg a vs)
  show ?case
  proof (cases "a \<in> set vs \<or> registry_get reg a = None")
    case False
    then obtain p where p: "registry_get reg a = Some p" "a \<notin> set vs" by auto
    then have "card (unvisited reg (a # vs)) + 2 \<le> n" using unvisited_registered [OF p] 2(2) by simp
    then have "reach_any n reg (target_names p) (a # vs) \<noteq> None" using 2(1) p by simp
    then show ?thesis using p by (auto split: bool.splits)
  qed (use 2 in auto)
next
  case (4 n reg t ts vs)
  obtain b vs1 where head: "reach_self n reg t vs = Some (b, vs1)" using 4(1) [OF 4(3)] by auto
  show ?case
  proof (cases b)
    case False
    then have "card (unvisited reg vs1) \<le> card (unvisited reg vs)"
      using head reach_visited(1) by (intro unvisited_antimono) simp
    then have "reach_any n reg ts vs1 \<noteq> None" using 4(2) [OF head refl] 4(3) False by simp
    then show ?thesis using head False by simp
  qed (use head in simp)
qed simp_all

text \<open>When the search fails, no path from the agent meets a visited name or its own start.\<close>

lemma reach_sound:
  "reach_self n reg a vs = Some (False, vs') \<Longrightarrow>
     a \<notin> set vs \<and> (\<forall>x. (hands_over reg)\<^sup>+\<^sup>+ a x \<longrightarrow> x \<notin> set vs \<and> x \<noteq> a)"
  "reach_any n reg ts vs = Some (False, vs') \<Longrightarrow>
     \<forall>t \<in> set ts. t \<notin> set vs \<and> (\<forall>x. (hands_over reg)\<^sup>+\<^sup>+ t x \<longrightarrow> x \<notin> set vs)"
proof (induction n reg a vs and n reg ts vs arbitrary: vs' and vs' rule: reach_self_reach_any.induct)
  case (2 n reg a vs)
  have fresh: "a \<notin> set vs" using 2(2) by (auto split: if_splits)
  show ?case
  proof (cases "registry_get reg a")
    case None
    then have "\<not> hands_over reg a x" for x by (simp add: hands_over_def)
    then have "\<not> (hands_over reg)\<^sup>+\<^sup>+ a x" for x using tranclpD [of "hands_over reg" a x] by blast
    with fresh show ?thesis by simp
  next
    case (Some p)
    then obtain vs1 where "reach_any n reg (target_names p) (a # vs) = Some (False, vs1)"
      using 2(2) fresh by (auto split: option.splits prod.splits bool.splits)
    then have ts: "\<forall>t \<in> set (target_names p). t \<notin> set (a # vs) \<and> (\<forall>x. (hands_over reg)\<^sup>+\<^sup>+ t x \<longrightarrow> x \<notin> set (a # vs))"
      using 2(1) [OF fresh Some] by blast
    have "x \<notin> set (a # vs)" if path: "(hands_over reg)\<^sup>+\<^sup>+ a x" for x
    proof -
      obtain t where t: "hands_over reg a t" "(hands_over reg)\<^sup>*\<^sup>* t x" using tranclpD [OF path] by blast
      then have "t \<in> set (target_names p)" using Some by (auto simp: hands_over_def)
      with ts t(2) show ?thesis by (auto dest: rtranclpD)
    qed
    with fresh show ?thesis by auto
  qed
next
  case (4 n reg t ts vs)
  then obtain vs1 where head: "reach_self n reg t vs = Some (False, vs1)" and rest: "reach_any n reg ts vs1 = Some (False, vs')"
    by (auto split: option.splits prod.splits bool.splits)
  have "set vs \<subseteq> set vs1" using reach_visited(1) [OF head] .
  then show ?case using 4(1) [OF head] 4(2) [OF head refl] rest by auto
qed simp_all

lemma can_reach_self_sound:
  assumes "\<not> can_reach_self reg a"
  shows "\<not> (hands_over reg)\<^sup>+\<^sup>+ a a"
proof -
  have "card (unvisited reg []) \<le> card (fst ` set (rg_agents reg))" by (simp add: unvisited_def)
  also have "\<dots> \<le> length (rg_agents reg)" using card_image_le [of "set (rg_agents reg)" fst] card_length [of "rg_agents reg"] by simp
  finally have "reach_self (length (rg_agents reg) + 2) reg a [] \<noteq> None" by (intro reach_enough_fuel(1)) simp
  then obtain vs where "reach_self (length (rg_agents reg) + 2) reg a [] = Some (False, vs)"
    using assms by (auto simp: can_reach_self_def)
  then show ?thesis using reach_sound(1) by blast
qed

subsection \<open>The breadth-first part\<close>

lemma set_enumerate: "snd ` set (enumerate n xs) = set xs"
  by (simp flip: set_map)

lemma target_issues_Nil: "target_issues reg p = [] \<longleftrightarrow> (\<forall>t \<in> set (target_names p). registry_get reg t \<noteq> None)"
proof -
  have "(\<forall>x \<in> set (enumerate 0 (rule_names p)). \<forall>t \<in> set (snd x). registry_get reg t \<noteq> None) \<longleftrightarrow>
      (\<forall>names \<in> set (rule_names p). \<forall>t \<in> set names. registry_get reg t \<noteq> None)"
    unfolding set_enumerate [of 0 "rule_names p", symmetric] by blast
  then show ?thesis
    by (simp add: target_issues_def target_names_def filter_empty_conv split_beta ball_Un)
qed

definition explored :: "agent_registry \<Rightarrow> string list \<Rightarrow> string list \<Rightarrow> dry_run_report \<Rightarrow> bool" where
  "explored reg queue visited report \<longleftrightarrow> dy_issues report = [] \<longrightarrow>
     (\<forall>v \<in> set visited. \<exists>p. registry_get reg v = Some p \<and> acf_name (ap_agent p) \<in> set (dy_agents_in_chain report) \<and>
        (\<forall>t \<in> set (target_names p). registry_get reg t \<noteq> None \<and> t \<in> set visited \<union> set queue))"

lemma explore_explored:
  "explored reg queue visited report \<Longrightarrow> explore reg queue visited report = (visited', report') \<Longrightarrow>
     explored reg [] visited' report' \<and> set visited \<union> set queue \<subseteq> set visited'"
proof (induction reg queue visited report rule: explore.induct)
  case (1 reg visited report)
  then show ?case by (simp add: explore.simps)
next
  case (2 reg current rest visited report)
  show ?case
  proof (cases "current \<in> set visited")
    case True
    then have "set visited \<union> set (current # rest) = set visited \<union> set rest" by auto
    then have "explored reg rest visited report" using 2(3) unfolding explored_def by metis
    then show ?thesis using 2(1) [OF True] 2(4) True by (auto simp: explore.simps)
  next
    case False
    let ?rest = "rest @ next_in_queue reg current (current # visited)"
    have "explored reg ?rest (current # visited) (visit_agent reg current report)"
      using 2(3) target_issues_Nil
      by (fastforce simp: explored_def visit_agent_def next_in_queue_def Let_def split: option.splits if_splits)
    then show ?thesis using 2(2) [OF False] 2(4) False by (auto simp: explore.simps)
  qed
qed

lemma check_cycle_ok:
  assumes "dy_issues (check_cycle reg name report) = []"
  shows "dy_issues report = []" and "\<not> can_reach_self reg name" and "check_cycle reg name report = report"
  using assms by (auto simp: check_cycle_def split: if_splits)

lemma fold_check_cycle_ok:
  "dy_issues (fold (check_cycle reg) names report) = [] \<Longrightarrow>
     fold (check_cycle reg) names report = report \<and> (\<forall>n \<in> set names. \<not> can_reach_self reg n)"
proof (induction names arbitrary: report)
  case (Cons n names)
  have rest: "fold (check_cycle reg) names (check_cycle reg n report) = check_cycle reg n report"
    "\<forall>m \<in> set names. \<not> can_reach_self reg m"
    using Cons.IH [of "check_cycle reg n report"] Cons.prems by simp_all
  then have "dy_issues (check_cycle reg n report) = []" using Cons.prems by simp
  from check_cycle_ok [OF this] rest show ?case by simp
qed simp

text \<open>What a valid dry run says of the graph: nothing is missing and nothing turns in a circle.\<close>

definition sound_from :: "agent_registry \<Rightarrow> string \<Rightarrow> bool" where
  "sound_from reg a \<longleftrightarrow>
     (\<forall>b. (hands_over reg)\<^sup>*\<^sup>* a b \<longrightarrow> registry_get reg b \<noteq> None \<and> \<not> (hands_over reg)\<^sup>+\<^sup>+ b b)"

lemma dry_run_sound_from:
  assumes "registry_ok reg" and "dy_valid (dry_run reg start)"
  shows "sound_from reg start"
proof -
  let ?empty = "\<lparr>dy_valid = False, dy_agents_in_chain = [], dy_reachable_end = False, dy_circular = False, dy_issues = []\<rparr>"
  obtain visited report where e: "explore reg [start] [] ?empty = (visited, report)" by fastforce
  let ?final = "fold (check_cycle reg) (dy_agents_in_chain report) report"
  have "dy_issues ?final = []"
    using assms(2) e by (auto simp: dry_run_def Let_def split: if_splits)
  then have final: "?final = report" "\<forall>n \<in> set (dy_agents_in_chain report). \<not> can_reach_self reg n"
    using fold_check_cycle_ok by blast+
  then have "dy_issues report = []" using \<open>dy_issues ?final = []\<close> by simp
  moreover have "explored reg [] visited report" "start \<in> set visited"
    using explore_explored [OF _ e] by (simp_all add: explored_def)
  ultimately have visited: "\<forall>v \<in> set visited. \<exists>p. registry_get reg v = Some p \<and>
      acf_name (ap_agent p) \<in> set (dy_agents_in_chain report) \<and> (\<forall>t \<in> set (target_names p). t \<in> set visited)"
    by (auto simp: explored_def)
  have all: "b \<in> set visited" if "(hands_over reg)\<^sup>*\<^sup>* start b" for b
    using that
  proof (induction rule: rtranclp_induct)
    case (step b c)
    then show ?case using visited by (auto simp: hands_over_def)
  qed (rule \<open>start \<in> set visited\<close>)
  show ?thesis unfolding sound_from_def
  proof (intro allI impI)
    fix b assume "(hands_over reg)\<^sup>*\<^sup>* start b"
    then obtain p where p: "registry_get reg b = Some p" "acf_name (ap_agent p) \<in> set (dy_agents_in_chain report)"
      using all visited by blast
    then have "b \<in> set (dy_agents_in_chain report)" using assms(1) by (auto simp: registry_ok_def)
    then show "registry_get reg b \<noteq> None \<and> \<not> (hands_over reg)\<^sup>+\<^sup>+ b b" using p(1) final(2) can_reach_self_sound by auto
  qed
qed

section \<open>Where a turn leads\<close>

lemma target_in_names: "registry_get reg a = Some p \<Longrightarrow> next_target env p out = Some t \<Longrightarrow> n \<in> set (agent_names t) \<Longrightarrow> hands_over reg a n"
proof (cases "hc_rules (ap_handoff p) = []")
  case False
  assume a: "registry_get reg a = Some p" "next_target env p out = Some t" "n \<in> set (agent_names t)"
  then obtain r where "r \<in> set (hc_rules (ap_handoff p))" "rule_target r = Some t"
    using False by (auto simp: next_target_def eval_rules_def Option.bind_eq_Some_conv dest: find_Some_memb)
  with a show ?thesis by (force simp: hands_over_def target_names_def rule_names_def)
qed (auto simp: next_target_def hands_over_def target_names_def fallback_names_def)

lemma fallback_in_names:
  "registry_get reg a = Some p \<Longrightarrow> hc_fallback (ap_handoff p) = Some t \<Longrightarrow> n \<in> set (agent_names t) \<Longrightarrow> hands_over reg a n"
  by (auto simp: hands_over_def target_names_def fallback_names_def)

lemma handle_fallback_edge: "registry_get reg a = Some p \<Longrightarrow> handle_fallback p reg = Some n \<Longrightarrow> hands_over reg a n"
  by (auto simp: handle_fallback_def split: option.splits handoff_target.splits list.splits if_splits
      intro: fallback_in_names)

text \<open>The results of a fork come from its targets, and a branch names only what its own profile names.\<close>

definition from_branch :: "agent_registry \<Rightarrow> string list \<Rightarrow> agent_result \<Rightarrow> bool" where
  "from_branch reg targets r \<longleftrightarrow> ar_agent_name r \<in> set targets \<and>
     (\<forall>t. ar_next r = Some t \<longrightarrow> (\<forall>n \<in> set (agent_names t). hands_over reg (ar_agent_name r) n))"

lemma await_branches_sub:
  "await_branches outs = (rs, es, sk) \<Longrightarrow> r \<in> set rs \<Longrightarrow>
     \<exists>out ms next. (ar_agent_name r, Inr (out, ms, next)) \<in> set outs \<and> ar_output r = out \<and> ar_next r = next"
  by (induction outs arbitrary: rs es sk rule: await_branches.induct)
    (fastforce split: prod.splits if_splits)+

lemma fork_branch_next:
  assumes "fork_branch env p name input max_turns router w = (router1, Some (w1, Inr (out, ms, next)))"
    and "next = Some t" and "n \<in> set (agent_names t)"
  shows "hands_over (pp_registry p) name n"
proof -
  obtain profile where profile: "registry_get (pp_registry p) name = Some profile"
    using assms(1) by (auto simp: fork_branch_def split: option.splits)
  then have "next = next_target env profile out"
    using assms(1) by (auto simp: fork_branch_def Let_def split: prod.splits sum.splits option.splits)
  with profile assms(2,3) show ?thesis by (auto intro: target_in_names)
qed

lemma branch_outputs_next:
  "branch_outputs env p input max_turns w router i names = (router', outs) \<Longrightarrow> (w1, name, Inr (out, ms, next)) \<in> set outs \<Longrightarrow>
     name \<in> set names \<and> (\<forall>t. next = Some t \<longrightarrow> (\<forall>n \<in> set (agent_names t). hands_over (pp_registry p) name n))"
proof (induction env p input max_turns w router i names arbitrary: router' outs rule: branch_outputs.induct)
  case (2 env p input max_turns w router i n ns)
  obtain router1 o1 where b: "branch_output env p input max_turns w router i n = (router1, o1)" by (metis surj_pair)
  obtain router2 os where bs: "branch_outputs env p input max_turns w router1 (Suc i) ns = (router2, os)" by fastforce
  from 2(2,3) b bs consider "(w1, name, Inr (out, ms, next)) = o1" | "(w1, name, Inr (out, ms, next)) \<in> set os" by auto
  then show ?case
  proof cases
    case 1
    then obtain router3 w3 where "fork_branch env p n input max_turns router (pw_branch_world env w i) =
        (router3, Some (w3, Inr (out, ms, next)))" "name = n"
      using b by (auto simp: branch_output_def split: prod.splits if_splits option.splits)
    then show ?thesis using fork_branch_next by auto
  next
    case 2
    then show ?thesis using "2.IH" [OF b [symmetric] refl bs] by auto
  qed
qed simp

lemma run_fork_results:
  assumes "run_fork env p targets input max_turns s = (s1, rs)" and "r \<in> set rs"
  shows "from_branch (pp_registry p) targets r"
proof -
  obtain router1 outs where outs: "branch_outputs env p input max_turns (px_world s) (px_router s) 0 targets = (router1, outs)" by fastforce
  obtain es sk where "await_branches (map snd outs) = (rs, es, sk)"
    using assms(1) outs by (auto simp: run_fork_def split: prod.splits)
  from await_branches_sub [OF this assms(2)] obtain ms where "(ar_agent_name r, Inr (ar_output r, ms, ar_next r)) \<in> snd ` set outs" by auto
  then obtain w1 where "(w1, ar_agent_name r, Inr (ar_output r, ms, ar_next r)) \<in> set outs" by auto
  from branch_outputs_next [OF outs this] show ?thesis by (simp add: from_branch_def)
qed

lemma map_filter_hd: "List.map_filter f xs = y # ys \<Longrightarrow> \<exists>x \<in> set xs. f x = Some y"
  by (induction xs) (auto simp: map_filter_simps split: option.splits)

lemma after_fork_edge:
  assumes "after_fork env profile rs s = (s1, Advance n input)" and "registry_get reg a = Some profile"
    and "\<forall>r \<in> set rs. from_branch reg targets r \<and> (\<forall>b \<in> set targets. hands_over reg a b)"
  shows "(hands_over reg)\<^sup>+\<^sup>+ a n"
proof -
  obtain t where t: "fork_next profile rs = Some t" "n \<in> set (agent_names t)"
    using assms(1) by (auto simp: after_fork_def Let_def split: if_splits option.splits handoff_target.splits list.splits)
  show ?thesis
  proof (cases "List.map_filter ar_next rs")
    case Nil
    then show ?thesis using t assms(2) fallback_in_names by (auto simp: fork_next_def)
  next
    case (Cons x xs)
    then obtain r where r: "r \<in> set rs" "ar_next r = Some t" using t(1) map_filter_hd by (fastforce simp: fork_next_def)
    then have "hands_over reg a (ar_agent_name r)" "hands_over reg (ar_agent_name r) n"
      using assms(3) t(2) by (auto simp: from_branch_def)
    then show ?thesis by (meson tranclp.r_into_trancl tranclp.trancl_into_trancl)
  qed
qed

lemma route_edge:
  assumes "route_after_success env p profile out ms max_turns s = (s1, Advance n input)"
    and "registry_get (pp_registry p) a = Some profile"
  shows "(hands_over (pp_registry p))\<^sup>+\<^sup>+ a n"
proof (cases "next_target env profile out")
  case (Some t)
  have edges: "\<forall>b \<in> set (agent_names t). hands_over (pp_registry p) a b" using target_in_names [OF assms(2) Some] by blast
  show ?thesis
  proof (cases t)
    case (Single m)
    then show ?thesis using assms(1) Some edges by (auto simp: route_after_success_def Let_def)
  next
    case (Fork targets)
    then obtain s2 input2 s3 rs where fork: "run_fork env p targets input2 max_turns s2 = (s3, rs)"
      "after_fork env profile rs s3 = (s1, Advance n input)"
      using assms(1) Some by (auto simp: route_after_success_def Let_def split: prod.splits)
    show ?thesis
      by (rule after_fork_edge [OF fork(2) assms(2)]) (use run_fork_results [OF fork(1)] edges Fork in auto)
  qed
qed (use assms(1) in \<open>simp add: route_after_success_def Let_def\<close>)

lemma turn_registered: "pipeline_turn env p a input s = Some (s1, Advance n i) \<Longrightarrow> registry_get (pp_registry p) a \<noteq> None"
  by (auto simp: pipeline_turn_def split: option.splits)

lemma handle_error_edge:
  assumes "handle_error env p message profile input s = (s1, Advance n i)" and "registry_get (pp_registry p) a = Some profile"
  shows "hands_over (pp_registry p) a n"
  using assms by (auto simp: handle_error_def Let_def split: if_splits option.splits intro: handle_fallback_edge)

text \<open>The two ways a turn of a registered agent can end.\<close>

lemma turn_cases:
  assumes "pipeline_turn env p a input s = Some (s1, out)" and "registry_get (pp_registry p) a = Some profile"
  obtains (missing_plugins) e s2 where "ap_plugins profile \<noteq> None" "pp_plugins p = None" "s1 = push_error e s2" "out = Halted"
      "px_errors s2 = px_errors s" "px_results s2 = px_results s" "px_entry_count s2 = px_entry_count s"
      "px_entry_bytes s2 = px_entry_bytes s"
  | (failed) message s2 where "handle_error env p message profile input s2 = (s1, out)"
      "px_errors s2 = px_errors s" "px_results s2 = px_results s" "px_entry_count s2 = px_entry_count s"
      "px_entry_bytes s2 = px_entry_bytes s"
  | (succeeded) v ms s2 where
      "route_after_success env p profile v ms (unwrap_or (hc_max_turns (ap_handoff profile)) 10) s2 = (s1, out)"
      "px_errors s2 = px_errors s" "px_results s2 = px_results s" "px_entry_count s2 = px_entry_count s"
      "px_entry_bytes s2 = px_entry_bytes s"
proof -
  let ?s1 = "emit env p (AgentStarted (acf_name (ap_agent profile)) (length input)) s"
  have emit: "px_errors (emit env p e s') = px_errors s'" "px_results (emit env p e s') = px_results s'"
    "px_entry_count (emit env p e s') = px_entry_count s'" "px_entry_bytes (emit env p e s') = px_entry_bytes s'" for e s'
    by (simp_all add: emit_def)
  obtain router1 r where r: "pipeline_resolve env p (px_router ?s1) (acf_model (ap_agent profile)) = (router1, r)" by fastforce
  show thesis
  proof (cases r)
    case (Inl e)
    then show thesis using assms r failed [of "''Resolve failed: '' @ lattice_error_display e" "?s1\<lparr>px_router := router1\<rparr>"]
      by (simp add: pipeline_turn_def emit)
  next
    case (Inr resolved)
    let ?s2 = "?s1\<lparr>px_router := router1\<rparr>"
    show thesis
    proof (cases "ap_plugins profile \<noteq> None \<and> pp_plugins p = None")
      case True
      then show thesis using assms r Inr missing_plugins [of _ "emit env p _ ?s2"]
        by (auto simp: pipeline_turn_def Let_def emit)
    next
      case False
      obtain s3 out3 where s3: "run_agent env p profile input (unwrap_or (hc_max_turns (ap_handoff profile)) 10) resolved ?s2 = Some (s3, out3)"
        using assms r Inr False by (auto simp: pipeline_turn_def Let_def split: option.splits prod.splits)
      have kept: "px_errors s3 = px_errors s" "px_results s3 = px_results s" "px_entry_count s3 = px_entry_count s"
        "px_entry_bytes s3 = px_entry_bytes s"
        using s3 by (auto simp: run_agent_def emit split: option.splits prod.splits sum.splits dag_outcome.splits)
      show thesis
      proof (cases out3)
        case (Inl message)
        then show thesis using assms r Inr False s3 kept failed [of message s3] by (auto simp: pipeline_turn_def Let_def)
      next
        case (Inr v)
        then show thesis using assms r \<open>r = Inr resolved\<close> False s3 kept succeeded [of v _ s3] by (auto simp: pipeline_turn_def Let_def)
      qed
    qed
  qed
qed

lemma turn_edge:
  assumes "pipeline_turn env p a input s = Some (s1, Advance n i)"
  shows "(hands_over (pp_registry p))\<^sup>+\<^sup>+ a n"
proof -
  obtain profile where profile: "registry_get (pp_registry p) a = Some profile" using turn_registered [OF assms] by auto
  from assms profile show ?thesis
    by (cases rule: turn_cases) (auto intro: handle_error_edge route_edge profile)
qed

section \<open>What a turn reports\<close>

lemma emit_frame [simp]:
  "px_errors (emit env p e s) = px_errors s" "px_results (emit env p e s) = px_results s"
  "px_entry_count (emit env p e s) = px_entry_count s" "px_entry_bytes (emit env p e s) = px_entry_bytes s"
  by (simp_all add: emit_def)

lemma save_session_frame [simp]:
  "px_errors (save_session env p profile out s) = px_errors s" "px_results (save_session env p profile out s) = px_results s"
  by (simp_all add: save_session_def Let_def split: prod.splits)

lemma push_error_frame [simp]:
  "px_errors (push_error e s) = px_errors s @ [e]" "px_results (push_error e s) = px_results s"
  "px_entry_count (push_error e s) = px_entry_count s" "px_entry_bytes (push_error e s) = px_entry_bytes s"
  by (simp_all add: push_error_def)

lemma run_fork_frame:
  assumes "run_fork env p targets input max_turns s = (s1, rs)"
  shows "\<exists>es. px_errors s1 = px_errors s @ es" "px_results s1 = px_results s"
    "px_entry_count s1 = px_entry_count s" "px_entry_bytes s1 = px_entry_bytes s"
  using assms by (auto simp: run_fork_def Let_def split: prod.splits)

lemma after_fork_frame:
  assumes "after_fork env profile rs s = (s1, out)"
  shows "\<exists>es. px_errors s1 = px_errors s @ es" "px_results s1 = px_results s" "out \<noteq> Halted"
    "px_entry_count s1 = px_entry_count s" "px_entry_bytes s1 = px_entry_bytes s"
  using assms by (auto simp: after_fork_def Let_def split: if_splits option.splits handoff_target.splits list.splits)

lemma route_reports:
  assumes "route_after_success env p profile v ms max_turns s = (s1, out)"
  shows "\<exists>es. px_errors s1 = px_errors s @ es" "\<exists>r. px_results s1 = px_results s @ [r]" "out \<noteq> Halted"
    "px_entry_count s1 = px_entry_count (save_session env p profile v s)"
    "px_entry_bytes s1 = px_entry_bytes (save_session env p profile v s)"
proof -
  let ?name = "acf_name (ap_agent profile)" and ?text = "pw_print env v"
  let ?t = "next_target env profile v"
  let ?s1 = "emit env p (AgentCompleted ?name (take_chars 500 ?text) ?t ms) (save_session env p profile v s)"
  let ?r = "\<lparr>ar_agent_name = ?name, ar_output = v, ar_next = ?t, ar_duration_ms = ms\<rparr>"
  let ?s2 = "?s1\<lparr>px_results := px_results ?s1 @ [?r]\<rparr>"
  have s2: "px_errors ?s2 = px_errors s" "px_results ?s2 = px_results s @ [?r]"
    "px_entry_count ?s2 = px_entry_count (save_session env p profile v s)"
    "px_entry_bytes ?s2 = px_entry_bytes (save_session env p profile v s)" by simp_all
  have "(\<exists>es. px_errors s1 = px_errors s @ es) \<and> (\<exists>r. px_results s1 = px_results s @ [r]) \<and> out \<noteq> Halted \<and>
      px_entry_count s1 = px_entry_count (save_session env p profile v s) \<and>
      px_entry_bytes s1 = px_entry_bytes (save_session env p profile v s)"
  proof (cases "\<exists>targets. ?t = Some (Fork targets)")
    case True
    then obtain targets where target: "?t = Some (Fork targets)" by auto
    obtain s3 rs where fork: "run_fork env p targets ?text max_turns (emit env p (ForkEvent ?name targets) ?s2) = (s3, rs)" by fastforce
    then have after: "after_fork env profile rs s3 = (s1, out)"
      using assms target by (simp add: route_after_success_def Let_def)
    show ?thesis using run_fork_frame [OF fork] after_fork_frame [OF after] s2 by auto
  next
    case False
    then show ?thesis using assms s2
      by (auto simp: route_after_success_def Let_def split: option.splits handoff_target.splits)
  qed
  then show "\<exists>es. px_errors s1 = px_errors s @ es" "\<exists>r. px_results s1 = px_results s @ [r]" "out \<noteq> Halted"
    "px_entry_count s1 = px_entry_count (save_session env p profile v s)"
    "px_entry_bytes s1 = px_entry_bytes (save_session env p profile v s)" by blast+
qed

text \<open>A turn that reports no error has recorded one result and does not halt.\<close>

lemma turn_reports:
  assumes "pipeline_turn env p a input s = Some (s1, out)"
  shows "\<exists>es. px_errors s1 = px_errors s @ es \<and> length (px_results s1) \<le> Suc (length (px_results s)) \<and>
    (es = [] \<longrightarrow> out \<noteq> Halted \<and> length (px_results s1) = Suc (length (px_results s)))"
proof (cases "registry_get (pp_registry p) a")
  case None
  then show ?thesis using assms by (auto simp: pipeline_turn_def)
next
  case (Some profile)
  with assms show ?thesis
  proof (cases rule: turn_cases)
    case (failed message s2)
    then show ?thesis by (auto simp: handle_error_def Let_def split: if_splits)
  next
    case (succeeded v ms s2)
    from route_reports(1-3) [OF succeeded(1)] obtain es r where "px_errors s1 = px_errors s2 @ es"
      "px_results s1 = px_results s2 @ [r]" "out \<noteq> Halted" by blast
    with succeeded show ?thesis by auto
  qed auto
qed

lemma loop_reports:
  assumes "pipeline_loop env p n a input s = Some (s1, completed)"
  shows "\<exists>es. px_errors s1 = px_errors s @ es \<and> length (px_results s1) \<le> length (px_results s) + n \<and>
    (es = [] \<and> \<not> completed \<longrightarrow> length (px_results s1) = length (px_results s) + n)"
  using assms
proof (induction n arbitrary: a input s)
  case (Suc n)
  then obtain s2 out where turn: "pipeline_turn env p a input s = Some (s2, out)" by (auto split: option.splits)
  from turn_reports [OF this] obtain es where es: "px_errors s2 = px_errors s @ es"
    "length (px_results s2) \<le> Suc (length (px_results s))"
    "es = [] \<longrightarrow> out \<noteq> Halted \<and> length (px_results s2) = Suc (length (px_results s))" by blast
  show ?case
  proof (cases out)
    case (Advance b i)
    then have rest: "pipeline_loop env p n b i s2 = Some (s1, completed)" using Suc.prems turn by simp
    obtain es2 where "px_errors s1 = px_errors s2 @ es2" "length (px_results s1) \<le> length (px_results s2) + n"
      "es2 = [] \<and> \<not> completed \<longrightarrow> length (px_results s1) = length (px_results s2) + n"
      using Suc.IH [OF rest] by blast
    with es show ?thesis by auto
  qed (use Suc.prems turn es in auto)
qed simp

section \<open>A checked graph bounds the run\<close>

definition reachable_agents :: "agent_registry \<Rightarrow> string \<Rightarrow> string set" where
  "reachable_agents reg a = {b. (hands_over reg)\<^sup>*\<^sup>* a b}"

lemma sound_from_step: "sound_from reg a \<Longrightarrow> (hands_over reg)\<^sup>*\<^sup>* a b \<Longrightarrow> sound_from reg b"
  unfolding sound_from_def by (meson rtranclp_trans)

lemma reachable_finite:
  assumes "sound_from reg a"
  shows "reachable_agents reg a \<subseteq> fst ` set (rg_agents reg)" and "finite (reachable_agents reg a)"
proof -
  show *: "reachable_agents reg a \<subseteq> fst ` set (rg_agents reg)"
  proof
    fix b assume "b \<in> reachable_agents reg a"
    then obtain q where "registry_get reg b = Some q" using assms by (auto simp: sound_from_def reachable_agents_def)
    then show "b \<in> fst ` set (rg_agents reg)" by (force simp: registry_get_def dest: map_of_SomeD)
  qed
  then show "finite (reachable_agents reg a)" by (rule finite_subset) simp
qed

lemma reachable_shrinks:
  assumes "sound_from reg a" and "(hands_over reg)\<^sup>+\<^sup>+ a b"
  shows "card (reachable_agents reg b) < card (reachable_agents reg a)"
proof (rule psubset_card_mono [OF reachable_finite(2) [OF assms(1)]])
  have "a \<notin> reachable_agents reg b"
  proof
    assume "a \<in> reachable_agents reg b"
    then have "(hands_over reg)\<^sup>+\<^sup>+ a a" using assms(2) by (auto simp: reachable_agents_def)
    then show False using assms(1) by (auto simp: sound_from_def)
  qed
  moreover have "reachable_agents reg b \<subseteq> reachable_agents reg a"
    using tranclp_into_rtranclp [OF assms(2)] by (auto simp: reachable_agents_def)
  moreover have "a \<in> reachable_agents reg a" by (simp add: reachable_agents_def)
  ultimately show "reachable_agents reg b \<subset> reachable_agents reg a" by blast
qed

lemma loop_not_cut:
  assumes "pipeline_loop env p n a input s = Some (s1, False)" and "sound_from (pp_registry p) a"
    and "card (reachable_agents (pp_registry p) a) \<le> n"
  shows "\<exists>es. es \<noteq> [] \<and> px_errors s1 = px_errors s @ es"
  using assms
proof (induction n arbitrary: a input s)
  case 0
  then have "reachable_agents (pp_registry p) a = {}" using reachable_finite(2) by auto
  then show ?case by (auto simp: reachable_agents_def)
next
  case (Suc n)
  then obtain s2 out where turn: "pipeline_turn env p a input s = Some (s2, out)" by (auto split: option.splits)
  from turn_reports [OF this] obtain es where es: "px_errors s2 = px_errors s @ es" "es = [] \<longrightarrow> out \<noteq> Halted" by blast
  show ?case
  proof (cases out)
    case (Advance b i)
    then have edge: "(hands_over (pp_registry p))\<^sup>+\<^sup>+ a b" using turn turn_edge by blast
    have "card (reachable_agents (pp_registry p) b) \<le> n"
      using reachable_shrinks [OF Suc.prems(2) edge] Suc.prems(3) by simp
    moreover have "sound_from (pp_registry p) b"
      using Suc.prems(2) tranclp_into_rtranclp [OF edge] by (rule sound_from_step)
    moreover have "pipeline_loop env p n b i s2 = Some (s1, False)" using Suc.prems(1) turn Advance by simp
    ultimately obtain es2 where "es2 \<noteq> []" "px_errors s1 = px_errors s2 @ es2" using Suc.IH by blast
    with es show ?thesis by auto
  qed (use Suc.prems(1) turn es in auto)
qed

section \<open>Memory\<close>

definition entries_within :: "'w pipeline \<Rightarrow> 'w pipeline_state \<Rightarrow> bool" where
  "entries_within p s \<longleftrightarrow> px_entry_count s \<le> pp_max_memory_entries p \<and> px_entry_bytes s \<le> pp_max_memory_bytes p"

lemma save_session_within: "entries_within p s \<Longrightarrow> entries_within p (save_session env p profile v s)"
  by (auto simp: entries_within_def save_session_def Let_def split: prod.splits)

lemma turn_within:
  assumes "pipeline_turn env p a input s = Some (s1, out)" and "entries_within p s"
  shows "entries_within p s1"
proof (cases "registry_get (pp_registry p) a")
  case None
  then show ?thesis using assms by (auto simp: pipeline_turn_def entries_within_def)
next
  case (Some profile)
  with assms(1) show ?thesis
  proof (cases rule: turn_cases)
    case (failed message s2)
    then have "px_entry_count s1 = px_entry_count s2" "px_entry_bytes s1 = px_entry_bytes s2"
      by (auto simp: handle_error_def Let_def split: if_splits)
    with failed assms(2) show ?thesis by (simp add: entries_within_def)
  next
    case (succeeded v ms s2)
    then have "entries_within p (save_session env p profile v s2)"
      using assms(2) by (intro save_session_within) (simp add: entries_within_def)
    then show ?thesis using route_reports(4,5) [OF succeeded(1)] by (simp add: entries_within_def)
  qed (use assms(2) in \<open>auto simp: entries_within_def\<close>)
qed

lemma loop_within: "pipeline_loop env p n a input s = Some (s1, completed) \<Longrightarrow> entries_within p s \<Longrightarrow> entries_within p s1"
proof (induction n arbitrary: a input s)
  case (Suc n)
  then obtain s2 out where turn: "pipeline_turn env p a input s = Some (s2, out)" by (auto split: option.splits)
  with Suc.prems(2) have "entries_within p s2" using turn_within by blast
  then show ?case using Suc.IH Suc.prems(1) turn by (cases out) auto
qed simp

section \<open>Properties\<close>

text \<open>One turn that hands over.\<close>

inductive pipeline_step ::
  "'w pipeline_env \<Rightarrow> 'w pipeline \<Rightarrow> string \<times> string \<times> 'w pipeline_state \<Rightarrow> string \<times> string \<times> 'w pipeline_state \<Rightarrow> bool"
  for env p where
  "pipeline_turn env p a input s = Some (s1, Advance b input1) \<Longrightarrow> pipeline_step env p (a, input, s) (b, input1, s1)"

inductive_cases pipeline_stepE: "pipeline_step env p x y"

lemma steps_edges: "(pipeline_step env p)\<^sup>+\<^sup>+ x y \<Longrightarrow> (hands_over (pp_registry p))\<^sup>+\<^sup>+ (fst x) (fst y)"
proof (induction rule: tranclp_induct)
  case (base y)
  then show ?case by (auto elim!: pipeline_stepE dest: turn_edge)
next
  case (step y z)
  then have "(hands_over (pp_registry p))\<^sup>+\<^sup>+ (fst y) (fst z)" by (auto elim!: pipeline_stepE dest: turn_edge)
  with step.IH show ?case by (rule tranclp_trans)
qed

lemma steps_reach: "(pipeline_step env p)\<^sup>*\<^sup>* x y \<Longrightarrow> (hands_over (pp_registry p))\<^sup>*\<^sup>* (fst x) (fst y)"
  by (auto dest!: rtranclpD intro: tranclp_into_rtranclp dest: steps_edges)


lemma dry_run_not_cut:
  assumes "registry_ok (pp_registry p)" and "dy_valid (dry_run (pp_registry p) start)"
    and "length (rg_agents (pp_registry p)) \<le> pp_max_iterations p"
    and "pipeline_run env p start input s = Some (s1, result)"
  shows "pn_completed result \<or> pn_errors result \<noteq> []"
proof -
  have sound: "sound_from (pp_registry p) start" using assms(1,2) by (rule dry_run_sound_from)
  have "card (reachable_agents (pp_registry p) start) \<le> card (fst ` set (rg_agents (pp_registry p)))"
    using reachable_finite(1) [OF sound] by (intro card_mono) simp_all
  also have "\<dots> \<le> length (rg_agents (pp_registry p))"
    using card_image_le [of "set (rg_agents (pp_registry p))" fst] card_length [of "rg_agents (pp_registry p)"] by simp
  finally have small: "card (reachable_agents (pp_registry p) start) \<le> pp_max_iterations p" using assms(3) by simp
  obtain s2 where loop: "pipeline_loop env p (pp_max_iterations p) start input
      (s\<lparr>px_results := [], px_errors := [], px_skipped := []\<rparr>) = Some (s2, pn_completed result)" "pn_errors result = px_errors s2"
    using assms(4) by (auto simp: pipeline_run_def Let_def split: option.splits)
  show ?thesis
  proof (cases "pn_completed result")
    case False
    then show ?thesis
      using loop loop_not_cut [of env p "pp_max_iterations p" start input "s\<lparr>px_results := [], px_errors := [], px_skipped := []\<rparr>" s2,
          OF _ sound small] by auto
  qed simp
qed

text \<open>
  A pipeline that passed its dry run and whose iteration limit is at least the number of its agents is
  never cut off: a run either completes or reports an error.
\<close>

theorem dry_run_prevents_cut:
  assumes "registry_ok (pp_registry p)" and "dy_valid (dry_run (pp_registry p) start)"
    and "length (rg_agents (pp_registry p)) \<le> pp_max_iterations p"
    and "pipeline_run env p start input s = Some (s1, result)"
  shows "pn_completed result \<or> pn_errors result \<noteq> []"
  using assms by (rule dry_run_not_cut)

text \<open>
  A run that neither completes nor reports an error was cut off: it has run exactly as many agents as the
  iteration limit allows. This is the only way to end without a word.
\<close>

theorem silent_end_is_the_limit:
  assumes "pipeline_run env p start input s = Some (s1, result)" and "\<not> pn_completed result" and "pn_errors result = []"
  shows "length (pn_results result) = pp_max_iterations p"
proof -
  obtain s2 where loop: "pipeline_loop env p (pp_max_iterations p) start input
      (s\<lparr>px_results := [], px_errors := [], px_skipped := []\<rparr>) = Some (s2, pn_completed result)"
    "pn_errors result = px_errors s2" "pn_results result = px_results s2"
    using assms(1) by (auto simp: pipeline_run_def Let_def split: option.splits)
  then show ?thesis using loop_reports [OF loop(1)] assms(2,3) by auto
qed

text \<open>
  The counters of session entries stay within the limits of the pipeline over any number of runs.
\<close>

theorem memory_limits_kept:
  assumes "entries_within p s" and "pipeline_run env p start input s = Some (s1, result)"
  shows "entries_within p s1"
proof -
  obtain s2 completed where "pipeline_loop env p (pp_max_iterations p) start input
      (s\<lparr>px_results := [], px_errors := [], px_skipped := []\<rparr>) = Some (s2, completed)"
    and "px_entry_count s1 = px_entry_count s2" "px_entry_bytes s1 = px_entry_bytes s2"
    using assms(2) by (auto simp: pipeline_run_def Let_def split: option.splits)
  then show ?thesis using loop_within assms(1) by (fastforce simp: entries_within_def)
qed

text \<open>How a branch ended: its result, its error, and whether the error lets the fork go on.\<close>

definition branch_ok :: "string \<times> branch_result \<Rightarrow> agent_result option" where
  "branch_ok b =
     (case b of
        (name, Inr (out, ms, next)) \<Rightarrow> Some \<lparr>ar_agent_name = name, ar_output = out, ar_next = next, ar_duration_ms = ms\<rparr>
      | _ \<Rightarrow> None)"

definition branch_err :: "string \<times> branch_result \<Rightarrow> agent_error option" where
  "branch_err b = (case b of (name, Inl e) \<Rightarrow> Some e | _ \<Rightarrow> None)"

definition goes_on :: "string \<times> branch_result \<Rightarrow> bool" where
  "goes_on b \<longleftrightarrow> (\<forall>e. branch_err b = Some e \<longrightarrow> er_skippable e)"

lemma await_branches_spec:
  "await_branches outs =
     (List.map_filter branch_ok (takeWhile goes_on outs),
      List.map_filter branch_err (take (Suc (length (takeWhile goes_on outs))) outs),
      map er_agent_name (List.map_filter branch_err (takeWhile goes_on outs)))"
  by (induction outs rule: await_branches.induct)
    (auto simp: map_filter_simps branch_ok_def branch_err_def goes_on_def split: prod.splits)

text \<open>
  A fork reports its branches in the order of the targets, however they finish. Branches of agents that
  may be skipped only leave an error; the first other error ends the fork, is reported, and what the branches
  before it produced is kept; nothing behind it is reported.
\<close>

theorem fork_in_order:
  assumes "branch_outputs env p input max_turns (px_world s) (px_router s) 0 targets = (router1, outs)"
    and "run_fork env p targets input max_turns s = (s1, rs)"
  shows "rs = List.map_filter branch_ok (takeWhile goes_on (map snd outs)) \<and>
    px_errors s1 = px_errors s @ List.map_filter branch_err (take (Suc (length (takeWhile goes_on (map snd outs)))) (map snd outs)) \<and>
    px_skipped s1 = px_skipped s @ map er_agent_name (List.map_filter branch_err (takeWhile goes_on (map snd outs)))"
  using assms by (auto simp: run_fork_def await_branches_spec)

text \<open>
  A fork that fails altogether counts as the end of the chain: when the first target is not registered,
  the run ends as completed, with two errors in its report.
\<close>

theorem failed_fork_completes:
  assumes "next_target env profile v = Some (Fork (t # targets))" and "registry_get (pp_registry p) t = None"
  shows "\<exists>s1 e1 e2. route_after_success env p profile v ms max_turns s = (s1, ChainEnd) \<and>
    px_errors s1 = px_errors s @ [e1, e2] \<and> er_message e2 = ''All fork branches failed''"
proof -
  have fork: "\<exists>s3 e. run_fork env p (t # targets) i max_turns s2 = (s3, []) \<and> px_errors s3 = px_errors s2 @ [e]" for i s2
  proof -
    obtain router1 w1 e where "branch_output env p i max_turns (px_world s2) (px_router s2) 0 t = (router1, w1, t, Inl e)" "\<not> er_skippable e"
      using assms(2) by (cases "pw_branch_late env (px_world s2) 0") (auto simp: branch_output_def fork_branch_def branch_timed_out_def)
    moreover obtain router2 outs where "branch_outputs env p i max_turns (px_world s2) router1 (Suc 0) targets = (router2, outs)"
      by (metis surj_pair)
    ultimately show ?thesis by (simp add: run_fork_def)
  qed
  let ?s2 = "let s1 = emit env p (AgentCompleted (acf_name (ap_agent profile)) (take_chars 500 (pw_print env v)) (next_target env profile v) ms)
             (save_session env p profile v s)
       in s1\<lparr>px_results := px_results s1 @ [\<lparr>ar_agent_name = acf_name (ap_agent profile), ar_output = v,
          ar_next = next_target env profile v, ar_duration_ms = ms\<rparr>]\<rparr>"
  obtain s3 e where "run_fork env p (t # targets) (pw_print env v) max_turns
      (emit env p (ForkEvent (acf_name (ap_agent profile)) (t # targets)) ?s2) = (s3, [])"
    "px_errors s3 = px_errors (emit env p (ForkEvent (acf_name (ap_agent profile)) (t # targets)) ?s2) @ [e]"
    using fork by blast
  then show ?thesis using assms(1) by (simp add: route_after_success_def after_fork_def Let_def)
qed

section \<open>The run returns\<close>

text \<open>Agents without a plugin graph, in environments whose random numbers are those of the unit interval.\<close>

definition plain_agents :: "'w pipeline_env \<Rightarrow> 'w pipeline \<Rightarrow> bool" where
  "plain_agents env p \<longleftrightarrow>
     (\<forall>ex. \<exists>calls. unit_random (as_agent_env (pw_assembly env) ex) \<and> counts_requests (as_agent_env (pw_assembly env) ex) calls) \<and>
     (\<forall>name q. registry_get (pp_registry p) name = Some q \<longrightarrow> ap_plugins q = None)"

lemma assembled_retry: "assemble_agent env profile resolved memory tools w = Inr (ru, ex) \<Longrightarrow> ag_retry (ru_agent ru) = retry_default"
  by (auto simp: assemble_agent_def and_then_r_Inr_iff Let_def runner_from_profile_def with_memory_def agent_new_def
    agent_set_system_prompt_def split: option.splits if_splits)

lemma run_agent_returns:
  assumes "plain_agents env p" and "registry_get (pp_registry p) a = Some profile"
  shows "run_agent env p profile input max_turns resolved s \<noteq> None"
proof -
  have plugins: "ap_plugins profile = None" using assms by (auto simp: plain_agents_def)
  show ?thesis
  proof (cases "assemble_agent (pw_assembly env) profile resolved (pp_memory p) (pp_tools p) (px_world s)")
    case (Inr x)
    obtain ru ex where x: "x = (ru, ex)" by fastforce
    obtain calls where "unit_random (as_agent_env (pw_assembly env) ex)" "counts_requests (as_agent_env (pw_assembly env) ex) calls"
      using assms(1) unfolding plain_agents_def by blast
    then have "runner_keeps (as_agent_env (pw_assembly env) ex) calls ru"
      using assembled_retry [OF Inr [unfolded x]] by (simp add: runner_keeps_def)
    from runner_run_returns [OF this] obtain w1 ru1 r where
      "runner_run (as_agent_env (pw_assembly env) ex) (pw_runner env) input max_turns ru (px_world s) = Some (w1, ru1, r)" by blast
    with Inr x plugins show ?thesis by (simp add: run_agent_def)
  qed (simp add: run_agent_def plugins)
qed

lemma turn_returns:
  assumes "plain_agents env p"
  shows "pipeline_turn env p a input s \<noteq> None"
proof (cases "registry_get (pp_registry p) a")
  case (Some profile)
  have returns: "(run_agent env p profile input max_turns resolved s2 = None) = False" for max_turns resolved s2
    using run_agent_returns [OF assms Some] by simp
  show ?thesis using Some
    by (auto simp: returns pipeline_turn_def Let_def split: prod.splits sum.splits option.splits)
qed (simp add: pipeline_turn_def)

lemma loop_returns: "plain_agents env p \<Longrightarrow> pipeline_loop env p n a input s \<noteq> None"
proof (induction n arbitrary: a input s)
  case (Suc n)
  obtain s1 out where "pipeline_turn env p a input s = Some (s1, out)" using turn_returns [OF Suc.prems] by fastforce
  then show ?case using Suc by (cases out) simp_all
qed simp

text \<open>
  A run of agents without plugin graphs always returns: a panic inside a branch of a fork is an error of
  that branch, and nothing else in the loop panics or runs on.
\<close>

theorem pipeline_run_returns:
  assumes "\<And>ex. \<exists>calls. unit_random (as_agent_env (pw_assembly env) ex) \<and> counts_requests (as_agent_env (pw_assembly env) ex) calls"
    and "\<And>name q. registry_get (pp_registry p) name = Some q \<Longrightarrow> ap_plugins q = None"
  shows "\<exists>s1 result. pipeline_run env p start input s = Some (s1, result) \<and> length (pn_results result) \<le> pp_max_iterations p"
proof -
  let ?s = "s\<lparr>px_results := [], px_errors := [], px_skipped := []\<rparr>"
  have "plain_agents env p" using assms unfolding plain_agents_def by blast
  then obtain s2 completed where loop: "pipeline_loop env p (pp_max_iterations p) start input ?s = Some (s2, completed)"
    using loop_returns by fastforce
  then show ?thesis using loop_reports [OF loop] by (auto simp: pipeline_run_def Let_def)
qed

section \<open>Witnesses\<close>

text \<open>Two agents, the first handing over to the second; every answer of the model is the digit one.\<close>

definition demo_profile :: "string \<Rightarrow> handoff_target option \<Rightarrow> agent_profile" where
  "demo_profile name fallback =
     \<lparr>ap_agent = \<lparr>acf_name = name, acf_model = ''m'', acf_description = [], acf_skippable = False, acf_tags = []\<rparr>,
      ap_system = \<lparr>sy_prompt = ''hi'', sy_file = None\<rparr>, ap_tools = [],
      ap_behavior = \<lparr>bv_behavior_type = ''yolo'', bv_confidence_threshold = Fin 0, bv_max_retries = 0, bv_enforce_sandbox = None\<rparr>,
      ap_handoff = \<lparr>hc_rules = [], hc_fallback = fallback, hc_output_schema = None, hc_max_turns = None\<rparr>,
      ap_bus = \<lparr>bp_subscribe = [], bp_publish = [], bp_rpc = []\<rparr>,
      ap_memory = \<lparr>mp_shared_read = [], mp_shared_write = []\<rparr>, ap_plugins = None\<rparr>"

definition demo_registry :: agent_registry where
  "demo_registry =
     \<lparr>rg_agents = [(''a'', demo_profile ''a'' (Some (Single ''b''))), (''b'', demo_profile ''b'' None)], rg_failed_loads = []\<rparr>"

definition no_files :: "'w profile_env" where
  "no_files =
     \<lparr>pv_read = (\<lambda>_ _. Inl []), pv_write = (\<lambda>w _ _. (w, Inl [])), pv_exists = (\<lambda>_ _. False), pv_read_dir = (\<lambda>_ _. Inl []),
      pv_canonicalize = (\<lambda>_ _. Inl []), pv_current_dir = (\<lambda>_. Inl []), pv_toml = (\<lambda>_. Inl []), pv_shape_error = (\<lambda>_. []),
      pv_hash = (\<lambda>s. s), pv_hex_encode = (\<lambda>s. s), pv_hex_decode = Some\<rparr>"

definition demo_pipeline_env :: "nat pipeline_env" where
  "demo_pipeline_env =
     \<lparr>pw_assembly = \<lparr>as_files = no_files, as_http_client = Inr (),
        as_agent_env = (\<lambda>_. scripted (\<lambda>_. Inr [Token ''1'', Done ''stop'' None])), as_tool_order = (\<lambda>ts. ts), as_recall = (\<lambda>_ _ _. [])\<rparr>,
      pw_runner = demo_runner_env,
      pw_dag = demo_dag_env\<lparr>dn_catalog := \<lparr>cat_models = [(''m'', sample_entry)], cat_aliases = [], cat_provider_defaults = []\<rparr>\<rparr>,
      pw_print = (\<lambda>_. ''x''), pw_emit = (\<lambda>w _. w), pw_save = (\<lambda>w _. w), pw_millis = (\<lambda>_ _. 0),
      pw_branch_world = (\<lambda>w _. w), pw_branch_late = (\<lambda>_ _. False), pw_join = (\<lambda>w _. w), pw_join_error = (\<lambda>_ _. [])\<rparr>"

definition demo_pipeline :: "agent_registry \<Rightarrow> nat pipeline" where
  "demo_pipeline reg = pipeline_new ''demo'' reg False False"

definition demo_state :: "nat pipeline_state" where
  "demo_state =
     \<lparr>px_world = 0, px_router = None, px_entry_count = 0, px_entry_bytes = 0, px_results = [], px_errors = [], px_skipped = []\<rparr>"

lemma demo_resolves:
  "\<exists>m. pipeline_resolve demo_pipeline_env (demo_pipeline reg) None ''m'' = (None, Inr m)"
proof -
  let ?cat = "\<lparr>cat_models = [(''m'', sample_entry)], cat_aliases = [], cat_provider_defaults = []\<rparr>"
  have "case snd (resolve sample_ext (router_new ?cat) ''m'' None) of Inr m \<Rightarrow> True | Inl e \<Rightarrow> False" by code_simp
  then show ?thesis
    by (auto simp: pipeline_resolve_def demo_pipeline_env_def demo_dag_env_def demo_pipeline_def pipeline_new_def split: sum.splits)
qed

lemma demo_assembled:
  "\<exists>ru ex. assemble_agent (pw_assembly demo_pipeline_env) (demo_profile name fallback) m False None w = Inr (ru, ex) \<and>
     (\<forall>input w1. \<exists>ru1. runner_run (as_agent_env (pw_assembly demo_pipeline_env) ex) demo_runner_env input 10 ru w1 =
        Some (Suc w1, ru1, Inr (JBool True)))"
proof -
  let ?p = "demo_profile name fallback" and ?env = "pw_assembly demo_pipeline_env"
  obtain ru ex where ru: "assemble_agent ?env ?p m False None w = Inr (ru, ex)" "ru_profile ru = ?p"
    by (simp add: assemble_agent_def system_prompt_def demo_profile_def assembled_executor_def demo_pipeline_env_def
        runner_from_profile_def Let_def)
  have ten: "unat (10 :: u32) = Suc 9" by simp
  have schema: "hc_output_schema (ap_handoff ?p) = None" by (simp add: demo_profile_def)
  have "\<exists>ru1. runner_run (as_agent_env ?env ex) demo_runner_env input 10 ru w1 = Some (Suc w1, ru1, Inr (JBool True))" for input w1
  proof -
    obtain ru1 where "run_once (scripted (\<lambda>_. Inr [Token ''1'', Done ''stop'' None])) demo_runner_env 10 input ru w1 =
        Some (Suc w1, ru1, Inr (JBool True))"
      using run_once_scripted [where script = "\<lambda>_. Inr [Token ''1'', Done ''stop'' None]" and w = w1 and max_turns = 10
          and n = 9 and env = demo_runner_env and input = input and ru = ru, OF refl ten] demo_answers(1) by auto
    then show ?thesis using schema ru(2) by (simp add: runner_run_def runner_schema_def demo_pipeline_env_def)
  qed
  with ru(1) show ?thesis by blast
qed

lemma demo_turn:
  assumes "registry_get reg name = Some (demo_profile name fallback)" and "px_router s = None"
  shows "\<exists>w. pipeline_turn demo_pipeline_env (demo_pipeline reg) name input s =
    Some (route_after_success demo_pipeline_env (demo_pipeline reg) (demo_profile name fallback) (JBool True) 0 10 (s\<lparr>px_world := w\<rparr>))"
proof -
  let ?p = "demo_profile name fallback" and ?env = "pw_assembly demo_pipeline_env"
  obtain m where m: "pipeline_resolve demo_pipeline_env (demo_pipeline reg) None ''m'' = (None, Inr m)"
    using demo_resolves by blast
  obtain ru ex where ru: "assemble_agent ?env ?p m False None (px_world s) = Inr (ru, ex)"
    and all: "\<forall>input w1. \<exists>ru1. runner_run (as_agent_env ?env ex) demo_runner_env input 10 ru w1 = Some (Suc w1, ru1, Inr (JBool True))"
    using demo_assembled [of name fallback m "px_world s"] by blast
  obtain ru1 where "runner_run (as_agent_env ?env ex) demo_runner_env input 10 ru (px_world s) =
      Some (Suc (px_world s), ru1, Inr (JBool True))"
    using all by blast
  moreover have "pw_runner demo_pipeline_env = demo_runner_env" by (simp add: demo_pipeline_env_def)
  ultimately have run: "runner_run (as_agent_env ?env ex) (pw_runner demo_pipeline_env) input 10 ru (px_world s) =
      Some (Suc (px_world s), ru1, Inr (JBool True))"
    by simp
  have parts: "pp_registry (demo_pipeline reg) = reg" "pp_memory (demo_pipeline reg) = False" "pp_tools (demo_pipeline reg) = None"
    "pp_event_bus (demo_pipeline reg) = False" "pp_plugins (demo_pipeline reg) = None"
    by (simp_all add: demo_pipeline_def pipeline_new_def)
  have shape: "acf_model (ap_agent ?p) = ''m''" "ap_plugins ?p = None" "hc_max_turns (ap_handoff ?p) = None" "pw_millis demo_pipeline_env a b = 0" for a b
    by (simp_all add: demo_profile_def demo_pipeline_env_def)
  have id: "s\<lparr>px_router := None\<rparr> = s" using assms(2) by simp
  have "pipeline_turn demo_pipeline_env (demo_pipeline reg) name input s =
    Some (route_after_success demo_pipeline_env (demo_pipeline reg) ?p (JBool True) 0 10 (s\<lparr>px_world := Suc (px_world s)\<rparr>))"
    using m ru run assms by (simp add: pipeline_turn_def run_agent_def emit_def parts shape id)
  then show ?thesis by blast
qed

lemma demo_parts [simp]:
  "pp_registry (demo_pipeline reg) = reg" "pp_memory (demo_pipeline reg) = False" "pp_event_bus (demo_pipeline reg) = False"
  "pp_max_iterations (demo_pipeline reg) = 20" "px_router demo_state = None" "pw_print demo_pipeline_env v = ''x''"
  "next_target env (demo_profile name fallback) v = fallback" "acf_name (ap_agent (demo_profile name fallback)) = name"
  by (simp_all add: demo_pipeline_def pipeline_new_def demo_state_def demo_pipeline_env_def next_target_def demo_profile_def
      DEFAULT_MAX_PIPELINE_ITERATIONS_def)

lemma demo_advance:
  assumes "registry_get reg name = Some (demo_profile name (Some (Single b)))" and "px_router s = None"
  shows "\<exists>s1. pipeline_turn demo_pipeline_env (demo_pipeline reg) name input s = Some (s1, Advance b ''x'') \<and>
    px_router s1 = None \<and> px_errors s1 = px_errors s"
proof -
  obtain w where "pipeline_turn demo_pipeline_env (demo_pipeline reg) name input s =
    Some (route_after_success demo_pipeline_env (demo_pipeline reg) (demo_profile name (Some (Single b))) (JBool True) 0 10 (s\<lparr>px_world := w\<rparr>))"
    using demo_turn [OF assms] by blast
  then show ?thesis using assms(2) by (simp add: route_after_success_def save_session_def emit_def Let_def)
qed

lemma demo_end:
  assumes "registry_get reg name = Some (demo_profile name None)" and "px_router s = None"
  shows "\<exists>s1. pipeline_turn demo_pipeline_env (demo_pipeline reg) name input s = Some (s1, ChainEnd)"
proof -
  obtain w where "pipeline_turn demo_pipeline_env (demo_pipeline reg) name input s =
    Some (route_after_success demo_pipeline_env (demo_pipeline reg) (demo_profile name None) (JBool True) 0 10 (s\<lparr>px_world := w\<rparr>))"
    using demo_turn [OF assms] by blast
  then show ?thesis by (simp add: route_after_success_def save_session_def emit_def Let_def)
qed

lemma demo_registry_ok: "registry_ok demo_registry" "dy_valid (dry_run demo_registry ''a'')"
proof -
  show "registry_ok demo_registry"
    by (auto simp: registry_ok_def demo_registry_def registry_get_def profile_ok_def targets_ok_def profile_targets_def
      demo_profile_def trimmed_def split: if_splits) code_simp+
  show "dy_valid (dry_run demo_registry ''a'')" by code_simp
qed

lemma demo_get: "registry_get demo_registry ''a'' = Some (demo_profile ''a'' (Some (Single ''b'')))"
  "registry_get demo_registry ''b'' = Some (demo_profile ''b'' None)"
  by (simp_all add: demo_registry_def registry_get_def)


lemma demo_pipeline_run:
  "\<exists>s1 result. pipeline_run demo_pipeline_env (demo_pipeline demo_registry) ''a'' ''go'' demo_state = Some (s1, result) \<and> pn_completed result"
proof -
  let ?p = "demo_pipeline demo_registry" and ?s = "demo_state\<lparr>px_results := [], px_errors := [], px_skipped := []\<rparr>"
  obtain s1 where s1: "pipeline_turn demo_pipeline_env ?p ''a'' ''go'' ?s = Some (s1, Advance ''b'' ''x'')" "px_router s1 = None"
    using demo_advance [OF demo_get(1), of ?s] by auto
  obtain s2 where s2: "pipeline_turn demo_pipeline_env ?p ''b'' ''x'' s1 = Some (s2, ChainEnd)"
    using demo_end [OF demo_get(2) s1(2)] by auto
  have twenty: "(20 :: nat) = Suc (Suc 18)" by simp
  have "pipeline_loop demo_pipeline_env ?p 20 ''a'' ''go'' ?s = Some (s2, True)"
    unfolding twenty by (simp only: pipeline_loop.simps s1 s2 option.case prod.case loop_outcome.case)
  then show ?thesis by (simp add: pipeline_run_def Let_def)
qed

theorem dry_run_prevents_cut_witness:
  "\<exists>s1 result. pipeline_run demo_pipeline_env (demo_pipeline demo_registry) ''a'' ''go'' demo_state = Some (s1, result) \<and>
     (pn_completed result \<or> pn_errors result \<noteq> [])"
proof -
  obtain s1 result where "pipeline_run demo_pipeline_env (demo_pipeline demo_registry) ''a'' ''go'' demo_state = Some (s1, result)"
    using demo_pipeline_run by blast
  with dry_run_prevents_cut [OF _ _ _ this] demo_registry_ok show ?thesis by (auto simp: demo_registry_def)
qed

theorem pipeline_run_returns_witness:
  "\<exists>s1 result. pipeline_run demo_pipeline_env (demo_pipeline demo_registry) ''a'' ''go'' demo_state = Some (s1, result) \<and>
     length (pn_results result) \<le> 20"
  using pipeline_run_returns [of demo_pipeline_env "demo_pipeline demo_registry" "''a''" "''go''" demo_state] scripted_ok
  by (fastforce simp: demo_pipeline_env_def demo_registry_def registry_get_def demo_profile_def split: if_splits)

text \<open>An agent that hands over to itself: after twenty rounds the run ends without a word.\<close>

definition self_registry :: agent_registry where
  "self_registry = \<lparr>rg_agents = [(''a'', demo_profile ''a'' (Some (Single ''a'')))], rg_failed_loads = []\<rparr>"

lemma self_loop:
  "px_router s = None \<Longrightarrow>
     \<exists>s1. pipeline_loop demo_pipeline_env (demo_pipeline self_registry) n ''a'' input s = Some (s1, False) \<and> px_errors s1 = px_errors s"
proof (induction n arbitrary: input s)
  case (Suc n)
  have "registry_get self_registry ''a'' = Some (demo_profile ''a'' (Some (Single ''a'')))"
    by (simp add: self_registry_def registry_get_def)
  from demo_advance [OF this Suc.prems] obtain s1 where
    "pipeline_turn demo_pipeline_env (demo_pipeline self_registry) ''a'' input s = Some (s1, Advance ''a'' ''x'')"
    "px_router s1 = None" "px_errors s1 = px_errors s" by blast
  then show ?case using Suc.IH [of s1 "''x''"] by simp
qed simp

theorem silent_end_is_the_limit_witness:
  "\<exists>s1 result. pipeline_run demo_pipeline_env (demo_pipeline self_registry) ''a'' ''go'' demo_state = Some (s1, result) \<and>
     length (pn_results result) = 20"
proof -
  let ?s = "demo_state\<lparr>px_results := [], px_errors := [], px_skipped := []\<rparr>"
  obtain s1 where "pipeline_loop demo_pipeline_env (demo_pipeline self_registry) 20 ''a'' ''go'' ?s = Some (s1, False)" "px_errors s1 = []"
    using self_loop [of ?s 20 "''go''"] by auto
  then have "\<exists>s2 result. pipeline_run demo_pipeline_env (demo_pipeline self_registry) ''a'' ''go'' demo_state = Some (s2, result) \<and>
      \<not> pn_completed result \<and> pn_errors result = []"
    by (simp add: pipeline_run_def emit_def Let_def)
  then obtain s2 result where run: "pipeline_run demo_pipeline_env (demo_pipeline self_registry) ''a'' ''go'' demo_state = Some (s2, result)"
    "\<not> pn_completed result" "pn_errors result = []" by blast
  show ?thesis using run(1) silent_end_is_the_limit [OF run] by auto
qed

text \<open>Saving is on, but no byte is allowed.\<close>

theorem memory_limits_kept_witness:
  "\<exists>s1 result. pipeline_run demo_pipeline_env (demo_pipeline demo_registry) ''a'' ''go'' demo_state = Some (s1, result) \<and>
     entries_within (demo_pipeline demo_registry) s1"
proof -
  obtain s1 result where "pipeline_run demo_pipeline_env (demo_pipeline demo_registry) ''a'' ''go'' demo_state = Some (s1, result)"
    using demo_pipeline_run by blast
  with memory_limits_kept [OF _ this] show ?thesis by (auto simp: entries_within_def demo_state_def)
qed

text \<open>A fork whose first target does not exist: the branch behind it is not reported.\<close>

theorem fork_in_order_witness:
  "\<exists>s1 e. run_fork demo_pipeline_env (demo_pipeline demo_registry) [''ghost'', ''b''] ''go'' 10 demo_state = (s1, []) \<and>
     px_errors s1 = [e] \<and> er_agent_name e = ''ghost''"
proof -
  let ?p = "demo_pipeline demo_registry" and ?fork = "[''ghost'', ''b'']"
  obtain router1 outs where outs: "branch_outputs demo_pipeline_env ?p ''go'' 10 (px_world demo_state) (px_router demo_state) 0 ?fork = (router1, outs)"
    by fastforce
  obtain s1 rs where fork: "run_fork demo_pipeline_env ?p ?fork ''go'' 10 demo_state = (s1, rs)" by fastforce
  obtain w bs where "outs = (w, ''ghost'', Inl \<lparr>er_agent_name = ''ghost'',
      er_message = ''Agent '' @ in_quotes ''ghost'' @ '' not found in registry'', er_skippable = False\<rparr>) # bs"
    using outs by (auto simp: branch_output_def fork_branch_def demo_registry_def registry_get_def demo_pipeline_env_def Let_def split: prod.splits)
  then show ?thesis using fork fork_in_order [OF outs fork]
    by (simp add: branch_ok_def branch_err_def goes_on_def map_filter_simps demo_state_def)
qed

theorem failed_fork_completes_witness:
  "\<exists>s1 e1 e2. route_after_success demo_pipeline_env (demo_pipeline demo_registry) (demo_profile ''a'' (Some (Fork [''ghost'']))) JNull 0 10 demo_state =
     (s1, ChainEnd) \<and> px_errors s1 = px_errors demo_state @ [e1, e2]"
  using failed_fork_completes [of demo_pipeline_env "demo_profile ''a'' (Some (Fork [''ghost'']))" JNull "''ghost''" "[]"
      "demo_pipeline demo_registry" 0 10 demo_state]
  by (auto simp: demo_registry_def registry_get_def)

end
