(* ===== verification/Micro_Agent.thy ===== *)
theory Micro_Agent
  imports Pipeline_Run
begin

text \<open>
  \<open>bus/micro_agent.rs\<close>: an agent that is registered on the bus, serves the requests of its channel one by one
  with the runner of its profile, and stores and publishes what it answered. The steps on the bus are those of
  \<open>Bus\<close>; between taking a request and answering it anything may happen there.
\<close>

section \<open>Data\<close>

definition bus_config_from_profile :: "bus_config_profile \<Rightarrow> agent_bus_config" where
  "bus_config_from_profile bus =
     \<lparr>bc_subscribe = bp_subscribe bus, bc_publish = bp_publish bus, bc_rpc = bp_rpc bus\<rparr>"

definition partition_access_from_profile :: "memory_config_profile \<Rightarrow> partition_access" where
  "partition_access_from_profile memory =
     \<lparr>pa_read = map Named (mp_shared_read memory), pa_write = map Named (mp_shared_write memory)\<rparr>"

record 'w micro_agent =
  ma_profile :: agent_profile
  ma_memory :: bool
  ma_shared_memory :: bool
  ma_partition_access :: partition_access
  ma_router :: "model_router option"
  ma_tools :: "'w tool_registry option"
  ma_credentials :: "(string, string) imap option"

definition micro_agent_new ::
  "agent_profile \<Rightarrow> bool \<Rightarrow> bool \<Rightarrow> (string, string) imap option \<Rightarrow> 'w micro_agent" where
  "micro_agent_new profile memory shared_memory credentials =
     \<lparr>ma_profile = profile, ma_memory = memory, ma_shared_memory = shared_memory,
      ma_partition_access = partition_access_from_profile (ap_memory profile), ma_router = None, ma_tools = None,
      ma_credentials = credentials\<rparr>"

definition ma_name :: "'w micro_agent \<Rightarrow> string" where
  "ma_name a = acf_name (ap_agent (ma_profile a))"

text \<open>The handler of a subscription, as data: whose it is, and whether that agent has a memory to store events in.\<close>

record event_handler =
  eh_agent :: string
  eh_memory :: bool

record 'w micro_env =
  mc_assembly :: "'w assembly_env"
  mc_runner :: runner_env
  mc_router_ext :: router_ext
  mc_catalog :: catalog
  mc_print :: "json \<Rightarrow> string"
  mc_now_ms :: "'w \<Rightarrow> 'w \<times> nat"
  mc_save :: "'w \<Rightarrow> memory_entry \<Rightarrow> 'w"
  mc_save_shared :: "'w \<Rightarrow> memory_entry \<Rightarrow> shared_partition \<Rightarrow> partition_access \<Rightarrow> 'w \<times> (memory_error, unit) res"

text \<open>The task that serves the channel.\<close>

record 'w micro_task =
  mk_id :: string
  mk_channel :: nat
  mk_runner :: agent_runner
  mk_executor :: "'w executor"
  mk_max_turns :: u32
  mk_profile :: agent_profile
  mk_memory :: bool
  mk_shared_memory :: bool
  mk_access :: partition_access

section \<open>Spawning\<close>

definition handle_event :: "'w micro_env \<Rightarrow> event_handler \<Rightarrow> 'w \<Rightarrow> bus_event \<Rightarrow> 'w \<times> (bus_error, unit) res" where
  "handle_event env h w event =
     (if \<not> eh_memory h then (w, Inr ())
      else
        let (w1, ms) = mc_now_ms env w
        in (mc_save env w1 \<lparr>me_id = eh_agent h @ ''-event-'' @ show_nat ms, me_kind = SessionLog, me_session_id = eh_agent h,
              me_summary = ''Event on '' @ be_topic event, me_content = mc_print env (be_payload event),
              me_tags = [be_topic event], me_created_at = show_nat ms\<rparr>, Inr ()))"

definition micro_descriptor :: "'w micro_agent \<Rightarrow> agent_descriptor" where
  "micro_descriptor a =
     \<lparr>ad_id = ma_name a, ad_name = ma_name a, ad_capabilities = acf_tags (ap_agent (ma_profile a)),
      ad_bus_config = bus_config_from_profile (ap_bus (ma_profile a))\<rparr>"

definition micro_resolve ::
  "'w micro_env \<Rightarrow> 'w micro_agent \<Rightarrow> model_router option \<times> (lattice_error, resolved_model) res" where
  "micro_resolve env a =
     (let model = acf_model (ap_agent (ma_profile a))
      in case ma_router a of
           Some r \<Rightarrow> (let (r1, res) = resolve (mc_router_ext env) r model None in (Some r1, res))
         | None \<Rightarrow>
             (None, snd (resolve (mc_router_ext env)
                (case ma_credentials a of Some creds \<Rightarrow> with_credentials (mc_catalog env) creds | None \<Rightarrow> router_new (mc_catalog env))
                model None)))"

text \<open>When spawning fails after the registration, the receiving end of the channel is dropped.\<close>

definition drop_receiver :: "nat \<Rightarrow> 'h bus \<Rightarrow> 'h bus" where
  "drop_receiver i b =
     (let c = bs_channels b ! i
      in set_channel i (c\<lparr>ch_open := False, ch_queue := [], ch_lost := ch_queue c @ ch_lost c\<rparr>) b)"

fun subscribe_all :: "event_handler \<Rightarrow> string list \<Rightarrow> event_handler bus \<Rightarrow> event_handler bus \<times> (bus_error, unit) res" where
  "subscribe_all h [] b = (b, Inr ())"
| "subscribe_all h (topic # topics) b =
     (case bus_subscribe b topic None h of
        (b1, Inl e) \<Rightarrow> (b1, Inl e)
      | (b1, Inr _) \<Rightarrow> subscribe_all h topics b1)"

text \<open>The outer \<^const>\<open>None\<close> is the panic of a channel without a buffer.\<close>

definition micro_spawn ::
  "'w micro_env \<Rightarrow> 'w micro_agent \<Rightarrow> event_handler bus \<Rightarrow> 'w \<Rightarrow>
     (event_handler bus \<times> model_router option \<times> (bus_error, 'w micro_task) res) option" where
  "micro_spawn env a b w =
     (case bus_register b (micro_descriptor a) of
        None \<Rightarrow> None
      | Some (b1, Inl e) \<Rightarrow> Some (b1, ma_router a, Inl e)
      | Some (b1, Inr ch) \<Rightarrow>
          (case micro_resolve env a of
             (router1, Inl e) \<Rightarrow> Some (drop_receiver ch b1, router1, Inl (ResolveError (lattice_error_display e)))
           | (router1, Inr resolved) \<Rightarrow>
               (case assemble_agent (mc_assembly env) (ma_profile a) resolved (ma_memory a) (ma_tools a) w of
                  Inl e \<Rightarrow> Some (drop_receiver ch b1, router1, Inl (ConfigError e))
                | Inr (ru, ex) \<Rightarrow>
                    (case subscribe_all \<lparr>eh_agent = ma_name a, eh_memory = ma_memory a\<rparr>
                            (bp_subscribe (ap_bus (ma_profile a))) b1 of
                       (b2, Inl e) \<Rightarrow> Some (drop_receiver ch b2, router1, Inl e)
                     | (b2, Inr _) \<Rightarrow>
                         Some (b2, router1, Inr
                           \<lparr>mk_id = ma_name a, mk_channel = ch, mk_runner = ru, mk_executor = ex,
                            mk_max_turns = unwrap_or (hc_max_turns (ap_handoff (ma_profile a))) 10, mk_profile = ma_profile a,
                            mk_memory = ma_memory a, mk_shared_memory = ma_shared_memory a,
                            mk_access = ma_partition_access a\<rparr>)))))"

section \<open>Serving requests\<close>

definition extract_input :: "(json \<Rightarrow> string) \<Rightarrow> json \<Rightarrow> string" where
  "extract_input print payload =
     (case payload of
        JStr s \<Rightarrow> s
      | JObj m \<Rightarrow> (case map_of m ''input'' of Some input \<Rightarrow> print input | None \<Rightarrow> print payload)
      | _ \<Rightarrow> print payload)"

text \<open>What a run amounts to: the text that is stored and published, and the payload of the answer.\<close>

definition micro_output :: "(json \<Rightarrow> string) \<Rightarrow> (string, json) res \<Rightarrow> string \<times> json" where
  "micro_output print r =
     (case r of Inr v \<Rightarrow> (print v, v) | Inl e \<Rightarrow> (e, JObj [(''error'', JStr e)]))"

definition micro_run ::
  "'w micro_env \<Rightarrow> 'w micro_task \<Rightarrow> bus_request \<Rightarrow> 'w \<Rightarrow> ('w \<times> 'w micro_task \<times> string \<times> json) option" where
  "micro_run env t req w =
     map_option (\<lambda>(w1, ru1, r). (w1, t\<lparr>mk_runner := ru1\<rparr>, micro_output (mc_print env) r))
       (runner_run (as_agent_env (mc_assembly env) (mk_executor t)) (mc_runner env) (extract_input (mc_print env) (rq_payload req))
         (mk_max_turns t) (mk_runner t) w)"

definition take_request :: "nat \<Rightarrow> 'h bus \<Rightarrow> (bus_request \<times> 'h bus) option" where
  "take_request i b =
     (let c = bs_channels b ! i
      in case ch_queue c of
           [] \<Rightarrow> None
         | r # rs \<Rightarrow> Some (r, set_channel i (c\<lparr>ch_queue := rs, ch_held := r # ch_held c\<rparr>) b))"

definition micro_reply :: "nat \<Rightarrow> bus_request \<Rightarrow> json \<Rightarrow> 'h bus \<Rightarrow> 'h bus" where
  "micro_reply i req out b =
     (let c = bs_channels b ! i
      in answer (rq_call req) (Inr out) (set_channel i (c\<lparr>ch_held := remove1 req (ch_held c)\<rparr>) b))"

definition answer_entry :: "'w micro_task \<Rightarrow> string \<Rightarrow> string \<Rightarrow> string \<Rightarrow> nat \<Rightarrow> memory_entry" where
  "answer_entry t mark summary content ms =
     (let name = acf_name (ap_agent (mk_profile t))
      in \<lparr>me_id = name @ mark @ show_nat ms, me_kind = SessionLog, me_session_id = name, me_summary = name @ summary,
          me_content = content, me_tags = acf_tags (ap_agent (mk_profile t)), me_created_at = show_nat ms\<rparr>)"

definition save_private :: "'w micro_env \<Rightarrow> 'w micro_task \<Rightarrow> string \<Rightarrow> 'w \<Rightarrow> 'w" where
  "save_private env t content w =
     (if mk_memory t
      then let (w1, ms) = mc_now_ms env w
           in mc_save env w1 (answer_entry t ''-'' ('': '' @ show_nat (length content) @ '' chars output'') content ms)
      else w)"

fun save_partitions :: "'w micro_env \<Rightarrow> 'w micro_task \<Rightarrow> string \<Rightarrow> shared_partition list \<Rightarrow> 'w \<Rightarrow> 'w" where
  "save_partitions env t content [] w = w"
| "save_partitions env t content (p # ps) w =
     (let (w1, ms) = mc_now_ms env w;
          (w2, r) = mc_save_shared env w1 (answer_entry t ''-shared-'' '': shared output'' content ms) p (mk_access t)
      in save_partitions env t content ps w2)"

definition save_answer :: "'w micro_env \<Rightarrow> 'w micro_task \<Rightarrow> string \<Rightarrow> 'w \<Rightarrow> 'w" where
  "save_answer env t content w =
     (let w1 = save_private env t content w
      in if mk_shared_memory t then save_partitions env t content (pa_write (mk_access t)) w1 else w1)"

definition publish_answer :: "'w micro_task \<Rightarrow> string \<Rightarrow> event_handler bus \<Rightarrow> (event_handler \<times> bus_event) list" where
  "publish_answer t content b =
     concat (map (\<lambda>topic.
       case bus_publish b topic \<lparr>be_topic = topic, be_source = acf_name (ap_agent (mk_profile t)),
              be_payload = JObj [(''output'', JStr content)]\<rparr> of
         Inr deliveries \<Rightarrow> deliveries | Inl _ \<Rightarrow> [])
       (bp_publish (ap_bus (mk_profile t))))"

text \<open>
  The loop, from the request it has taken to the next: run, answer on the bus as it is by then, store, publish.
  \<^const>\<open>None\<close> is a panic of the task.
\<close>

definition micro_serve ::
  "'w micro_env \<Rightarrow> 'w micro_task \<Rightarrow> bus_request \<Rightarrow> event_handler bus \<Rightarrow> 'w \<Rightarrow>
     (event_handler bus \<times> 'w \<times> 'w micro_task \<times> (event_handler \<times> bus_event) list) option" where
  "micro_serve env t req b w =
     map_option (\<lambda>(w1, t1, content, out).
       let b1 = micro_reply (mk_channel t) req out b
       in (b1, save_answer env t1 content w1, t1, publish_answer t1 content b1))
       (micro_run env t req w)"

text \<open>
  The end of the task, by a panic or because its channel has no sender left: the channel and what is in its
  hands are dropped, and the watcher deregisters the agent.
\<close>

definition drop_held :: "nat \<Rightarrow> 'h bus \<Rightarrow> 'h bus" where
  "drop_held i b =
     (let c = bs_channels b ! i in set_channel i (c\<lparr>ch_held := [], ch_lost := rev (ch_held c) @ ch_lost c\<rparr>) b)"

definition micro_exit :: "'w micro_task \<Rightarrow> event_handler bus \<Rightarrow> event_handler bus" where
  "micro_exit t b = fst (bus_deregister (drop_held (mk_channel t) (drop_receiver (mk_channel t) b)) (mk_id t))"

section \<open>A micro agent takes only steps of the bus\<close>

lemma subscribe_all_ok: "\<exists>b1. subscribe_all h topics b = (b1, Inr ()) \<and> bus_step\<^sup>*\<^sup>* b b1 \<and> bs_channels b1 = bs_channels b \<and>
    bs_agents b1 = bs_agents b \<and> bs_calls b1 = bs_calls b"
proof (induction topics arbitrary: b)
  case (Cons topic topics)
  obtain b1 where b1: "bus_subscribe b topic None h = (b1, Inr ())" "bs_channels b1 = bs_channels b" "bs_agents b1 = bs_agents b"
    "bs_calls b1 = bs_calls b"
    by (simp add: bus_subscribe_def)
  obtain b2 where "subscribe_all h topics b1 = (b2, Inr ())" "bus_step\<^sup>*\<^sup>* b1 b2" "bs_channels b2 = bs_channels b1"
    "bs_agents b2 = bs_agents b1" "bs_calls b2 = bs_calls b1"
    using Cons [of b1] by blast
  then show ?case using b1 bus_step.subscribe [OF b1(1)] by (auto intro: converse_rtranclp_into_rtranclp)
qed simp

lemma drop_receiver_step:
  "i < length (bs_channels b) \<Longrightarrow> ch_open (bs_channels b ! i) \<Longrightarrow> bus_step b (drop_receiver i b)"
  unfolding drop_receiver_def Let_def by (rule bus_step.close) simp_all

lemma drop_held_run:
  "i < length (bs_channels b) \<Longrightarrow> bus_step\<^sup>*\<^sup>* b (drop_held i b)"
proof (induction "ch_held (bs_channels b ! i)" arbitrary: b)
  case Nil
  then have same: "(bs_channels b ! i)\<lparr>ch_held := [], ch_lost := rev (ch_held (bs_channels b ! i)) @ ch_lost (bs_channels b ! i)\<rparr> =
      bs_channels b ! i"
    by (cases "bs_channels b ! i") simp
  have "drop_held i b = b" unfolding drop_held_def Let_def same by (simp add: set_channel_def)
  then show ?case by simp
next
  case (Cons r rs)
  let ?c = "bs_channels b ! i"
  let ?b = "set_channel i (?c\<lparr>ch_held := remove1 r (ch_held ?c), ch_lost := r # ch_lost ?c\<rparr>) b"
  have step: "bus_step b ?b" using Cons.hyps(2) [symmetric] Cons.prems by (intro bus_step.discard) simp_all
  have at: "bs_channels ?b ! i = ?c\<lparr>ch_held := rs, ch_lost := r # ch_lost ?c\<rparr>" "length (bs_channels ?b) = length (bs_channels b)"
    using Cons.hyps(2) [symmetric] Cons.prems by (simp_all add: set_channel_def)
  then have "bus_step\<^sup>*\<^sup>* ?b (drop_held i ?b)" using Cons.hyps(1) [of ?b] Cons.prems by simp
  moreover have "drop_held i ?b = drop_held i b"
    using Cons.hyps(2) [symmetric] at Cons.prems by (simp add: drop_held_def Let_def set_channel_def)
  ultimately show ?case using step by (simp add: converse_rtranclp_into_rtranclp)
qed

lemma register_shape:
  assumes "bus_register b d = Some (b1, Inr ch)"
  shows "bus_step b b1" "ch < length (bs_channels b1)" "ch_open (bs_channels b1 ! ch)" "map_of (bs_agents b1) (ad_id d) = Some (d, ch)"
    "bs_subscriptions b1 = bs_subscriptions b"
  using assms bus_step.register [OF assms] by (auto simp: bus_register_def Let_def split: if_splits)

lemma micro_spawn_run:
  assumes "micro_spawn env a b w = Some (b1, router1, r)"
  shows "bus_step\<^sup>*\<^sup>* b b1"
proof (cases "bus_register b (micro_descriptor a)")
  case (Some x)
  show ?thesis
  proof (cases x)
    case (Pair b2 y)
    show ?thesis
    proof (cases y)
      case (Inl e)
      then have "b1 = b" using assms Some Pair by (auto simp: micro_spawn_def bus_register_def Let_def split: if_splits)
      then show ?thesis by simp
    next
      case (Inr ch)
      note reg = register_shape [OF Some [unfolded Pair Inr]]
      have drop: "bus_step\<^sup>*\<^sup>* b (drop_receiver ch b2)"
        using reg(1) drop_receiver_step [OF reg(2,3)] by simp
      obtain b3 where sub: "subscribe_all \<lparr>eh_agent = ma_name a, eh_memory = ma_memory a\<rparr> (bp_subscribe (ap_bus (ma_profile a))) b2 = (b3, Inr ())"
        "bus_step\<^sup>*\<^sup>* b2 b3"
        using subscribe_all_ok by blast
      then have "bus_step\<^sup>*\<^sup>* b b3" using reg(1) by (simp add: converse_rtranclp_into_rtranclp)
      then show ?thesis
        using assms Some Pair Inr drop sub(1) by (auto simp: micro_spawn_def split: prod.splits sum.splits)
    qed
  qed
qed (use assms in \<open>simp add: micro_spawn_def\<close>)

lemma take_request_step:
  assumes "take_request i b = Some (r, b1)" and "i < length (bs_channels b)" and "ch_open (bs_channels b ! i)"
  shows "bus_step b b1 \<and> r \<in> set (ch_held (bs_channels b1 ! i))"
  using assms bus_step.receive [of i b "bs_channels b ! i" r]
  by (auto simp: take_request_def Let_def set_channel_def split: list.splits)

lemma micro_reply_step:
  assumes "i < length (bs_channels b)" and "r \<in> set (ch_held (bs_channels b ! i))"
  shows "bus_step b (micro_reply i r out b)"
  using bus_step.reply [OF assms(1) refl assms(2), of "Inr out"] by (simp add: micro_reply_def Let_def)

lemma micro_exit_run:
  assumes "mk_channel t < length (bs_channels b)" and "ch_open (bs_channels b ! mk_channel t)"
  shows "bus_step\<^sup>*\<^sup>* b (micro_exit t b)"
proof -
  let ?b = "drop_receiver (mk_channel t) b"
  have "length (bs_channels ?b) = length (bs_channels b)" by (simp add: drop_receiver_def set_channel_def Let_def)
  then have "bus_step\<^sup>*\<^sup>* b (drop_held (mk_channel t) ?b)"
    using drop_receiver_step [OF assms] drop_held_run [of "mk_channel t" ?b] assms(1) by (simp add: converse_rtranclp_into_rtranclp)
  moreover have "bus_step (drop_held (mk_channel t) ?b) (micro_exit t b)"
    unfolding micro_exit_def by (rule bus_step.deregister) (rule prod.collapse [symmetric])
  ultimately show ?thesis by simp
qed

section \<open>Properties\<close>

text \<open>
  C28: Everything a micro agent does to the bus, from its spawning over taking and answering requests to its end,
  is a run of steps of the bus; so whatever holds of every such run, the limits and the delivery of calls among
  them, holds with micro agents on it.
\<close>

theorem micro_agents_keep_to_the_bus:
  assumes "mk_channel t < length (bs_channels b)" and "ch_open (bs_channels b ! mk_channel t)"
  shows "(micro_spawn env a b w = Some (b1, router1, r) \<longrightarrow> bus_step\<^sup>*\<^sup>* b b1) \<and>
    (take_request (mk_channel t) b = Some (req, b1) \<longrightarrow> bus_step b b1) \<and>
    (req \<in> set (ch_held (bs_channels b ! mk_channel t)) \<longrightarrow> micro_serve env t req b w = Some (b1, w1, t1, ds) \<longrightarrow> bus_step b b1) \<and>
    bus_step\<^sup>*\<^sup>* b (micro_exit t b)"
  using micro_spawn_run take_request_step [OF _ assms] micro_reply_step [OF assms(1)] micro_exit_run [OF assms]
  by (auto simp: micro_serve_def Let_def)

text \<open>
  C27: Serving a request settles its call, with the value of the run or with an object that holds the error of the
  run: to the caller a failed run is a successful answer. A call that has stopped waiting is not touched, and
  no other call is.
\<close>

theorem micro_serve_answers:
  assumes "bus_step\<^sup>*\<^sup>* (bus_new c) b" and "mk_channel t < length (bs_channels b)"
    and "req \<in> set (ch_held (bs_channels b ! mk_channel t))" and "micro_serve env t req b w = Some (b1, w1, t1, ds)"
  shows "\<exists>w2 ru1 r. runner_run (as_agent_env (mc_assembly env) (mk_executor t)) (mc_runner env)
      (extract_input (mc_print env) (rq_payload req)) (mk_max_turns t) (mk_runner t) w = Some (w2, ru1, r) \<and>
    rq_payload req = rc_payload (bs_calls b ! rq_call req) \<and>
    bs_calls b1 =
      (if rc_state (bs_calls b ! rq_call req) = Awaiting
       then (bs_calls b)[rq_call req := (bs_calls b ! rq_call req)
         \<lparr>rc_state := Settled (Inr (case r of Inr v \<Rightarrow> v | Inl e \<Rightarrow> JObj [(''error'', JStr e)]))\<rparr>]
       else bs_calls b)"
proof -
  have "bus_inv b" using assms(1) bus_new_inv by (rule bus_run_inv)
  then have "request_ok (bs_calls b) (mk_channel t) req"
    using inv_channel [of b "mk_channel t"] assms(2,3) by (auto simp: channel_ok_def ch_requests_def)
  then have payload: "rq_payload req = rc_payload (bs_calls b ! rq_call req)" by (simp add: request_ok_def)
  obtain w2 ru1 r where run: "runner_run (as_agent_env (mc_assembly env) (mk_executor t)) (mc_runner env)
      (extract_input (mc_print env) (rq_payload req)) (mk_max_turns t) (mk_runner t) w = Some (w2, ru1, r)"
    using assms(4) by (auto simp: micro_serve_def micro_run_def)
  then have "b1 = micro_reply (mk_channel t) req (snd (micro_output (mc_print env) r)) b"
    using assms(4) by (auto simp: micro_serve_def micro_run_def Let_def split: prod.splits)
  then show ?thesis
    using run payload
    by (cases r) (auto simp: micro_reply_def micro_output_def answer_def settle_def set_state_def set_channel_def Let_def)
qed

text \<open>
  Spawning registers the agent before its model and its parts are known to exist: when that fails, the name
  stays taken by a channel that nobody reads, and every later attempt to spawn an agent of that name fails.
\<close>

theorem failed_spawn_takes_the_name:
  assumes "micro_spawn env a b w = Some (b1, router1, Inl e)" and "ma_name a \<notin> fst ` set (bs_agents b)"
    and "ma_name a2 = ma_name a"
  shows "(\<exists>d ch. map_of (bs_agents b1) (ma_name a) = Some (d, ch) \<and> \<not> ch_open (bs_channels b1 ! ch)) \<and>
    micro_spawn env2 a2 b1 w2 = Some (b1, ma_router a2, Inl (AlreadyRegistered (ma_name a)))"
proof -
  obtain b2 ch where reg: "bus_register b (micro_descriptor a) = Some (b2, Inr ch)"
    using assms(1,2) by (auto simp: micro_spawn_def bus_register_def micro_descriptor_def Let_def split: if_splits)
  note shape = register_shape [OF reg]
  obtain b3 where "subscribe_all \<lparr>eh_agent = ma_name a, eh_memory = ma_memory a\<rparr> (bp_subscribe (ap_bus (ma_profile a))) b2 = (b3, Inr ())"
    using subscribe_all_ok by blast
  then have "b1 = drop_receiver ch b2"
    using assms(1) reg by (auto simp: micro_spawn_def split: prod.splits sum.splits)
  then have b1: "map_of (bs_agents b1) (ma_name a) = Some (micro_descriptor a, ch)" "\<not> ch_open (bs_channels b1 ! ch)"
    using shape(2,4) by (simp_all add: drop_receiver_def set_channel_def Let_def micro_descriptor_def)
  then have "ma_name a \<in> fst ` set (bs_agents b1)" by (force dest: map_of_SomeD)
  then show ?thesis using b1 assms(3) by (simp add: micro_spawn_def bus_register_def micro_descriptor_def)
qed

definition handlers_of :: "'h bus \<Rightarrow> string \<Rightarrow> 'h list" where
  "handlers_of b topic = unwrap_or (map_of (bs_subscriptions b) topic) []"

lemma subscribe_all_handlers:
  "subscribe_all h topics b = (b1, r) \<Longrightarrow> handlers_of b1 topic = handlers_of b topic @ replicate (count_list topics topic) h"
proof (induction topics arbitrary: b)
  case (Cons t1 topics)
  obtain b2 where b2: "bus_subscribe b t1 None h = (b2, Inr ())" by (simp add: bus_subscribe_def)
  then have "handlers_of b2 topic = (if t1 = topic then handlers_of b topic @ [h] else handlers_of b topic)"
    by (auto simp: handlers_of_def bus_subscribe_def)
  then show ?case using Cons b2 by (auto simp: replicate_append_same)
qed simp

lemma spawn_handlers:
  assumes "micro_spawn env a b w = Some (b1, router1, Inr t)"
  shows "handlers_of b1 topic =
    handlers_of b topic @ replicate (count_list (bp_subscribe (ap_bus (ma_profile a))) topic) \<lparr>eh_agent = ma_name a, eh_memory = ma_memory a\<rparr>"
proof -
  obtain b2 ch where reg: "bus_register b (micro_descriptor a) = Some (b2, Inr ch)"
    using assms by (auto simp: micro_spawn_def split: prod.splits sum.splits option.splits)
  then have "subscribe_all \<lparr>eh_agent = ma_name a, eh_memory = ma_memory a\<rparr> (bp_subscribe (ap_bus (ma_profile a))) b2 = (b1, Inr ())"
    using assms by (auto simp: micro_spawn_def split: prod.splits sum.splits)
  then show ?thesis using subscribe_all_handlers register_shape(5) [OF reg] by (simp add: handlers_of_def)
qed

text \<open>
  Ending an agent does not end its subscriptions: after it is deregistered and spawned again, every event on
  its topics is delivered twice to it.
\<close>

theorem respawn_doubles_events:
  assumes "micro_spawn env a b w = Some (b1, router1, Inr t)"
    and "micro_spawn env a (micro_exit t b1) w2 = Some (b2, router2, Inr t2)"
    and "handlers_of b topic = []" and "bus_publish b2 topic event = Inr deliveries"
  shows "deliveries = replicate (2 * count_list (bp_subscribe (ap_bus (ma_profile a))) topic)
    (\<lparr>eh_agent = ma_name a, eh_memory = ma_memory a\<rparr>, event)"
proof -
  have "handlers_of (micro_exit t b1) topic = handlers_of b1 topic"
    by (simp add: handlers_of_def micro_exit_def bus_deregister_def drop_held_def drop_receiver_def set_channel_def Let_def)
  then have "handlers_of b2 topic =
      replicate (2 * count_list (bp_subscribe (ap_bus (ma_profile a))) topic) \<lparr>eh_agent = ma_name a, eh_memory = ma_memory a\<rparr>"
    using spawn_handlers [OF assms(1), of topic] spawn_handlers [OF assms(2), of topic] assms(3)
    by (simp add: mult_2 replicate_add)
  then show ?thesis using assms(4) by (auto simp: bus_publish_def handlers_of_def split: if_splits)
qed

section \<open>Witnesses\<close>

text \<open>The agent of the pipeline's witnesses, with and without a model, and a bus with a request in its hands.\<close>

definition demo_micro_env :: "nat micro_env" where
  "demo_micro_env =
     \<lparr>mc_assembly = pw_assembly demo_pipeline_env, mc_runner = demo_runner_env, mc_router_ext = sample_ext,
      mc_catalog = \<lparr>cat_models = [(''m'', sample_entry)], cat_aliases = [], cat_provider_defaults = []\<rparr>,
      mc_print = (\<lambda>_. ''x''), mc_now_ms = (\<lambda>w. (w, 0)), mc_save = (\<lambda>w _. w), mc_save_shared = (\<lambda>w _ _ _. (w, Inr ()))\<rparr>"

definition demo_micro :: "nat micro_agent" where
  "demo_micro =
     micro_agent_new ((demo_profile ''dev'' None)\<lparr>ap_bus := \<lparr>bp_subscribe = [''news''], bp_publish = [''out''], bp_rpc = []\<rparr>\<rparr>)
       False False None"

lemma demo_micro_resolves: "\<exists>m. micro_resolve demo_micro_env demo_micro = (None, Inr m)"
proof -
  let ?cat = "\<lparr>cat_models = [(''m'', sample_entry)], cat_aliases = [], cat_provider_defaults = []\<rparr>"
  have "case snd (resolve sample_ext (router_new ?cat) ''m'' None) of Inr m \<Rightarrow> True | Inl e \<Rightarrow> False" by code_simp
  then show ?thesis
    by (auto simp: micro_resolve_def demo_micro_env_def demo_micro_def micro_agent_new_def demo_profile_def split: sum.splits)
qed

lemma demo_micro_spawn:
  assumes "''dev'' \<notin> fst ` set (bs_agents b)" and "cf_channel_buffer_size (bs_config b) \<noteq> 0"
  shows "\<exists>b1 t. micro_spawn demo_micro_env demo_micro b w = Some (b1, None, Inr t) \<and> mk_id t = ''dev'' \<and>
    ''dev'' \<notin> fst ` set (bs_agents (micro_exit t b1)) \<and> bs_config b1 = bs_config b \<and>
    mk_channel t < length (bs_channels b1) \<and> ch_open (bs_channels b1 ! mk_channel t) \<and>
    fst ` set (bs_agents b1) \<subseteq> insert ''dev'' (fst ` set (bs_agents b)) \<and>
    fst ` set (bs_agents (micro_exit t b1)) \<subseteq> fst ` set (bs_agents b1)"
proof -
  have name: "ma_name demo_micro = ''dev''" by (simp add: ma_name_def demo_micro_def micro_agent_new_def demo_profile_def)
  obtain b1 ch where reg: "bus_register b (micro_descriptor demo_micro) = Some (b1, Inr ch)"
    using assms name by (simp add: bus_register_def micro_descriptor_def Let_def)
  obtain m where m: "micro_resolve demo_micro_env demo_micro = (None, Inr m)" using demo_micro_resolves by blast
  obtain ru ex where ru: "assemble_agent (mc_assembly demo_micro_env) (ma_profile demo_micro) m (ma_memory demo_micro) (ma_tools demo_micro) w =
      Inr (ru, ex)"
    by (simp add: assemble_agent_def system_prompt_def demo_profile_def assembled_executor_def demo_pipeline_env_def demo_micro_env_def
        demo_micro_def micro_agent_new_def runner_from_profile_def Let_def)
  obtain b2 where sub: "subscribe_all \<lparr>eh_agent = ma_name demo_micro, eh_memory = ma_memory demo_micro\<rparr>
      (bp_subscribe (ap_bus (ma_profile demo_micro))) b1 = (b2, Inr ())" "bus_step\<^sup>*\<^sup>* b1 b2" "bs_channels b2 = bs_channels b1"
    "bs_agents b2 = bs_agents b1"
    using subscribe_all_ok by blast
  have agents: "fst ` set (bs_agents b1) \<subseteq> insert ''dev'' (fst ` set (bs_agents b))"
    using reg name by (auto simp: bus_register_def micro_descriptor_def Let_def dest!: set_im_insert split: if_splits)
  have "bs_config b2 = bs_config b"
    using bus_run_config [OF sub(2)] bus_step_config [OF register_shape(1) [OF reg]] by simp
  then show ?thesis
    using reg m ru sub register_shape(2,3) [OF reg] agents
    by (auto simp: micro_spawn_def name micro_exit_def bus_deregister_def drop_held_def drop_receiver_def set_channel_def Let_def)
qed

theorem micro_agents_keep_to_the_bus_witness:
  "\<exists>b1 t. micro_spawn demo_micro_env demo_micro (bus_new bus_config_default) 0 = Some (b1, None, Inr t) \<and>
     bus_step\<^sup>*\<^sup>* b1 (micro_exit t b1)"
proof -
  obtain b1 t where t: "micro_spawn demo_micro_env demo_micro (bus_new bus_config_default) 0 = Some (b1, None, Inr t)"
    "mk_channel t < length (bs_channels b1)" "ch_open (bs_channels b1 ! mk_channel t)"
    using demo_micro_spawn [of "bus_new bus_config_default" 0] by (auto simp: bus_new_def bus_config_default_def)
  then show ?thesis using micro_agents_keep_to_the_bus [OF t(2,3)] by blast
qed

theorem micro_serve_answers_witness:
  "\<exists>t b1 w1 t1 ds. mk_channel t = 1 \<and>
     micro_serve demo_micro_env t \<lparr>rq_payload = JNull, rq_call = 0\<rparr> (snd (the (take_request 1 (demo_sent :: event_handler bus)))) 0 =
       Some (b1, w1, t1, ds) \<and> rc_state (bs_calls b1 ! 0) = Settled (Inr (JBool True))"
proof -
  let ?req = "\<lparr>rq_payload = JNull, rq_call = 0\<rparr>"
  obtain ru and ex :: "nat executor" where run: "\<And>input w1. \<exists>ru1. runner_run (as_agent_env (pw_assembly demo_pipeline_env) ex) demo_runner_env input 10 ru w1 =
      Some (Suc w1, ru1, Inr (JBool True))"
    using demo_assembled [of "''dev''" None] by blast
  define t where "t = \<lparr>mk_id = ''dev'', mk_channel = 1, mk_runner = ru, mk_executor = ex, mk_max_turns = 10,
    mk_profile = demo_profile ''dev'' None, mk_memory = False, mk_shared_memory = False, mk_access = \<lparr>pa_read = [], pa_write = []\<rparr>\<rparr>"
  define b :: "event_handler bus" where "b = snd (the (take_request 1 demo_sent))"
  have take: "take_request 1 (demo_sent :: event_handler bus) = Some (?req, b)"
    by (simp add: b_def take_request_def demo_defs Let_def)
  have "bus_step demo_sent b \<and> ?req \<in> set (ch_held (bs_channels b ! 1))"
    using take_request_step [OF take] by (simp add: demo_defs)
  then have b: "bus_step\<^sup>*\<^sup>* (bus_new bus_config_default) b" "?req \<in> set (ch_held (bs_channels b ! 1))"
    using demo_sent_run by (auto intro: rtranclp.rtrancl_into_rtrancl)
  have shape: "1 < length (bs_channels b)" "rc_state (bs_calls b ! 0) = Awaiting" "length (bs_calls b) = 1"
    by (simp_all add: b_def take_request_def demo_defs Let_def)
  obtain ru1 where ru1: "runner_run (as_agent_env (mc_assembly demo_micro_env) (mk_executor t)) (mc_runner demo_micro_env)
      (extract_input (mc_print demo_micro_env) (rq_payload ?req)) (mk_max_turns t) (mk_runner t) 0 = Some (Suc 0, ru1, Inr (JBool True))"
    using run [of "extract_input (mc_print demo_micro_env) JNull" 0] by (auto simp: t_def demo_micro_env_def)
  moreover obtain content out where "micro_output (mc_print demo_micro_env) (Inr (JBool True)) = (content, out)"
    by (cases "micro_output (mc_print demo_micro_env) (Inr (JBool True))")
  ultimately obtain b1 w1 t1 ds where serve: "micro_serve demo_micro_env t ?req b 0 = Some (b1, w1, t1, ds)"
    by (simp add: micro_serve_def micro_run_def Let_def)
  obtain r where "bs_calls b1 = (bs_calls b)[0 := (bs_calls b ! 0)\<lparr>rc_state := Settled (Inr (case r of Inr v \<Rightarrow> v | Inl e \<Rightarrow> JObj [(''error'', JStr e)]))\<rparr>]"
    "r = Inr (JBool True)"
    using micro_serve_answers [OF b(1) _ _ serve] b(2) shape ru1 by (auto simp: t_def)
  then have "rc_state (bs_calls b1 ! 0) = Settled (Inr (JBool True))" using shape(3) by simp
  then show ?thesis using serve unfolding b_def by (intro exI [of _ t]) (auto simp: t_def)
qed

theorem failed_spawn_takes_the_name_witness:
  "\<exists>b1 router1 e. micro_spawn (demo_micro_env\<lparr>mc_catalog := \<lparr>cat_models = [], cat_aliases = [], cat_provider_defaults = []\<rparr>\<rparr>) demo_micro
       (bus_new bus_config_default) 0 = Some (b1, router1, Inl e) \<and>
     micro_spawn demo_micro_env demo_micro b1 0 = Some (b1, None, Inl (AlreadyRegistered ''dev''))"
proof -
  let ?env = "demo_micro_env\<lparr>mc_catalog := \<lparr>cat_models = [], cat_aliases = [], cat_provider_defaults = []\<rparr>\<rparr>"
  let ?b = "bus_new bus_config_default :: event_handler bus"
  have name: "ma_name demo_micro = ''dev''" "ma_router demo_micro = None"
    by (simp_all add: ma_name_def demo_micro_def micro_agent_new_def demo_profile_def)
  have "case snd (resolve sample_ext (router_new \<lparr>cat_models = [], cat_aliases = [], cat_provider_defaults = []\<rparr>) ''m'' None) of
      Inr m \<Rightarrow> False | Inl e \<Rightarrow> True"
    by code_simp
  then obtain e where "micro_resolve ?env demo_micro = (None, Inl e)"
    by (auto simp: micro_resolve_def demo_micro_env_def demo_micro_def micro_agent_new_def demo_profile_def split: sum.splits)
  moreover obtain b2 ch where "bus_register ?b (micro_descriptor demo_micro) = Some (b2, Inr ch)"
    by (simp add: bus_register_def bus_new_def bus_config_default_def Let_def)
  ultimately obtain b1 where b1: "micro_spawn ?env demo_micro ?b 0 = Some (b1, None, Inl (ResolveError (lattice_error_display e)))"
    by (simp add: micro_spawn_def)
  have "ma_name demo_micro \<notin> fst ` set (bs_agents ?b)" by (simp add: bus_new_def)
  with failed_spawn_takes_the_name [OF b1 this refl, of demo_micro_env 0] b1 name show ?thesis by auto
qed

theorem respawn_doubles_events_witness:
  "\<exists>b1 t b2 t2 deliveries event. micro_spawn demo_micro_env demo_micro (bus_new bus_config_default) 0 = Some (b1, None, Inr t) \<and>
     micro_spawn demo_micro_env demo_micro (micro_exit t b1) 0 = Some (b2, None, Inr t2) \<and>
     bus_publish b2 ''news'' event = Inr deliveries \<and> length deliveries = 2"
proof -
  obtain b1 t where t: "micro_spawn demo_micro_env demo_micro (bus_new bus_config_default) 0 = Some (b1, None, Inr t)"
    "''dev'' \<notin> fst ` set (bs_agents (micro_exit t b1))" "bs_config b1 = bus_config_default"
    "mk_channel t < length (bs_channels b1)" "ch_open (bs_channels b1 ! mk_channel t)"
    "fst ` set (bs_agents b1) \<subseteq> {''dev''}" "fst ` set (bs_agents (micro_exit t b1)) \<subseteq> fst ` set (bs_agents b1)"
    using demo_micro_spawn [of "bus_new bus_config_default" 0] by (auto simp: bus_new_def bus_config_default_def)
  have "cf_channel_buffer_size (bs_config (micro_exit t b1)) \<noteq> 0"
    using bus_run_config [OF micro_exit_run [OF t(4,5)]] t(3) by (simp add: bus_config_default_def)
  then obtain b2 t2 where t2: "micro_spawn demo_micro_env demo_micro (micro_exit t b1) 0 = Some (b2, None, Inr t2)"
    using demo_micro_spawn [OF t(2)] by blast
  define event where "event = \<lparr>be_topic = ''news'', be_source = ''nobody'', be_payload = JNull\<rparr>"
  have "fst ` set (bs_agents b2) \<subseteq> insert ''dev'' (fst ` set (bs_agents (micro_exit t b1)))"
    using demo_micro_spawn [OF t(2) \<open>cf_channel_buffer_size (bs_config (micro_exit t b1)) \<noteq> 0\<close>, of 0] t2 by simp
  then have "fst ` set (bs_agents b2) \<subseteq> {''dev''}" using order_trans [OF t(7,6)] by (auto simp del: image_subset_iff)
  then have "map_of (bs_agents b2) ''nobody'' = None" by (auto simp: map_of_eq_None_iff)
  then obtain deliveries where ds: "bus_publish b2 ''news'' event = Inr deliveries"
    by (simp add: bus_publish_def topic_allowed_def event_def)
  have "bp_subscribe (ap_bus (ma_profile demo_micro)) = [''news'']"
    by (simp add: demo_micro_def micro_agent_new_def)
  moreover have "handlers_of (bus_new bus_config_default :: event_handler bus) ''news'' = []" by (simp add: handlers_of_def bus_new_def)
  ultimately have "length deliveries = 2"
    using respawn_doubles_events [OF t(1) t2 _ ds] by simp
  then show ?thesis using t(1) t2 ds by blast
qed

end
