(* ===== verification/Transport.thy ===== *)
theory Transport
  imports Core_Types Sse_OpenAI
begin

text \<open>
  \<open>core/provider.rs\<close> and \<open>core/transport\<close>: requests and responses as all components see them, the trait that
  translates them to the wire format of a provider and back, and the first of its implementations, the
  chat completions of OpenAI (\<open>chat_completions.rs\<close>). Reading and printing JSON text are the arguments
  \<open>from_str\<close> and \<open>print\<close> wherever the code calls \<open>serde_json\<close> for them.
\<close>

section \<open>Requests and responses\<close>

record chat_request =
  cq_messages :: "message list"
  cq_tools :: "tool_definition list"
  cq_model :: string
  cq_temperature :: "f64 option"
  cq_max_tokens :: "u32 option"
  cq_stream :: bool
  cq_resolved :: resolved_model
  cq_thinking :: "json option"
  cq_reasoning_effort :: "string option"

definition chat_request_new :: "message list \<Rightarrow> tool_definition list \<Rightarrow> resolved_model \<Rightarrow> chat_request" where
  "chat_request_new messages tools resolved =
     \<lparr>cq_messages = messages, cq_tools = tools, cq_model = rm_api_model_id resolved, cq_temperature = None,
      cq_max_tokens = None, cq_stream = False, cq_resolved = resolved, cq_thinking = None, cq_reasoning_effort = None\<rparr>"

record chat_response =
  cr_content :: "string option"
  cr_reasoning_content :: "string option"
  cr_tool_calls :: "tool_call list option"
  cr_usage :: "token_usage option"
  cr_finish_reason :: string
  cr_model :: string

datatype transport_error = Serialization string | Deserialization string | UnexpectedFormat string

fun transport_error_display :: "transport_error \<Rightarrow> string" where
  "transport_error_display (Serialization m) = ''Serialization error: '' @ m"
| "transport_error_display (Deserialization m) = ''Deserialization error: '' @ m"
| "transport_error_display (UnexpectedFormat m) = ''Unexpected format: '' @ m"

text \<open>A whole response as a stream.\<close>

definition call_events :: "tool_call \<Rightarrow> stream_event list" where
  "call_events tc =
     [ToolCallStart (tc_id tc) (fc_name (tc_function tc)), ToolCallDelta (tc_id tc) (fc_arguments (tc_function tc)),
      ToolCallEnd (tc_id tc)]"

definition chat_response_to_stream :: "chat_response \<Rightarrow> stream_event list" where
  "chat_response_to_stream r =
     (case cr_content r of Some content \<Rightarrow> if content \<noteq> [] then [Token content] else [] | None \<Rightarrow> []) @
     (case cr_tool_calls r of Some calls \<Rightarrow> concat (map call_events calls) | None \<Rightarrow> []) @
     [Done (cr_finish_reason r) (cr_usage r)]"

text \<open>
  A transport as a value. A response that makes the code panic is \<^const>\<open>None\<close>; \<open>tr_sse\<close> is the parser the
  transport creates, driven over the body of a response.
\<close>

record transport =
  tr_base_url :: string
  tr_extra_headers :: "(string, string) imap"
  tr_api_mode :: string
  tr_normalize_request :: "chat_request \<Rightarrow> (transport_error, json) res"
  tr_denormalize_response :: "json \<Rightarrow> (transport_error, chat_response) res option"
  tr_chat_endpoint :: string
  tr_auth :: "string \<Rightarrow> string \<times> string"
  tr_sse :: "body_item list \<Rightarrow> stream_event list"

definition bearer_auth :: "string \<Rightarrow> string \<times> string" where
  "bearer_auth api_key = (''authorization'', ''Bearer '' @ api_key)"

section \<open>Building bodies\<close>

definition is_object :: "json \<Rightarrow> bool" where
  "is_object v = (case v of JObj m \<Rightarrow> True | _ \<Rightarrow> False)"

text \<open>\<open>body[k] = v\<close>, which panics on anything but an object and null; bodies are objects throughout.\<close>

definition json_set :: "string \<Rightarrow> json \<Rightarrow> json \<Rightarrow> json" where
  "json_set k w v = (case v of JObj m \<Rightarrow> JObj (obj_insert k w m) | JNull \<Rightarrow> JObj [(k, w)] | _ \<Rightarrow> v)"

definition set_opt :: "string \<Rightarrow> json option \<Rightarrow> json \<Rightarrow> json" where
  "set_opt k x v = (case x of Some w \<Rightarrow> json_set k w v | None \<Rightarrow> v)"

definition num_from_f64 :: "f64 \<Rightarrow> jnum option" where
  "num_from_f64 x = (case x of Fin q \<Rightarrow> Some (Float x) | _ \<Rightarrow> None)"

definition json_u32 :: "u32 \<Rightarrow> json" where
  "json_u32 n = JNum (PosInt (ucast n))"

definition apply_temperature :: "f64 option \<Rightarrow> json \<Rightarrow> json" where
  "apply_temperature temp body =
     (case temp of
        None \<Rightarrow> body
      | Some t \<Rightarrow>
          if t = NaN \<or> t = PosInf \<or> t = NegInf then body
          else case num_from_f64 t of Some n \<Rightarrow> json_set ''temperature'' (JNum n) body | None \<Rightarrow> body)"

definition set_stream_flag :: "bool \<Rightarrow> json \<Rightarrow> json" where
  "set_stream_flag stream body = json_set ''stream'' (JBool stream) body"

fun role_name :: "role \<Rightarrow> string" where
  "role_name System = ''system''"
| "role_name User = ''user''"
| "role_name Assistant = ''assistant''"
| "role_name Tool = ''tool''"

definition function_tool :: "tool_definition \<Rightarrow> json" where
  "function_tool t =
     obj_of [(''type'', JStr ''function''),
       (''function'', obj_of [(''name'', JStr (td_name t)), (''description'', JStr (td_description t)), (''parameters'', td_parameters t)])]"

section \<open>Chat completions\<close>

definition openai_call :: "tool_call \<Rightarrow> json" where
  "openai_call tc =
     obj_of [(''id'', JStr (tc_id tc)), (''type'', JStr ''function''),
       (''function'', obj_of [(''name'', JStr (fc_name (tc_function tc))), (''arguments'', JStr (fc_arguments (tc_function tc)))])]"

definition openai_message :: "message \<Rightarrow> json" where
  "openai_message m =
     set_opt ''reasoning_content'' (map_option JStr (msg_reasoning_content m))
       (set_opt ''name'' (map_option JStr (msg_name m))
         (set_opt ''tool_call_id'' (map_option JStr (msg_tool_call_id m))
           (set_opt ''tool_calls'' (map_option (\<lambda>calls. JArr (map openai_call calls)) (msg_tool_calls m))
             (obj_of [(''role'', JStr (role_name (msg_role m))), (''content'', JStr (msg_content m))]))))"

definition openai_request :: "chat_request \<Rightarrow> (transport_error, json) res" where
  "openai_request q =
     (let body = obj_of [(''model'', JStr (cq_model q)), (''messages'', JArr (map openai_message (cq_messages q)))];
          body = (if cq_tools q = [] then body else json_set ''tools'' (JArr (map function_tool (cq_tools q))) body);
          body = apply_temperature (cq_temperature q) body;
          body = set_opt ''max_tokens'' (map_option json_u32 (cq_max_tokens q)) body;
          body = set_stream_flag (cq_stream q) body;
          body = set_opt ''thinking'' (cq_thinking q) body
      in Inr (set_opt ''reasoning_effort'' (map_option JStr (cq_reasoning_effort q)) body))"

definition openai_read_call :: "json \<Rightarrow> tool_call option" where
  "openai_read_call tc =
     (case (as_str (json_at tc ''id''), as_str (json_at (json_at tc ''function'') ''name'')) of
        (Some i, Some name) \<Rightarrow>
          Some \<lparr>tc_id = i, tc_function = \<lparr>fc_name = name,
            fc_arguments = unwrap_or (as_str (json_at (json_at tc ''function'') ''arguments'')) ''{}''\<rparr>\<rparr>
      | _ \<Rightarrow> None)"

definition nonempty :: "'a list \<Rightarrow> 'a list option" where
  "nonempty xs = (if xs = [] then None else Some xs)"

text \<open>The usage is an object of the library's own map type, whose index operator panics on a missing key.\<close>

definition counted :: "jobj \<Rightarrow> string \<Rightarrow> u32 option" where
  "counted u k = map_option (\<lambda>v. ucast (unwrap_or (as_u64 v) 0)) (map_of u k)"

definition openai_read_usage :: "jobj \<Rightarrow> token_usage option" where
  "openai_read_usage u =
     (case (counted u ''prompt_tokens'', counted u ''completion_tokens'', counted u ''total_tokens'') of
        (Some p, Some c, Some t) \<Rightarrow> Some \<lparr>prompt_tokens = p, completion_tokens = c, total_tokens = t\<rparr>
      | _ \<Rightarrow> None)"

definition openai_response :: "json \<Rightarrow> (transport_error, chat_response) res option" where
  "openai_response v =
     (case as_array (json_at v ''choices'') of
        None \<Rightarrow> Some (Inl (UnexpectedFormat ''response missing 'choices' array''))
      | Some [] \<Rightarrow> Some (Inl (UnexpectedFormat ''response 'choices' array is empty''))
      | Some (choice # _) \<Rightarrow>
          (let m = json_at choice ''message'';
               content = as_str (json_at m ''content'');
               calls = Option.bind (map_option (List.map_filter openai_read_call) (as_array (json_at m ''tool_calls''))) nonempty
           in if content = None \<and> calls = None
              then Some (Inl (UnexpectedFormat ''response has no content and no tool_calls''))
              else
                let answer = (\<lambda>usage.
                  \<lparr>cr_content = content, cr_reasoning_content = as_str (json_at m ''reasoning_content''), cr_tool_calls = calls,
                   cr_usage = usage, cr_finish_reason = unwrap_or (as_str (json_at choice ''finish_reason'')) ''stop'',
                   cr_model = unwrap_or (as_str (json_at v ''model'')) ''unknown''\<rparr>)
                in case as_object (json_at v ''usage'') of
                     None \<Rightarrow> Some (Inr (answer None))
                   | Some u \<Rightarrow> map_option (\<lambda>usage. Inr (answer (Some usage))) (openai_read_usage u)))"

definition openai_transport_at :: "(string \<Rightarrow> (string, json) res) \<Rightarrow> string \<Rightarrow> transport" where
  "openai_transport_at from_str base_url =
     \<lparr>tr_base_url = base_url, tr_extra_headers = [], tr_api_mode = ''chat_completions'',
      tr_normalize_request = openai_request, tr_denormalize_response = openai_response,
      tr_chat_endpoint = ''/chat/completions'', tr_auth = bearer_auth,
      tr_sse = sse_from_bytes_stream (openai_parse_chunk from_str) openai_new\<rparr>"

definition openai_transport :: "(string \<Rightarrow> (string, json) res) \<Rightarrow> transport" where
  "openai_transport from_str = openai_transport_at from_str ''https://api.openai.com/v1''"

section \<open>Reading what was built\<close>

lemma map_of_fold_obj_insert [simp]:
  "map_of (fold (\<lambda>(k, v). obj_insert k v) kvs m) = map_of m ++ map_of (rev kvs)"
proof (induction kvs arbitrary: m)
  case (Cons p kvs)
  then show ?case by (cases p) (simp add: fun_eq_iff map_add_def split: option.splits)
qed simp

lemma json_get_obj_of [simp]: "json_get (obj_of kvs) k = map_of (rev kvs) k"
  by (simp add: obj_of_def)

lemma json_at_obj_of [simp]: "json_at (obj_of kvs) k = unwrap_or (map_of (rev kvs) k) JNull"
  by (simp add: json_at_def)

lemma as_array_obj_of [simp]: "as_array (obj_of kvs) = None"
  by (simp add: obj_of_def)

lemma is_object_simps [simp]: "is_object (JObj m)" "is_object (obj_of kvs)"
  by (simp_all add: is_object_def obj_of_def)

lemma json_set_get [simp]: "is_object v \<Longrightarrow> json_get (json_set k w v) l = (if l = k then Some w else json_get v l)"
  by (cases v) (simp_all add: json_set_def is_object_def)

lemma json_set_object [simp]: "is_object v \<Longrightarrow> is_object (json_set k w v)"
  by (cases v) (simp_all add: json_set_def is_object_def)

lemma set_opt_object [simp]: "is_object v \<Longrightarrow> is_object (set_opt k x v)"
  by (cases x) (simp_all add: set_opt_def)

lemma set_opt_get [simp]:
  "is_object v \<Longrightarrow> json_get (set_opt k x v) l = (if l = k then or_else x (json_get v l) else json_get v l)"
  by (cases x) (simp_all add: set_opt_def)

subsection \<open>Bodies that can be printed\<close>

text \<open>JSON has no way to write an infinite number or none: all numbers of a value must be finite.\<close>

fun json_finite :: "json \<Rightarrow> bool" where
  "json_finite (JNum (Float x)) = (case x of Fin q \<Rightarrow> True | _ \<Rightarrow> False)"
| "json_finite (JArr xs) = list_all json_finite xs"
| "json_finite (JObj m) = list_all (\<lambda>p. json_finite (snd p)) m"
| "json_finite v = True"

named_theorems finite_intros \<open>bodies built from finite parts are finite\<close>

lemma finite_obj_insert [simp]:
  "json_finite v \<Longrightarrow> list_all (\<lambda>p. json_finite (snd p)) m \<Longrightarrow> list_all (\<lambda>p. json_finite (snd p)) (obj_insert k v m)"
  by (induction k v m rule: obj_insert.induct) auto

lemma finite_obj_of [finite_intros]: "list_all (\<lambda>p. json_finite (snd p)) kvs \<Longrightarrow> json_finite (obj_of kvs)"
proof -
  have "list_all (\<lambda>p. json_finite (snd p)) (fold (\<lambda>(k, v). obj_insert k v) kvs m)"
    if "list_all (\<lambda>p. json_finite (snd p)) kvs" "list_all (\<lambda>p. json_finite (snd p)) m" for m
    using that by (induction kvs arbitrary: m) auto
  then show "list_all (\<lambda>p. json_finite (snd p)) kvs \<Longrightarrow> json_finite (obj_of kvs)" by (simp add: obj_of_def)
qed

lemma finite_json_set [finite_intros]: "json_finite w \<Longrightarrow> json_finite v \<Longrightarrow> json_finite (json_set k w v)"
  by (cases v) (simp_all add: json_set_def)

lemma finite_set_opt [finite_intros]: "(\<And>w. x = Some w \<Longrightarrow> json_finite w) \<Longrightarrow> json_finite v \<Longrightarrow> json_finite (set_opt k x v)"
  by (cases x) (simp_all add: set_opt_def finite_json_set)

lemma finite_temperature [finite_intros]: "json_finite v \<Longrightarrow> json_finite (apply_temperature temp v)"
  by (auto simp: apply_temperature_def num_from_f64_def intro!: finite_json_set split: option.splits f64.splits)

lemma finite_stream_flag [finite_intros]: "json_finite v \<Longrightarrow> json_finite (set_stream_flag b v)"
  by (simp add: set_stream_flag_def finite_json_set)

lemma finite_array [finite_intros]: "(\<And>x. x \<in> set xs \<Longrightarrow> json_finite x) \<Longrightarrow> json_finite (JArr xs)"
  by (simp add: list_all_iff)

lemma finite_u32 [simp]: "json_finite (json_u32 n)"
  by (simp add: json_u32_def)

lemma finite_function_tool: "json_finite (td_parameters t) \<Longrightarrow> json_finite (function_tool t)"
  by (simp add: function_tool_def finite_obj_of)

lemma finite_openai_message: "json_finite (openai_message m)"
  unfolding openai_message_def
  by (intro finite_intros) (auto simp: openai_call_def intro!: finite_intros)

text \<open>A request whose parts from outside are finite: the schemas of its tools and the thinking mode.\<close>

definition finite_request :: "chat_request \<Rightarrow> bool" where
  "finite_request q \<longleftrightarrow> list_all (\<lambda>t. json_finite (td_parameters t)) (cq_tools q) \<and>
     (case cq_thinking q of Some v \<Rightarrow> json_finite v | None \<Rightarrow> True)"

lemma openai_request_finite:
  assumes "finite_request q"
  shows "\<exists>body. openai_request q = Inr body \<and> json_finite body"
proof -
  have tools: "json_finite (JArr (map function_tool (cq_tools q)))"
    using assms by (auto simp: finite_request_def list_all_iff intro!: finite_intros finite_function_tool)
  have messages: "json_finite (JArr (map openai_message (cq_messages q)))"
    using finite_openai_message by (simp add: list_all_iff)
  show ?thesis
    using assms tools messages unfolding openai_request_def Let_def
    by (auto simp: finite_request_def simp del: json_finite.simps(2) intro!: finite_intros)
qed

section \<open>What a wire format promises\<close>

definition message_calls :: "message \<Rightarrow> tool_call list" where
  "message_calls m = unwrap_or (msg_tool_calls m) []"

definition says_something :: "message \<Rightarrow> bool" where
  "says_something m \<longleftrightarrow> msg_content m \<noteq> [] \<or> message_calls m \<noteq> []"

text \<open>
  \<open>reply m\<close> is the response in which a provider repeats a turn of the assistant, in the words in which the
  request tells it that turn. Decoding gives the turn back: its text, and its calls with their names and
  arguments. A format may number the calls anew and print the arguments anew; that is \<open>carried\<close>.
\<close>

locale wire_format =
  fixes from_str :: "string \<Rightarrow> (string, json) res"
    and print :: "json \<Rightarrow> string"
    and reply :: "message \<Rightarrow> json"
    and decode :: "json \<Rightarrow> (transport_error, chat_response) res option"
    and carried :: "nat \<Rightarrow> tool_call \<Rightarrow> tool_call"
    and sendable :: "message \<Rightarrow> bool"
  assumes echo: "sendable m \<Longrightarrow> \<exists>r. decode (reply m) = Some (Inr r) \<and> unwrap_or (cr_content r) [] = msg_content m \<and>
      unwrap_or (cr_tool_calls r) [] = map2 carried [0..<length (message_calls m)] (message_calls m)"
    and carried_name: "fc_name (tc_function (carried i c)) = fc_name (tc_function c)"
    and carried_arguments: "from_str (fc_arguments (tc_function c)) = Inr (JObj o1) \<Longrightarrow> from_str (print (JObj o1)) = Inr (JObj o1) \<Longrightarrow>
      from_str (fc_arguments (tc_function (carried i c))) = Inr (JObj o1)"
    and no_empty_calls: "decode v = Some (Inr r) \<Longrightarrow> cr_tool_calls r \<noteq> Some []"
begin

text \<open>A call is the same to its tool: the same name, and arguments that read as the same object.\<close>

definition same_call :: "tool_call \<Rightarrow> tool_call \<Rightarrow> bool" where
  "same_call c d \<longleftrightarrow> fc_name (tc_function d) = fc_name (tc_function c) \<and>
     from_str (fc_arguments (tc_function d)) = from_str (fc_arguments (tc_function c))"

lemma turn_survives:
  assumes "sendable m"
    and "\<And>c. c \<in> set (message_calls m) \<Longrightarrow>
      \<exists>o1. from_str (fc_arguments (tc_function c)) = Inr (JObj o1) \<and> from_str (print (JObj o1)) = Inr (JObj o1)"
  shows "\<exists>r. decode (reply m) = Some (Inr r) \<and> unwrap_or (cr_content r) [] = msg_content m \<and>
    list_all2 same_call (message_calls m) (unwrap_or (cr_tool_calls r) []) \<and> (cr_tool_calls r = None \<longleftrightarrow> message_calls m = [])"
proof -
  obtain r where r: "decode (reply m) = Some (Inr r)" "unwrap_or (cr_content r) [] = msg_content m"
    "unwrap_or (cr_tool_calls r) [] = map2 carried [0..<length (message_calls m)] (message_calls m)"
    using echo [OF assms(1)] by blast
  have "same_call c (carried i c)" if "c \<in> set (message_calls m)" for i c
    using assms(2) [OF that] carried_arguments by (fastforce simp: same_call_def carried_name)
  then have "list_all2 same_call (message_calls m) (map2 carried [0..<length (message_calls m)] (message_calls m))"
    by (auto simp: list_all2_conv_all_nth)
  moreover have "cr_tool_calls r = None \<longleftrightarrow> message_calls m = []"
    using r(3) no_empty_calls [OF r(1)] by (cases "cr_tool_calls r") auto
  ultimately show ?thesis using r by auto
qed

end

subsection \<open>Chat completions\<close>

definition openai_reply :: "message \<Rightarrow> json" where
  "openai_reply m = obj_of [(''choices'', JArr [obj_of [(''message'', openai_message m)]])]"

lemma openai_read_back [simp]: "openai_read_call (openai_call c) = Some c"
  by (simp add: openai_call_def openai_read_call_def)

lemma map_filter_inverse: "(\<And>x. f (g x) = Some x) \<Longrightarrow> List.map_filter f (map g xs) = xs"
  by (induction xs) (simp_all add: map_filter_simps)

lemma openai_message_fields:
  "json_at (openai_message m) ''content'' = JStr (msg_content m)"
  "json_at (openai_message m) ''tool_calls'' =
     unwrap_or (map_option (\<lambda>calls. JArr (map openai_call calls)) (msg_tool_calls m)) JNull"
  by (cases "msg_tool_calls m"; simp add: openai_message_def json_at_def)+

lemma nonempty_simps [simp]: "nonempty [] = None" "nonempty (x # xs) = Some (x # xs)" "unwrap_or (nonempty ys) [] = ys"
  "nonempty ys \<noteq> Some []" "Option.bind x nonempty \<noteq> Some []"
  by (auto simp: nonempty_def bind_eq_Some_conv)

lemma map2_upt_ignore: "map2 (\<lambda>i c. c) [k..<k + length xs] xs = xs"
  proof (induction xs arbitrary: k)
  case (Cons x xs)
  then show ?case using Cons [of "Suc k"] by (simp add: upt_conv_Cons del: upt_Suc)
qed simp

interpretation openai: wire_format from_str print openai_reply openai_response "\<lambda>i c. c" "\<lambda>m. True"
  for from_str print
proof
  fix m
  have "Option.bind (map_option (List.map_filter openai_read_call) (as_array (json_at (openai_message m) ''tool_calls''))) nonempty =
      Option.bind (msg_tool_calls m) nonempty"
    by (cases "msg_tool_calls m") (simp_all add: openai_message_fields map_filter_inverse)
  then show "\<exists>r. openai_response (openai_reply m) = Some (Inr r) \<and> unwrap_or (cr_content r) [] = msg_content m \<and>
      unwrap_or (cr_tool_calls r) [] = map2 (\<lambda>i c. c) [0..<length (message_calls m)] (message_calls m)"
    using map2_upt_ignore [of 0 "message_calls m"]
    by (cases "msg_tool_calls m") (simp_all add: openai_response_def openai_reply_def openai_message_fields message_calls_def)
next
  fix v r
  assume "openai_response v = Some (Inr r)"
  then show "cr_tool_calls r \<noteq> Some []"
    by (auto simp: openai_response_def Let_def split: option.splits list.splits if_splits)
qed simp_all

end
