(* ===== verification/Transport_Anthropic.thy ===== *)
theory Transport_Anthropic
  imports Transport Sse_Anthropic
begin

text \<open>
  \<open>core/transport/anthropic.rs\<close>: requests and responses in the format of the Anthropic messages API. System
  messages become one text of their own, and consecutive results of tools are merged into one message.
\<close>

definition STOP_REASON_MAP :: "(string \<times> string) list" where
  "STOP_REASON_MAP =
     [(''end_turn'', ''stop''), (''tool_use'', ''tool_calls''), (''max_tokens'', ''length''), (''stop_sequence'', ''stop''),
      (''error'', ''error'')]"

definition stop_reason_of :: "string \<Rightarrow> string" where
  "stop_reason_of reason = unwrap_or (map_option snd (find (\<lambda>p. fst p = reason) STOP_REASON_MAP)) reason"

section \<open>Requests\<close>

definition text_block :: "string \<Rightarrow> json" where
  "text_block s = obj_of [(''type'', JStr ''text''), (''text'', JStr s)]"

definition wire_message :: "string \<Rightarrow> json list \<Rightarrow> json" where
  "wire_message role blocks = obj_of [(''role'', JStr role), (''content'', JArr blocks)]"

definition tool_use_block :: "(string \<Rightarrow> (string, json) res) \<Rightarrow> tool_call \<Rightarrow> json" where
  "tool_use_block from_str tc =
     obj_of [(''type'', JStr ''tool_use''), (''id'', JStr (tc_id tc)), (''name'', JStr (fc_name (tc_function tc))),
       (''input'', unwrap_or (ok_of (from_str (fc_arguments (tc_function tc)))) (JObj []))]"

definition assistant_blocks :: "(string \<Rightarrow> (string, json) res) \<Rightarrow> message \<Rightarrow> json list" where
  "assistant_blocks from_str m =
     (let blocks = (if msg_content m = [] then [] else [text_block (msg_content m)]) @
            map (tool_use_block from_str) (unwrap_or (msg_tool_calls m) [])
      in if blocks = [] then [text_block ''(empty)''] else blocks)"

definition tool_result_block :: "message \<Rightarrow> json" where
  "tool_result_block m =
     obj_of [(''type'', JStr ''tool_result''), (''tool_use_id'', JStr (unwrap_or (msg_tool_call_id m) [])),
       (''content'', JStr (if msg_content m = [] then ''(no output)'' else msg_content m))]"

text \<open>A message that can take one more result: one of the user whose first block is a result.\<close>

definition takes_result :: "json \<Rightarrow> json list option" where
  "takes_result v =
     (if json_at v ''role'' = JStr ''user''
      then case Option.bind (json_get v ''content'') as_array of
             Some (b # bs) \<Rightarrow>
               if Option.bind (json_get b ''type'') as_str = Some ''tool_result'' then Some (b # bs) else None
           | _ \<Rightarrow> None
      else None)"

definition add_result :: "json list \<Rightarrow> json \<Rightarrow> json list" where
  "add_result result block =
     (if result = [] then [wire_message ''user'' [block]]
      else case takes_result (last result) of
        Some blocks \<Rightarrow> butlast result @ [json_set ''content'' (JArr (blocks @ [block])) (last result)]
      | None \<Rightarrow> result @ [wire_message ''user'' [block]])"

definition anthropic_add ::
  "(string \<Rightarrow> (string, json) res) \<Rightarrow> message \<Rightarrow> string option \<times> json list \<Rightarrow> string option \<times> json list" where
  "anthropic_add from_str m acc =
     (case acc of (system, result) \<Rightarrow>
        (case msg_role m of
           System \<Rightarrow>
             (Some (case system of Some existing \<Rightarrow> existing @ [newline, newline] @ msg_content m | None \<Rightarrow> msg_content m), result)
         | User \<Rightarrow>
             (system, result @ [wire_message ''user'' [text_block (if msg_content m = [] then ''(empty message)'' else msg_content m)]])
         | Assistant \<Rightarrow> (system, result @ [wire_message ''assistant'' (assistant_blocks from_str m)])
         | Tool \<Rightarrow> (system, add_result result (tool_result_block m))))"

definition anthropic_messages :: "(string \<Rightarrow> (string, json) res) \<Rightarrow> message list \<Rightarrow> string option \<times> json list" where
  "anthropic_messages from_str messages = fold (anthropic_add from_str) messages (None, [])"

definition anthropic_tool :: "tool_definition \<Rightarrow> json" where
  "anthropic_tool t =
     obj_of [(''name'', JStr (td_name t)), (''description'', JStr (td_description t)), (''input_schema'', td_parameters t)]"

definition anthropic_request :: "(string \<Rightarrow> (string, json) res) \<Rightarrow> chat_request \<Rightarrow> (transport_error, json) res" where
  "anthropic_request from_str q =
     (let (system, messages) = anthropic_messages from_str (cq_messages q);
          body = obj_of [(''model'', JStr (cq_model q)), (''messages'', JArr messages),
            (''max_tokens'', json_u32 (unwrap_or (cq_max_tokens q) 4096))];
          body = set_opt ''system'' (map_option JStr system) body;
          body = (if cq_tools q = [] then body else json_set ''tools'' (JArr (map anthropic_tool (cq_tools q))) body)
      in Inr (set_stream_flag (cq_stream q) (apply_temperature (cq_temperature q) body)))"

section \<open>Responses\<close>

definition anthropic_read_call :: "(json \<Rightarrow> string) \<Rightarrow> json \<Rightarrow> tool_call" where
  "anthropic_read_call print block =
     \<lparr>tc_id = unwrap_or (Option.bind (json_get block ''id'') as_str) [],
      tc_function = \<lparr>fc_name = unwrap_or (Option.bind (json_get block ''name'') as_str) [],
        fc_arguments = print (unwrap_or (json_get block ''input'') (JObj []))\<rparr>\<rparr>"

definition anthropic_block ::
  "(json \<Rightarrow> string) \<Rightarrow> json \<Rightarrow> string list \<times> tool_call list \<Rightarrow> string list \<times> tool_call list" where
  "anthropic_block print block acc =
     (case acc of (texts, calls) \<Rightarrow>
        let kind = unwrap_or (Option.bind (json_get block ''type'') as_str) []
        in if kind = ''text'' then
             (case Option.bind (json_get block ''text'') as_str of Some t \<Rightarrow> (texts @ [t], calls) | None \<Rightarrow> (texts, calls))
           else if kind = ''tool_use'' then (texts, calls @ [anthropic_read_call print block])
           else (texts, calls))"

definition anthropic_read_usage :: "json \<Rightarrow> token_usage" where
  "anthropic_read_usage u =
     \<lparr>prompt_tokens = ucast (u64_at u ''input_tokens''), completion_tokens = ucast (u64_at u ''output_tokens''),
      total_tokens = ucast (u64_at u ''input_tokens'' + u64_at u ''output_tokens'')\<rparr>"

definition anthropic_response :: "(json \<Rightarrow> string) \<Rightarrow> json \<Rightarrow> (transport_error, chat_response) res" where
  "anthropic_response print v =
     (let (texts, calls) = fold (anthropic_block print) (unwrap_or (Option.bind (json_get v ''content'') as_array) []) ([], [])
      in Inr \<lparr>cr_content = (if texts = [] then None else Some (concat texts)), cr_reasoning_content = None,
           cr_tool_calls = nonempty calls, cr_usage = map_option anthropic_read_usage (json_get v ''usage''),
           cr_finish_reason = stop_reason_of (unwrap_or (Option.bind (json_get v ''stop_reason'') as_str) ''end_turn''),
           cr_model = unwrap_or (Option.bind (json_get v ''model'') as_str) []\<rparr>)"

definition anthropic_transport :: "(string \<Rightarrow> (string, json) res) \<Rightarrow> (json \<Rightarrow> string) \<Rightarrow> transport" where
  "anthropic_transport from_str print =
     \<lparr>tr_base_url = ''https://api.anthropic.com'', tr_extra_headers = [(''anthropic-version'', ''2023-06-01'')],
      tr_api_mode = ''anthropic'', tr_normalize_request = anthropic_request from_str,
      tr_denormalize_response = Some \<circ> anthropic_response print, tr_chat_endpoint = ''/v1/messages'',
      tr_auth = Pair ''x-api-key'', tr_sse = sse_from_bytes_stream (anthropic_parse_chunk from_str) anthropic_new\<rparr>"

section \<open>Messages are the conversation with runs of results grouped\<close>

text \<open>The specification: without the system messages, each run of results is one group.\<close>

fun grouped :: "message list \<Rightarrow> message list list" where
  "grouped [] = []"
| "grouped (m # ms) =
     (case grouped ms of
        [] \<Rightarrow> [[m]]
      | g # gs \<Rightarrow> if msg_role m = Tool \<and> msg_role (hd g) = Tool then (m # g) # gs else [m] # g # gs)"

definition group_wire :: "(string \<Rightarrow> (string, json) res) \<Rightarrow> message list \<Rightarrow> json" where
  "group_wire from_str g =
     (case msg_role (hd g) of
        Assistant \<Rightarrow> wire_message ''assistant'' (assistant_blocks from_str (hd g))
      | Tool \<Rightarrow> wire_message ''user'' (map tool_result_block g)
      | _ \<Rightarrow> wire_message ''user'' [text_block (if msg_content (hd g) = [] then ''(empty message)'' else msg_content (hd g))])"

definition is_tool_group :: "message list \<Rightarrow> bool" where
  "is_tool_group g \<longleftrightarrow> msg_role (hd g) = Tool"

definition joins :: "message list list \<Rightarrow> message \<Rightarrow> bool" where
  "joins gs m \<longleftrightarrow> msg_role m = Tool \<and> gs \<noteq> [] \<and> is_tool_group (last gs)"

lemma grouped_Nil_iff [simp]: "grouped ms = [] \<longleftrightarrow> ms = []"
  by (cases ms) (auto split: list.splits)

lemma grouped_nonempty: "g \<in> set (grouped ms) \<Longrightarrow> g \<noteq> []"
  by (induction ms arbitrary: g) (auto split: list.splits if_splits)

text \<open>Every group is a single message or a run of results.\<close>

lemma grouped_shape: "g \<in> set (grouped ms) \<Longrightarrow> (\<exists>m. g = [m]) \<or> (\<forall>m \<in> set g. msg_role m = Tool)"
proof (induction ms arbitrary: g)
  case (Cons m ms)
  show ?case
  proof (cases "grouped ms")
    case (Cons h hs)
    then have "h \<noteq> []" using grouped_nonempty [of h ms] by simp
    then show ?thesis using Cons Cons.prems Cons.IH [of g] Cons.IH [of h] by (auto split: if_splits)
  qed (use Cons.prems in auto)
qed simp

lemma grouped_concat: "concat (grouped ms) = ms"
  by (induction ms) (auto split: list.splits)

lemma grouped_apart: "successively (\<lambda>g h. \<not> (is_tool_group g \<and> is_tool_group h)) (grouped ms)"
proof (induction ms)
  case (Cons m ms)
  show ?case
  proof (cases "grouped ms")
    case (Cons g gs)
    then show ?thesis using Cons.IH by (cases gs) (auto simp: is_tool_group_def)
  qed simp
qed simp

lemma grouped_snoc:
  "grouped (ms @ [m]) =
     (if joins (grouped ms) m then butlast (grouped ms) @ [last (grouped ms) @ [m]] else grouped ms @ [[m]])"
proof (induction ms)
  case (Cons a ms)
  show ?case
  proof (cases "grouped ms")
    case Nil
    then show ?thesis by (auto simp: joins_def is_tool_group_def)
  next
    case (Cons g gs)
    then have "g \<noteq> []" using grouped_nonempty [of g ms] by simp
    then show ?thesis using Cons.IH Cons by (cases gs) (auto simp: joins_def is_tool_group_def)
  qed
qed (simp add: joins_def)

lemma wire_message_simps [simp]:
  "json_at (wire_message role blocks) ''role'' = JStr role" "json_get (wire_message role blocks) ''content'' = Some (JArr blocks)"
  by (simp_all add: wire_message_def)

lemma obj_insert_cong_set: "json_set k w (obj_of kvs) = obj_of (kvs @ [(k, w)])"
  by (simp add: obj_of_def json_set_def)

lemma wire_message_set: "json_set ''content'' (JArr bs) (wire_message role blocks) = wire_message role bs"
  by (simp add: wire_message_def json_set_def obj_of_def)

lemma tool_result_type [simp]: "json_get (tool_result_block m) ''type'' = Some (JStr ''tool_result'')"
  by (simp add: tool_result_block_def)

lemma takes_result_group:
  assumes "g \<noteq> []"
  shows "takes_result (group_wire from_str g) = (if is_tool_group g then Some (map tool_result_block g) else None)"
  using assms
  by (cases g; cases "msg_role (hd g)") (simp_all add: takes_result_def group_wire_def is_tool_group_def text_block_def)

lemma anthropic_add_grouped:
  assumes "msg_role m \<noteq> System"
  shows "anthropic_add from_str m (system, map (group_wire from_str) (grouped ms)) =
    (system, map (group_wire from_str) (grouped (ms @ [m])))"
proof (cases "msg_role m = Tool")
  case True
  show ?thesis
  proof (cases "ms = []")
    case False
    then have ne: "grouped ms \<noteq> []" "last (grouped ms) \<noteq> []" using grouped_nonempty [OF last_in_set, of ms] by auto
    then have "group_wire from_str (last (grouped ms) @ [m]) =
        wire_message ''user'' (map tool_result_block (last (grouped ms) @ [m]))" if "is_tool_group (last (grouped ms))"
      using that by (simp add: group_wire_def is_tool_group_def)
    moreover have "group_wire from_str (last (grouped ms)) = wire_message ''user'' (map tool_result_block (last (grouped ms)))"
      if "is_tool_group (last (grouped ms))"
      using that by (simp add: group_wire_def is_tool_group_def)
    ultimately show ?thesis
      using True ne takes_result_group [OF ne(2), of from_str]
      by (simp add: anthropic_add_def add_result_def grouped_snoc joins_def last_map map_butlast group_wire_def wire_message_set)
  qed (simp add: anthropic_add_def add_result_def True group_wire_def)
next
  case False
  then have "grouped (ms @ [m]) = grouped ms @ [[m]]" by (simp add: grouped_snoc joins_def)
  then show ?thesis using assms False by (cases "msg_role m") (simp_all add: anthropic_add_def group_wire_def)
qed

definition system_text :: "message list \<Rightarrow> string option" where
  "system_text ms =
     map_option (str_join [newline, newline]) (nonempty (map msg_content (filter (\<lambda>m. msg_role m = System) ms)))"

definition turns :: "message list \<Rightarrow> message list" where
  "turns ms = filter (\<lambda>m. msg_role m \<noteq> System) ms"

lemma messages_as_groups:
  "anthropic_messages from_str ms = (system_text ms, map (group_wire from_str) (grouped (turns ms)))"
proof (induction ms rule: rev_induct)
  case Nil
  show ?case by (simp add: anthropic_messages_def system_text_def turns_def)
next
  case (snoc m ms)
  show ?case
  proof (cases "msg_role m = System")
    case True
    let ?texts = "map msg_content (filter (\<lambda>m. msg_role m = System) ms)"
    have "system_text (ms @ [m]) = Some (case system_text ms of Some s \<Rightarrow> s @ [newline, newline] @ msg_content m | None \<Rightarrow> msg_content m)"
      using True str_join_snoc [of ?texts "[newline, newline]" "msg_content m"]
      by (cases "?texts = []") (simp_all add: system_text_def nonempty_def)
    moreover have "turns (ms @ [m]) = turns ms" using True by (simp add: turns_def)
    ultimately show ?thesis using snoc.IH True by (simp add: anthropic_messages_def anthropic_add_def)
  next
    case False
    then have "system_text (ms @ [m]) = system_text ms" "turns (ms @ [m]) = turns ms @ [m]" by (simp_all add: system_text_def turns_def)
    then show ?thesis using snoc.IH anthropic_add_grouped [OF False] by (simp add: anthropic_messages_def)
  qed
qed

section \<open>Bodies that can be printed\<close>

lemma finite_text_block [simp]: "json_finite (text_block s)"
  by (simp add: text_block_def finite_obj_of)

lemma finite_group_wire:
  assumes "\<And>s v. from_str s = Inr v \<Longrightarrow> json_finite v"
  shows "json_finite (group_wire from_str g)"
proof -
  have "json_finite (tool_use_block from_str c)" for c
    using assms by (cases "from_str (fc_arguments (tc_function c))") (auto simp: tool_use_block_def intro!: finite_obj_of)
  moreover have "json_finite (tool_result_block m)" for m by (simp add: tool_result_block_def finite_obj_of)
  ultimately show ?thesis
    by (auto simp: group_wire_def wire_message_def assistant_blocks_def Let_def list_all_iff intro!: finite_obj_of split: role.splits)
qed

lemma anthropic_request_finite:
  assumes "finite_request q" and "\<And>s v. from_str s = Inr v \<Longrightarrow> json_finite v"
  shows "\<exists>body. anthropic_request from_str q = Inr body \<and> json_finite body"
proof -
  have tools: "json_finite (JArr (map anthropic_tool (cq_tools q)))"
    using assms(1) by (auto simp: finite_request_def list_all_iff anthropic_tool_def intro!: finite_obj_of)
  have messages: "json_finite (JArr (snd (anthropic_messages from_str ms)))" for ms
    using finite_group_wire [OF assms(2)] by (auto simp: messages_as_groups list_all_iff)
  show ?thesis
    using tools messages [of "cq_messages q"] unfolding anthropic_request_def Let_def
    by (auto simp del: json_finite.simps(2) intro!: finite_intros split: prod.splits)
qed

section \<open>Turns survive the format\<close>

definition anthropic_reply :: "(string \<Rightarrow> (string, json) res) \<Rightarrow> message \<Rightarrow> json" where
  "anthropic_reply from_str m = obj_of [(''content'', JArr (assistant_blocks from_str m))]"

definition anthropic_carried :: "(string \<Rightarrow> (string, json) res) \<Rightarrow> (json \<Rightarrow> string) \<Rightarrow> nat \<Rightarrow> tool_call \<Rightarrow> tool_call" where
  "anthropic_carried from_str print i c =
     c\<lparr>tc_function := (tc_function c)\<lparr>fc_arguments :=
        print (unwrap_or (ok_of (from_str (fc_arguments (tc_function c)))) (JObj []))\<rparr>\<rparr>"

lemma fold_tool_blocks:
  "fold (anthropic_block print) (map (tool_use_block from_str) cs) (texts, calls) =
     (texts, calls @ map2 (anthropic_carried from_str print) [k..<k + length cs] cs)"
proof (induction cs arbitrary: calls k)
  case (Cons c cs)
  have "anthropic_block print (tool_use_block from_str c) (texts, calls) = (texts, calls @ [anthropic_carried from_str print k c])"
    by (simp add: anthropic_block_def tool_use_block_def anthropic_read_call_def anthropic_carried_def)
  then show ?case using Cons [of _ "Suc k"] by (simp add: upt_conv_Cons del: upt_Suc)
qed simp

interpretation anthropic: wire_format from_str print "anthropic_reply from_str" "Some \<circ> anthropic_response print"
  "anthropic_carried from_str print" says_something
  for from_str print
proof
  fix m
  assume says: "says_something m"
  let ?calls = "message_calls m" and ?text = "if msg_content m = [] then [] else [msg_content m]"
  have blocks: "assistant_blocks from_str m = map text_block ?text @ map (tool_use_block from_str) ?calls"
    using says by (auto simp: assistant_blocks_def says_something_def message_calls_def)
  have "fold (anthropic_block print) (map text_block ?text) ([], []) = (?text, [])"
    by (simp add: anthropic_block_def text_block_def)
  then have "fold (anthropic_block print) (assistant_blocks from_str m) ([], []) =
      (?text, map2 (anthropic_carried from_str print) [0..<length ?calls] ?calls)"
    using fold_tool_blocks [of print from_str ?calls ?text "[]" 0] by (simp add: blocks)
  then show "\<exists>r. (Some \<circ> anthropic_response print) (anthropic_reply from_str m) = Some (Inr r) \<and>
      unwrap_or (cr_content r) [] = msg_content m \<and>
      unwrap_or (cr_tool_calls r) [] = map2 (anthropic_carried from_str print) [0..<length ?calls] ?calls"
    by (simp add: anthropic_response_def anthropic_reply_def)
next
  fix v r
  assume "(Some \<circ> anthropic_response print) v = Some (Inr r)"
  then show "cr_tool_calls r \<noteq> Some []" by (auto simp: anthropic_response_def split: prod.splits)
qed (simp_all add: anthropic_carried_def)

section \<open>The messages of a request\<close>

text \<open>
  C31: The messages of a request in the format of Anthropic are the conversation without its system messages,
  where every run of tool results has become one message that holds them all, in order; the system messages
  are joined, in order, into the one system text. A system message between two results does not separate them.
\<close>

theorem anthropic_messages_grouped:
  "anthropic_messages from_str ms = (system_text ms, map (group_wire from_str) (grouped (turns ms))) \<and>
    concat (grouped ms) = ms \<and> (\<forall>g \<in> set (grouped ms). (\<exists>m. g = [m]) \<or> (\<forall>m \<in> set g. msg_role m = Tool)) \<and>
    successively (\<lambda>g h. \<not> (is_tool_group g \<and> is_tool_group h)) (grouped ms)"
  using messages_as_groups grouped_concat grouped_shape grouped_apart by auto

section \<open>Witness\<close>

text \<open>Two tool results with a system message between them become one message.\<close>

definition demo_results :: "message list" where
  "demo_results =
     [message_new Tool ''one'' None (Some ''t1'') None, message_new System ''rules'' None None None,
      message_new Tool ''two'' None (Some ''t2'') None]"

theorem anthropic_messages_grouped_witness:
  "length (snd (anthropic_messages (\<lambda>_. Inl []) demo_results)) = 1 \<and> concat (grouped demo_results) = demo_results"
proof -
  have "length (grouped (turns demo_results)) = 1" by (simp add: demo_results_def) code_simp
  then show ?thesis using anthropic_messages_grouped [of "\<lambda>_. Inl []" demo_results] by simp
qed

end
