(* ===== verification/Transport_Gemini.thy ===== *)
theory Transport_Gemini
  imports Transport Sse_Gemini
begin

text \<open>
  \<open>core/transport/gemini.rs\<close>: requests and responses in the format of Google's \<open>generateContent\<close>. The two
  functions of that file that send requests are modelled with the other senders, in \<open>Invocation\<close>.
\<close>

text \<open>The file has its own copies of the functions that name the calls and map the reasons.\<close>

definition generate_call_id :: "string \<Rightarrow> nat \<Rightarrow> string" where
  "generate_call_id name index = ''tc_'' @ name @ ''_'' @ show_nat index"

definition finish_reason_of :: "string \<Rightarrow> string" where
  "finish_reason_of reason =
     (let r = to_uppercase reason
      in if r = ''STOP'' then ''stop''
         else if r = ''MAX_TOKENS'' then ''length''
         else if r = ''SAFETY'' \<or> r = ''RECITATION'' then ''content_filter''
         else if r = ''OTHER'' then ''unknown''
         else ''unknown'')"

section \<open>Requests\<close>

definition text_part :: "string \<Rightarrow> json" where
  "text_part s = obj_of [(''text'', JStr s)]"

definition content_entry :: "string \<Rightarrow> json list \<Rightarrow> json" where
  "content_entry role parts = obj_of [(''role'', JStr role), (''parts'', JArr parts)]"

definition call_args :: "(string \<Rightarrow> (string, json) res) \<Rightarrow> tool_call \<Rightarrow> json" where
  "call_args from_str tc =
     (let args = unwrap_or (ok_of (from_str (fc_arguments (tc_function tc)))) (JObj [])
      in if is_object args then args else obj_of [(''_value'', args)])"

definition call_part :: "(string \<Rightarrow> (string, json) res) \<Rightarrow> tool_call \<Rightarrow> json" where
  "call_part from_str tc =
     obj_of [(''functionCall'', obj_of [(''name'', JStr (fc_name (tc_function tc))), (''args'', call_args from_str tc)])]"

definition model_parts :: "(string \<Rightarrow> (string, json) res) \<Rightarrow> message \<Rightarrow> json list" where
  "model_parts from_str m =
     (let parts = (if msg_content m = [] then [] else [text_part (msg_content m)]) @
            map (call_part from_str) (unwrap_or (msg_tool_calls m) [])
      in if parts = [] then [text_part '' ''] else parts)"

definition starts_with_char :: "char \<Rightarrow> string \<Rightarrow> bool" where
  "starts_with_char c s = prefix [c] s"

definition result_value :: "(string \<Rightarrow> (string, json) res) \<Rightarrow> string \<Rightarrow> json" where
  "result_value from_str content =
     (let wrapped = obj_of [(''output'', JStr content)];
          response = (if starts_with_char (CHR ''{'') (trim content) \<or> starts_with_char (CHR ''['') (trim content)
            then unwrap_or (ok_of (from_str content)) wrapped else wrapped)
      in if is_object response then response else obj_of [(''output'', response)])"

definition result_entry :: "(string \<Rightarrow> (string, json) res) \<Rightarrow> message \<Rightarrow> json" where
  "result_entry from_str m =
     content_entry ''user''
       [obj_of [(''functionResponse'',
          obj_of [(''name'', JStr (unwrap_or (msg_name m) (unwrap_or (msg_tool_call_id m) ''tool''))),
            (''response'', result_value from_str (msg_content m))])]]"

definition gemini_add ::
  "(string \<Rightarrow> (string, json) res) \<Rightarrow> message \<Rightarrow> json list \<times> json list \<Rightarrow> json list \<times> json list" where
  "gemini_add from_str m acc =
     (case acc of (system_parts, contents) \<Rightarrow>
        (case msg_role m of
           System \<Rightarrow> (if msg_content m = [] then system_parts else system_parts @ [text_part (msg_content m)], contents)
         | User \<Rightarrow>
             (system_parts, contents @ [content_entry ''user'' [text_part (if msg_content m = [] then '' '' else msg_content m)]])
         | Assistant \<Rightarrow> (system_parts, contents @ [content_entry ''model'' (model_parts from_str m)])
         | Tool \<Rightarrow> (system_parts, contents @ [result_entry from_str m])))"

definition build_contents :: "(string \<Rightarrow> (string, json) res) \<Rightarrow> message list \<Rightarrow> json \<times> json option" where
  "build_contents from_str messages =
     (let (system_parts, contents) = fold (gemini_add from_str) messages ([], [])
      in (JArr contents, if system_parts = [] then None else Some (obj_of [(''parts'', JArr system_parts)])))"

definition tool_declaration :: "tool_definition \<Rightarrow> json" where
  "tool_declaration td =
     (let decl = obj_of [(''name'', JStr (td_name td)), (''description'', JStr (td_description td))]
      in if td_parameters td \<noteq> JNull \<and> td_parameters td \<noteq> JObj []
         then json_set ''parameters'' (td_parameters td) decl else decl)"

definition build_tools :: "tool_definition list \<Rightarrow> json" where
  "build_tools tools =
     (if tools = [] then JArr [] else JArr [obj_of [(''functionDeclarations'', JArr (map tool_declaration tools))]])"

definition generation_config :: "chat_request \<Rightarrow> json" where
  "generation_config q =
     set_opt ''maxOutputTokens'' (map_option json_u32 (cq_max_tokens q)) (apply_temperature (cq_temperature q) (JObj []))"

definition gemini_request :: "(string \<Rightarrow> (string, json) res) \<Rightarrow> chat_request \<Rightarrow> (transport_error, json) res" where
  "gemini_request from_str q =
     (let (contents, system_instruction) = build_contents from_str (cq_messages q);
          body = set_opt ''systemInstruction'' system_instruction (obj_of [(''contents'', contents)]);
          tools = build_tools (cq_tools q);
          body = (case as_array tools of Some (_ # _) \<Rightarrow> json_set ''tools'' tools body | _ \<Rightarrow> body);
          config = generation_config q
      in Inr (case as_object config of Some (_ # _) \<Rightarrow> json_set ''generationConfig'' config body | _ \<Rightarrow> body))"

section \<open>Responses\<close>

definition candidate_parts :: "json \<Rightarrow> json list" where
  "candidate_parts cand =
     unwrap_or (Option.bind (Option.bind (json_get cand ''content'') (\<lambda>c. json_get c ''parts'')) as_array) []"

definition is_thought :: "json \<Rightarrow> bool" where
  "is_thought part \<longleftrightarrow> Option.bind (json_get part ''thought'') as_bool = Some True"

definition part_text :: "json \<Rightarrow> string option" where
  "part_text part = Option.bind (json_get part ''text'') as_str"

definition part_name :: "json \<Rightarrow> string" where
  "part_name fc = unwrap_or (Option.bind (json_get fc ''name'') as_str) []"

definition part_args :: "(json \<Rightarrow> string) \<Rightarrow> json \<Rightarrow> string" where
  "part_args print fc = print (unwrap_or (json_get fc ''args'') (JObj []))"

definition read_part :: "(json \<Rightarrow> string) \<Rightarrow> json \<Rightarrow> string list \<times> tool_call list \<Rightarrow> string list \<times> tool_call list" where
  "read_part print part acc =
     (case acc of (texts, calls) \<Rightarrow>
        if is_thought part then (texts, calls)
        else
          (texts @ (case part_text part of Some t \<Rightarrow> [t] | None \<Rightarrow> []),
           calls @ (case json_get part ''functionCall'' of
             Some fc \<Rightarrow>
               [\<lparr>tc_id = generate_call_id (part_name fc) (length calls),
                 tc_function = \<lparr>fc_name = part_name fc, fc_arguments = part_args print fc\<rparr>\<rparr>]
           | None \<Rightarrow> [])))"

definition gemini_response :: "(json \<Rightarrow> string) \<Rightarrow> json \<Rightarrow> (transport_error, chat_response) res" where
  "gemini_response print v =
     (case Option.bind (json_get v ''candidates'') as_array of
        Some (cand # _) \<Rightarrow>
          (let (texts, calls) = fold (read_part print) (candidate_parts cand) ([], [])
           in Inr \<lparr>cr_content = (if texts = [] then None else Some (concat texts)), cr_reasoning_content = None,
                cr_tool_calls = nonempty calls, cr_usage = map_option gemini_usage (json_get v ''usageMetadata''),
                cr_finish_reason = (if calls \<noteq> [] then ''tool_calls''
                  else finish_reason_of (unwrap_or (Option.bind (json_get cand ''finishReason'') as_str) ''STOP'')),
                cr_model = unwrap_or (Option.bind (json_get v ''modelVersion'') as_str) []\<rparr>)
      | _ \<Rightarrow>
          Inr \<lparr>cr_content = None, cr_reasoning_content = None, cr_tool_calls = None, cr_usage = None,
            cr_finish_reason = ''stop'', cr_model = []\<rparr>)"

text \<open>\<open>denormalize_stream_chunk\<close>, the reader of single chunks that the transport offers beside its parser.\<close>

datatype stream_chunk =
  ChunkToken string
| ChunkThinking string
| ChunkToolCall nat string string string
| ChunkDone string
| ChunkUsage token_usage

definition chunk_part :: "(json \<Rightarrow> string) \<Rightarrow> json \<Rightarrow> nat \<times> stream_chunk list \<Rightarrow> nat \<times> stream_chunk list" where
  "chunk_part print part acc =
     (case acc of (tc_index, results) \<Rightarrow>
        if is_thought part
        then (tc_index, results @ (case part_text part of Some t \<Rightarrow> [ChunkThinking t] | None \<Rightarrow> []))
        else
          let texts = (case part_text part of Some t \<Rightarrow> if t \<noteq> [] then [ChunkToken t] else [] | None \<Rightarrow> [])
          in case json_get part ''functionCall'' of
               Some fc \<Rightarrow>
                 (tc_index + 1, results @ texts @
                    [ChunkToolCall tc_index (generate_call_id (part_name fc) tc_index) (part_name fc) (part_args print fc)])
             | None \<Rightarrow> (tc_index, results @ texts))"

definition gemini_stream_chunk :: "(json \<Rightarrow> string) \<Rightarrow> json \<Rightarrow> stream_chunk list" where
  "gemini_stream_chunk print chunk =
     (case Option.bind (json_get chunk ''candidates'') as_array of
        Some (cand # _) \<Rightarrow>
          (let (tc_index, results) = fold (chunk_part print) (candidate_parts cand) (0, [])
           in results @
              (case Option.bind (json_get cand ''finishReason'') as_str of
                 Some reason \<Rightarrow> [ChunkDone (if tc_index > 0 then ''tool_calls'' else finish_reason_of reason)]
               | None \<Rightarrow> []) @
              (case json_get chunk ''usageMetadata'' of Some u \<Rightarrow> [ChunkUsage (gemini_usage u)] | None \<Rightarrow> []))
      | _ \<Rightarrow> [])"

definition gemini_transport_at :: "(string \<Rightarrow> (string, json) res) \<Rightarrow> (json \<Rightarrow> string) \<Rightarrow> string \<Rightarrow> transport" where
  "gemini_transport_at from_str print base_url =
     \<lparr>tr_base_url = base_url, tr_extra_headers = [], tr_api_mode = ''gemini'', tr_normalize_request = gemini_request from_str,
      tr_denormalize_response = Some \<circ> gemini_response print, tr_chat_endpoint = ''/chat/completions'',
      tr_auth = Pair ''x-goog-api-key'', tr_sse = sse_from_bytes_stream (gemini_parse_chunk from_str print) gemini_new\<rparr>"

definition gemini_transport :: "(string \<Rightarrow> (string, json) res) \<Rightarrow> (json \<Rightarrow> string) \<Rightarrow> transport" where
  "gemini_transport from_str print = gemini_transport_at from_str print ''https://generativelanguage.googleapis.com/v1beta''"

section \<open>Bodies that can be printed\<close>

lemma gemini_contents_finite:
  assumes "\<And>s v. from_str s = Inr v \<Longrightarrow> json_finite v"
    and "list_all json_finite (fst acc)" and "list_all json_finite (snd acc)"
  shows "list_all json_finite (fst (fold (gemini_add from_str) ms acc)) \<and> list_all json_finite (snd (fold (gemini_add from_str) ms acc))"
  using assms(2,3)
proof (induction ms arbitrary: acc)
  case (Cons m ms)
  have text_ok: "json_finite (text_part s)" for s by (simp add: text_part_def finite_obj_of)
  have parsed: "json_finite (unwrap_or (ok_of (from_str s)) v)" if "json_finite v" for s v
    using assms(1) that by (cases "from_str s") auto
  have call: "json_finite (call_part from_str c)" for c
    using parsed [of "JObj []"] by (auto simp: call_part_def call_args_def Let_def intro!: finite_obj_of)
  have "json_finite (content_entry ''model'' (model_parts from_str m))"
    using text_ok call by (auto simp: content_entry_def model_parts_def Let_def list_all_iff intro!: finite_obj_of)
  moreover have "json_finite (result_value from_str s)" for s
    by (auto simp: result_value_def Let_def intro!: finite_obj_of parsed)
  then have "json_finite (result_entry from_str m)"
    by (auto simp: result_entry_def content_entry_def intro!: finite_obj_of)
  ultimately have "list_all json_finite (fst (gemini_add from_str m acc))" "list_all json_finite (snd (gemini_add from_str m acc))"
    using Cons.prems text_ok
    by (auto simp: gemini_add_def content_entry_def intro!: finite_obj_of split: prod.splits role.splits)
  then show ?case using Cons.IH by simp
qed simp

lemma gemini_request_finite:
  assumes "finite_request q" and "\<And>s v. from_str s = Inr v \<Longrightarrow> json_finite v"
  shows "\<exists>body. gemini_request from_str q = Inr body \<and> json_finite body"
proof -
  have "json_finite (tool_declaration t)" if "t \<in> set (cq_tools q)" for t
    using assms(1) that by (auto simp: finite_request_def list_all_iff tool_declaration_def Let_def intro!: finite_intros)
  then have tools: "json_finite (build_tools (cq_tools q))"
    by (auto simp: build_tools_def list_all_iff intro!: finite_obj_of)
  have config: "json_finite (generation_config q)"
    by (auto simp: generation_config_def intro!: finite_intros)
  have "json_finite (fst (build_contents from_str ms))" "snd (build_contents from_str ms) = Some w \<Longrightarrow> json_finite w" for ms w
    using gemini_contents_finite [of from_str "([], [])" ms, OF assms(2)]
    by (auto simp: build_contents_def Let_def intro!: finite_obj_of split: prod.splits if_splits)
  then have body: "json_finite (set_opt ''systemInstruction'' sys (obj_of [(''contents'', contents)]))"
    if "build_contents from_str ms = (contents, sys)" for ms contents sys
    using that by (metis finite_set_opt finite_obj_of fst_conv snd_conv list.pred_inject)
  obtain contents sys where c: "build_contents from_str (cq_messages q) = (contents, sys)" by fastforce
  show ?thesis
    using tools config body [OF c]
    by (auto simp: gemini_request_def Let_def c intro!: finite_json_set split: option.splits list.splits)
qed

section \<open>Turns survive the format\<close>

lemma generate_call_id_eq: "generate_call_id = tool_call_id"
  by (simp add: fun_eq_iff generate_call_id_def tool_call_id_def)

lemma finish_reason_of_eq: "finish_reason_of = map_finish_reason"
  by (simp add: fun_eq_iff finish_reason_of_def map_finish_reason_def Let_def)

definition gemini_reply :: "(string \<Rightarrow> (string, json) res) \<Rightarrow> message \<Rightarrow> json" where
  "gemini_reply from_str m =
     obj_of [(''candidates'', JArr [obj_of [(''content'', content_entry ''model'' (model_parts from_str m))]])]"

definition gemini_carried :: "(string \<Rightarrow> (string, json) res) \<Rightarrow> (json \<Rightarrow> string) \<Rightarrow> nat \<Rightarrow> tool_call \<Rightarrow> tool_call" where
  "gemini_carried from_str print i c =
     \<lparr>tc_id = generate_call_id (fc_name (tc_function c)) i,
      tc_function = \<lparr>fc_name = fc_name (tc_function c), fc_arguments = print (call_args from_str c)\<rparr>\<rparr>"

lemma content_entry_parts [simp]: "json_get (content_entry role parts) ''parts'' = Some (JArr parts)"
  by (simp add: content_entry_def)

lemma read_call_part:
  "read_part print (call_part from_str c) (texts, calls) = (texts, calls @ [gemini_carried from_str print (length calls) c])"
  by (simp add: read_part_def call_part_def is_thought_def part_text_def part_name_def part_args_def gemini_carried_def)

lemma fold_call_parts:
  "fold (read_part print) (map (call_part from_str) cs) (texts, calls) =
     (texts, calls @ map2 (gemini_carried from_str print) [length calls..<length calls + length cs] cs)"
proof (induction cs arbitrary: calls)
  case (Cons c cs)
  show ?case using Cons [of "calls @ [gemini_carried from_str print (length calls) c]"]
    by (simp add: read_call_part upt_conv_Cons del: upt_Suc)
qed simp

interpretation gemini: wire_format from_str print "gemini_reply from_str" "Some \<circ> gemini_response print"
  "gemini_carried from_str print" says_something
  for from_str print
proof
  fix m
  assume says: "says_something m"
  let ?calls = "message_calls m" and ?text = "if msg_content m = [] then [] else [msg_content m]"
  have parts: "model_parts from_str m = map text_part ?text @ map (call_part from_str) ?calls"
    using says by (auto simp: model_parts_def says_something_def message_calls_def)
  have "fold (read_part print) (map text_part ?text) ([], []) = (?text, [])"
    by (simp add: read_part_def text_part_def is_thought_def part_text_def)
  then have "fold (read_part print) (model_parts from_str m) ([], []) =
      (?text, map2 (gemini_carried from_str print) [0..<length ?calls] ?calls)"
    using fold_call_parts [of print from_str ?calls ?text "[]"] by (simp add: parts)
  then show "\<exists>r. (Some \<circ> gemini_response print) (gemini_reply from_str m) = Some (Inr r) \<and>
      unwrap_or (cr_content r) [] = msg_content m \<and>
      unwrap_or (cr_tool_calls r) [] = map2 (gemini_carried from_str print) [0..<length ?calls] ?calls"
    by (simp add: gemini_response_def gemini_reply_def candidate_parts_def Let_def)
next
  fix v r
  assume "(Some \<circ> gemini_response print) v = Some (Inr r)"
  then show "cr_tool_calls r \<noteq> Some []" by (auto simp: gemini_response_def Let_def split: prod.splits option.splits list.splits)
qed (simp_all add: gemini_carried_def call_args_def is_object_def)

end
