(* ===== verification/Invocation.thy ===== *)
theory Invocation
  imports Transport_Anthropic Transport_Gemini Router
begin

text \<open>
  \<open>core/transport/dispatcher.rs\<close>, \<open>core/invocation.rs\<close> and the two functions of \<open>core/transport/gemini.rs\<close> that
  send requests: from a resolved model and a conversation to the stream of events that the agent reads. The
  HTTP client is a function on a world of type \<open>'w\<close>.
\<close>

section \<open>The dispatcher\<close>

definition create_transport ::
  "(string \<Rightarrow> (string, json) res) \<Rightarrow> (json \<Rightarrow> string) \<Rightarrow> api_protocol \<Rightarrow> transport option" where
  "create_transport from_str print p =
     (case p of
        OpenAiChat \<Rightarrow> Some (openai_transport from_str)
      | AnthropicMessages \<Rightarrow> Some (anthropic_transport from_str print)
      | GeminiGenerateContent \<Rightarrow> Some (gemini_transport from_str print)
      | _ \<Rightarrow> None)"

type_synonym dispatcher = "(api_protocol, transport) imap"

definition transport_register :: "api_protocol \<Rightarrow> transport \<Rightarrow> dispatcher \<Rightarrow> dispatcher" where
  "transport_register p t d = im_insert p t d"

definition dispatcher_new :: "(string \<Rightarrow> (string, json) res) \<Rightarrow> (json \<Rightarrow> string) \<Rightarrow> dispatcher" where
  "dispatcher_new from_str print =
     fold (\<lambda>p d. transport_register p (the (create_transport from_str print p)) d)
       [OpenAiChat, AnthropicMessages, GeminiGenerateContent] []"

definition dispatch :: "dispatcher \<Rightarrow> api_protocol \<Rightarrow> transport option" where
  "dispatch d p = map_of d p"

definition dispatch_for_resolved :: "dispatcher \<Rightarrow> resolved_model \<Rightarrow> transport option" where
  "dispatch_for_resolved d resolved = dispatch d (rm_api_protocol resolved)"

section \<open>Sending a request\<close>

definition ALLOWED_INJECTED_HEADERS :: "string list" where
  "ALLOWED_INJECTED_HEADERS =
     [''x-request-id'', ''x-correlation-id'', ''x-trace-id'', ''x-custom-header'', ''content-type'', ''accept'',
      ''accept-language'', ''user-agent'', ''x-organization'', ''anthropic-version'', ''anthropic-beta'',
      ''openai-organization'', ''openai-beta'', ''x-goog-project-id'']"

definition validate_injected_header :: "string \<Rightarrow> (lattice_error, unit) res" where
  "validate_injected_header name =
     (if to_lowercase name \<notin> set ALLOWED_INJECTED_HEADERS
      then config_err (''provider_specific header '' @ in_quotes name @
        '' is not in the allowed header whitelist and cannot be injected'')
      else Inr ())"

text \<open>
  What goes to the HTTP client and what comes back: a failure to send, or a response whose body is read as a
  text, as JSON or piece by piece.
\<close>

record http_request =
  ht_url :: string
  ht_body :: json
  ht_headers :: "(string \<times> string) list"

record http_failure =
  hf_message :: string
  hf_status :: "u16 option"

record api_response =
  hp_status :: u16
  hp_retry_after :: "string option"
  hp_text :: string
  hp_json :: "(string, json) res"
  hp_body :: "body_item list"

record 'w http_env =
  he_from_str :: "string \<Rightarrow> (string, json) res"
  he_print :: "json \<Rightarrow> string"
  he_url_parse :: "string \<Rightarrow> (string, url_parts) res"
  he_url_encode :: "string \<Rightarrow> string"
  he_send :: "'w \<Rightarrow> http_request \<Rightarrow> 'w \<times> (http_failure, api_response) res"
  he_replace_all :: replacer
  he_http_date :: "string \<Rightarrow> int option"
  he_debug_protocol :: "api_protocol \<Rightarrow> string"
  he_order :: "(string, string \<times> string) imap \<Rightarrow> (string, string \<times> string) imap"

text \<open>The headers a provider entry injects: all of them pass the white list, or the request is not sent.\<close>

fun injected_headers :: "(string, string) imap \<Rightarrow> (lattice_error, (string \<times> string) list) res" where
  "injected_headers [] = Inr []"
| "injected_headers ((key, v) # rest) =
     (case strip_prefix ''header:'' key of
        None \<Rightarrow> injected_headers rest
      | Some name \<Rightarrow>
          and_then_r (validate_injected_header name)
            (\<lambda>_. and_then_r (injected_headers rest) (\<lambda>hs. Inr ((name, v) # hs))))"

definition auth_headers :: "transport \<Rightarrow> resolved_model \<Rightarrow> (string \<times> string) list" where
  "auth_headers t resolved = (case rm_api_key resolved of Some key \<Rightarrow> [tr_auth t key] | None \<Rightarrow> [])"

definition trim_end_slash :: "string \<Rightarrow> string" where
  "trim_end_slash s = rev (dropWhile (\<lambda>c. c = CHR ''/'') (rev s))"

definition is_success :: "u16 \<Rightarrow> bool" where
  "is_success status \<longleftrightarrow> 200 \<le> status \<and> status < 300"

text \<open>A sent request: the response if it is a success, the classified error if not.\<close>

definition sent ::
  "'w http_env \<Rightarrow> resolved_model \<Rightarrow> http_request \<Rightarrow> 'w \<Rightarrow> 'w \<times> (lattice_error, api_response) res" where
  "sent env resolved req w =
     (case he_send env w req of
        (w1, Inl e) \<Rightarrow> (w1, Inl (Network (''HTTP request failed: '' @ hf_message e) (hf_status e)))
      | (w1, Inr r) \<Rightarrow>
          (w1, if is_success (hp_status r) then Inr r
               else Inl (classify_with_retry_header (he_replace_all env) (he_http_date env) (hp_status r) (hp_text r)
                 (rm_provider resolved) (hp_retry_after r))))"

text \<open>The URL of a chat request. A custom endpoint must not lead to a private address.\<close>

definition chat_url :: "'w http_env \<Rightarrow> transport \<Rightarrow> resolved_model \<Rightarrow> (lattice_error, string) res" where
  "chat_url env t resolved =
     (let base_url = trim_end_slash (rm_base_url resolved)
      in case map_of (rm_provider_specific resolved) ''chat_endpoint'' of
           None \<Rightarrow> Inr (base_url @ tr_chat_endpoint t)
         | Some custom \<Rightarrow>
             (let url = base_url @ custom
              in case he_url_parse env url of
                   Inl e \<Rightarrow> Inr url
                 | Inr parsed \<Rightarrow>
                     (case url_host parsed of
                        None \<Rightarrow> Inr url
                      | Some host \<Rightarrow>
                          if is_private_ip host
                          then config_err (''Custom chat_endpoint points to private IP '' @ in_quotes host @ '' in URL '' @
                            in_quotes url @ '' - rejected for SSRF protection'')
                          else Inr url)))"

definition chat_http_request ::
  "'w http_env \<Rightarrow> transport \<Rightarrow> resolved_model \<Rightarrow> json \<Rightarrow> (string \<times> string) list \<Rightarrow> (lattice_error, http_request) res" where
  "chat_http_request env t resolved body extra_headers =
     and_then_r (chat_url env t resolved) (\<lambda>url.
     and_then_r (injected_headers (rm_provider_specific resolved)) (\<lambda>injected.
     Inr \<lparr>ht_url = url, ht_body = body,
       ht_headers = extra_headers @ tr_extra_headers t @ auth_headers t resolved @ injected\<rparr>))"

definition send_streaming_request ::
  "'w http_env \<Rightarrow> transport \<Rightarrow> resolved_model \<Rightarrow> json \<Rightarrow> (string \<times> string) list \<Rightarrow> 'w \<Rightarrow>
     'w \<times> (lattice_error, stream_event list) res" where
  "send_streaming_request env t resolved body extra_headers w =
     (case chat_http_request env t resolved body extra_headers of
        Inl e \<Rightarrow> (w, Inl e)
      | Inr req \<Rightarrow>
          (case sent env resolved req w of
             (w1, Inl e) \<Rightarrow> (w1, Inl e)
           | (w1, Inr r) \<Rightarrow> (w1, Inr (tr_sse t (hp_body r)))))"

definition GEMINI_MAX_MODEL_LEN :: nat where "GEMINI_MAX_MODEL_LEN = 256"

definition gemini_http_request ::
  "'w http_env \<Rightarrow> transport \<Rightarrow> resolved_model \<Rightarrow> string \<Rightarrow> json \<Rightarrow> (lattice_error, http_request) res" where
  "gemini_http_request env t resolved operation body =
     and_then_r (injected_headers (rm_provider_specific resolved)) (\<lambda>injected.
     Inr \<lparr>ht_url = trim_end_slash (rm_base_url resolved) @ ''/models/'' @
            he_url_encode env (take_chars GEMINI_MAX_MODEL_LEN (rm_api_model_id resolved)) @ operation,
       ht_body = body, ht_headers = auth_headers t resolved @ injected\<rparr>)"

definition send_gemini_streaming_request ::
  "'w http_env \<Rightarrow> transport \<Rightarrow> resolved_model \<Rightarrow> json \<Rightarrow> 'w \<Rightarrow> 'w \<times> (lattice_error, stream_event list) res" where
  "send_gemini_streaming_request env t resolved body w =
     (case gemini_http_request env t resolved '':streamGenerateContent?alt=sse'' body of
        Inl e \<Rightarrow> (w, Inl e)
      | Inr req \<Rightarrow>
          (case sent env resolved req w of
             (w1, Inl e) \<Rightarrow> (w1, Inl e)
           | (w1, Inr r) \<Rightarrow> (w1, Inr (tr_sse t (hp_body r)))))"

text \<open>The outer \<^const>\<open>None\<close> is a panic of the transport.\<close>

definition send_gemini_nonstreaming_request ::
  "'w http_env \<Rightarrow> transport \<Rightarrow> resolved_model \<Rightarrow> json \<Rightarrow> 'w \<Rightarrow> ('w \<times> (lattice_error, stream_event list) res) option" where
  "send_gemini_nonstreaming_request env t resolved body w =
     (case gemini_http_request env t resolved '':generateContent'' body of
        Inl e \<Rightarrow> Some (w, Inl e)
      | Inr req \<Rightarrow>
          (case sent env resolved req w of
             (w1, Inl e) \<Rightarrow> Some (w1, Inl e)
           | (w1, Inr r) \<Rightarrow>
               (case hp_json r of
                  Inl e \<Rightarrow> Some (w1, Inl (Streaming (''Failed to parse Gemini response JSON: '' @ e)))
                | Inr v \<Rightarrow>
                    (case tr_denormalize_response t v of
                       None \<Rightarrow> None
                     | Some (Inl e) \<Rightarrow>
                         Some (w1, Inl (Streaming (''Failed to denormalize Gemini response: '' @ transport_error_display e)))
                     | Some (Inr response) \<Rightarrow> Some (w1, Inr (chat_response_to_stream response))))))"

section \<open>Chat\<close>

text \<open>The thinking mode and the effort a request asks for.\<close>

definition thinking_of :: "resolved_model \<Rightarrow> string option \<Rightarrow> json option \<times> string option" where
  "thinking_of resolved effort_override =
     (case effort_override of
        Some effort \<Rightarrow>
          (if effort = ''off'' \<or> effort = ''none'' then (None, None)
           else if effort \<in> set [''low'', ''medium'', ''high'', ''xhigh'', ''max'']
           then (Some (obj_of [(''type'', JStr ''enabled'')]), Some effort)
           else (None, None))
      | None \<Rightarrow>
          (if rm_api_model_id resolved \<in> set [''deepseek-v4-pro'', ''deepseek-reasoner'', ''deepseek/deepseek-v4-pro'']
           then (Some (obj_of [(''type'', JStr ''enabled'')]), Some ''high'')
           else (None, None)))"

definition the_request ::
  "resolved_model \<Rightarrow> message list \<Rightarrow> tool_definition list \<Rightarrow> string option \<Rightarrow> chat_request" where
  "the_request resolved messages tools effort_override =
     (let (thinking, effort) = thinking_of resolved effort_override
      in \<lparr>cq_messages = messages, cq_tools = tools, cq_model = rm_api_model_id resolved, cq_temperature = None,
          cq_max_tokens = None, cq_stream = True, cq_resolved = resolved, cq_thinking = thinking, cq_reasoning_effort = effort\<rparr>)"

definition chat_with_effort ::
  "'w http_env \<Rightarrow> resolved_model \<Rightarrow> message list \<Rightarrow> tool_definition list \<Rightarrow> string option \<Rightarrow> 'w \<Rightarrow>
     ('w \<times> (lattice_error, stream_event list) res) option" where
  "chat_with_effort env resolved messages tools effort_override w =
     (let request = the_request resolved messages tools effort_override;
          transports = dispatcher_new (he_from_str env) (he_print env);
          unregistered = (\<lambda>name. Some (w, config_err (name @ '' transport not registered'')))
      in case rm_api_protocol resolved of
           OpenAiChat \<Rightarrow>
             (case dispatch transports OpenAiChat of
                None \<Rightarrow> unregistered ''OpenAiChat''
              | Some t \<Rightarrow>
                  (case tr_normalize_request t request of
                     Inl e \<Rightarrow> Some (w, Inl (Streaming (transport_error_display e)))
                   | Inr body \<Rightarrow> Some (send_streaming_request env t resolved body [] w)))
         | AnthropicMessages \<Rightarrow>
             (case dispatch transports AnthropicMessages of
                None \<Rightarrow> unregistered ''AnthropicMessages''
              | Some t \<Rightarrow>
                  (case tr_normalize_request t request of
                     Inl e \<Rightarrow> Some (w, Inl (Streaming (transport_error_display e)))
                   | Inr body \<Rightarrow> Some (send_streaming_request env t resolved body [] w)))
         | GeminiGenerateContent \<Rightarrow>
             (case dispatch transports GeminiGenerateContent of
                None \<Rightarrow> unregistered ''GeminiGenerateContent''
              | Some t \<Rightarrow>
                  (case tr_normalize_request t request of
                     Inl e \<Rightarrow> Some (w, Inl (Streaming (transport_error_display e)))
                   | Inr body \<Rightarrow> send_gemini_nonstreaming_request env t resolved body w))
         | p \<Rightarrow> Some (w, config_err (''Streaming not yet supported for protocol '' @ he_debug_protocol env p)))"

definition chat ::
  "'w http_env \<Rightarrow> resolved_model \<Rightarrow> message list \<Rightarrow> tool_definition list \<Rightarrow> 'w \<Rightarrow>
     ('w \<times> (lattice_error, stream_event list) res) option" where
  "chat env resolved messages tools w = chat_with_effort env resolved messages tools None w"

section \<open>The collected response\<close>

record complete_acc =
  cc_content :: string
  cc_reasoning :: string
  cc_calls :: "(string, string \<times> string) imap"
  cc_finish :: string
  cc_usage :: "token_usage option"

definition complete_new :: complete_acc where
  "complete_new = \<lparr>cc_content = [], cc_reasoning = [], cc_calls = [], cc_finish = ''unknown'', cc_usage = None\<rparr>"

text \<open>An error ends the collection: with what there is, if there is something, and with an error otherwise.\<close>

definition on_error :: "string \<Rightarrow> string \<Rightarrow> complete_acc \<Rightarrow> (lattice_error, complete_acc) res" where
  "on_error provider m acc =
     (let has_content = (cc_content acc \<noteq> [] \<or> cc_calls acc \<noteq> [])
      in if str_contains m ''Stream ended'' then
           (if has_content then Inr acc else Inl (ProviderUnavailable provider m))
         else if has_content then
           Inr (if cc_finish acc = ''unknown'' then acc\<lparr>cc_finish := ''stream_lost''\<rparr> else acc)
         else if str_contains m ''error sending request'' \<or> str_contains m ''connection'' \<or>
             str_contains m ''timeout'' \<or> str_contains m ''reset''
         then Inl (ProviderUnavailable provider m)
         else Inl (Streaming m))"

fun complete_loop :: "string \<Rightarrow> complete_acc \<Rightarrow> stream_event list \<Rightarrow> (lattice_error, complete_acc) res" where
  "complete_loop provider acc [] = Inr acc"
| "complete_loop provider acc (Token c # es) = complete_loop provider (acc\<lparr>cc_content := cc_content acc @ c\<rparr>) es"
| "complete_loop provider acc (Reasoning r # es) = complete_loop provider (acc\<lparr>cc_reasoning := cc_reasoning acc @ r\<rparr>) es"
| "complete_loop provider acc (ToolCallStart i name # es) =
     complete_loop provider (acc\<lparr>cc_calls := im_insert i (name, []) (cc_calls acc)\<rparr>) es"
| "complete_loop provider acc (ToolCallDelta i d # es) =
     complete_loop provider
       (case map_of (cc_calls acc) i of
          Some (name, args) \<Rightarrow> acc\<lparr>cc_calls := im_insert i (name, args @ d) (cc_calls acc)\<rparr>
        | None \<Rightarrow> acc) es"
| "complete_loop provider acc (ToolCallEnd i # es) = complete_loop provider acc es"
| "complete_loop provider acc (Done reason usage # es) =
     complete_loop provider (acc\<lparr>cc_finish := reason, cc_usage := usage\<rparr>) es"
| "complete_loop provider acc (StreamError m # es) = on_error provider m acc"

definition collected_call :: "string \<times> string \<times> string \<Rightarrow> tool_call" where
  "collected_call c = (case c of (i, name, args) \<Rightarrow> \<lparr>tc_id = i, tc_function = \<lparr>fc_name = name, fc_arguments = args\<rparr>\<rparr>)"

definition complete_response :: "'w http_env \<Rightarrow> resolved_model \<Rightarrow> complete_acc \<Rightarrow> chat_response" where
  "complete_response env resolved acc =
     \<lparr>cr_content = nonempty (cc_content acc), cr_reasoning_content = nonempty (cc_reasoning acc),
      cr_tool_calls = (if cc_calls acc = [] then None else Some (map collected_call (he_order env (cc_calls acc)))), cr_usage = cc_usage acc,
      cr_finish_reason = cc_finish acc, cr_model = rm_api_model_id resolved\<rparr>"

definition chat_complete ::
  "'w http_env \<Rightarrow> resolved_model \<Rightarrow> message list \<Rightarrow> tool_definition list \<Rightarrow> 'w \<Rightarrow>
     ('w \<times> (lattice_error, chat_response) res) option" where
  "chat_complete env resolved messages tools w =
     map_option (\<lambda>(w1, r).
       (w1, and_then_r r (\<lambda>es.
          and_then_r (complete_loop (rm_provider resolved) complete_new es)
            (\<lambda>acc. Inr (complete_response env resolved acc)))))
       (chat env resolved messages tools w)"

section \<open>Collecting a stream\<close>

text \<open>What one event other than an error does.\<close>

definition complete_step :: "complete_acc \<Rightarrow> stream_event \<Rightarrow> complete_acc" where
  "complete_step acc e = (case complete_loop [] acc [e] of Inr acc1 \<Rightarrow> acc1 | Inl _ \<Rightarrow> acc)"

definition no_errors :: "stream_event list \<Rightarrow> bool" where
  "no_errors es \<longleftrightarrow> (\<forall>e \<in> set es. \<forall>m. e \<noteq> StreamError m)"

lemma no_errors_simps [simp]:
  "no_errors []" "no_errors (e # es) \<longleftrightarrow> (\<forall>m. e \<noteq> StreamError m) \<and> no_errors es" "no_errors (es @ fs) \<longleftrightarrow> no_errors es \<and> no_errors fs"
  by (auto simp: no_errors_def)

lemma complete_step_simps [simp]:
  "complete_step acc (Token c) = acc\<lparr>cc_content := cc_content acc @ c\<rparr>"
  "complete_step acc (Reasoning r) = acc\<lparr>cc_reasoning := cc_reasoning acc @ r\<rparr>"
  "complete_step acc (ToolCallStart i name) = acc\<lparr>cc_calls := im_insert i (name, []) (cc_calls acc)\<rparr>"
  "complete_step acc (ToolCallDelta i d) =
     (case map_of (cc_calls acc) i of
        Some (name, args) \<Rightarrow> acc\<lparr>cc_calls := im_insert i (name, args @ d) (cc_calls acc)\<rparr> | None \<Rightarrow> acc)"
  "complete_step acc (ToolCallEnd i) = acc"
  "complete_step acc (Done reason usage) = acc\<lparr>cc_finish := reason, cc_usage := usage\<rparr>"
  by (simp_all add: complete_step_def)

lemma complete_loop_steps:
  "no_errors es \<Longrightarrow> complete_loop p acc (es @ fs) = complete_loop p (foldl complete_step acc es) fs"
proof (induction es arbitrary: acc)
  case (Cons e es)
  then show ?case by (cases e) simp_all
qed simp

lemma complete_loop_ok: "no_errors es \<Longrightarrow> complete_loop p acc es = Inr (foldl complete_step acc es)"
  using complete_loop_steps [of es p acc "[]"] by simp

text \<open>A decoded response, passed on as a stream and collected again, is the response.\<close>

definition call_entry :: "tool_call \<Rightarrow> string \<times> string \<times> string" where
  "call_entry c = (tc_id c, fc_name (tc_function c), fc_arguments (tc_function c))"

lemma collected_call_entry [simp]: "collected_call (call_entry c) = c"
  by (simp add: call_entry_def collected_call_def)

lemma im_insert_new: "k \<notin> fst ` set m \<Longrightarrow> im_insert k v m = m @ [(k, v)]"
  by (induction k v m rule: im_insert.induct) auto

lemma im_insert_last: "k \<notin> fst ` set m \<Longrightarrow> im_insert k v (m @ [(k, w)]) = m @ [(k, v)]"
  by (induction m) auto

lemma call_events_step:
  assumes "tc_id c \<notin> fst ` set (cc_calls acc)"
  shows "foldl complete_step acc (call_events c) = acc\<lparr>cc_calls := cc_calls acc @ [call_entry c]\<rparr>"
proof -
  have "map_of (cc_calls acc) (tc_id c) = None" using assms by (simp add: map_of_eq_None_iff)
  then have "map_of (cc_calls acc @ [(tc_id c, x)]) (tc_id c) = Some x" for x by (simp add: map_add_def)
  then show ?thesis
    using assms by (simp add: call_events_def im_insert_new im_insert_last call_entry_def)
qed

lemma call_events_steps:
  assumes "distinct (map tc_id cs)" and "fst ` set (cc_calls acc) \<inter> tc_id ` set cs = {}"
  shows "foldl complete_step acc (concat (map call_events cs)) = acc\<lparr>cc_calls := cc_calls acc @ map call_entry cs\<rparr>"
  using assms
proof (induction cs arbitrary: acc)
  case (Cons c cs)
  have "foldl complete_step acc (call_events c) = acc\<lparr>cc_calls := cc_calls acc @ [call_entry c]\<rparr>"
    using Cons.prems(2) by (intro call_events_step) auto
  moreover have "fst ` set (cc_calls acc @ [call_entry c]) \<inter> tc_id ` set cs = {}"
    using Cons.prems by (auto simp: call_entry_def)
  ultimately show ?case using Cons.IH [of "acc\<lparr>cc_calls := cc_calls acc @ [call_entry c]\<rparr>"] Cons.prems(1) by simp
qed simp

lemma no_errors_calls [simp]: "no_errors (concat (map call_events cs))"
  by (induction cs) (simp_all add: call_events_def)

lemma whole_collected:
  assumes "distinct (map tc_id (unwrap_or (cr_tool_calls r) []))"
  shows "no_errors (chat_response_to_stream r)"
    "foldl complete_step complete_new (chat_response_to_stream r) =
       \<lparr>cc_content = unwrap_or (cr_content r) [], cc_reasoning = [], cc_calls = map call_entry (unwrap_or (cr_tool_calls r) []),
        cc_finish = cr_finish_reason r, cc_usage = cr_usage r\<rparr>"
proof -
  show "no_errors (chat_response_to_stream r)"
    by (simp add: chat_response_to_stream_def split: option.splits)
  have "foldl complete_step acc (concat (map call_events cs)) = acc\<lparr>cc_calls := map call_entry cs\<rparr>"
    if "distinct (map tc_id cs)" "cc_calls acc = []" for acc cs
    using call_events_steps [OF that(1), of acc] that(2) by simp
  then show "foldl complete_step complete_new (chat_response_to_stream r) =
       \<lparr>cc_content = unwrap_or (cr_content r) [], cc_reasoning = [], cc_calls = map call_entry (unwrap_or (cr_tool_calls r) []),
        cc_finish = cr_finish_reason r, cc_usage = cr_usage r\<rparr>"
    using assms
    by (cases "cr_content r"; cases "cr_tool_calls r") (auto simp: chat_response_to_stream_def complete_new_def)
qed

section \<open>Whole answers and streamed answers of Gemini\<close>

text \<open>The collection after some parts of a candidate, against the texts and calls that the transport reads.\<close>

definition reads_as :: "complete_acc \<Rightarrow> string list \<times> tool_call list \<Rightarrow> bool" where
  "reads_as acc tcs \<longleftrightarrow> cc_content acc = concat (fst tcs) \<and> cc_calls acc = map call_entry (snd tcs) \<and>
     (\<forall>i < length (snd tcs). tc_id (snd tcs ! i) = generate_call_id (fc_name (tc_function (snd tcs ! i))) i) \<and>
     cc_finish acc = ''unknown'' \<and> cc_usage acc = None"

lemma reads_as_new: "reads_as complete_new ([], [])"
  by (simp add: reads_as_def complete_new_def)

lemma numbered_fresh:
  assumes "\<forall>i < length cs. tc_id (cs ! i) = generate_call_id (names i) i"
  shows "distinct (map tc_id cs)" "generate_call_id name (length cs) \<notin> tc_id ` set cs"
  using assms
  by (auto simp: distinct_conv_nth in_set_conv_nth generate_call_id_eq dest!: tool_call_id_inj)

lemma part_reads_as:
  assumes "gemini_part print p part = (q, es, b)" and "reads_as acc (texts, calls)" and "gm_tc_counter p = length calls"
  shows "no_errors es \<and> reads_as (foldl complete_step acc es) (read_part print part (texts, calls)) \<and>
    gm_tc_counter q = length (snd (read_part print part (texts, calls))) \<and>
    (b \<longleftrightarrow> snd (read_part print part (texts, calls)) \<noteq> calls)"
proof (cases "is_thought part \<or> json_get part ''functionCall'' = None")
  case True
  then show ?thesis
    using assms
    by (auto simp: gemini_part_def read_part_def is_thought_def part_text_def reads_as_def Let_def split: if_splits option.splits)
next
  case False
  then obtain fc where fc: "json_get part ''functionCall'' = Some fc" "\<not> is_thought part" by auto
  define c where "c = \<lparr>tc_id = generate_call_id (part_name fc) (length calls),
    tc_function = \<lparr>fc_name = part_name fc, fc_arguments = part_args print fc\<rparr>\<rparr>"
  define pieces where "pieces = (case part_text part of Some t \<Rightarrow> if t \<noteq> [] then [Token t] else [] | None \<Rightarrow> [])"
  define acc1 where "acc1 = foldl complete_step acc pieces"
  have "tc_id c \<notin> fst ` set (cc_calls acc)"
    using assms(2) numbered_fresh(2) [of calls "\<lambda>i. fc_name (tc_function (calls ! i))" "part_name fc"]
    by (auto simp: reads_as_def c_def call_entry_def)
  moreover have acc1: "cc_calls acc1 = cc_calls acc" "cc_content acc1 = cc_content acc @ unwrap_or (part_text part) []"
    "cc_finish acc1 = cc_finish acc" "cc_usage acc1 = cc_usage acc" "no_errors pieces"
    by (auto simp: acc1_def pieces_def split: option.splits)
  ultimately have "foldl complete_step acc1 (call_events c) = acc1\<lparr>cc_calls := cc_calls acc @ [call_entry c]\<rparr>"
    using call_events_step [of c acc1] by simp
  then have last: "foldl complete_step acc1 (butlast (call_events c)) = acc1\<lparr>cc_calls := cc_calls acc @ [call_entry c]\<rparr>"
    by (simp add: call_events_def)
  have es: "es = pieces @ butlast (call_events c)" "gm_tc_counter q = length calls + 1" b
    using assms(1,3) fc
    by (auto simp: gemini_part_def is_thought_def part_text_def part_name_def part_args_def pieces_def call_events_def c_def
      generate_call_id_eq Let_def split: if_splits option.splits)
  have read: "read_part print part (texts, calls) =
      (texts @ (case part_text part of Some t \<Rightarrow> [t] | None \<Rightarrow> []), calls @ [c])"
    using fc by (simp add: read_part_def c_def)
  have "no_errors es" using acc1(5) es(1) by (simp add: call_events_def)
  moreover have "foldl complete_step acc es = acc1\<lparr>cc_calls := cc_calls acc @ [call_entry c]\<rparr>"
    using es(1) last by (simp add: acc1_def)
  moreover have "tc_id c = generate_call_id (fc_name (tc_function c)) (length calls)" by (simp add: c_def)
  ultimately show ?thesis
    using assms(2) acc1(1-4) es(2,3) read
    by (cases "part_text part") (auto simp: reads_as_def nth_append less_Suc_eq)
qed

lemma parts_read_as:
  assumes "gemini_parts print p parts = (q, es, b)" and "reads_as acc (texts, calls)" and "gm_tc_counter p = length calls"
  shows "no_errors es \<and> reads_as (foldl complete_step acc es) (fold (read_part print) parts (texts, calls)) \<and>
    (b \<longleftrightarrow> snd (fold (read_part print) parts (texts, calls)) \<noteq> calls) \<and>
    length calls \<le> length (snd (fold (read_part print) parts (texts, calls)))"
  using assms
proof (induction parts arbitrary: p q es b acc texts calls)
  case (Cons part parts)
  obtain p1 e1 b1 e2 b2 where h: "gemini_part print p part = (p1, e1, b1)" "gemini_parts print p1 parts = (q, e2, b2)"
    "es = e1 @ e2" "b = (b1 \<or> b2)"
    using Cons.prems(1) by (auto split: prod.splits)
  obtain texts1 calls1 where rp: "read_part print part (texts, calls) = (texts1, calls1)" by fastforce
  then have grows: "calls1 = calls \<or> (\<exists>c. calls1 = calls @ [c])"
    by (auto simp: read_part_def split: if_splits option.splits)
  show ?case
    using part_reads_as [OF h(1) Cons.prems(2,3)] Cons.IH [OF h(2), of "foldl complete_step acc e1" texts1 calls1] h(3,4) rp grows
    by auto
qed simp

lemma gemini_parts_open:
  "gemini_parts print p parts = (q, es, b) \<Longrightarrow> gm_tool_call_ids q \<noteq> [] \<longleftrightarrow> gm_tool_call_ids p \<noteq> [] \<or> b"
proof (induction parts arbitrary: p q es b)
  case (Cons part parts)
  have "im_insert k v m \<noteq> []" for k v and m :: "(nat, string) imap" by (induction k v m rule: im_insert.induct) auto
  then have "gm_tool_call_ids p1 \<noteq> [] \<longleftrightarrow> gm_tool_call_ids p \<noteq> [] \<or> b1" if "gemini_part print p part = (p1, e1, b1)" for p1 e1 b1
    using that by (auto simp: gemini_part_def Let_def split: if_splits option.splits)
  then show ?case using Cons by (auto split: prod.splits)
qed simp

section \<open>What is sent\<close>

lemma injected_headers_allowed:
  "injected_headers ps = Inr hs \<Longrightarrow> (name, v) \<in> set hs \<Longrightarrow> to_lowercase name \<in> set ALLOWED_INJECTED_HEADERS"
proof (induction ps arbitrary: hs)
  case (Cons p ps)
  obtain key x where "p = (key, x)" by fastforce
  then show ?case
    using Cons by (auto simp: and_then_r_Inr_iff validate_injected_header_def config_err_def split: option.splits if_splits)
qed simp

text \<open>A request as it may leave: to the provider's own address, with no header but those meant for it.\<close>

definition vetted :: "'w http_env \<Rightarrow> transport \<Rightarrow> resolved_model \<Rightarrow> http_request \<Rightarrow> bool" where
  "vetted env t resolved req \<longleftrightarrow>
     prefix (trim_end_slash (rm_base_url resolved)) (ht_url req) \<and>
     (\<forall>h \<in> set (ht_headers req).
        h \<in> set (tr_extra_headers t) \<or> h \<in> set (auth_headers t resolved) \<or> to_lowercase (fst h) \<in> set ALLOWED_INJECTED_HEADERS) \<and>
     (rm_api_protocol resolved \<noteq> GeminiGenerateContent \<longrightarrow> map_of (rm_provider_specific resolved) ''chat_endpoint'' \<noteq> None \<longrightarrow>
        (\<forall>parts host. he_url_parse env (ht_url req) = Inr parts \<longrightarrow> url_host parts = Some host \<longrightarrow> \<not> is_private_ip host))"

lemma chat_url_ok:
  assumes "chat_url env t resolved = Inr url"
  shows "prefix (trim_end_slash (rm_base_url resolved)) url"
    "map_of (rm_provider_specific resolved) ''chat_endpoint'' \<noteq> None \<Longrightarrow> he_url_parse env url = Inr parts \<Longrightarrow>
       url_host parts = Some host \<Longrightarrow> \<not> is_private_ip host"
  using assms by (auto simp: chat_url_def Let_def config_err_def split: option.splits sum.splits if_splits)

lemma chat_http_request_vetted:
  assumes "chat_http_request env t resolved body [] = Inr req"
  shows "vetted env t resolved req \<and> ht_body req = body"
proof -
  obtain url injected where "chat_url env t resolved = Inr url" "injected_headers (rm_provider_specific resolved) = Inr injected"
    "req = \<lparr>ht_url = url, ht_body = body, ht_headers = tr_extra_headers t @ auth_headers t resolved @ injected\<rparr>"
    using assms by (auto simp: chat_http_request_def and_then_r_Inr_iff)
  then show ?thesis
    using chat_url_ok [of env t resolved url] by (fastforce simp: vetted_def dest: injected_headers_allowed)
qed

lemma gemini_http_request_vetted:
  assumes "gemini_http_request env t resolved operation body = Inr req" and "rm_api_protocol resolved = GeminiGenerateContent"
  shows "vetted env t resolved req \<and> ht_body req = body"
proof -
  obtain injected where "injected_headers (rm_provider_specific resolved) = Inr injected"
    "ht_headers req = auth_headers t resolved @ injected" "prefix (trim_end_slash (rm_base_url resolved)) (ht_url req)" "ht_body req = body"
    using assms(1) by (auto simp: gemini_http_request_def and_then_r_Inr_iff)
  then show ?thesis using assms(2) by (auto simp: vetted_def dest: injected_headers_allowed)
qed

lemma dispatch_default:
  "dispatch (dispatcher_new from_str print) p = create_transport from_str print p"
  by (cases p) (simp_all add: dispatch_def dispatcher_new_def transport_register_def create_transport_def)

lemma create_transport_Some:
  "create_transport from_str print p = Some t \<longleftrightarrow>
     p = OpenAiChat \<and> t = openai_transport from_str \<or> p = AnthropicMessages \<and> t = anthropic_transport from_str print \<or>
     p = GeminiGenerateContent \<and> t = gemini_transport from_str print"
  by (cases p) (auto simp: create_transport_def)

lemmas transport_defs = openai_transport_def openai_transport_at_def anthropic_transport_def gemini_transport_def gemini_transport_at_def

lemma create_transport_normalizes:
  "create_transport from_str print p = Some t \<Longrightarrow> \<exists>body. tr_normalize_request t q = Inr body"
  by (auto simp: create_transport_Some transport_defs openai_request_def anthropic_request_def gemini_request_def Let_def
    split: prod.splits)

lemma sent_world: "fst (sent env resolved req w) = fst (he_send env w req)"
  by (auto simp: sent_def split: prod.splits sum.splits)

text \<open>The two ways to send, seen alike: nothing is sent, or the request that was built.\<close>

lemma streaming_sends:
  assumes "send_streaming_request env t resolved body extra w = (w1, r)"
  shows "(w1 = w \<and> (\<exists>e. r = Inl e)) \<or> (\<exists>req. chat_http_request env t resolved body extra = Inr req \<and> w1 = fst (he_send env w req) \<and>
    (\<forall>es. r = Inr es \<longrightarrow> (\<exists>items. es = tr_sse t items)))"
proof (cases "chat_http_request env t resolved body extra")
  case (Inr req)
  obtain w2 x where "sent env resolved req w = (w2, x)" by fastforce
  moreover from this have "w2 = fst (he_send env w req)" using sent_world [of env resolved req w] by simp
  ultimately show ?thesis using assms Inr by (cases x) (auto simp: send_streaming_request_def)
qed (use assms in \<open>auto simp: send_streaming_request_def\<close>)

lemma nonstreaming_sends:
  assumes "send_gemini_nonstreaming_request env t resolved body w = Some (w1, r)"
  shows "(w1 = w \<and> (\<exists>e. r = Inl e)) \<or> (\<exists>req. gemini_http_request env t resolved '':generateContent'' body = Inr req \<and>
    w1 = fst (he_send env w req) \<and>
    (\<forall>es. r = Inr es \<longrightarrow> (\<exists>v response. tr_denormalize_response t v = Some (Inr response) \<and> es = chat_response_to_stream response)))"
proof (cases "gemini_http_request env t resolved '':generateContent'' body")
  case (Inr req)
  obtain w2 x where "sent env resolved req w = (w2, x)" by fastforce
  moreover from this have "w2 = fst (he_send env w req)" using sent_world [of env resolved req w] by simp
  ultimately show ?thesis
    using assms Inr by (cases x) (auto simp: send_gemini_nonstreaming_request_def split: sum.splits option.splits)
qed (use assms in \<open>auto simp: send_gemini_nonstreaming_request_def\<close>)

text \<open>The three branches of a chat are one: a body is built and sent in the way of the protocol.\<close>

lemma chat_cases:
  assumes "chat_with_effort env resolved messages tools effort w = Some (w1, r)"
  shows "(w1 = w \<and> (\<exists>e. r = Inl e)) \<or>
    (\<exists>t body. create_transport (he_from_str env) (he_print env) (rm_api_protocol resolved) = Some t \<and>
       tr_normalize_request t (the_request resolved messages tools effort) = Inr body \<and>
       (if rm_api_protocol resolved = GeminiGenerateContent
        then send_gemini_nonstreaming_request env t resolved body w = Some (w1, r)
        else send_streaming_request env t resolved body [] w = (w1, r)))"
proof (cases "create_transport (he_from_str env) (he_print env) (rm_api_protocol resolved)")
  case None
  then show ?thesis
    using assms
    by (auto simp: chat_with_effort_def dispatch_default config_err_def create_transport_def Let_def split: api_protocol.splits)
next
  case (Some t)
  obtain body where "tr_normalize_request t (the_request resolved messages tools effort) = Inr body"
    using create_transport_normalizes [OF Some] by blast
  with Some show ?thesis
    using assms
    by (cases "rm_api_protocol resolved") (auto simp: chat_with_effort_def dispatch_default Let_def create_transport_def)
qed

section \<open>The stream handed on is well formed\<close>

lemma calls_ok_whole: "calls_ok (chat_response_to_stream r)"
proof -
  have tokens: "track M (case x of Some c \<Rightarrow> if c \<noteq> [] then [Token c] else [] | None \<Rightarrow> []) = Some M" for M and x :: "string option"
    by (cases x) simp_all
  have "track M (concat (map call_events cs)) = Some M" for M cs
    by (induction cs arbitrary: M) (simp_all add: call_events_def)
  then have calls: "track M (case x of Some cs \<Rightarrow> concat (map call_events cs) | None \<Rightarrow> []) = Some M" for M and x :: "tool_call list option"
    by (cases x) simp_all
  have "track {#} (chat_response_to_stream r) \<noteq> None"
    by (simp add: chat_response_to_stream_def track_append tokens calls)
  then show ?thesis by (rule calls_ok_track)
qed

lemma transport_stream_ok:
  assumes "create_transport from_str print p = Some t"
  shows "calls_ok (tr_sse t items)"
proof -
  consider "tr_sse t = sse_from_bytes_stream (openai_parse_chunk from_str) openai_new"
    | "tr_sse t = sse_from_bytes_stream (anthropic_parse_chunk from_str) anthropic_new"
    | "tr_sse t = sse_from_bytes_stream (gemini_parse_chunk from_str print) gemini_new"
    using assms by (auto simp: create_transport_Some transport_defs)
  then show ?thesis
    using openai_sse.stream_calls_ok [of openai_new from_str items] anthropic_sse.stream_calls_ok [of anthropic_new from_str items]
      gemini_sse.stream_calls_ok [of gemini_new from_str print items]
    by cases (simp_all add: openai_inv_def openai_open_def openai_new_def anthropic_inv_def anthropic_open_def anthropic_new_def
      gemini_inv_def gemini_open_def gemini_new_def)
qed

section \<open>Properties\<close>

text \<open>The response in which a provider repeats a turn, for each protocol that has a transport.\<close>

definition echo_reply :: "(string \<Rightarrow> (string, json) res) \<Rightarrow> api_protocol \<Rightarrow> message \<Rightarrow> json" where
  "echo_reply from_str p m =
     (case p of
        AnthropicMessages \<Rightarrow> anthropic_reply from_str m
      | GeminiGenerateContent \<Rightarrow> gemini_reply from_str m
      | _ \<Rightarrow> openai_reply m)"

text \<open>
  C11: What the assistant said survives each wire format: when a provider repeats a turn in the words in which
  the request tells it, decoding gives the same text and the same calls, in order, with their names and with
  arguments that read as the same object. A turn must say something, and its arguments must be objects that
  are read back as they are printed.
\<close>

theorem turn_survives_the_wire:
  assumes "create_transport from_str print p = Some t" and "msg_content m \<noteq> [] \<or> message_calls m \<noteq> []"
    and "\<And>c. c \<in> set (message_calls m) \<Longrightarrow>
      \<exists>o1. from_str (fc_arguments (tc_function c)) = Inr (JObj o1) \<and> from_str (print (JObj o1)) = Inr (JObj o1)"
  shows "\<exists>r. tr_denormalize_response t (echo_reply from_str p m) = Some (Inr r) \<and>
    unwrap_or (cr_content r) [] = msg_content m \<and>
    list_all2 (\<lambda>c d. fc_name (tc_function d) = fc_name (tc_function c) \<and>
        from_str (fc_arguments (tc_function d)) = from_str (fc_arguments (tc_function c)))
      (message_calls m) (unwrap_or (cr_tool_calls r) []) \<and>
    (cr_tool_calls r = None \<longleftrightarrow> message_calls m = [])"
proof -
  have says: "says_something m" using assms(2) by (simp add: says_something_def)
  note facts = openai.turn_survives [of m from_str print, OF TrueI assms(3)] anthropic.turn_survives [of m from_str print, OF says assms(3)]
    gemini.turn_survives [of m from_str print, OF says assms(3)]
  show ?thesis
    using assms(1) facts unfolding openai.same_call_def anthropic.same_call_def gemini.same_call_def create_transport_Some
    by (elim disjE conjE) (simp_all add: echo_reply_def transport_defs)
qed


text \<open>
  Every transport turns every request into a body, never an error, and the body can be printed: none of its
  numbers is infinite or not a number, whatever the temperature.
\<close>

theorem request_bodies_finite:
  assumes "create_transport from_str print p = Some t" and "finite_request q"
    and "\<And>s v. from_str s = Inr v \<Longrightarrow> json_finite v"
  shows "\<exists>body. tr_normalize_request t q = Inr body \<and> json_finite body"
proof -
  note facts = openai_request_finite [OF assms(2)] anthropic_request_finite [OF assms(2,3)] gemini_request_finite [OF assms(2,3)]
  show ?thesis
    using assms(1) facts by (auto simp: create_transport_Some transport_defs)
qed


text \<open>
  Whatever the provider answers, in one piece or in many, the events the agent reads are well formed: the
  arguments and the end of a call come after its start and before its end.
\<close>

theorem chat_stream_well_formed:
  assumes "chat_with_effort env resolved messages tools effort w = Some (w1, Inr es)"
  shows "calls_ok es"
proof -
  obtain t body where t: "create_transport (he_from_str env) (he_print env) (rm_api_protocol resolved) = Some t"
    and send: "if rm_api_protocol resolved = GeminiGenerateContent
      then send_gemini_nonstreaming_request env t resolved body w = Some (w1, Inr es)
      else send_streaming_request env t resolved body [] w = (w1, Inr es)"
    using chat_cases [OF assms] by auto
  show ?thesis
    using send nonstreaming_sends [of env t resolved body w w1 "Inr es"] streaming_sends [of env t resolved body "[]" w w1 "Inr es"]
      calls_ok_whole transport_stream_ok [OF t]
    by (auto split: if_splits)
qed

text \<open>The text of the tokens of a stream, and whether it starts a call.\<close>

definition stream_text :: "stream_event list \<Rightarrow> string" where
  "stream_text es = concat (map (\<lambda>e. case e of Token c \<Rightarrow> c | _ \<Rightarrow> []) es)"

definition starts_call :: "stream_event list \<Rightarrow> bool" where
  "starts_call es \<longleftrightarrow> list_ex (\<lambda>e. case e of ToolCallStart i n \<Rightarrow> True | _ \<Rightarrow> False) es"

lemma im_insert_nonempty [simp]: "im_insert k v m \<noteq> []"
  by (induction k v m rule: im_insert.induct) auto

lemma collected_text:
  "no_errors es \<Longrightarrow> cc_content (foldl complete_step acc es) = cc_content acc @ stream_text es"
proof (induction es arbitrary: acc)
  case (Cons e es)
  then show ?case by (cases e) (auto simp: stream_text_def split: option.splits)
qed (simp add: stream_text_def)

lemma collected_calls:
  "no_errors es \<Longrightarrow> cc_calls (foldl complete_step acc es) = [] \<longleftrightarrow> cc_calls acc = [] \<and> \<not> starts_call es"
proof (induction es arbitrary: acc)
  case (Cons e es)
  then show ?case by (cases e) (auto simp: starts_call_def split: option.splits)
qed (simp add: starts_call_def)

text \<open>
  When the stream breaks, the answer that \<open>chat_complete\<close> returns is a success exactly if text or a call
  had arrived by then, with the text up to the break; what comes after the break is not read.
\<close>

theorem broken_stream_outcome:
  assumes "chat env resolved messages tools w = Some (w1, Inr (es @ StreamError m # rest))" and "no_errors es"
  shows "\<exists>result. chat_complete env resolved messages tools w = Some (w1, result) \<and>
    (case result of
       Inr r \<Rightarrow> (stream_text es \<noteq> [] \<or> starts_call es) \<and> unwrap_or (cr_content r) [] = stream_text es \<and>
         (cr_tool_calls r \<noteq> None \<longleftrightarrow> starts_call es)
     | Inl e \<Rightarrow> stream_text es = [] \<and> \<not> starts_call es)"
proof -
  define acc where "acc = foldl complete_step complete_new es"
  have acc: "cc_content acc = stream_text es" "cc_calls acc = [] \<longleftrightarrow> \<not> starts_call es"
    using collected_text [OF assms(2)] collected_calls [OF assms(2)] by (simp_all add: acc_def complete_new_def)
  have "complete_loop (rm_provider resolved) complete_new (es @ StreamError m # rest) = on_error (rm_provider resolved) m acc"
    using complete_loop_steps [OF assms(2)] by (simp add: acc_def)
  then show ?thesis
    using assms(1) acc by (auto simp: chat_complete_def on_error_def complete_response_def)
qed

text \<open>
  Reading a chat completion panics on an answer whose usage is an object without one of the three counts,
  and on no other.
\<close>

theorem openai_response_panics_iff:
  "openai_response v = None \<longleftrightarrow>
     (\<exists>choice rest u. json_at v ''choices'' = JArr (choice # rest) \<and> json_at v ''usage'' = JObj u \<and>
       (as_str (json_at (json_at choice ''message'') ''content'') \<noteq> None \<or>
        (\<exists>calls. json_at (json_at choice ''message'') ''tool_calls'' = JArr calls \<and> (\<exists>c \<in> set calls. openai_read_call c \<noteq> None))) \<and>
       (map_of u ''prompt_tokens'' = None \<or> map_of u ''completion_tokens'' = None \<or> map_of u ''total_tokens'' = None))"
proof -
  have arr: "as_array x = Some xs \<longleftrightarrow> x = JArr xs" for x xs by (cases x) auto
  have obj: "as_object x = Some m \<longleftrightarrow> x = JObj m" for x m by (cases x) auto
  have none: "as_object x = None \<longleftrightarrow> (\<forall>m. x \<noteq> JObj m)" for x by (cases x) auto
  have filter: "List.map_filter f xs = [] \<longleftrightarrow> (\<forall>x \<in> set xs. f x = None)" for f :: "json \<Rightarrow> tool_call option" and xs
    by (induction xs) (auto simp: map_filter_simps split: option.splits)
  have calls: "Option.bind (map_option (List.map_filter openai_read_call) (as_array x)) nonempty \<noteq> None \<longleftrightarrow>
      (\<exists>cs. x = JArr cs \<and> (\<exists>c \<in> set cs. openai_read_call c \<noteq> None))" for x
    by (cases x) (auto simp: nonempty_def filter split: if_splits)
  have usage: "openai_read_usage u = None \<longleftrightarrow>
      map_of u ''prompt_tokens'' = None \<or> map_of u ''completion_tokens'' = None \<or> map_of u ''total_tokens'' = None" for u
    by (auto simp: openai_read_usage_def counted_def split: option.splits)
  have panics: "openai_response v = None \<longleftrightarrow> (\<exists>choice rest u. as_array (json_at v ''choices'') = Some (choice # rest) \<and>
      as_object (json_at v ''usage'') = Some u \<and>
      (as_str (json_at (json_at choice ''message'') ''content'') \<noteq> None \<or>
       Option.bind (map_option (List.map_filter openai_read_call) (as_array (json_at (json_at choice ''message'') ''tool_calls''))) nonempty \<noteq> None) \<and>
      openai_read_usage u = None)"
    by (simp add: openai_response_def Let_def split: option.split list.split)
  show ?thesis unfolding panics arr obj usage calls by (rule refl)
qed

section \<open>Witnesses\<close>

text \<open>A reader that knows the empty object only, a provider behind each protocol, and a client that logs.\<close>

definition demo_from_str :: "string \<Rightarrow> (string, json) res" where
  "demo_from_str s = (if s = ''{}'' then Inr (JObj []) else Inl ''unexpected'')"

definition demo_print :: "json \<Rightarrow> string" where
  "demo_print v = ''{}''"

definition demo_turn :: message where
  "demo_turn = message_new Assistant ''hi'' (Some [\<lparr>tc_id = ''c1'', tc_function = \<lparr>fc_name = ''ls'', fc_arguments = ''{}''\<rparr>\<rparr>]) None None"

definition demo_provider :: "api_protocol \<Rightarrow> resolved_model" where
  "demo_provider p =
     \<lparr>rm_canonical_id = ''m'', rm_provider = ''p'', rm_api_key = Some ''k'', rm_base_url = ''https://api.local/'', rm_api_protocol = p,
      rm_api_model_id = ''m'', rm_context_length = 8192, rm_provider_specific = [(''header:X-Trace-Id'', ''1'')],
      rm_credential_status = Present\<rparr>"

lemma demo_headers: "injected_headers (rm_provider_specific (demo_provider p)) = Inr [(''X-Trace-Id'', ''1'')]"
proof -
  have "to_lowercase ''X-Trace-Id'' = ''x-trace-id''" by code_simp
  then show ?thesis by (simp add: demo_provider_def validate_injected_header_def ALLOWED_INJECTED_HEADERS_def strip_prefix_def)
qed

lemma demo_provider_simps [simp]:
  "rm_api_protocol (demo_provider p) = p" "map_of (rm_provider_specific (demo_provider p)) ''chat_endpoint'' = None"
  by (simp_all add: demo_provider_def)

definition demo_http :: "api_response \<Rightarrow> http_request list http_env" where
  "demo_http response =
     \<lparr>he_from_str = demo_from_str, he_print = demo_print, he_url_parse = (\<lambda>_. Inl ''none''), he_url_encode = (\<lambda>s. s),
      he_send = (\<lambda>w req. (w @ [req], Inr response)), he_replace_all = (\<lambda>_ _ s. s), he_http_date = (\<lambda>_. None),
      he_debug_protocol = protocol_serialize, he_order = (\<lambda>cs. cs)\<rparr>"

definition demo_answer :: "json \<Rightarrow> body_item list \<Rightarrow> api_response" where
  "demo_answer v items = \<lparr>hp_status = 200, hp_retry_after = None, hp_text = [], hp_json = Inr v, hp_body = items\<rparr>"

theorem turn_survives_the_wire_witness:
  "\<exists>r. tr_denormalize_response (gemini_transport demo_from_str demo_print) (gemini_reply demo_from_str demo_turn) = Some (Inr r) \<and>
     unwrap_or (cr_content r) [] = ''hi'' \<and> cr_tool_calls r \<noteq> None"
  using turn_survives_the_wire [of demo_from_str demo_print GeminiGenerateContent "gemini_transport demo_from_str demo_print" demo_turn]
  by (auto simp: create_transport_def demo_turn_def message_new_def message_calls_def demo_from_str_def demo_print_def echo_reply_def)

definition demo_candidates :: json where
  "demo_candidates =
     JObj [(''candidates'', JArr [JObj [(''content'', JObj [(''parts'', JArr [JObj [(''text'', JStr ''hi'')]])]), (''finishReason'', JStr ''STOP'')]])]"


theorem request_bodies_finite_witness:
  "\<exists>body. tr_normalize_request (gemini_transport demo_from_str demo_print)
      ((chat_request_new [demo_turn] [] (demo_provider GeminiGenerateContent))\<lparr>cq_temperature := Some NaN\<rparr>) = Inr body \<and>
     json_finite body"
  by (rule request_bodies_finite [of demo_from_str demo_print GeminiGenerateContent])
    (auto simp: create_transport_def finite_request_def chat_request_new_def demo_from_str_def split: if_splits)


definition demo_broken :: "http_request list http_env" where
  "demo_broken = demo_http (demo_answer JNull [BodyError ''x''])"

lemma demo_broken_chat:
  "\<exists>w1. chat demo_broken (demo_provider OpenAiChat) [demo_turn] [] [] = Some (w1, Inr [StreamError ''HTTP body stream error: x''])"
proof -
  have "drain_frames (openai_parse_chunk demo_from_str) p [] = (p, [], [])" for p
    by (subst drain_frames.simps) (simp add: str_find_None_iff blank_line_def)
  then have events: "sse_from_bytes_stream (openai_parse_chunk demo_from_str) openai_new [BodyError ''x''] =
      [StreamError ''HTTP body stream error: x'']"
    by (simp add: sse_from_bytes_stream_def stream_step_def parse_buffered_def flush_buffered_def)
  show ?thesis
    by (simp add: chat_def chat_with_effort_def dispatch_default create_transport_def transport_defs send_streaming_request_def
      chat_http_request_def chat_url_def demo_headers sent_def demo_broken_def demo_http_def demo_answer_def is_success_def events
      openai_request_def Let_def)
qed

theorem chat_stream_well_formed_witness: "calls_ok [StreamError ''HTTP body stream error: x'']"
proof -
  obtain w1 where "chat_with_effort demo_broken (demo_provider OpenAiChat) [demo_turn] [] None [] =
      Some (w1, Inr [StreamError ''HTTP body stream error: x''])"
    using demo_broken_chat by (auto simp: chat_def)
  then show ?thesis by (rule chat_stream_well_formed)
qed

theorem broken_stream_outcome_witness:
  "\<exists>w1 e. chat_complete demo_broken (demo_provider OpenAiChat) [demo_turn] [] [] = Some (w1, Inl e)"
proof -
  obtain w1 where "chat demo_broken (demo_provider OpenAiChat) [demo_turn] [] [] =
      Some (w1, Inr ([] @ StreamError ''HTTP body stream error: x'' # []))"
    using demo_broken_chat by auto
  from broken_stream_outcome [OF this] obtain result where
    "chat_complete demo_broken (demo_provider OpenAiChat) [demo_turn] [] [] = Some (w1, result)" and "\<forall>r. result \<noteq> Inr r"
    by (auto simp: stream_text_def starts_call_def split: sum.splits) (metis obj_sumE)
  then show ?thesis by (metis obj_sumE)
qed

end
