(* ===== verification/Runtime.thy ===== *)
theory Runtime
  imports Micro_Agent Invocation
begin

text \<open>
  \<open>runtime/mod.rs\<close>: the object that owns the router, the registries, the memory and the event bus, and makes
  agents, pipelines and micro agents of them. The router is shared: whatever is made of a runtime holds a handle
  on it, and the number of those handles is part of the state.
\<close>

section \<open>Data\<close>

record runtime_config =
  rc_name :: string
  rc_event_capacity :: nat
  rc_max_pipeline_iterations :: nat
  rc_credentials :: "(string, string) imap"

definition runtime_config_default :: runtime_config where
  "runtime_config_default =
     \<lparr>rc_name = ''lattice'', rc_event_capacity = 256, rc_max_pipeline_iterations = 20, rc_credentials = []\<rparr>"

record 'w runtime_parts =
  rs_agent_registry :: agent_registry
  rs_plugin_registry :: plugin_registry
  rs_tool_registry :: "'w tool_registry"
  rs_memory :: bool

definition runtime_parts_default :: "'w runtime_parts" where
  "runtime_parts_default =
     \<lparr>rs_agent_registry = registry_empty, rs_plugin_registry = [], rs_tool_registry = [], rs_memory = False\<rparr>"

record 'w runtime =
  rt_config :: runtime_config
  rt_router :: model_router
  rt_router_handles :: nat
  rt_agent_registry :: agent_registry
  rt_plugin_registry :: plugin_registry
  rt_tool_registry :: "'w tool_registry"
  rt_memory :: bool

datatype runtime_error = CoreError lattice_error | RuntimeConfigError string | AssemblyError string

record 'w runtime_env =
  re_pipeline :: "'w pipeline_env"
  re_http :: "'w http_env"

abbreviation "re_assembly env \<equiv> pw_assembly (re_pipeline env)"
abbreviation "re_router_ext env \<equiv> dn_router_ext (pw_dag (re_pipeline env))"
abbreviation "re_catalog env \<equiv> dn_catalog (pw_dag (re_pipeline env))"

section \<open>Construction\<close>

text \<open>A broadcast channel holds between one and half of the largest number of values; otherwise it panics.\<close>

definition event_bus_fits :: "nat \<Rightarrow> bool" where
  "event_bus_fits capacity \<longleftrightarrow> 0 < capacity \<and> capacity \<le> 2 ^ 63 - 1"

definition runtime_new :: "catalog \<Rightarrow> runtime_config \<Rightarrow> 'w runtime_parts \<Rightarrow> 'w runtime option" where
  "runtime_new cat config parts =
     (let router = (if rc_credentials config = [] then router_new cat else with_credentials cat (rc_credentials config))
      in if \<not> event_bus_fits (rc_event_capacity config) then None
         else Some \<lparr>rt_config = config, rt_router = router, rt_router_handles = 0,
           rt_agent_registry = rs_agent_registry parts, rt_plugin_registry = rs_plugin_registry parts,
           rt_tool_registry = rs_tool_registry parts, rt_memory = rs_memory parts\<rparr>)"

definition builder_bus_config :: "bus_toml \<Rightarrow> runtime_config \<Rightarrow> runtime_config" where
  "builder_bus_config bus config = config\<lparr>rc_event_capacity := unat (tb_subscriber_buffer bus)\<rparr>"

text \<open>The runtime of a project directory, over the defaults of the builder.\<close>

definition from_lattice_dir ::
  "'w runtime_env \<Rightarrow> 'w \<Rightarrow> string \<Rightarrow> string option \<Rightarrow> ('w \<times> (runtime_error, 'w runtime) res) option" where
  "from_lattice_dir env w project global =
     (case (case global of
         Some g \<Rightarrow> discover_with_global (as_files (re_assembly env)) w project g
       | None \<Rightarrow> ld_discover (as_files (re_assembly env)) w project) of
        (w1, Inl e) \<Rightarrow> Some (w1, Inl (RuntimeConfigError e))
      | (w1, Inr dir) \<Rightarrow>
          map_option (\<lambda>rt. (w1, Inr rt))
            (runtime_new (re_catalog env) (builder_bus_config (ld_bus_config dir) runtime_config_default)
              (runtime_parts_default\<lparr>rs_agent_registry := ld_registry dir\<rparr>)))"

section \<open>Models\<close>

definition map_err :: "('e \<Rightarrow> 'f) \<Rightarrow> ('e, 'a) res \<Rightarrow> ('f, 'a) res" where
  "map_err f r = (case r of Inl e \<Rightarrow> Inl (f e) | Inr a \<Rightarrow> Inr a)"

definition resolve_with_provider ::
  "'w runtime_env \<Rightarrow> 'w runtime \<Rightarrow> string \<Rightarrow> string option \<Rightarrow> 'w runtime \<times> (runtime_error, resolved_model) res" where
  "resolve_with_provider env rt model provider_override =
     (let (r1, res) = resolve (re_router_ext env) (rt_router rt) model provider_override
      in (rt\<lparr>rt_router := r1\<rparr>, map_err CoreError res))"

definition runtime_resolve :: "'w runtime_env \<Rightarrow> 'w runtime \<Rightarrow> string \<Rightarrow> 'w runtime \<times> (runtime_error, resolved_model) res" where
  "runtime_resolve env rt model = resolve_with_provider env rt model None"

definition runtime_inspect :: "'w runtime_env \<Rightarrow> 'w runtime \<Rightarrow> string \<Rightarrow> 'w runtime \<times> (runtime_error, resolved_model) res" where
  "runtime_inspect env rt model =
     (let (r1, res) = inspect_model (re_router_ext env) (rt_router rt) model in (rt\<lparr>rt_router := r1\<rparr>, map_err CoreError res))"

definition runtime_list_models :: "'w runtime \<Rightarrow> string list" where
  "runtime_list_models rt = list_models (rt_router rt)"

definition runtime_list_authenticated :: "'w runtime_env \<Rightarrow> 'w runtime \<Rightarrow> 'w runtime \<times> string list" where
  "runtime_list_authenticated env rt =
     (let (r1, names) = list_authenticated_models (re_router_ext env) (rt_router rt) in (rt\<lparr>rt_router := r1\<rparr>, names))"

definition runtime_register_model :: "'w runtime \<Rightarrow> model_catalog_entry \<Rightarrow> 'w runtime \<times> (runtime_error, unit) res" where
  "runtime_register_model rt entry =
     (if rt_router_handles rt = 0 then (rt\<lparr>rt_router := register_model (rt_router rt) entry\<rparr>, Inr ())
      else (rt, Inl (RuntimeConfigError ''custom models must be registered before cloning runtime handles'')))"

text \<open>Every pipeline, micro agent and clone of the runtime takes a handle, as its accessor does.\<close>

definition clone_router :: "'w runtime \<Rightarrow> 'w runtime" where
  "clone_router rt = rt\<lparr>rt_router_handles := Suc (rt_router_handles rt)\<rparr>"

section \<open>Requests and agents\<close>

definition runtime_chat_complete ::
  "'w runtime_env \<Rightarrow> 'w runtime \<Rightarrow> string \<Rightarrow> message list \<Rightarrow> tool_definition list \<Rightarrow> 'w \<Rightarrow>
     ('w \<times> 'w runtime \<times> (runtime_error, chat_response) res) option" where
  "runtime_chat_complete env rt model messages tools w =
     (case runtime_resolve env rt model of
        (rt1, Inl e) \<Rightarrow> Some (w, rt1, Inl e)
      | (rt1, Inr resolved) \<Rightarrow>
          map_option (\<lambda>(w1, r). (w1, rt1, map_err CoreError r)) (chat_complete (re_http env) resolved messages tools w))"

definition runtime_stream_chat ::
  "'w runtime_env \<Rightarrow> 'w runtime \<Rightarrow> string \<Rightarrow> message list \<Rightarrow> tool_definition list \<Rightarrow> 'w \<Rightarrow>
     ('w \<times> 'w runtime \<times> (runtime_error, stream_event list) res) option" where
  "runtime_stream_chat env rt model messages tools w =
     (case runtime_resolve env rt model of
        (rt1, Inl e) \<Rightarrow> Some (w, rt1, Inl e)
      | (rt1, Inr resolved) \<Rightarrow>
          map_option (\<lambda>(w1, r). (w1, rt1, map_err CoreError r)) (chat (re_http env) resolved messages tools w))"

definition not_found_error :: "string \<Rightarrow> runtime_error" where
  "not_found_error name = RuntimeConfigError (''agent '' @ [CHR 0x27] @ name @ [CHR 0x27] @ '' not found'')"

definition runtime_assemble ::
  "'w runtime_env \<Rightarrow> 'w runtime \<Rightarrow> string \<Rightarrow> 'w \<Rightarrow> 'w runtime \<times> (runtime_error, agent_runner \<times> 'w executor) res" where
  "runtime_assemble env rt name w =
     (case registry_get (rt_agent_registry rt) name of
        None \<Rightarrow> (rt, Inl (not_found_error name))
      | Some profile \<Rightarrow>
          (case runtime_resolve env rt (acf_model (ap_agent profile)) of
             (rt1, Inl e) \<Rightarrow> (rt1, Inl e)
           | (rt1, Inr resolved) \<Rightarrow>
               (rt1, map_err AssemblyError
                 (assemble_agent (re_assembly env) profile resolved (rt_memory rt1) (Some (rt_tool_registry rt1)) w))))"

definition turns_of :: "u32 option \<Rightarrow> agent_runner \<Rightarrow> u32" where
  "turns_of max_turns ru = unwrap_or max_turns (unwrap_or (hc_max_turns (ap_handoff (ru_profile ru))) 10)"

definition run_agent_once ::
  "'w runtime_env \<Rightarrow> 'w runtime \<Rightarrow> string \<Rightarrow> string \<Rightarrow> u32 option \<Rightarrow> 'w \<Rightarrow> ('w \<times> 'w runtime \<times> (runtime_error, json) res) option" where
  "run_agent_once env rt name input max_turns w =
     (case runtime_assemble env rt name w of
        (rt1, Inl e) \<Rightarrow> Some (w, rt1, Inl e)
      | (rt1, Inr (ru, ex)) \<Rightarrow>
          map_option (\<lambda>(w1, ru1, r). (w1, rt1, map_err AssemblyError r))
            (runner_run (as_agent_env (re_assembly env) ex) (pw_runner (re_pipeline env)) input (turns_of max_turns ru) ru w))"

definition run_agent_events ::
  "'w runtime_env \<Rightarrow> 'w runtime \<Rightarrow> string \<Rightarrow> string \<Rightarrow> u32 option \<Rightarrow> 'w \<Rightarrow>
     ('w \<times> 'w runtime \<times> (runtime_error, loop_event list) res) option" where
  "run_agent_events env rt name input max_turns w =
     (case runtime_assemble env rt name w of
        (rt1, Inl e) \<Rightarrow> Some (w, rt1, Inl e)
      | (rt1, Inr (ru, ex)) \<Rightarrow>
          map_option (\<lambda>(w1, ag, events). (w1, rt1, Inr events))
            (run (as_agent_env (re_assembly env) ex) input (unat (turns_of max_turns ru)) (ru_agent ru) w))"

section \<open>Pipelines and micro agents\<close>

definition runtime_pipeline :: "'w runtime \<Rightarrow> string \<Rightarrow> 'w pipeline" where
  "runtime_pipeline rt name =
     (let p = (pipeline_new name (rt_agent_registry rt) (rt_memory rt) True)
          \<lparr>pp_plugins := Some (rt_plugin_registry rt), pp_tools := Some (rt_tool_registry rt),
           pp_max_iterations := rc_max_pipeline_iterations (rt_config rt)\<rparr>
      in if rc_credentials (rt_config rt) = [] then p else p\<lparr>pp_credentials := Some (rc_credentials (rt_config rt))\<rparr>)"

text \<open>A new pipeline: its counters at zero, its router the one of the runtime.\<close>

definition runtime_pipeline_state :: "'w runtime \<Rightarrow> 'w \<Rightarrow> 'w pipeline_state" where
  "runtime_pipeline_state rt w =
     \<lparr>px_world = w, px_router = Some (rt_router rt), px_entry_count = 0, px_entry_bytes = 0, px_results = [], px_errors = [],
      px_skipped = []\<rparr>"

definition run_pipeline ::
  "'w runtime_env \<Rightarrow> 'w runtime \<Rightarrow> string \<Rightarrow> string \<Rightarrow> 'w \<Rightarrow> ('w \<times> 'w runtime \<times> pipeline_result) option" where
  "run_pipeline env rt start input w =
     map_option (\<lambda>(s, result). (px_world s, rt\<lparr>rt_router := unwrap_or (px_router s) (rt_router rt)\<rparr>, result))
       (pipeline_run (re_pipeline env) (runtime_pipeline rt (rc_name (rt_config rt))) start input (runtime_pipeline_state rt w))"

definition dry_run_pipeline :: "'w runtime \<Rightarrow> string \<Rightarrow> dry_run_report" where
  "dry_run_pipeline rt start = dry_run (pp_registry (runtime_pipeline rt (rc_name (rt_config rt)))) start"

definition runtime_micro_agent :: "'w runtime \<Rightarrow> string \<Rightarrow> (runtime_error, 'w micro_agent) res" where
  "runtime_micro_agent rt name =
     (case registry_get (rt_agent_registry rt) name of
        None \<Rightarrow> Inl (not_found_error name)
      | Some profile \<Rightarrow>
          (let a = (micro_agent_new profile (rt_memory rt) False None)\<lparr>ma_router := Some (rt_router rt), ma_tools := Some (rt_tool_registry rt)\<rparr>
           in Inr (if rc_credentials (rt_config rt) = [] then a else a\<lparr>ma_credentials := Some (rc_credentials (rt_config rt))\<rparr>)))"

section \<open>The handle\<close>

text \<open>The tasks it tracks, and which of them have been aborted.\<close>

record runtime_handle =
  rh_tasks :: "nat list"
  rh_aborted :: "nat list"

definition track_task :: "nat \<Rightarrow> runtime_handle \<Rightarrow> runtime_handle" where
  "track_task task h = h\<lparr>rh_tasks := rh_tasks h @ [task]\<rparr>"

definition shutdown :: "runtime_handle \<Rightarrow> runtime_handle" where
  "shutdown h = h\<lparr>rh_tasks := [], rh_aborted := rh_aborted h @ rh_tasks h\<rparr>"

section \<open>Properties\<close>

lemma map_err_Inr [simp]: "map_err f r = Inr a \<longleftrightarrow> r = Inr a"
  by (cases r) (simp_all add: map_err_def)

text \<open>
  Making the runtime of a directory panics exactly when the configuration there asks for an event buffer of no
  size, or of more than half of the largest number: such a buffer passes the checks of the file, and the error
  the function has for a bad configuration is not used.
\<close>

theorem from_lattice_dir_panics_iff:
  "from_lattice_dir env w project global = None \<longleftrightarrow>
     (\<exists>w1 dir. (case global of Some g \<Rightarrow> discover_with_global (as_files (re_assembly env)) w project g
          | None \<Rightarrow> ld_discover (as_files (re_assembly env)) w project) = (w1, Inr dir) \<and>
        (tb_subscriber_buffer (ld_bus_config dir) = 0 \<or> 2 ^ 63 \<le> unat (tb_subscriber_buffer (ld_bus_config dir))))"
  by (auto simp: from_lattice_dir_def runtime_new_def builder_bus_config_def event_bus_fits_def Let_def unat_eq_zero
      split: prod.splits sum.splits)

text \<open>
  The runtime, its pipelines and its micro agents resolve the model of a profile alike: with the same router,
  its registered models and its credentials.
\<close>

theorem runtime_resolves_alike:
  assumes "runtime_micro_agent rt name = Inr a" and "registry_get (rt_agent_registry rt) name = Some profile"
    and "mc_router_ext menv = re_router_ext env"
    and "runtime_resolve env rt (acf_model (ap_agent profile)) = (rt1, r)"
  shows "\<exists>res. r = map_err CoreError res \<and> micro_resolve menv a = (Some (rt_router rt1), res) \<and>
    pipeline_resolve (re_pipeline env) (runtime_pipeline rt name2) (px_router (runtime_pipeline_state rt w))
      (acf_model (ap_agent profile)) = (Some (rt_router rt1), res)"
proof -
  obtain router1 res where res: "resolve (re_router_ext env) (rt_router rt) (acf_model (ap_agent profile)) None = (router1, res)"
    by fastforce
  then have "rt1 = rt\<lparr>rt_router := router1\<rparr>" "r = map_err CoreError res"
    using assms(4) by (auto simp: runtime_resolve_def resolve_with_provider_def)
  then show ?thesis
    using assms(1-3) res
    by (auto simp: micro_resolve_def runtime_micro_agent_def micro_agent_new_def pipeline_resolve_def runtime_pipeline_state_def Let_def
        split: if_splits)
qed

text \<open>
  C10: A project whose dry run reports no problem is run to an end: with at most twenty agents, the runtime made of its
  directory never cuts a run off, it completes or reports an error. Loading, the dry run and the run meet here,
  with the limit the builder sets.
\<close>

theorem project_run_is_not_cut:
  assumes "from_lattice_dir env w project global = Some (w1, Inr rt)" and "dy_valid (dry_run_pipeline rt start)"
    and "length (rg_agents (rt_agent_registry rt)) \<le> 20"
    and "run_pipeline env rt start input w2 = Some (w3, rt1, result)"
  shows "pn_completed result \<or> pn_errors result \<noteq> []"
proof -
  obtain w4 dir where dir: "ld_discover (as_files (re_assembly env)) w project = (w4, Inr dir) \<or>
      discover_with_global (as_files (re_assembly env)) w project (the global) = (w4, Inr dir)"
    and rt: "runtime_new (re_catalog env) (builder_bus_config (ld_bus_config dir) runtime_config_default)
      (runtime_parts_default\<lparr>rs_agent_registry := ld_registry dir\<rparr>) = Some rt"
    using assms(1) by (auto simp: from_lattice_dir_def split: option.splits sum.splits prod.splits)
  have parts: "rt_agent_registry rt = ld_registry dir" "rc_max_pipeline_iterations (rt_config rt) = 20"
    using rt by (auto simp: runtime_new_def builder_bus_config_def runtime_config_default_def Let_def split: if_splits)
  let ?p = "runtime_pipeline rt (rc_name (rt_config rt))"
  have p: "pp_registry ?p = ld_registry dir" "pp_max_iterations ?p = 20"
    by (simp_all add: runtime_pipeline_def pipeline_new_def parts Let_def)
  obtain s where "pipeline_run (re_pipeline env) ?p start input (runtime_pipeline_state rt w2) = Some (s, result)"
    using assms(4) by (auto simp: run_pipeline_def)
  then show ?thesis
    using dry_run_not_cut [of ?p start "re_pipeline env" input "runtime_pipeline_state rt w2" s result]
      discovered_registry_ok [OF dir] assms(2,3) by (simp add: p parts dry_run_pipeline_def)
qed

text \<open>
  A micro agent that the runtime makes never writes to the shared partitions of its profile, whatever they are:
  it is made without a shared memory, so answers go to the private one only.
\<close>

theorem runtime_micro_agents_never_share:
  assumes "runtime_micro_agent rt name = Inr a" and "micro_spawn env a b w = Some (b1, router1, Inr t)"
  shows "save_answer env t content w1 = save_private env t content w1"
proof -
  have "ma_shared_memory a = False"
    using assms(1) by (auto simp: runtime_micro_agent_def micro_agent_new_def Let_def split: option.splits if_splits)
  then have "mk_shared_memory t = False"
    using assms(2) by (auto simp: micro_spawn_def split: prod.splits sum.splits option.splits)
  then show ?thesis by (simp add: save_answer_def Let_def)
qed

section \<open>Witnesses\<close>

text \<open>
  A directory with one agent, whose model no catalog knows: the run reports that. The second directory has a
  \<open>bus.toml\<close> with a buffer of no size.
\<close>

definition demo_agent_toml :: json where
  "demo_agent_toml =
     JObj [(''agent'', JObj [(''name'', JStr ''rev''), (''model'', JStr ''sonnet'')]), (''system'', JObj [(''prompt'', JStr ''hi'')])]"

definition demo_project :: "nat profile_env" where
  "demo_project =
     \<lparr>pv_read = (\<lambda>_ _. Inr ''good''), pv_write = (\<lambda>w _ _. (w, Inr ())),
      pv_exists = (\<lambda>_ p. p \<in> {''p/.lattice'', ''p/.lattice/agents'', ''d/rev/agent.toml''}),
      pv_read_dir = (\<lambda>_ _. Inr [AgentDir ''d/rev'']), pv_canonicalize = (\<lambda>_ p. Inr p), pv_current_dir = (\<lambda>_. Inr ''/w''),
      pv_toml = (\<lambda>_. Inr demo_agent_toml), pv_shape_error = (\<lambda>_. []), pv_hash = (\<lambda>s. s), pv_hex_encode = (\<lambda>s. s), pv_hex_decode = Some\<rparr>"

lemma demo_project_simps [simp]:
  "pv_read demo_project w p = Inr ''good''" "pv_write demo_project w p s = (w, Inr ())"
  "pv_exists demo_project w p \<longleftrightarrow> p \<in> {''p/.lattice'', ''p/.lattice/agents'', ''d/rev/agent.toml''}"
  "pv_read_dir demo_project w p = Inr [AgentDir ''d/rev'']" "pv_hash demo_project s = s" "pv_hex_encode demo_project s = s"
  by (simp_all add: demo_project_def)

definition demo_wire :: "nat http_env" where
  "demo_wire =
     \<lparr>he_from_str = he_from_str demo_broken, he_print = he_print demo_broken, he_url_parse = he_url_parse demo_broken,
      he_url_encode = he_url_encode demo_broken, he_send = (\<lambda>w r. (w, snd (he_send demo_broken [] r))),
      he_replace_all = he_replace_all demo_broken, he_http_date = he_http_date demo_broken,
      he_debug_protocol = he_debug_protocol demo_broken, he_order = he_order demo_broken\<rparr>"

definition demo_runtime_env :: "nat runtime_env" where
  "demo_runtime_env =
     \<lparr>re_pipeline = demo_pipeline_env\<lparr>pw_assembly := (pw_assembly demo_pipeline_env)\<lparr>as_files := demo_project\<rparr>,
        pw_dag := (pw_dag demo_pipeline_env)\<lparr>dn_catalog := \<lparr>cat_models = [], cat_aliases = [], cat_provider_defaults = []\<rparr>\<rparr>\<rparr>,
      re_http = demo_wire\<rparr>"

definition demo_project_agent :: agent_profile where
  "demo_project_agent =
     \<lparr>ap_agent = \<lparr>acf_name = ''rev'', acf_model = ''sonnet'', acf_description = [], acf_skippable = False, acf_tags = []\<rparr>,
      ap_system = \<lparr>sy_prompt = ''hi'', sy_file = None\<rparr>, ap_tools = [], ap_behavior = behavior_config_default,
      ap_handoff = handoff_config_default, ap_bus = \<lparr>bp_subscribe = [], bp_publish = [], bp_rpc = []\<rparr>,
      ap_memory = \<lparr>mp_shared_read = [], mp_shared_write = []\<rparr>, ap_plugins = None\<rparr>"

lemma demo_agent_parse: "from_toml demo_project agent_profile_of ''good'' = Inr demo_project_agent"
  by (simp add: from_toml_def demo_project_def demo_agent_toml_def agent_profile_of_def required_def section_or_def optional_def
    agent_config_of_def system_config_of_def texts_or_none_def json_get_def as_str_def is_table_def as_object_def demo_project_agent_def)

definition demo_runtime :: "nat runtime" where
  "demo_runtime =
     \<lparr>rt_config = runtime_config_default\<lparr>rc_event_capacity := 1024\<rparr>,
      rt_router = router_new \<lparr>cat_models = [], cat_aliases = [], cat_provider_defaults = []\<rparr>, rt_router_handles = 0,
      rt_agent_registry = \<lparr>rg_agents = [(''rev'', demo_project_agent)], rg_failed_loads = []\<rparr>, rt_plugin_registry = [],
      rt_tool_registry = [], rt_memory = False\<rparr>"

lemma demo_from_dir: "from_lattice_dir demo_runtime_env 0 ''p'' None = Some (0, Inr demo_runtime)"
proof -
  have paths: "path_join ''p'' ''.lattice'' = ''p/.lattice''" "path_join ''p/.lattice'' ''bus.toml'' = ''p/.lattice/bus.toml''"
    "path_join ''p/.lattice'' ''agents'' = ''p/.lattice/agents''" "path_join ''d/rev'' ''agent.toml'' = ''d/rev/agent.toml''"
    "with_extension ''d/rev/agent.toml'' ''toml.hash'' = ''d/rev/agent.toml.hash''" by code_simp+
  have "load_profile_verified demo_project 0 ''d/rev/agent.toml'' = (0, Inr (demo_project_agent, ''good''))"
    by (simp add: load_profile_verified_def paths Let_def demo_agent_parse)
  then have "registry_load_dir demo_project 0 ''p/.lattice/agents'' = (0, Inr \<lparr>rg_agents = [(''rev'', demo_project_agent)], rg_failed_loads = []\<rparr>)"
    by (simp add: registry_load_dir_def load_agent_dir_def registry_put_def registry_empty_def paths Let_def demo_project_agent_def)
  then have "ld_discover demo_project 0 ''p'' =
      (0, Inr \<lparr>ld_root = ''p/.lattice'', ld_bus_config = bus_toml_default, ld_registry = \<lparr>rg_agents = [(''rev'', demo_project_agent)], rg_failed_loads = []\<rparr>\<rparr>)"
    by (simp add: ld_discover_def load_bus_config_def paths Let_def)
  then show ?thesis
    by (simp add: from_lattice_dir_def demo_runtime_env_def runtime_new_def builder_bus_config_def bus_toml_default_def
        runtime_config_default_def event_bus_fits_def runtime_parts_default_def demo_runtime_def Let_def)
qed

theorem project_run_is_not_cut_witness:
  "\<exists>w3 rt1 result. run_pipeline demo_runtime_env demo_runtime ''rev'' ''go'' 0 = Some (w3, rt1, result) \<and>
     (pn_completed result \<or> pn_errors result \<noteq> [])"
proof -
  let ?p = "runtime_pipeline demo_runtime (rc_name (rt_config demo_runtime))" and ?env = "re_pipeline demo_runtime_env"
  let ?s = "runtime_pipeline_state demo_runtime 0"
  have get: "registry_get (pp_registry ?p) ''rev'' = Some demo_project_agent"
    by (simp add: runtime_pipeline_def pipeline_new_def demo_runtime_def runtime_config_default_def registry_get_def Let_def)
  have "case snd (resolve sample_ext (router_new \<lparr>cat_models = [], cat_aliases = [], cat_provider_defaults = []\<rparr>) ''sonnet'' None) of
      Inr m \<Rightarrow> False | Inl e \<Rightarrow> True"
    by code_simp
  then obtain r e where "resolve sample_ext (rt_router demo_runtime) ''sonnet'' None = (r, Inl e)"
    by (cases "resolve sample_ext (rt_router demo_runtime) ''sonnet'' None") (auto simp: demo_runtime_def split: sum.splits)
  moreover have "dn_router_ext (pw_dag ?env) = sample_ext" by (simp add: demo_runtime_env_def demo_pipeline_env_def demo_dag_env_def)
  ultimately have res: "pipeline_resolve ?env ?p (Some (rt_router demo_runtime)) ''sonnet'' = (Some r, Inl e)"
    by (simp add: pipeline_resolve_def)
  have "\<exists>s1. pipeline_turn ?env ?p ''rev'' ''go'' ?s = Some (s1, Halted)"
    using get res
    by (simp add: pipeline_turn_def emit_def runtime_pipeline_state_def demo_project_agent_def handle_error_def push_error_def Let_def)
  then obtain s1 where s1: "pipeline_turn ?env ?p ''rev'' ''go'' ?s = Some (s1, Halted)" by blast
  have limit: "pp_max_iterations ?p = Suc 19" and start: "?s\<lparr>px_results := [], px_errors := [], px_skipped := []\<rparr> = ?s"
    by (simp_all add: runtime_pipeline_def pipeline_new_def demo_runtime_def runtime_config_default_def runtime_pipeline_state_def Let_def)
  have "pipeline_loop ?env ?p (pp_max_iterations ?p) ''rev'' ''go'' (?s\<lparr>px_results := [], px_errors := [], px_skipped := []\<rparr>) =
      Some (s1, False)"
    unfolding limit start pipeline_loop.simps s1 by simp
  then obtain w3 rt1 result where run: "run_pipeline demo_runtime_env demo_runtime ''rev'' ''go'' 0 = Some (w3, rt1, result)"
    by (auto simp: run_pipeline_def pipeline_run_def Let_def)
  have "dy_valid (dry_run_pipeline demo_runtime ''rev'')"
    by (simp add: dry_run_pipeline_def runtime_pipeline_def pipeline_new_def demo_runtime_def runtime_config_default_def Let_def) code_simp
  moreover have "length (rg_agents (rt_agent_registry demo_runtime)) \<le> 20" by (simp add: demo_runtime_def)
  ultimately show ?thesis using project_run_is_not_cut [OF demo_from_dir _ _ run] run by blast
qed

theorem runtime_resolves_alike_witness:
  "\<exists>a res. runtime_micro_agent demo_runtime ''rev'' = Inr a \<and>
     snd (runtime_resolve demo_runtime_env demo_runtime ''sonnet'') = map_err CoreError res \<and> snd (micro_resolve demo_micro_env a) = res"
proof -
  obtain a where a: "runtime_micro_agent demo_runtime ''rev'' = Inr a"
    by (simp add: runtime_micro_agent_def demo_runtime_def registry_get_def Let_def)
  have profile: "registry_get (rt_agent_registry demo_runtime) ''rev'' = Some demo_project_agent" by (simp add: demo_runtime_def registry_get_def)
  have ext: "mc_router_ext demo_micro_env = re_router_ext demo_runtime_env"
    by (simp add: demo_micro_env_def demo_runtime_env_def demo_pipeline_env_def demo_dag_env_def)
  have model: "acf_model (ap_agent demo_project_agent) = ''sonnet''" by (simp add: demo_project_agent_def)
  obtain rt1 r where r: "runtime_resolve demo_runtime_env demo_runtime ''sonnet'' = (rt1, r)" by fastforce
  obtain res where "r = map_err CoreError res" "micro_resolve demo_micro_env a = (Some (rt_router rt1), res)"
    using runtime_resolves_alike [OF a profile ext, unfolded model, OF r, of "[]" 0] by blast
  then show ?thesis using a r by simp
qed

definition demo_micro_runtime :: "nat runtime" where
  "demo_micro_runtime =
     demo_runtime\<lparr>rt_agent_registry := \<lparr>rg_agents = [(''dev'', ma_profile demo_micro)], rg_failed_loads = []\<rparr>,
       rt_router := router_new (mc_catalog demo_micro_env)\<rparr>"

theorem runtime_micro_agents_never_share_witness:
  "\<exists>a b1 router1 t. runtime_micro_agent demo_micro_runtime ''dev'' = Inr a \<and>
     micro_spawn demo_micro_env a (bus_new bus_config_default) 0 = Some (b1, router1, Inr t) \<and>
     save_answer demo_micro_env t ''x'' 0 = save_private demo_micro_env t ''x'' 0"
proof -
  let ?b = "bus_new bus_config_default :: event_handler bus"
  obtain a where a: "runtime_micro_agent demo_micro_runtime ''dev'' = Inr a" "ma_profile a = ma_profile demo_micro"
    "ma_router a = Some (router_new (mc_catalog demo_micro_env))" "ma_memory a = False" "ma_tools a = Some []"
    by (simp add: runtime_micro_agent_def demo_micro_runtime_def demo_runtime_def registry_get_def micro_agent_new_def
        runtime_config_default_def Let_def)
  obtain m where "snd (micro_resolve demo_micro_env demo_micro) = Inr m" using demo_micro_resolves by fastforce
  then obtain router1 where m: "micro_resolve demo_micro_env a = (router1, Inr m)"
    using a(2,3) by (cases "micro_resolve demo_micro_env a") (auto simp: micro_resolve_def demo_micro_def micro_agent_new_def Let_def split: prod.splits)
  obtain ru ex where ru: "assemble_agent (mc_assembly demo_micro_env) (ma_profile a) m (ma_memory a) (ma_tools a) 0 = Inr (ru, ex)"
    unfolding a by (simp add: assemble_agent_def system_prompt_def demo_profile_def assembled_executor_def demo_pipeline_env_def
        demo_micro_env_def demo_micro_def micro_agent_new_def runner_from_profile_def Let_def)
  obtain b1 ch where reg: "bus_register ?b (micro_descriptor a) = Some (b1, Inr ch)"
    by (simp add: bus_register_def bus_new_def bus_config_default_def Let_def)
  obtain b2 where "subscribe_all \<lparr>eh_agent = ma_name a, eh_memory = ma_memory a\<rparr> (bp_subscribe (ap_bus (ma_profile a))) b1 = (b2, Inr ())"
    using subscribe_all_ok by blast
  then obtain t where spawned: "micro_spawn demo_micro_env a ?b 0 = Some (b2, router1, Inr t)"
    using reg m ru by (simp add: micro_spawn_def)
  show ?thesis using a(1) spawned runtime_micro_agents_never_share [OF a(1) spawned] by blast
qed

end
