(* ===== verification/Sqlite_Memory.thy ===== *)
theory Sqlite_Memory
  imports Agent_Memory
begin

text \<open>
  \<open>agent/memory/sqlite.rs\<close>: private and shared memory in one SQLite table with a full-text index beside it. The
  table is the list of its rows, in the order of their row numbers, and each statement of the source is the
  operation on that list that its SQL text states; \<open>LIKE\<close> is written out. The index, the text of a tag list and
  the order in which an unordered query returns its rows belong to the engine and are parameters.
\<close>

section \<open>The statements\<close>

record sql_row =
  rw_rowid :: nat
  rw_id :: string
  rw_kind :: string
  rw_session :: string
  rw_summary :: string
  rw_content :: string
  rw_tags :: string
  rw_created :: string
  rw_partition :: string

definition memory_columns :: "string list" where
  "memory_columns = [''id'', ''kind'', ''session_id'', ''summary'', ''content'', ''tags'', ''created_at'', ''partition'']"

definition fts_columns :: "string list" where
  "fts_columns = [''summary'', ''content'', ''tags_str'']"

record 'f sqlite =
  sq_rows :: "sql_row list"
  sq_index :: 'f

record 'f sql_engine =
  en_tags_print :: "string list \<Rightarrow> string option"
  en_tags_parse :: "string \<Rightarrow> string list option"
  en_index_delete :: "'f \<Rightarrow> sql_row list \<Rightarrow> nat \<Rightarrow> (string, 'f) res"
  en_index_insert :: "'f \<Rightarrow> nat \<Rightarrow> string \<Rightarrow> string \<Rightarrow> string \<Rightarrow> (string, 'f) res"
  en_index_match :: "'f \<Rightarrow> string \<Rightarrow> nat list option"
  en_insert_error :: "sql_row list \<Rightarrow> sql_row \<Rightarrow> string option"
  en_order :: "sql_row list \<Rightarrow> sql_row list"

text \<open>A query without an order returns its rows in some order.\<close>

definition query_rows :: "'f sql_engine \<Rightarrow> (sql_row \<Rightarrow> bool) \<Rightarrow> sql_row list \<Rightarrow> sql_row list" where
  "query_rows en P rows =
     (let found = filter P rows
      in if mset (en_order en found) = mset found then en_order en found else found)"

text \<open>The limit is cast to a signed integer, and a negative limit is none.\<close>

definition sql_limit :: "nat \<Rightarrow> 'a list \<Rightarrow> 'a list" where
  "sql_limit n rows = (if n < 2 ^ 63 then take n rows else rows)"

text \<open>\<open>LIKE ... ESCAPE '\'\<close>: ASCII letters in either case, percent for any text, underscore for one character.\<close>

fun like :: "string \<Rightarrow> string \<Rightarrow> bool" where
  "like [] s = (s = [])"
| "like (c # p) s =
     (if c = CHR ''%'' then like p s \<or> (case s of [] \<Rightarrow> False | d # t \<Rightarrow> like (c # p) t)
      else if c = CHR ''_'' then (case s of [] \<Rightarrow> False | d # t \<Rightarrow> like p (drop (utf8_width (byte d) - 1) t))
      else if c = CHR 0x5C then
        (case p of [] \<Rightarrow> False
         | e # q \<Rightarrow> (case s of [] \<Rightarrow> False | d # t \<Rightarrow> ascii_lower d = ascii_lower e \<and> like q t))
      else (case s of [] \<Rightarrow> False | d # t \<Rightarrow> ascii_lower d = ascii_lower c \<and> like p t))"

section \<open>Operations\<close>

definition escape_like :: "string \<Rightarrow> string" where
  "escape_like query =
     str_replace ''_'' [CHR 0x5C, CHR ''_''] (str_replace ''%'' [CHR 0x5C, CHR ''%'']
       (str_replace [CHR 0x5C] [CHR 0x5C, CHR 0x5C] query))"

definition quote_mark :: char where "quote_mark = CHR 0x22"

definition escape_fts5 :: "string \<Rightarrow> string" where
  "escape_fts5 query =
     (let cleaned = str_replace [quote_mark] [] query;
          cleaned = str_replace '' NEAR '' '' '' (str_replace '' NOT '' '' ''
            (str_replace '' OR '' '' '' (str_replace '' AND '' '' '' cleaned)));
          cleaned = filter (\<lambda>c. c \<notin> {CHR ''*'', CHR ''^'', CHR ''('', CHR '')''}) cleaned
      in quote_mark # cleaned @ [quote_mark])"

definition kind_of_str :: "string \<Rightarrow> entry_kind" where
  "kind_of_str s =
     (if s = ''session_log'' then SessionLog else if s = ''fact'' then Fact else if s = ''decision'' then Decision
      else if s = ''project_context'' then ProjectContext else Fact)"

definition row_to_entry :: "'f sql_engine \<Rightarrow> sql_row \<Rightarrow> memory_entry" where
  "row_to_entry en r =
     \<lparr>me_id = rw_id r, me_kind = kind_of_str (rw_kind r), me_session_id = rw_session r, me_summary = rw_summary r,
      me_content = rw_content r, me_tags = unwrap_or (en_tags_parse en (rw_tags r)) [], me_created_at = rw_created r\<rparr>"

definition partition_str :: "shared_partition \<Rightarrow> string" where
  "partition_str p = (case p of Named name \<Rightarrow> name | AllPartitions \<Rightarrow> ''_all'')"

text \<open>A connection to the database: the one in memory is always a new one.\<close>

definition sqlite_open :: "(string \<Rightarrow> 'f sqlite) \<Rightarrow> 'f sqlite \<Rightarrow> string \<Rightarrow> 'f sqlite" where
  "sqlite_open on_disk new_db path = (if path = '':memory:'' then new_db else on_disk path)"

definition new_rowid :: "sql_row list \<Rightarrow> nat" where
  "new_rowid rows = Suc (fold (\<lambda>r m. max (rw_rowid r) m) rows 0)"

definition entry_row :: "'f sql_engine \<Rightarrow> sql_row list \<Rightarrow> memory_entry \<Rightarrow> string option \<Rightarrow> sql_row" where
  "entry_row en rows e part =
     \<lparr>rw_rowid = new_rowid rows, rw_id = me_id e, rw_kind = kind_str (me_kind e), rw_session = me_session_id e,
      rw_summary = me_summary e, rw_content = me_content e, rw_tags = unwrap_or (en_tags_print en (me_tags e)) ''[]'',
      rw_created = me_created_at e, rw_partition = unwrap_or part ''private''\<rparr>"

definition replace_row :: "sql_row \<Rightarrow> sql_row list \<Rightarrow> sql_row list" where
  "replace_row r rows = filter (\<lambda>x. rw_id x \<noteq> rw_id r) rows @ [r]"

text \<open>Three statements, each on its own: what a failing one leaves behind stays.\<close>

definition insert_entry ::
  "'f sql_engine \<Rightarrow> 'f sqlite \<Rightarrow> memory_entry \<Rightarrow> string option \<Rightarrow> 'f sqlite \<times> (string, unit) res" where
  "insert_entry en db e part =
     (let rows = sq_rows db;
          removed = (case find (\<lambda>r. rw_id r = me_id e) rows of
              None \<Rightarrow> Inr (sq_index db)
            | Some r \<Rightarrow> en_index_delete en (sq_index db) rows (rw_rowid r))
      in case removed of
           Inl err \<Rightarrow> (db, Inl err)
         | Inr index1 \<Rightarrow>
             (let db1 = db\<lparr>sq_index := index1\<rparr>; row = entry_row en rows e part
              in case en_insert_error en rows row of
                   Some err \<Rightarrow> (db1, Inl err)
                 | None \<Rightarrow>
                     (let db2 = db1\<lparr>sq_rows := replace_row row rows\<rparr>
                      in case en_index_insert en index1 (rw_rowid row) (rw_summary row) (rw_content row) (rw_tags row) of
                           Inl err \<Rightarrow> (db2, Inl err)
                         | Inr index2 \<Rightarrow> (db2\<lparr>sq_index := index2\<rparr>, Inr ()))))"

definition save_private_sql :: "'f sql_engine \<Rightarrow> 'f sqlite \<Rightarrow> memory_entry \<Rightarrow> 'f sqlite" where
  "save_private_sql en db e = fst (insert_entry en db e None)"

definition like_query :: "string \<Rightarrow> sql_row \<Rightarrow> bool" where
  "like_query query r \<longleftrightarrow>
     (let pattern = ''%'' @ escape_like query @ ''%'' in like pattern (rw_summary r) \<or> like pattern (rw_content r))"

definition recall_like :: "'f sql_engine \<Rightarrow> 'f sqlite \<Rightarrow> string \<Rightarrow> nat \<Rightarrow> memory_entry list" where
  "recall_like en db query limit =
     map (row_to_entry en) (sql_limit limit (query_rows en (like_query query) (sq_rows db)))"

definition recall_sql :: "'f sql_engine \<Rightarrow> 'f sqlite \<Rightarrow> string \<Rightarrow> nat \<Rightarrow> memory_entry list" where
  "recall_sql en db query limit =
     (let found = (case en_index_match en (sq_index db) (escape_fts5 query) of
          None \<Rightarrow> []
        | Some ids \<Rightarrow> sql_limit limit (query_rows en (\<lambda>r. rw_rowid r \<in> set ids) (sq_rows db)))
      in if found \<noteq> [] then map (row_to_entry en) found else recall_like en db query limit)"

definition kind_query_sql :: "'f sql_engine \<Rightarrow> 'f sqlite \<Rightarrow> entry_kind \<Rightarrow> nat \<Rightarrow> memory_entry list" where
  "kind_query_sql en db kind limit =
     map (row_to_entry en) (sql_limit limit (query_rows en (\<lambda>r. rw_kind r = kind_str kind) (sq_rows db)))"

definition save_shared_sync ::
  "'f sql_engine \<Rightarrow> 'f sqlite \<Rightarrow> memory_entry \<Rightarrow> shared_partition \<Rightarrow> partition_access \<Rightarrow> 'f sqlite \<times> (memory_error, unit) res" where
  "save_shared_sync en db e p access =
     (if \<not> can_write access p then (db, Inl (AccessDenied p))
      else
        (case insert_entry en db e (Some (partition_str p)) of
           (db1, Inl err) \<Rightarrow> (db1, Inl (StorageError err))
         | (db1, Inr _) \<Rightarrow> (db1, Inr ())))"

definition read_shared_sync ::
  "'f sql_engine \<Rightarrow> 'f sqlite \<Rightarrow> string \<Rightarrow> shared_partition \<Rightarrow> partition_access \<Rightarrow> nat \<Rightarrow> (memory_error, memory_entry list) res" where
  "read_shared_sync en db query p access limit =
     (if \<not> can_read access p then Inl (AccessDenied p)
      else Inr (map (row_to_entry en)
        (sql_limit limit (query_rows en (\<lambda>r. rw_partition r = partition_str p \<and> like_query query r) (sq_rows db)))))"

section \<open>Escaping\<close>

lemma str_replace_char: "str_replace [c] r s = concat (map (\<lambda>d. if d = c then r else [d]) s)"
proof (induction s)
  case (Cons d s)
  then show ?case by (subst str_replace.simps) auto
qed simp

definition escape_char :: "char \<Rightarrow> string" where
  "escape_char c = (if c \<in> {CHR 0x5C, CHR ''%'', CHR ''_''} then [CHR 0x5C, c] else [c])"

lemma escape_like_chars: "escape_like q = concat (map escape_char q)"
  by (induction q) (auto simp: escape_like_def str_replace_char escape_char_def)

lemma like_percent: "like (CHR ''%'' # p) s \<longleftrightarrow> (\<exists>pre rest. s = pre @ rest \<and> like p rest)"
proof (induction s)
  case (Cons d s)
  have "like (CHR ''%'' # p) (d # s) \<longleftrightarrow> like p (d # s) \<or> (\<exists>pre rest. s = pre @ rest \<and> like p rest)"
    using Cons by simp
  also have "\<dots> \<longleftrightarrow> (\<exists>pre rest. d # s = pre @ rest \<and> like p rest)"
    by (auto simp: Cons_eq_append_conv)
  finally show ?case .
qed simp

lemma like_escaped:
  "like (concat (map escape_char q) @ p) s \<longleftrightarrow> (\<exists>found rest. s = found @ rest \<and> to_lowercase found = to_lowercase q \<and> like p rest)"
proof (induction q arbitrary: s)
  case (Cons c q)
  have "like (escape_char c @ r) s \<longleftrightarrow> (\<exists>d t. s = d # t \<and> ascii_lower d = ascii_lower c \<and> like r t)" for r
    by (cases s) (auto simp: escape_char_def)
  with Cons show ?case
    by (auto simp: to_lowercase_def map_eq_Cons_conv Cons_eq_map_conv) (metis append_Cons)+
qed (simp add: to_lowercase_def)

lemma like_contains: "like (''%'' @ escape_like q @ ''%'') s \<longleftrightarrow> sublist (to_lowercase q) (to_lowercase s)"
proof -
  have rest: "like ''%'' t" for t using like_percent [of "[]" t] by auto
  have "like (''%'' @ escape_like q @ ''%'') s \<longleftrightarrow>
      (\<exists>pre t. s = pre @ t \<and> (\<exists>found rest. t = found @ rest \<and> to_lowercase found = to_lowercase q))"
    using like_percent [of "escape_like q @ ''%''" s] like_escaped [of q "''%''"] rest
    by (simp add: escape_like_chars del: like.simps)
  also have "\<dots> \<longleftrightarrow> sublist (to_lowercase q) (to_lowercase s)"
  proof
    assume "\<exists>pre t. s = pre @ t \<and> (\<exists>found rest. t = found @ rest \<and> to_lowercase found = to_lowercase q)"
    then obtain pre found rest where "s = pre @ found @ rest" "to_lowercase found = to_lowercase q" by blast
    then have "to_lowercase s = to_lowercase pre @ to_lowercase q @ to_lowercase rest" by (simp add: to_lowercase_def)
    then show "sublist (to_lowercase q) (to_lowercase s)" by (simp add: sublist_def) blast
  next
    assume "sublist (to_lowercase q) (to_lowercase s)"
    then obtain xs ys where "to_lowercase s = xs @ to_lowercase q @ ys" by (auto simp: sublist_def)
    then obtain pre t found rest where "s = pre @ t" "t = found @ rest" "to_lowercase found = to_lowercase q"
      unfolding to_lowercase_def map_eq_append_conv append_eq_map_conv by metis
    then show "\<exists>pre t. s = pre @ t \<and> (\<exists>found rest. t = found @ rest \<and> to_lowercase found = to_lowercase q)" by blast
  qed
  finally show ?thesis .
qed

lemma like_query_iff:
  "like_query q r \<longleftrightarrow> sublist (to_lowercase q) (to_lowercase (rw_summary r)) \<or> sublist (to_lowercase q) (to_lowercase (rw_content r))"
  unfolding like_query_def Let_def like_contains ..

lemma str_replace_chars: "set (str_replace p r s) \<subseteq> set s \<union> set r"
proof (induction p r s rule: str_replace.induct)
  case (1 p r s)
  show ?case
  proof (cases s)
    case (Cons c cs)
    then show ?thesis
      using 1 set_drop_subset [of "length p" "c # cs"] by (subst str_replace.simps) (auto split: if_splits)
  qed simp
qed

lemma escape_fts5_phrase:
  "\<exists>phrase. escape_fts5 q = [quote_mark] @ phrase @ [quote_mark] \<and> set phrase \<subseteq> set q \<union> {CHR '' ''} \<and>
     set phrase \<inter> {quote_mark, CHR ''*'', CHR ''^'', CHR ''('', CHR '')''} = {}"
proof -
  let ?c = "str_replace [quote_mark] [] q"
  let ?d = "str_replace '' NEAR '' '' '' (str_replace '' NOT '' '' '' (str_replace '' OR '' '' '' (str_replace '' AND '' '' '' ?c)))"
  have "set ?c \<subseteq> set q - {quote_mark}" by (auto simp: str_replace_char split: if_splits)
  moreover have "set ?d \<subseteq> set ?c \<union> {CHR '' ''}"
    using str_replace_chars [of "'' NEAR ''" "'' ''"] str_replace_chars [of "'' NOT ''" "'' ''"]
      str_replace_chars [of "'' OR ''" "'' ''"] str_replace_chars [of "'' AND ''" "'' ''"] by fastforce
  moreover have "quote_mark \<noteq> CHR '' ''" by (simp add: quote_mark_def)
  ultimately have "set ?d \<subseteq> set q \<union> {CHR '' ''}" "quote_mark \<notin> set ?d" by auto
  then show ?thesis
    by (intro exI [of _ "filter (\<lambda>c. c \<notin> {CHR ''*'', CHR ''^'', CHR ''('', CHR '')''}) ?d"])
      (auto simp: escape_fts5_def Let_def)
qed


section \<open>Storing and reading\<close>

lemma query_rows_mset: "mset (query_rows en P rows) = mset (filter P rows)"
  by (simp add: query_rows_def Let_def)

lemma query_rows_set [simp]: "set (query_rows en P rows) = {r \<in> set rows. P r}"
  using mset_eq_setD [OF query_rows_mset [of en P rows]] by auto

lemma query_rows_length: "length (query_rows en P rows) \<le> length rows"
  using mset_eq_length [OF query_rows_mset [of en P rows]] by (simp add: length_filter_le)

lemma sql_limit_subset: "set (sql_limit n rows) \<subseteq> set rows"
  by (simp add: sql_limit_def set_take_subset)

lemma sql_limit_all: "length rows \<le> n \<Longrightarrow> sql_limit n rows = rows"
  by (simp add: sql_limit_def)

lemma kind_of_kind_str [simp]: "kind_of_str (kind_str k) = k"
  by (cases k) (simp_all add: kind_of_str_def)

definition tags_survive :: "'f sql_engine \<Rightarrow> memory_entry \<Rightarrow> bool" where
  "tags_survive en e \<longleftrightarrow> (\<exists>text. en_tags_print en (me_tags e) = Some text \<and> en_tags_parse en text = Some (me_tags e))"

lemma entry_row_back: "tags_survive en e \<Longrightarrow> row_to_entry en (entry_row en rows e part) = e"
  by (auto simp: tags_survive_def row_to_entry_def entry_row_def)

lemma insert_entry_Inr:
  assumes "insert_entry en db e part = (db1, Inr u)"
  shows "sq_rows db1 = replace_row (entry_row en (sq_rows db) e part) (sq_rows db)"
  using assms by (auto simp: insert_entry_def Let_def split: sum.splits option.splits)

lemma insert_entry_rows:
  "insert_entry en db e part = (db1, r) \<Longrightarrow>
    sq_rows db1 = sq_rows db \<or> sq_rows db1 = replace_row (entry_row en (sq_rows db) e part) (sq_rows db)"
  by (auto simp: insert_entry_def Let_def split: sum.splits option.splits)

lemma new_rowid_fresh: "r \<in> set rows \<Longrightarrow> rw_rowid r < new_rowid rows"
proof -
  have "m \<le> fold (\<lambda>r m. max (rw_rowid r) m) rows m \<and> (\<forall>r \<in> set rows. rw_rowid r \<le> fold (\<lambda>r m. max (rw_rowid r) m) rows m)" for m
  proof (induction rows arbitrary: m)
    case (Cons r rows)
    have "max (rw_rowid r) m \<le> fold (\<lambda>r m. max (rw_rowid r) m) rows (max (rw_rowid r) m)" using Cons by blast
    then show ?case using Cons [of "max (rw_rowid r) m"] by auto
  qed simp
  then show "r \<in> set rows \<Longrightarrow> rw_rowid r < new_rowid rows" by (simp add: new_rowid_def less_Suc_eq_le)
qed

definition table_ok :: "sql_row list \<Rightarrow> bool" where
  "table_ok rows \<longleftrightarrow> distinct (map rw_id rows) \<and> sorted_wrt (\<lambda>a b. rw_rowid a < rw_rowid b) rows"

lemma replace_row_ok:
  assumes "table_ok rows" and "rw_rowid r = new_rowid rows"
  shows "table_ok (replace_row r rows)"
  using assms new_rowid_fresh
  by (auto simp: table_ok_def replace_row_def distinct_map inj_on_def sorted_wrt_append sorted_wrt_filter)

text \<open>
  The table keeps one row for each entry id, and row numbers in the order of insertion, whatever is stored
  privately or shared and whichever statement of an insertion fails; an insertion that succeeds leaves the entry it
  was given, in its partition, and all rows with another id as they were.
\<close>

theorem sqlite_insert_keeps_table:
  assumes "table_ok (sq_rows db)" and "insert_entry en db e part = (db1, r)"
  shows "table_ok (sq_rows db1)"
    and "filter (\<lambda>x. rw_id x \<noteq> me_id e) (sq_rows db1) = filter (\<lambda>x. rw_id x \<noteq> me_id e) (sq_rows db)"
    and "r = Inr () \<Longrightarrow> tags_survive en e \<Longrightarrow>
      (\<exists>row. filter (\<lambda>x. rw_id x = me_id e) (sq_rows db1) = [row] \<and> row_to_entry en row = e \<and> rw_partition row = unwrap_or part ''private'')"
proof -
  let ?row = "entry_row en (sq_rows db) e part"
  have row: "rw_rowid ?row = new_rowid (sq_rows db)" "rw_id ?row = me_id e" "rw_partition ?row = unwrap_or part ''private''"
    by (simp_all add: entry_row_def)
  show "table_ok (sq_rows db1)"
    using insert_entry_rows [OF assms(2)] replace_row_ok [OF assms(1) row(1)] assms(1) by auto
  show "filter (\<lambda>x. rw_id x \<noteq> me_id e) (sq_rows db1) = filter (\<lambda>x. rw_id x \<noteq> me_id e) (sq_rows db)"
    using insert_entry_rows [OF assms(2)] row(2) by (auto simp: replace_row_def)
  show "\<exists>row. filter (\<lambda>x. rw_id x = me_id e) (sq_rows db1) = [row] \<and> row_to_entry en row = e \<and>
      rw_partition row = unwrap_or part ''private''" if "r = Inr ()" and "tags_survive en e"
    using insert_entry_Inr [of en db e part db1 "()"] assms(2) that row entry_row_back [OF that(2)]
    by (auto simp: replace_row_def)
qed

section \<open>The interface of shared memory\<close>

locale partitioned_store =
  fixes put :: "'d \<Rightarrow> memory_entry \<Rightarrow> shared_partition \<Rightarrow> partition_access \<Rightarrow> 'd \<times> (memory_error, unit) res"
    and get :: "'d \<Rightarrow> string \<Rightarrow> shared_partition \<Rightarrow> partition_access \<Rightarrow> nat \<Rightarrow> (memory_error, memory_entry list) res"
    and held :: "'d \<Rightarrow> shared_partition \<Rightarrow> memory_entry list"
    and storable :: "memory_entry \<Rightarrow> bool"
  assumes put_denied: "\<not> can_write a p \<Longrightarrow> put d e p a = (d, Inl (AccessDenied p))"
    and get_denied: "\<not> can_read a p \<Longrightarrow> get d q p a n = Inl (AccessDenied p)"
    and put_held: "put d e p a = (d1, Inr u) \<Longrightarrow> storable e \<Longrightarrow> e \<in> set (held d1 p)"
    and get_sound: "get d q p a n = Inr es \<Longrightarrow> set es \<subseteq> set (held d p)"
    and get_all: "can_read a p \<Longrightarrow> length (held d p) \<le> n \<Longrightarrow> \<exists>es. get d [] p a n = Inr es \<and> set es = set (held d p)"
begin

lemma put_needs_access: "put d e p a = (d1, Inr u) \<Longrightarrow> can_write a p"
  using put_denied by fastforce

lemma get_needs_access: "get d q p a n = Inr es \<Longrightarrow> can_read a p"
  using get_denied by fastforce

text \<open>What one agent stores in a partition, another one that may read it finds there.\<close>

lemma handed_over:
  assumes "put d e p a = (d1, Inr u)" and "storable e" and "can_read b p" and "length (held d1 p) \<le> n"
  shows "\<exists>es. get d1 [] p b n = Inr es \<and> e \<in> set es"
  using get_all [OF assms(3,4)] put_held [OF assms(1,2)] by auto

end

definition partition_entries :: "'f sql_engine \<Rightarrow> 'f sqlite \<Rightarrow> shared_partition \<Rightarrow> memory_entry list" where
  "partition_entries en db p = map (row_to_entry en) (filter (\<lambda>r. rw_partition r = partition_str p) (sq_rows db))"

lemma like_query_empty [simp]: "like_query [] r"
  by (simp add: like_query_iff to_lowercase_def)

lemma save_shared_Inr:
  assumes "save_shared_sync en db e p a = (db1, Inr u)"
  shows "can_write a p" "sq_rows db1 = replace_row (entry_row en (sq_rows db) e (Some (partition_str p))) (sq_rows db)"
  using assms insert_entry_Inr [of en db e "Some (partition_str p)"]
  by (auto simp: save_shared_sync_def split: if_splits prod.splits sum.splits)

interpretation sql: partitioned_store "save_shared_sync en" "read_shared_sync en" "partition_entries en" "tags_survive en" for en
proof unfold_locales
  fix a p d e d1 u
  assume "save_shared_sync en d e p a = (d1, Inr u)" and "tags_survive en e"
  then show "e \<in> set (partition_entries en d1 p)"
    using save_shared_Inr(2) [of en d e p a d1 u] entry_row_back [of en e "sq_rows d" "Some (partition_str p)"]
    by (auto simp: partition_entries_def replace_row_def entry_row_def)
next
  fix a p and d :: "'a sqlite" and n
  assume "can_read a p" and len: "length (partition_entries en d p) \<le> n"
  let ?found = "query_rows en (\<lambda>r. rw_partition r = partition_str p \<and> like_query [] r) (sq_rows d)"
  have "length ?found \<le> n"
    using mset_eq_length [OF query_rows_mset [of en "\<lambda>r. rw_partition r = partition_str p \<and> like_query [] r" "sq_rows d"]] len
    by (simp add: partition_entries_def)
  with \<open>can_read a p\<close> show "\<exists>es. read_shared_sync en d [] p a n = Inr es \<and> set es = set (partition_entries en d p)"
    by (simp add: read_shared_sync_def sql_limit_all partition_entries_def)
next
  fix d q p a n es
  assume "read_shared_sync en d q p a n = Inr es"
  then show "set es \<subseteq> set (partition_entries en d p)"
    using sql_limit_subset [of n "query_rows en (\<lambda>r. rw_partition r = partition_str p \<and> like_query q r) (sq_rows d)"]
    by (fastforce simp: read_shared_sync_def partition_entries_def split: if_splits)
qed (simp_all add: save_shared_sync_def read_shared_sync_def)

section \<open>What binds an entry and what does not\<close>


definition stored_as :: "'f sql_engine \<Rightarrow> memory_entry \<Rightarrow> sql_row \<Rightarrow> bool" where
  "stored_as en e r \<longleftrightarrow> row_to_entry en r = e \<and> rw_kind r = kind_str (me_kind e) \<and> rw_summary r = me_summary e \<and>
     rw_content r = me_content e"

lemma stored_row:
  assumes "sq_rows db1 = replace_row (entry_row en (sq_rows db) e part) (sq_rows db)" and "tags_survive en e"
  shows "\<exists>row \<in> set (sq_rows db1). stored_as en e row \<and> rw_partition row = unwrap_or part ''private''"
  using assms(1) entry_row_back [OF assms(2), of "sq_rows db" part]
  by (intro bexI [of _ "entry_row en (sq_rows db) e part"]) (auto simp: stored_as_def entry_row_def replace_row_def)

lemma selected:
  assumes "r \<in> set rows" and "P r" and "length rows \<le> n" and "row_to_entry en r = e"
  shows "e \<in> set (map (row_to_entry en) (sql_limit n (query_rows en P rows)))"
  using assms query_rows_length [of en P rows] by (auto simp: sql_limit_all)

text \<open>
  Partitions bind only the shared interface. The private queries of the same store do not look at them: an
  entry that was shared with a partition is returned to everyone who asks by kind, or searches for text in it
  that the index does not know. And whoever may read a partition named private reads what every agent stored
  privately.
\<close>

theorem private_queries_ignore_partitions:
  assumes "tags_survive en e"
  shows "save_shared_sync en db e p writer = (db1, Inr u) \<Longrightarrow> length (sq_rows db1) \<le> n \<Longrightarrow>
      e \<in> set (kind_query_sql en db1 (me_kind e) n)"
    and "save_shared_sync en db e p writer = (db1, Inr u) \<Longrightarrow> length (sq_rows db1) \<le> n \<Longrightarrow>
      sublist (to_lowercase q) (to_lowercase (me_content e)) \<Longrightarrow> en_index_match en (sq_index db1) (escape_fts5 q) = None \<Longrightarrow>
      e \<in> set (recall_sql en db1 q n)"
    and "insert_entry en db e None = (db1, Inr u) \<Longrightarrow> length (sq_rows db1) \<le> n \<Longrightarrow> can_read reader (Named ''private'') \<Longrightarrow>
      \<exists>es. read_shared_sync en db1 [] (Named ''private'') reader n = Inr es \<and> e \<in> set es"
proof -
  show "e \<in> set (kind_query_sql en db1 (me_kind e) n)"
    if saved: "save_shared_sync en db e p writer = (db1, Inr u)" and n: "length (sq_rows db1) \<le> n"
  proof -
    obtain row where "row \<in> set (sq_rows db1)" "stored_as en e row" using stored_row [OF save_shared_Inr(2) [OF saved] assms] by blast
    then show ?thesis unfolding kind_query_sql_def using n by (intro selected) (auto simp: stored_as_def)
  qed
  show "e \<in> set (recall_sql en db1 q n)"
    if saved: "save_shared_sync en db e p writer = (db1, Inr u)" and n: "length (sq_rows db1) \<le> n"
      and found: "sublist (to_lowercase q) (to_lowercase (me_content e))" and index: "en_index_match en (sq_index db1) (escape_fts5 q) = None"
  proof -
    obtain row where "row \<in> set (sq_rows db1)" "stored_as en e row" using stored_row [OF save_shared_Inr(2) [OF saved] assms] by blast
    then have "e \<in> set (recall_like en db1 q n)"
      unfolding recall_like_def using n found by (intro selected) (auto simp: stored_as_def like_query_iff)
    then show ?thesis using index by (simp add: recall_sql_def)
  qed
  show "\<exists>es. read_shared_sync en db1 [] (Named ''private'') reader n = Inr es \<and> e \<in> set es"
    if saved: "insert_entry en db e None = (db1, Inr u)" and n: "length (sq_rows db1) \<le> n" and reader: "can_read reader (Named ''private'')"
  proof -
    obtain row where row: "row \<in> set (sq_rows db1)" "stored_as en e row" "rw_partition row = ''private''"
      using stored_row [OF insert_entry_Inr [OF saved] assms] by auto
    let ?P = "\<lambda>r. rw_partition r = partition_str (Named ''private'') \<and> like_query [] r"
    have "e \<in> set (map (row_to_entry en) (sql_limit n (query_rows en ?P (sq_rows db1))))"
      using row n by (intro selected) (auto simp: stored_as_def partition_str_def)
    then show ?thesis using reader by (simp add: read_shared_sync_def)
  qed
qed

lemma second_insert_fails:
  assumes engine: "\<And>index rows i. i \<in> rw_rowid ` set rows \<Longrightarrow> \<not> set fts_columns \<subseteq> set memory_columns \<Longrightarrow>
      \<exists>msg. en_index_delete en index rows i = Inl msg"
    and "me_id e \<in> rw_id ` set (sq_rows db)"
  shows "save_private_sql en db e = db"
    and "can_write a p \<Longrightarrow> \<exists>msg. save_shared_sync en db e p a = (db, Inl (StorageError msg))"
proof -
  obtain r where r: "find (\<lambda>r. rw_id r = me_id e) (sq_rows db) = Some r" "r \<in> set (sq_rows db)"
    using assms(2) by (cases "find (\<lambda>r. rw_id r = me_id e) (sq_rows db)") (auto simp: find_None_iff find_Some_iff)
  have "''tags_str'' \<in> set fts_columns" "''tags_str'' \<notin> set memory_columns" by (simp_all add: fts_columns_def memory_columns_def)
  then obtain msg where "en_index_delete en (sq_index db) (sq_rows db) (rw_rowid r) = Inl msg" using engine r(2) by blast
  then have fail: "insert_entry en db e part = (db, Inl msg)" for part using r(1) by (simp add: insert_entry_def)
  then show "save_private_sql en db e = db" by (simp add: save_private_sql_def)
  show "\<exists>msg. save_shared_sync en db e p a = (db, Inl (StorageError msg))" if "can_write a p"
    using that fail by (simp add: save_shared_sync_def)
qed

text \<open>
  The index names a column that its table does not have. As its engine reads a row from the table when it
  drops the row from the index, and fails when a column is missing there, an entry can be stored only once: every
  later insertion with its id fails and changes nothing, so a private one is silently lost and a shared one is
  an error of the store.
\<close>

theorem stored_once_only:
  assumes engine: "\<And>index rows i. i \<in> rw_rowid ` set rows \<Longrightarrow> \<not> set fts_columns \<subseteq> set memory_columns \<Longrightarrow>
      \<exists>msg. en_index_delete en index rows i = Inl msg"
    and "me_id e \<in> rw_id ` set (sq_rows db)"
  shows "save_private_sql en db e = db \<and>
    (can_write a p \<longrightarrow> (\<exists>msg. save_shared_sync en db e p a = (db, Inl (StorageError msg))))"
  using second_insert_fails [of en e db, OF assms] by simp_all

section \<open>Witnesses\<close>

text \<open>An engine whose index finds nothing and, like the real one, cannot forget; tag lists are empty.\<close>

definition demo_engine :: "unit sql_engine" where
  "demo_engine =
     \<lparr>en_tags_print = (\<lambda>_. Some ''[]''), en_tags_parse = (\<lambda>_. Some []), en_index_delete = (\<lambda>_ _ _. Inl ''no such column: T.tags_str''),
      en_index_insert = (\<lambda>_ _ _ _ _. Inr ()), en_index_match = (\<lambda>_ _. None), en_insert_error = (\<lambda>_ _. None), en_order = rev\<rparr>"

definition demo_entry :: memory_entry where
  "demo_entry =
     \<lparr>me_id = ''sr1'', me_kind = Decision, me_session_id = ''reviewer'', me_summary = ''Approved change'',
      me_content = ''Code looks good'', me_tags = [], me_created_at = ''1''\<rparr>"

definition demo_sql :: "unit sqlite" where
  "demo_sql = \<lparr>sq_rows = [], sq_index = ()\<rparr>"

definition demo_access :: partition_access where
  "demo_access = \<lparr>pa_read = [Named ''reviews''], pa_write = [Named ''reviews'']\<rparr>"

definition demo_saved :: "unit sqlite" where
  "demo_saved = fst (save_shared_sync demo_engine demo_sql demo_entry (Named ''reviews'') demo_access)"

lemma demo_save:
  "save_shared_sync demo_engine demo_sql demo_entry (Named ''reviews'') demo_access = (demo_saved, Inr ())"
  "length (sq_rows demo_saved) = 1" "rw_id ` set (sq_rows demo_saved) = {''sr1''}" "length (partition_entries demo_engine demo_saved (Named ''reviews'')) = 1"
  "tags_survive demo_engine demo_entry"
  by (simp_all add: demo_saved_def save_shared_sync_def insert_entry_def demo_sql_def demo_engine_def demo_entry_def demo_access_def
      can_write_def replace_row_def entry_row_def tags_survive_def partition_entries_def partition_str_def Let_def)

theorem sqlite_insert_keeps_table_witness:
  "table_ok (sq_rows (fst (insert_entry demo_engine demo_sql demo_entry None))) \<and>
    (\<exists>row. filter (\<lambda>x. rw_id x = ''sr1'') (sq_rows (fst (insert_entry demo_engine demo_sql demo_entry None))) = [row] \<and>
       row_to_entry demo_engine row = demo_entry \<and> rw_partition row = ''private'')"
proof -
  have ok: "table_ok (sq_rows demo_sql)" by (simp add: demo_sql_def table_ok_def)
  obtain db1 where db1: "insert_entry demo_engine demo_sql demo_entry None = (db1, Inr ())"
    by (simp add: insert_entry_def demo_sql_def demo_engine_def demo_entry_def Let_def)
  have id: "me_id demo_entry = ''sr1''" by (simp add: demo_entry_def)
  show ?thesis
    using sqlite_insert_keeps_table(1,3) [OF ok db1] demo_save(5) by (simp add: db1 id)
qed


theorem private_queries_ignore_partitions_witness:
  "demo_entry \<in> set (kind_query_sql demo_engine demo_saved Decision 10) \<and> demo_entry \<in> set (recall_sql demo_engine demo_saved ''GOOD'' 10)"
proof -
  have "sublist (to_lowercase ''GOOD'') (to_lowercase (me_content demo_entry))"
    unfolding str_contains_iff [symmetric] by (simp add: demo_entry_def) code_simp
  moreover have "en_index_match demo_engine (sq_index demo_saved) (escape_fts5 ''GOOD'') = None" by (simp add: demo_engine_def)
  ultimately show ?thesis
    using private_queries_ignore_partitions(1,2) [OF demo_save(5,1), of 10] demo_save(2) by (simp add: demo_entry_def)
qed

theorem stored_once_only_witness:
  "save_private_sql demo_engine demo_saved demo_entry = demo_saved \<and>
    (\<exists>msg. save_shared_sync demo_engine demo_saved demo_entry (Named ''reviews'') demo_access = (demo_saved, Inl (StorageError msg)))"
proof -
  have "me_id demo_entry \<in> rw_id ` set (sq_rows demo_saved)" using demo_save(3) by (simp add: demo_entry_def)
  moreover have "can_write demo_access (Named ''reviews'')" by (simp add: demo_access_def can_write_def)
  moreover have "\<exists>msg. en_index_delete demo_engine index rows i = Inl msg" for index rows i by (simp add: demo_engine_def)
  ultimately show ?thesis using stored_once_only [of demo_engine demo_entry demo_saved demo_access "Named ''reviews''"] by blast
qed

end
