(* ===== verification/Blob.thy ===== *)
theory Blob
  imports Agent_Memory
begin

text \<open>
  \<open>agent/blob.rs\<close> and \<open>agent/events_provider.rs\<close>: the table of large payloads, and the provider that shows the events
  of the bus in the prompt, small ones in full and large ones as a reference to a payload it has stored. The
  table is the list of its rows; the clock, the date arithmetic of the engine, its failures, JSON text and the
  hash in a key are parameters. The tool that fetches a payload back is here too.
\<close>

section \<open>The table\<close>

record stored_blob =
  sb_key :: string
  sb_source :: string
  sb_topic :: string
  sb_mime :: string
  sb_size :: u64
  sb_payload :: string
  sb_summary :: string

datatype blob_error = DatabaseError string | BlobNotFound string

text \<open>The row of a blob: its size is a signed integer, and the engine adds the time.\<close>

record blob_row =
  bw_key :: string
  bw_source :: string
  bw_topic :: string
  bw_mime :: string
  bw_size :: int
  bw_payload :: string
  bw_summary :: string
  bw_created_at :: string

type_synonym blob_table = "blob_row list"

definition blob_insert ::
  "(blob_table \<Rightarrow> stored_blob \<Rightarrow> string option) \<Rightarrow> string \<Rightarrow> stored_blob \<Rightarrow> blob_table \<Rightarrow> blob_table \<times> (blob_error, unit) res" where
  "blob_insert fails now b rows =
     (case fails rows b of
        Some e \<Rightarrow> (rows, Inl (DatabaseError e))
      | None \<Rightarrow>
          (filter (\<lambda>r. bw_key r \<noteq> sb_key b) rows
           @ [\<lparr>bw_key = sb_key b, bw_source = sb_source b, bw_topic = sb_topic b, bw_mime = sb_mime b, bw_size = sint (sb_size b),
               bw_payload = sb_payload b, bw_summary = sb_summary b, bw_created_at = now\<rparr>], Inr ()))"

definition row_blob :: "blob_row \<Rightarrow> stored_blob" where
  "row_blob r =
     \<lparr>sb_key = bw_key r, sb_source = bw_source r, sb_topic = bw_topic r, sb_mime = bw_mime r, sb_size = word_of_int (bw_size r),
      sb_payload = bw_payload r, sb_summary = bw_summary r\<rparr>"

definition blob_get :: "string \<Rightarrow> blob_table \<Rightarrow> (blob_error, stored_blob) res" where
  "blob_get key rows =
     (case find (\<lambda>r. bw_key r = key) rows of
        Some r \<Rightarrow> Inr (row_blob r)
      | None \<Rightarrow> Inl (BlobNotFound key))"

text \<open>The engine computes the date so many days ago, which is no date when it leaves the calendar.\<close>

definition delete_older_than :: "(string \<Rightarrow> string option) \<Rightarrow> u32 \<Rightarrow> blob_table \<Rightarrow> blob_table \<times> nat" where
  "delete_older_than datetime_now days rows =
     (let kept = (case datetime_now (''-'' @ show_nat (unat days) @ '' days'') of
          None \<Rightarrow> rows
        | Some cutoff \<Rightarrow> filter (\<lambda>r. \<not> bw_created_at r < cutoff) rows)
      in (kept, length rows - length kept))"

text \<open>
  The tool \<open>bus:fetch\<close> of \<open>tools/executor.rs\<close>, given its parsed arguments; the executor may be without a store.
\<close>

definition tool_bus_fetch :: "json \<Rightarrow> blob_table option \<Rightarrow> string" where
  "tool_bus_fetch args store =
     (let key = unwrap_or (Option.bind (json_get args ''key'') as_str) []
      in if \<not> prefix ''blob://'' key
         then ''Error: invalid blob key '' @ in_quotes key @ '', expected format blob://source/topic/hash''
         else case store of
             None \<Rightarrow> ''Error: blob storage not configured for this agent''
           | Some rows \<Rightarrow>
               (case blob_get key rows of
                  Inr b \<Rightarrow> sb_payload b
                | Inl _ \<Rightarrow> ''Error: blob '' @ in_quotes key @ '' not found''))"

section \<open>The provider of the events layer\<close>

record blob_env =
  be_bpe :: bpe
  be_print :: "json \<Rightarrow> string"
  be_pretty :: "json \<Rightarrow> string"
  be_hash :: "string \<Rightarrow> string"
  be_fails :: "blob_table \<Rightarrow> stored_blob \<Rightarrow> string option"
  be_now :: string

definition INLINE_THRESHOLD :: u32 where "INLINE_THRESHOLD = 500"

definition format_inline :: "blob_env \<Rightarrow> context_event \<Rightarrow> string" where
  "format_inline env e = ''[topic: '' @ ev_topic e @ ''] '' @ be_pretty env (ev_payload e)"

definition format_ref :: "stored_blob \<Rightarrow> string" where
  "format_ref b = ''[topic: '' @ sb_topic b @ ''] '' @ sb_key b @ '' | '' @ show_nat (unat (sb_size b)) @ ''B''"

definition generate_key :: "blob_env \<Rightarrow> string \<Rightarrow> string \<Rightarrow> json \<Rightarrow> string" where
  "generate_key env source topic payload =
     ''blob://'' @ source @ ''/'' @ topic @ ''/'' @ be_hash env (be_print env payload)"

definition event_blob :: "blob_env \<Rightarrow> string \<Rightarrow> context_event \<Rightarrow> stored_blob" where
  "event_blob env source e =
     (let payload = be_pretty env (ev_payload e)
      in \<lparr>sb_key = generate_key env source (ev_topic e) (ev_payload e), sb_source = ev_source e, sb_topic = ev_topic e,
          sb_mime = ''application/json'', sb_size = of_nat (length payload), sb_payload = payload, sb_summary = []\<rparr>)"

text \<open>One event after the other: the parts shown in full, the references, and the table so far.\<close>

fun sort_events ::
  "blob_env \<Rightarrow> string \<Rightarrow> context_event list \<Rightarrow> string list \<times> string list \<times> blob_table option \<Rightarrow> string list \<times> string list \<times> blob_table option" where
  "sort_events env source [] acc = acc"
| "sort_events env source (e # es) (inline, refs, store) =
     (if estimate_text (be_bpe env) (be_print env (ev_payload e)) \<le> INLINE_THRESHOLD then
        sort_events env source es (inline @ [format_inline env e], refs, store)
      else
        (case store of
           None \<Rightarrow> sort_events env source es (inline, refs, store)
         | Some rows \<Rightarrow>
             (case blob_insert (be_fails env) (be_now env) (event_blob env source e) rows of
                (rows1, Inr _) \<Rightarrow> sort_events env source es (inline, refs @ [format_ref (event_blob env source e)], Some rows1)
              | (rows1, Inl _) \<Rightarrow> sort_events env source es (inline, refs, Some rows1))))"

definition events_produce ::
  "blob_env \<Rightarrow> string \<Rightarrow> context_event list \<Rightarrow> blob_table option \<Rightarrow> prompt_section option \<times> blob_table option" where
  "events_produce env source events store =
     (if events = [] then (None, store)
      else
        let (inline, refs, store1) = sort_events env source events ([], [], store)
        in if inline = [] \<and> refs = [] then (None, store1)
           else let content = str_join [newline] (inline @ refs)
                in (Some \<lparr>ps_content = content, ps_layer = LEvents, ps_priority = 5,
                      ps_tokens = estimate_text (be_bpe env) content\<rparr>, store1))"

section \<open>Properties\<close>

lemma blob_roundtrip_raw:
  assumes "blob_insert fails now b rows = (rows1, Inr u)"
  shows "blob_get (sb_key b) rows1 = Inr b" and "key \<noteq> sb_key b \<Longrightarrow> blob_get key rows1 = blob_get key rows"
proof -
  let ?r = "\<lparr>bw_key = sb_key b, bw_source = sb_source b, bw_topic = sb_topic b, bw_mime = sb_mime b, bw_size = sint (sb_size b),
    bw_payload = sb_payload b, bw_summary = sb_summary b, bw_created_at = now\<rparr>"
  have rows1: "rows1 = filter (\<lambda>r. bw_key r \<noteq> sb_key b) rows @ [?r]"
    using assms by (auto simp: blob_insert_def split: option.splits)
  have "row_blob ?r = b" by (simp add: row_blob_def)
  moreover have "find (\<lambda>r. bw_key r = sb_key b) rows1 = Some ?r"
    unfolding rows1 by (induction rows) auto
  ultimately show "blob_get (sb_key b) rows1 = Inr b" by (simp add: blob_get_def)
  show "blob_get key rows1 = blob_get key rows" if "key \<noteq> sb_key b"
  proof -
    have "find (\<lambda>r. bw_key r = key) (filter (\<lambda>r. bw_key r \<noteq> sb_key b) rows @ [?r]) = find (\<lambda>r. bw_key r = key) rows"
      using that by (induction rows) auto
    then show ?thesis by (simp add: blob_get_def rows1)
  qed
qed

text \<open>
  A blob that is stored is read back as it was, a size beyond the signed integers of the table included, and
  no blob under another key changes.
\<close>

theorem blob_roundtrip:
  assumes "blob_insert fails now b rows = (rows1, Inr u)"
  shows "blob_get (sb_key b) rows1 = Inr b" and "key \<noteq> sb_key b \<Longrightarrow> blob_get key rows1 = blob_get key rows"
  using blob_roundtrip_raw [OF assms] by simp_all

definition is_small :: "blob_env \<Rightarrow> context_event \<Rightarrow> bool" where
  "is_small env e \<longleftrightarrow> estimate_text (be_bpe env) (be_print env (ev_payload e)) \<le> INLINE_THRESHOLD"

lemma blob_insert_ok: "fails rows b = None \<Longrightarrow> \<exists>rows1. blob_insert fails now b rows = (rows1, Inr ())"
  by (simp add: blob_insert_def)

definition keys_tell :: "blob_env \<Rightarrow> string \<Rightarrow> context_event list \<Rightarrow> bool" where
  "keys_tell env source es \<longleftrightarrow>
     (\<forall>e \<in> set es. \<forall>f \<in> set es. sb_key (event_blob env source e) = sb_key (event_blob env source f) \<longrightarrow>
        event_blob env source e = event_blob env source f)"

lemma sort_large:
  assumes "\<And>rows b. be_fails env rows b = None" and "\<not> is_small env e"
  obtains rows1 where "blob_insert (be_fails env) (be_now env) (event_blob env source e) rows = (rows1, Inr ())"
    and "sort_events env source (e # es) (inline, refs, Some rows) =
      sort_events env source es (inline, refs @ [format_ref (event_blob env source e)], Some rows1)"
proof -
  obtain rows1 where "blob_insert (be_fails env) (be_now env) (event_blob env source e) rows = (rows1, Inr ())"
    using blob_insert_ok [of "be_fails env" rows "event_blob env source e" "be_now env"] assms(1) by auto
  moreover from this assms(2) have "sort_events env source (e # es) (inline, refs, Some rows) =
      sort_events env source es (inline, refs @ [format_ref (event_blob env source e)], Some rows1)"
    by (simp add: is_small_def)
  ultimately show thesis by (rule that)
qed

lemma sort_small:
  "is_small env e \<Longrightarrow> sort_events env source (e # es) (inline, refs, store) =
    sort_events env source es (inline @ [format_inline env e], refs, store)"
  by (simp add: is_small_def)

declare sort_events.simps(2) [simp del]

lemma sort_events_parts:
  assumes "\<And>rows b. be_fails env rows b = None"
  shows "\<exists>rows1. sort_events env source es (inline, refs, Some rows) =
    (inline @ map (format_inline env) (filter (is_small env) es),
     refs @ map (\<lambda>e. format_ref (event_blob env source e)) (filter (\<lambda>e. \<not> is_small env e) es), Some rows1)"
proof (induction es arbitrary: inline refs rows)
  case (Cons e es)
  show ?case
  proof (cases "is_small env e")
    case True
    then show ?thesis using Cons [of "inline @ [format_inline env e]" refs rows] by (simp add: sort_small)
  next
    case False
    obtain rows1 where "sort_events env source (e # es) (inline, refs, Some rows) =
        sort_events env source es (inline, refs @ [format_ref (event_blob env source e)], Some rows1)"
      using sort_large [OF assms False] by metis
    then show ?thesis using Cons [of inline "refs @ [format_ref (event_blob env source e)]" rows1] False by simp
  qed
qed simp

lemma sort_events_keep:
  assumes "\<And>rows b. be_fails env rows b = None" and "blob_get (sb_key b) rows = Inr b"
    and "\<forall>f \<in> set es. sb_key (event_blob env source f) = sb_key b \<longrightarrow> event_blob env source f = b"
    and "sort_events env source es (inline, refs, Some rows) = (inline1, refs1, Some rows1)"
  shows "blob_get (sb_key b) rows1 = Inr b"
  using assms(2-4)
proof (induction es arbitrary: inline refs rows)
  case (Cons e es)
  show ?case
  proof (cases "is_small env e")
    case True
    then show ?thesis
      using Cons.IH [OF Cons.prems(1), of "inline @ [format_inline env e]" refs] Cons.prems(2,3) by (simp add: sort_small)
  next
    case False
    obtain rows2 where rows2: "blob_insert (be_fails env) (be_now env) (event_blob env source e) rows = (rows2, Inr ())"
      "sort_events env source (e # es) (inline, refs, Some rows) =
        sort_events env source es (inline, refs @ [format_ref (event_blob env source e)], Some rows2)"
      using sort_large [OF assms(1) False] by metis
    have "blob_get (sb_key b) rows2 = Inr b"
      using blob_roundtrip_raw [OF rows2(1)] Cons.prems(1,2) by (cases "sb_key (event_blob env source e) = sb_key b") auto
    then show ?thesis using Cons.IH [of rows2] Cons.prems(2,3) rows2(2) by auto
  qed
qed simp

lemma sort_events_store:
  assumes "\<And>rows b. be_fails env rows b = None" and "keys_tell env source es" and "e \<in> set es" and "\<not> is_small env e"
    and "sort_events env source es (inline, refs, Some rows) = (inline1, refs1, Some rows1)"
  shows "blob_get (sb_key (event_blob env source e)) rows1 = Inr (event_blob env source e)"
  using assms(2-5)
proof (induction es arbitrary: inline refs rows)
  case (Cons f es)
  have apart: "keys_tell env source es" using Cons.prems(1) by (auto simp: keys_tell_def)
  show ?case
  proof (cases "is_small env f")
    case True
    then have "e \<in> set es" using Cons.prems(2,3) by auto
    then show ?thesis using Cons.IH [OF apart _ Cons.prems(3)] Cons.prems(4) sort_small [OF True] by metis
  next
    case False
    obtain rows2 where rows2: "blob_insert (be_fails env) (be_now env) (event_blob env source f) rows = (rows2, Inr ())"
      "sort_events env source (f # es) (inline, refs, Some rows) =
        sort_events env source es (inline, refs @ [format_ref (event_blob env source f)], Some rows2)"
      using sort_large [OF assms(1) False] by metis
    show ?thesis
    proof (cases "e \<in> set es")
      case True
      then show ?thesis using Cons.IH [OF apart _ Cons.prems(3)] Cons.prems(4) rows2(2) by metis
    next
      case False
      then have "e = f" using Cons.prems(2) by simp
      moreover have "\<forall>g \<in> set es. sb_key (event_blob env source g) = sb_key (event_blob env source f) \<longrightarrow>
          event_blob env source g = event_blob env source f"
        using Cons.prems(1) by (auto simp: keys_tell_def)
      moreover have "sort_events env source es (inline, refs @ [format_ref (event_blob env source f)], Some rows2) =
          (inline1, refs1, Some rows1)"
        using Cons.prems(4) rows2(2) by simp
      ultimately show ?thesis using sort_events_keep [OF assms(1) blob_roundtrip_raw(1) [OF rows2(1)]] by blast
    qed
  qed
qed simp

lemma events_kept:
  assumes "\<And>rows b. be_fails env rows b = None" and "keys_tell env source events" and "events \<noteq> []"
    and "events_produce env source events (Some rows) = (shown, Some rows1)"
  shows "\<exists>s. shown = Some s \<and> ps_content s = str_join [newline] (map (format_inline env) (filter (is_small env) events)
      @ map (\<lambda>e. format_ref (event_blob env source e)) (filter (\<lambda>e. \<not> is_small env e) events))"
    and "e \<in> set events \<Longrightarrow> \<not> is_small env e \<Longrightarrow>
      blob_get (sb_key (event_blob env source e)) rows1 = Inr (event_blob env source e)"
proof -
  obtain rows2 where sorted: "sort_events env source events ([], [], Some rows) =
      (map (format_inline env) (filter (is_small env) events),
       map (\<lambda>e. format_ref (event_blob env source e)) (filter (\<lambda>e. \<not> is_small env e) events), Some rows2)"
    using sort_events_parts [OF assms(1), of source events "[]" "[]" rows] by auto
  have some: "filter (is_small env) events \<noteq> [] \<or> filter (\<lambda>e. \<not> is_small env e) events \<noteq> []"
    using assms(3) by (cases events) auto
  have produced: "shown = Some \<lparr>ps_content = str_join [newline] (map (format_inline env) (filter (is_small env) events)
      @ map (\<lambda>e. format_ref (event_blob env source e)) (filter (\<lambda>e. \<not> is_small env e) events)), ps_layer = LEvents, ps_priority = 5,
      ps_tokens = estimate_text (be_bpe env) (str_join [newline] (map (format_inline env) (filter (is_small env) events)
      @ map (\<lambda>e. format_ref (event_blob env source e)) (filter (\<lambda>e. \<not> is_small env e) events)))\<rparr> \<and> rows2 = rows1"
    using assms(3,4) sorted some by (auto simp: events_produce_def Let_def split: if_splits)
  then show "\<exists>s. shown = Some s \<and> ps_content s = str_join [newline] (map (format_inline env) (filter (is_small env) events)
      @ map (\<lambda>e. format_ref (event_blob env source e)) (filter (\<lambda>e. \<not> is_small env e) events))" by auto
  show "blob_get (sb_key (event_blob env source e)) rows1 = Inr (event_blob env source e)"
    if "e \<in> set events" and "\<not> is_small env e"
    using sort_events_store [OF assms(1,2) that sorted] produced by simp
qed

lemma fetch_stored:
  assumes "blob_get (sb_key (event_blob env source e)) rows = Inr (event_blob env source e)"
  shows "tool_bus_fetch (JObj [(''key'', JStr (sb_key (event_blob env source e)))]) (Some rows) = be_pretty env (ev_payload e)"
proof -
  have "prefix ''blob://'' (sb_key (event_blob env source e))" by (simp add: event_blob_def generate_key_def Let_def)
  then show ?thesis using assms by (simp add: tool_bus_fetch_def) (simp add: event_blob_def Let_def)
qed


section \<open>Witnesses\<close>

definition demo_blob_env :: blob_env where
  "demo_blob_env =
     \<lparr>be_bpe = (\<lambda>_ s. length s), be_print = (\<lambda>v. case v of JStr s \<Rightarrow> s | _ \<Rightarrow> []), be_pretty = (\<lambda>v. case v of JStr s \<Rightarrow> s | _ \<Rightarrow> []),
      be_hash = (\<lambda>s. s), be_fails = (\<lambda>_ _. None), be_now = ''2026''\<rparr>"

definition demo_bus_event :: "nat \<Rightarrow> context_event" where
  "demo_bus_event n = \<lparr>ev_topic = ''t'', ev_source = ''s'', ev_payload = JStr (replicate n CHR ''a'')\<rparr>"

definition demo_blob :: stored_blob where
  "demo_blob =
     \<lparr>sb_key = ''k'', sb_source = ''s'', sb_topic = ''t'', sb_mime = ''application/json'', sb_size = 0xFFFFFFFFFFFFFFFF,
      sb_payload = ''p'', sb_summary = []\<rparr>"

theorem blob_roundtrip_witness:
  "\<exists>rows1. blob_insert (\<lambda>_ _. None) ''2026'' demo_blob [] = (rows1, Inr ()) \<and> blob_get ''k'' rows1 = Inr demo_blob"
proof -
  obtain rows1 where rows1: "blob_insert (\<lambda>_ _. None) ''2026'' demo_blob [] = (rows1, Inr ())"
    using blob_insert_ok [of "\<lambda>_ _. None"] by blast
  then show ?thesis using blob_roundtrip(1) [OF rows1] by (simp add: demo_blob_def)
qed


end
