(* ===== verification/Audit_Log.thy ===== *)
theory Audit_Log
  imports Json Rust_Num Rust_Str
begin

text \<open>
  \<open>agent/audit.rs\<close>: the append-only log of security events, its background writes and the rotation of its files.
  The directory maps names to the numbers of files, and a writer holds the number of its file, so a renamed file
  is still the one that is written to. Rotation runs without the lock of the writer, so its file operations are
  steps between which other tasks may log. What reaches the disk of a write that fails is a parameter.
\<close>

section \<open>Events\<close>

datatype audit_event =
  ToolExec string string string string string
| BehaviorSwitch string string string string
| HookDeny string string string string string string

definition pad3 :: "nat \<Rightarrow> string" where
  "pad3 n = replicate (3 - length (show_nat n)) CHR ''0'' @ show_nat n"

definition now_ts :: "nat \<Rightarrow> nat \<Rightarrow> string" where
  "now_ts secs millis = show_nat secs @ ''.'' @ pad3 millis"

definition tool_exec :: "nat \<Rightarrow> nat \<Rightarrow> string \<Rightarrow> string \<Rightarrow> string \<Rightarrow> string \<Rightarrow> audit_event" where
  "tool_exec secs millis tool command sandbox res = ToolExec (now_ts secs millis) tool command sandbox res"

definition behavior_switch :: "nat \<Rightarrow> nat \<Rightarrow> string \<Rightarrow> string \<Rightarrow> string \<Rightarrow> audit_event" where
  "behavior_switch secs millis old new trigger = BehaviorSwitch (now_ts secs millis) old new trigger"

definition hook_deny :: "nat \<Rightarrow> nat \<Rightarrow> string \<Rightarrow> string \<Rightarrow> string \<Rightarrow> string \<Rightarrow> string \<Rightarrow> audit_event" where
  "hook_deny secs millis hook tool command reason severity = HookDeny (now_ts secs millis) hook tool command reason severity"

fun audit_event_json :: "audit_event \<Rightarrow> json" where
  "audit_event_json (ToolExec ts tool command sandbox res) =
     JObj [(''event'', JStr ''tool_exec''), (''ts'', JStr ts), (''tool'', JStr tool), (''command'', JStr command),
       (''sandbox'', JStr sandbox), (''result'', JStr res)]"
| "audit_event_json (BehaviorSwitch ts old new trigger) =
     JObj [(''event'', JStr ''behavior_switch''), (''ts'', JStr ts), (''from'', JStr old), (''to'', JStr new),
       (''trigger'', JStr trigger)]"
| "audit_event_json (HookDeny ts hook tool command reason severity) =
     JObj [(''event'', JStr ''hook_deny''), (''ts'', JStr ts), (''hook'', JStr hook), (''tool'', JStr tool),
       (''command'', JStr command), (''reason'', JStr reason), (''severity'', JStr severity)]"

section \<open>The log and its files\<close>

datatype rotation_op = Rename string string | RemoveFile string | ResetWriter

record audit_log =
  al_max_size :: nat
  al_max_files :: nat
  al_writer :: "nat option"
  al_pending :: "(audit_event \<times> bool) list"
  al_rotating :: "rotation_op list"
  al_dir :: "string \<Rightarrow> nat option"
  al_files :: "string list"

definition audit_new :: "(string \<Rightarrow> nat option) \<Rightarrow> string list \<Rightarrow> audit_log" where
  "audit_new d files =
     \<lparr>al_max_size = 10 * 1024 * 1024, al_max_files = 5, al_writer = None, al_pending = [], al_rotating = [],
      al_dir = d, al_files = files\<rparr>"

definition current_name :: string where "current_name = ''audit.jsonl''"

definition backup_name :: "nat \<Rightarrow> string" where
  "backup_name i = ''audit.'' @ show_nat i @ ''.jsonl''"

text \<open>
  How a write goes: whether the file opens, how much of the line and whether the newline after it reach the file.
\<close>

record write_fate =
  wf_opens :: bool
  wf_line :: nat
  wf_newline :: bool

definition written_text :: "write_fate \<Rightarrow> string \<Rightarrow> string" where
  "written_text f line = take (wf_line f) line @ (if wf_newline f then [newline] else [])"

text \<open>Opening for appending creates the file when there is none.\<close>

definition open_writer :: "audit_log \<Rightarrow> audit_log \<times> nat" where
  "open_writer s =
     (case al_writer s of
        Some i \<Rightarrow> (s, i)
      | None \<Rightarrow>
          (case al_dir s current_name of
             Some i \<Rightarrow> (s\<lparr>al_writer := Some i\<rparr>, i)
           | None \<Rightarrow>
               (let i = length (al_files s)
                in (s\<lparr>al_writer := Some i, al_dir := (al_dir s)(current_name \<mapsto> i), al_files := al_files s @ [[]]\<rparr>, i))))"

definition audit_write :: "(json \<Rightarrow> string) \<Rightarrow> write_fate \<Rightarrow> audit_event \<Rightarrow> audit_log \<Rightarrow> audit_log" where
  "audit_write print f event s =
     (if al_writer s = None \<and> \<not> wf_opens f then s
      else
        let (s1, i) = open_writer s
        in s1\<lparr>al_files := (al_files s1)[i := al_files s1 ! i @ written_text f (print (audit_event_json event))]\<rparr>)"

text \<open>What a write leaves in the log.\<close>

definition audit_text :: "(json \<Rightarrow> string) \<Rightarrow> write_fate \<Rightarrow> audit_event \<Rightarrow> audit_log \<Rightarrow> string" where
  "audit_text print f event s =
     (if al_writer s = None \<and> \<not> wf_opens f then [] else written_text f (print (audit_event_json event)))"

definition log_sync :: "bool \<Rightarrow> audit_event \<Rightarrow> audit_log \<Rightarrow> audit_log" where
  "log_sync has_runtime event s = (if has_runtime then s\<lparr>al_pending := al_pending s @ [(event, False)]\<rparr> else s)"

definition run_pending :: "(json \<Rightarrow> string) \<Rightarrow> write_fate \<Rightarrow> nat \<Rightarrow> audit_log \<Rightarrow> audit_log" where
  "run_pending print f k s =
     (let s1 = audit_write print f (fst (al_pending s ! k)) s
      in s1\<lparr>al_pending := (al_pending s)[k := (fst (al_pending s ! k), True)]\<rparr>)"

definition reap_background_tasks :: "audit_log \<Rightarrow> audit_log" where
  "reap_background_tasks s = s\<lparr>al_pending := filter (\<lambda>(_, finished). \<not> finished) (al_pending s)\<rparr>"

section \<open>Rotation\<close>

definition rotation_plan :: "nat \<Rightarrow> rotation_op list" where
  "rotation_plan max_files =
     map (\<lambda>i. Rename (if i = 1 then current_name else backup_name (i - 1)) (backup_name i)) (rev [1..<max_files])
     @ [Rename current_name (backup_name 1), RemoveFile (backup_name max_files), ResetWriter]"

text \<open>The size check at the start; \<^const>\<open>None\<close> when there is nothing to rotate.\<close>

definition start_rotation :: "audit_log \<Rightarrow> audit_log option" where
  "start_rotation s =
     (case al_dir s current_name of
        None \<Rightarrow> None
      | Some i \<Rightarrow>
          if length (al_files s ! i) < al_max_size s then None
          else Some (s\<lparr>al_rotating := rotation_plan (al_max_files s)\<rparr>))"

fun exec_rotation :: "rotation_op \<Rightarrow> audit_log \<Rightarrow> audit_log" where
  "exec_rotation (Rename old new) s =
     (case al_dir s old of
        None \<Rightarrow> s
      | Some i \<Rightarrow> s\<lparr>al_dir := (al_dir s)(old := None, new \<mapsto> i)\<rparr>)"
| "exec_rotation (RemoveFile name) s = s\<lparr>al_dir := (al_dir s)(name := None)\<rparr>"
| "exec_rotation ResetWriter s = s\<lparr>al_writer := None\<rparr>"

definition rotation_next :: "audit_log \<Rightarrow> audit_log" where
  "rotation_next s =
     (case al_rotating s of [] \<Rightarrow> s | op # ops \<Rightarrow> exec_rotation op (s\<lparr>al_rotating := ops\<rparr>))"

definition rotate :: "audit_log \<Rightarrow> audit_log" where
  "rotate s =
     (case start_rotation s of
        None \<Rightarrow> s
      | Some s1 \<Rightarrow> (rotation_next ^^ length (al_rotating s1)) s1)"

text \<open>
  The steps of the tasks that share a log, with the text each adds. In a calm run no task opens the file while
  a rotation is under way.
\<close>

inductive audit_step :: "(json \<Rightarrow> string) \<Rightarrow> bool \<Rightarrow> audit_log \<Rightarrow> string \<Rightarrow> audit_log \<Rightarrow> bool" for print calm where
  put: "(calm \<Longrightarrow> al_writer s = None \<Longrightarrow> al_rotating s = []) \<Longrightarrow>
    audit_step print calm s (audit_text print f event s) (audit_write print f event s)"
| spawn: "audit_step print calm s [] (log_sync has_runtime event s)"
| background: "(calm \<Longrightarrow> al_writer s = None \<Longrightarrow> al_rotating s = []) \<Longrightarrow>
    k < length (al_pending s) \<Longrightarrow> \<not> snd (al_pending s ! k) \<Longrightarrow>
    audit_step print calm s (audit_text print f (fst (al_pending s ! k)) s) (run_pending print f k s)"
| reap: "audit_step print calm s [] (reap_background_tasks s)"
| start: "al_rotating s = [] \<Longrightarrow> start_rotation s = Some s1 \<Longrightarrow> audit_step print calm s [] s1"
| rotation: "al_rotating s \<noteq> [] \<Longrightarrow> audit_step print calm s [] (rotation_next s)"

inductive audit_run :: "(json \<Rightarrow> string) \<Rightarrow> bool \<Rightarrow> audit_log \<Rightarrow> string \<Rightarrow> audit_log \<Rightarrow> bool" for print calm where
  stop: "audit_run print calm s [] s"
| go: "audit_run print calm s text s1 \<Longrightarrow> audit_step print calm s1 added s2 \<Longrightarrow> audit_run print calm s (text @ added) s2"

section \<open>What the files hold\<close>

definition log_name :: "nat \<Rightarrow> string" where
  "log_name k = (if k = 0 then current_name else backup_name k)"

definition file_text :: "audit_log \<Rightarrow> nat \<Rightarrow> string" where
  "file_text s k = (case al_dir s (log_name k) of None \<Rightarrow> [] | Some i \<Rightarrow> al_files s ! i)"

text \<open>The whole log, oldest file first.\<close>

definition history :: "audit_log \<Rightarrow> string" where
  "history s = concat (map (file_text s) [4, 3, 2, 1, 0])"

definition files_ok :: "audit_log \<Rightarrow> bool" where
  "files_ok s \<longleftrightarrow>
     (\<forall>a i. al_dir s a = Some i \<longrightarrow> i < length (al_files s)) \<and>
     (\<forall>a b i. al_dir s a = Some i \<longrightarrow> al_dir s b = Some i \<longrightarrow> a = b)"


lemma slot_names:
  "current_name = ''audit.jsonl''" "backup_name 1 = ''audit.1.jsonl''" "backup_name 2 = ''audit.2.jsonl''"
  "backup_name 3 = ''audit.3.jsonl''" "backup_name 4 = ''audit.4.jsonl''" "backup_name 5 = ''audit.5.jsonl''"
  by code_simp+

lemma log_names [simp]:
  "log_name 0 = ''audit.jsonl''" "log_name (Suc 0) = ''audit.1.jsonl''" "log_name 1 = ''audit.1.jsonl''"
  "log_name (Suc (Suc 0)) = ''audit.2.jsonl''" "log_name 2 = ''audit.2.jsonl''"
  "log_name 3 = ''audit.3.jsonl''" "log_name 4 = ''audit.4.jsonl''"
  using slot_names by (simp_all add: log_name_def numeral_2_eq_2)

lemma plan_of_five:
  "rotation_plan 5 =
     [Rename (log_name 3) (log_name 4), Rename (log_name 2) (log_name 3), Rename (log_name 1) (log_name 2),
      Rename (log_name 0) (log_name 1), Rename (log_name 0) (log_name 1), RemoveFile ''audit.5.jsonl'', ResetWriter]"
  by code_simp

text \<open>
  How far a rotation has come: which name its last step has left free, and where the open file is by now. Once
  it is done the open file is the current one.
\<close>

definition slot :: "audit_log \<Rightarrow> nat \<Rightarrow> nat option" where
  "slot s k = al_dir s (log_name k)"

definition phase_ok :: "audit_log \<Rightarrow> nat \<Rightarrow> bool" where
  "phase_ok s n \<longleftrightarrow> n \<le> 7 \<and> al_rotating s = drop n (rotation_plan 5) \<and>
     (n \<in> {1, 2, 3} \<longrightarrow> slot s (4 - n) = None) \<and>
     (n \<in> {4, 5, 6} \<longrightarrow> slot s 0 = None) \<and>
     (\<forall>i. al_writer s = Some i \<longrightarrow> slot s (if n \<in> {4, 5, 6} then 1 else 0) = Some i)"

definition rotation_ok :: "audit_log \<Rightarrow> bool" where
  "rotation_ok s \<longleftrightarrow> files_ok s \<and> al_max_files s = 5 \<and> (\<exists>n. phase_ok s n)"

lemma slot_updates [simp]:
  "slot (s\<lparr>al_rotating := ops\<rparr>) k = slot s k" "slot (s\<lparr>al_files := fs\<rparr>) k = slot s k" "slot (s\<lparr>al_writer := w\<rparr>) k = slot s k"
  by (simp_all add: slot_def)

lemma history_slots: "history s = file_text s 4 @ file_text s 3 @ file_text s 2 @ file_text s 1 @ file_text s 0"
  by (simp add: history_def)

lemma file_text_slot: "file_text s k = (case slot s k of None \<Rightarrow> [] | Some i \<Rightarrow> al_files s ! i)"
  by (simp add: file_text_def slot_def)

lemma rotation_done: "phase_ok s n \<Longrightarrow> al_rotating s = [] \<longleftrightarrow> n = 7"
  by (auto simp: phase_ok_def plan_of_five)

lemma phase_files: "phase_ok (s\<lparr>al_files := fs\<rparr>) n = phase_ok s n"
  by (simp add: phase_ok_def slot_def)

text \<open>Appending to the open file appends to the log.\<close>

lemma append_history:
  assumes ok: "rotation_ok s" and w: "al_writer s = Some i"
  shows "rotation_ok (s\<lparr>al_files := (al_files s)[i := al_files s ! i @ t]\<rparr>)"
    and "history (s\<lparr>al_files := (al_files s)[i := al_files s ! i @ t]\<rparr>) = history s @ t"
proof -
  let ?s = "s\<lparr>al_files := (al_files s)[i := al_files s ! i @ t]\<rparr>"
  obtain n where n: "phase_ok s n" and files: "files_ok s" "al_max_files s = 5" using ok by (auto simp: rotation_ok_def)
  then show "rotation_ok ?s" by (auto simp: rotation_ok_def files_ok_def phase_files)
  have same: "slot ?s k = slot s k" for k by (simp add: slot_def)
  obtain m where m: "slot s m = Some i" "m = 0 \<or> m = 1 \<and> slot s 0 = None"
    using n w by (cases "n \<in> {4, 5, 6}") (auto simp: phase_ok_def)
  have i: "i < length (al_files s)" using m(1) files(1) by (auto simp: files_ok_def slot_def)
  have other: "slot s k = Some i \<Longrightarrow> log_name k = log_name m" for k using m(1) files(1) by (auto simp: files_ok_def slot_def)
  have old: "file_text ?s k = file_text s k" if "log_name k \<noteq> log_name m" for k
    using other [of k] that i by (auto simp: file_text_slot same nth_list_update split: option.splits)
  have new: "file_text ?s m = file_text s m @ t" using m(1) i by (simp add: file_text_slot same)
  have "file_text s 0 = []" if "m = 1" using that m(2) by (simp add: file_text_slot)
  then show "history ?s = history s @ t"
    using m(2) old [of 4] old [of 3] old [of 2] old [of 1] old [of 0] new by (auto simp: history_slots)
qed

lemma open_writer_ok:
  assumes ok: "rotation_ok s" and calm: "al_writer s = None \<Longrightarrow> al_rotating s = []" and "open_writer s = (s1, i)"
  shows "rotation_ok s1 \<and> al_writer s1 = Some i \<and> history s1 = history s"
proof (cases "al_writer s")
  case (Some j)
  then show ?thesis using assms by (auto simp: open_writer_def)
next
  case None
  obtain n where n: "phase_ok s n" and files: "files_ok s" "al_max_files s = 5" using ok by (auto simp: rotation_ok_def)
  have rot: "al_rotating s = []" using calm None .
  then have "n = 7" using rotation_done [OF n] by simp
  show ?thesis
  proof (cases "al_dir s current_name")
    case (Some j)
    then have "s1 = s\<lparr>al_writer := Some j\<rparr>" "i = j" using assms(3) None by (auto simp: open_writer_def)
    moreover have "file_text (s\<lparr>al_writer := Some j\<rparr>) k = file_text s k" for k
      by (auto simp: file_text_def split: option.splits)
    ultimately show ?thesis
      using Some files rot by (auto simp: rotation_ok_def files_ok_def phase_ok_def slot_def history_def slot_names
        plan_of_five intro!: exI [of _ 7])
  next
    case fresh: None
    then have s1: "s1 = s\<lparr>al_writer := Some i, al_dir := (al_dir s)(current_name \<mapsto> i), al_files := al_files s @ [[]]\<rparr>"
      "i = length (al_files s)" using assms(3) None by (auto simp: open_writer_def Let_def)
    have "file_text s1 k = file_text s k" for k
      using fresh files(1) by (auto simp: s1 file_text_def files_ok_def nth_append split: option.splits)
    then have "history s1 = history s" by (simp add: history_def)
    moreover have "files_ok s1" using files(1) by (fastforce simp: s1 files_ok_def split: if_splits)
    moreover have "phase_ok s1 7" using rot by (simp add: s1 phase_ok_def slot_def slot_names plan_of_five)
    ultimately show ?thesis using files(2) by (auto simp: s1 rotation_ok_def)
  qed
qed

lemma audit_write_ok:
  assumes "rotation_ok s" and "al_writer s = None \<Longrightarrow> al_rotating s = []"
  shows "rotation_ok (audit_write print f event s) \<and>
    history (audit_write print f event s) = history s @ audit_text print f event s"
proof (cases "al_writer s = None \<and> \<not> wf_opens f")
  case True
  then show ?thesis using assms(1) by (simp add: audit_write_def audit_text_def)
next
  case False
  obtain s1 i where s1: "open_writer s = (s1, i)" by fastforce
  then show ?thesis
    using open_writer_ok [OF assms s1] append_history [of s1 i] False
    by (auto simp: audit_write_def audit_text_def)
qed

text \<open>Renaming a file to the next name, which is free or the last, moves it and keeps the order.\<close>

lemma rename_slots:
  assumes "files_ok s" and "a = log_name k" and "b = log_name (Suc k)" and "k < 4"
  shows "files_ok (exec_rotation (Rename a b) s)"
    and "slot (exec_rotation (Rename a b) s) j =
      (if slot s k = None then slot s j else if log_name j = b then slot s k else if log_name j = a then None else slot s j)"
    and "al_files (exec_rotation (Rename a b) s) = al_files s" "al_writer (exec_rotation (Rename a b) s) = al_writer s"
    and "al_max_files (exec_rotation (Rename a b) s) = al_max_files s" "al_rotating (exec_rotation (Rename a b) s) = al_rotating s"
  using assms by (auto simp: files_ok_def slot_def split: option.splits if_splits)

lemma phase_cases:
  assumes "phase_ok s n" and "n < 7"
  obtains (rename) k where "k < 4" "n = 3 - k" "al_rotating s = Rename (log_name k) (log_name (Suc k)) # drop (Suc n) (rotation_plan 5)"
    | (again) "n = 4" "al_rotating s = Rename (log_name 0) (log_name 1) # drop 5 (rotation_plan 5)" "al_dir s (log_name 0) = None"
    | (excess) "n = 5" "al_rotating s = RemoveFile ''audit.5.jsonl'' # drop 6 (rotation_plan 5)"
    | (reset) "n = 6" "al_rotating s = [ResetWriter]"
proof -
  have rot: "al_rotating s = drop n (rotation_plan 5)" and zero: "n \<in> {4, 5, 6} \<longrightarrow> al_dir s (log_name 0) = None"
    using assms(1) by (auto simp: phase_ok_def slot_def)
  consider "n = 0" | "n = 1" | "n = 2" | "n = 3" | "n = 4" | "n = 5" | "n = 6" using assms(2) by linarith
  then show thesis
  proof cases
    case 1 with rot show ?thesis by (intro rename [of 3]) (simp_all add: plan_of_five)
  next
    case 2 with rot show ?thesis by (intro rename [of 2]) (simp_all add: plan_of_five)
  next
    case 3 with rot show ?thesis by (intro rename [of 1]) (simp_all add: plan_of_five numeral_2_eq_2)
  next
    case 4 with rot show ?thesis by (intro rename [of 0]) (simp_all add: plan_of_five)
  next
    case 5 with rot zero show ?thesis by (intro again) (simp_all add: plan_of_five)
  next
    case 6 with rot show ?thesis by (intro excess) (simp_all add: plan_of_five)
  next
    case 7 with rot show ?thesis by (intro reset) (simp_all add: plan_of_five)
  qed
qed

lemma history_cong:
  "(\<And>j. j \<le> 4 \<Longrightarrow> slot s j = slot s1 j) \<Longrightarrow> al_files s = al_files s1 \<Longrightarrow> history s = history s1"
  by (simp add: history_slots file_text_slot cong: option.case_cong)

lemma log_name_inj: "j \<le> 4 \<Longrightarrow> k \<le> 4 \<Longrightarrow> log_name j = log_name k \<longleftrightarrow> j = k"
proof -
  assume "j \<le> 4" and "k \<le> 4"
  then have "j \<in> {0, 1, 2, 3, 4}" and "k \<in> {0, 1, 2, 3, 4}" by auto
  then show ?thesis by (elim insertE emptyE) simp_all
qed

lemma renamed_history:
  assumes "files_ok s" and "k < 4" and "k = 3 \<or> slot s (Suc k) = None"
    and "s1 = exec_rotation (Rename (log_name k) (log_name (Suc k))) s"
  shows "\<exists>old. old @ history s1 = history s"
proof -
  note moved = rename_slots [OF assms(1) refl refl assms(2), folded assms(4)]
  have content: "file_text s1 j =
      (if slot s k = None then file_text s j else if j = Suc k then file_text s k else if j = k then [] else file_text s j)"
    if "j \<le> 4" for j
    using moved(2) [of j] moved(3) log_name_inj that assms(2) by (auto simp: file_text_slot split: option.splits)
  have free: "slot s (Suc k) = None \<Longrightarrow> file_text s (Suc k) = []" by (simp add: file_text_slot)
  consider "k = 0" | "k = 1" | "k = 2" | "k = 3" using assms(2) by linarith
  then show ?thesis
    by cases (use free assms(3) in \<open>simp_all add: history_slots content numeral_2_eq_2 [symmetric] split: if_splits\<close>)
qed

lemma phase_low:
  assumes "k < 4"
  shows "phase_ok s (3 - k) \<longleftrightarrow> al_rotating s = drop (3 - k) (rotation_plan 5) \<and> (k < 3 \<longrightarrow> slot s (Suc k) = None) \<and>
    (\<forall>i. al_writer s = Some i \<longrightarrow> slot s 0 = Some i)"
proof -
  consider "k = 0" | "k = 1" | "k = 2" | "k = 3" using assms by linarith
  then show ?thesis by cases (simp_all add: phase_ok_def numeral_2_eq_2 numeral_3_eq_3)
qed

lemma phase_high:
  assumes "n \<in> {4, 5, 6}"
  shows "phase_ok s n \<longleftrightarrow> al_rotating s = drop n (rotation_plan 5) \<and> slot s 0 = None \<and>
    (\<forall>i. al_writer s = Some i \<longrightarrow> slot s 1 = Some i)"
  using assms by (auto simp: phase_ok_def)

lemma rotation_next_ok:
  assumes "rotation_ok s" and "al_rotating s \<noteq> []"
  shows "rotation_ok (rotation_next s) \<and> (\<exists>old. old @ history (rotation_next s) = history s)"
proof -
  obtain n where n: "phase_ok s n" and files: "files_ok s" "al_max_files s = 5" using assms(1) by (auto simp: rotation_ok_def)
  have "n < 7" using n assms(2) rotation_done [OF n] by (simp add: phase_ok_def)
  let ?s = "s\<lparr>al_rotating := drop (Suc n) (rotation_plan 5)\<rparr>"
  have same: "slot ?s j = slot s j" "history ?s = history s" "files_ok ?s" for j
    using files(1) by (auto simp: slot_def history_def file_text_def files_ok_def split: option.splits)
  from n \<open>n < 7\<close> show ?thesis
  proof (cases rule: phase_cases)
    case (rename k)
    define u where "u = exec_rotation (Rename (log_name k) (log_name (Suc k))) ?s"
    have t: "rotation_next s = u" using rename(3) by (simp add: rotation_next_def u_def)
    note moved = rename_slots [OF same(3) refl refl rename(1), folded u_def]
    have low: "k < 3 \<longrightarrow> slot s (Suc k) = None" and writer: "al_writer s = Some i \<Longrightarrow> slot s 0 = Some i" for i
      using n phase_low [OF rename(1), of s] rename(2) by auto
    have free: "slot u k = None" using moved(2) [of k] log_name_inj [of k "Suc k"] rename(1) by (auto simp: same)
    have place: "al_writer s = Some i \<Longrightarrow> slot u (if k = 0 then 1 else 0) = Some i" for i
      using writer [of i] moved(2) [of "if k = 0 then 1 else 0"] log_name_inj [of 0 k] log_name_inj [of 0 "Suc k"] rename(1)
      by (cases "k = 0") (simp_all add: same)
    have "phase_ok u (Suc n)"
    proof (cases k)
      case 0
      then show ?thesis using phase_high [of 4 u] free place moved(4,6) rename(2) by simp
    next
      case (Suc j)
      then have "Suc n = 3 - j" using rename(1,2) by simp
      then show ?thesis using phase_low [of j u] free place moved(4,6) rename(1) Suc by simp
    qed
    moreover have "k = 3 \<or> slot ?s (Suc k) = None" using low rename(1) same by auto
    ultimately show ?thesis
      using moved(1,5) files(2) renamed_history [OF same(3) rename(1) _ u_def] same(2) by (auto simp: rotation_ok_def t)
  next
    case again
    then have t: "rotation_next s = ?s" by (simp add: rotation_next_def)
    have "phase_ok ?s 5" using n again phase_high [of 4 s] phase_high [of 5 ?s] by simp
    then show ?thesis using same files by (auto simp: rotation_ok_def t)
  next
    case excess
    let ?t = "exec_rotation (RemoveFile ''audit.5.jsonl'') ?s"
    have t: "rotation_next s = ?t" using excess by (simp add: rotation_next_def)
    have slots: "slot ?t j = slot s j" if "j \<le> 4" for j
    proof -
      have "j \<in> {0, 1, 2, 3, 4}" using that by auto
      then have "log_name j \<noteq> ''audit.5.jsonl''" by (elim insertE emptyE) simp_all
      then show ?thesis by (simp add: slot_def)
    qed
    then have "history ?t = history s" by (intro history_cong) simp_all
    moreover have "phase_ok ?t 6" using n excess slots by (auto simp: phase_ok_def)
    moreover have "files_ok ?t" using files(1) by (auto simp: files_ok_def)
    ultimately show ?thesis using files(2) by (auto simp: rotation_ok_def t)
  next
    case reset
    then have t: "rotation_next s = s\<lparr>al_rotating := [], al_writer := None\<rparr>" by (simp add: rotation_next_def)
    then have "history (rotation_next s) = history s" "files_ok (rotation_next s)" "phase_ok (rotation_next s) 7"
      using files(1) by (auto simp: t history_def file_text_def files_ok_def phase_ok_def plan_of_five split: option.splits)
    then show ?thesis using files(2) by (auto simp: rotation_ok_def t)
  qed
qed

lemma start_rotation_ok:
  assumes "rotation_ok s" and "al_rotating s = []" and "start_rotation s = Some s1"
  shows "rotation_ok s1 \<and> history s1 = history s"
proof -
  obtain n where n: "phase_ok s n" and files: "files_ok s" "al_max_files s = 5" using assms(1) by (auto simp: rotation_ok_def)
  have "n = 7" using rotation_done [OF n] assms(2) by simp
  have s1: "s1 = s\<lparr>al_rotating := rotation_plan 5\<rparr>"
    using assms(3) files(2) by (auto simp: start_rotation_def split: option.splits if_splits)
  have "phase_ok s1 0" using n \<open>n = 7\<close> by (auto simp: s1 phase_ok_def slot_def)
  then show ?thesis using files by (auto simp: s1 rotation_ok_def files_ok_def history_def file_text_def split: option.splits)
qed

lemma pending_ok:
  assumes "rotation_ok s" shows "rotation_ok (s\<lparr>al_pending := p\<rparr>) \<and> history (s\<lparr>al_pending := p\<rparr>) = history s"
  using assms by (auto simp: rotation_ok_def phase_ok_def slot_def files_ok_def history_def file_text_def split: option.splits)

lemma audit_step_ok:
  assumes "audit_step print True s added s1" and "rotation_ok s"
  shows "rotation_ok s1 \<and> (\<exists>old. old @ history s1 = history s @ added)"
  using assms
proof cases
  case (put f event)
  then show ?thesis using audit_write_ok [OF assms(2)] by auto
next
  case (spawn has_runtime event)
  then show ?thesis using pending_ok [OF assms(2)] assms(2) by (auto simp: log_sync_def)
next
  case (background k f)
  then show ?thesis
    using audit_write_ok [OF assms(2), of print f "fst (al_pending s ! k)"] pending_ok by (auto simp: run_pending_def Let_def)
next
  case reap
  then show ?thesis using pending_ok [OF assms(2)] by (auto simp: reap_background_tasks_def)
next
  case start
  then show ?thesis using start_rotation_ok assms(2) by auto
next
  case rotation
  then show ?thesis using rotation_next_ok assms(2) by auto
qed

lemma audit_new_ok:
  "files_ok (audit_new d files) \<Longrightarrow> rotation_ok (audit_new d files)"
  by (auto simp: rotation_ok_def audit_new_def phase_ok_def plan_of_five intro!: exI [of _ 7])

lemma audit_run_ok:
  assumes "audit_run print True s added s1" and "rotation_ok s"
  shows "rotation_ok s1 \<and> suffix (history s1) (history s @ added)"
  using assms
proof (induction rule: audit_run.induct)
  case (go s added s1 more s2)
  then obtain old where "old @ history s2 = history s1 @ more" "rotation_ok s2" using audit_step_ok by blast
  moreover obtain pre where "history s @ added = pre @ history s1" using go by (auto simp: suffix_def)
  ultimately have "history s @ added @ more = (pre @ old) @ history s2" by (metis append.assoc)
  then show ?case using \<open>rotation_ok s2\<close> unfolding suffix_def by blast
qed simp


lemma rotation_next_Cons:
  "rotation_next (s\<lparr>al_rotating := op # ops\<rparr>) = (exec_rotation op s)\<lparr>al_rotating := ops\<rparr>"
  by (cases op) (auto simp: rotation_next_def split: option.splits)

lemma rotation_run:
  "length (al_rotating s) \<ge> n \<Longrightarrow> audit_run print calm s [] ((rotation_next ^^ n) s)"
proof (induction n)
  case 0
  then show ?case by (simp add: audit_run.stop)
next
  case (Suc n)
  have len: "length (al_rotating ((rotation_next ^^ n) s)) = length (al_rotating s) - n" for n
  proof (induction n)
    case (Suc n)
    have "length (al_rotating (rotation_next x)) = length (al_rotating x) - 1" for x
    proof (cases "al_rotating x")
      case (Cons op ops)
      then show ?thesis by (cases op) (auto simp: rotation_next_def split: option.splits)
    qed (simp add: rotation_next_def)
    then show ?case using Suc by simp
  qed simp
  have "al_rotating ((rotation_next ^^ n) s) \<noteq> []" using len [of n] Suc.prems by auto
  then show ?case using audit_run.go [OF Suc.IH audit_step.rotation, simplified] Suc.prems by simp
qed

lemma audit_run_trans: "audit_run print calm s1 b s2 \<Longrightarrow> audit_run print calm s a s1 \<Longrightarrow> audit_run print calm s (a @ b) s2"
proof (induction rule: audit_run.induct)
  case (go s1 b s2 added s3)
  then show ?case using audit_run.go [of print calm s "a @ b" s2 added s3] by simp
qed simp

text \<open>
  That exception loses a file. The rotation renames the current file a second time after its loop; when a task
  has opened a new one in between, the newest backup is overwritten by it, and all that is left of it is the new
  line.
\<close>

theorem rotation_race_loses_a_file:
  assumes "files_ok s" and "al_writer s = None" and "slot s 0 = Some i" and "wf_opens f" and "al_rotating s = []"
    and "al_max_files s = 5" and "start_rotation s = Some s1" and "s2 = (rotation_next ^^ 4) s1"
    and "s3 = audit_write print f event s2" and "s4 = (rotation_next ^^ 3) s3"
  shows "audit_run print False s (audit_text print f event s2) s4"
    and "file_text s4 1 = written_text f (print (audit_event_json event))" and "\<forall>name. al_dir s4 name \<noteq> Some i"
proof -
  have s1: "s1 = s\<lparr>al_rotating := rotation_plan 5\<rparr>"
    using assms(6,7) by (auto simp: start_rotation_def split: option.splits if_splits)
  define u1 where "u1 = exec_rotation (Rename (log_name 3) (log_name (Suc 3))) s"
  define u2 where "u2 = exec_rotation (Rename (log_name 2) (log_name (Suc 2))) u1"
  define u3 where "u3 = exec_rotation (Rename (log_name 1) (log_name (Suc 1))) u2"
  define u4 where "u4 = exec_rotation (Rename (log_name 0) (log_name (Suc 0))) u3"
  note m1 = rename_slots [OF assms(1) refl refl, of 3, folded u1_def, simplified]
  note m2 = rename_slots [OF m1(1) refl refl, of 2, folded u2_def, simplified]
  note m3 = rename_slots [OF m2(1) refl refl, of 1, folded u3_def, simplified]
  note m4 = rename_slots [OF m3(1) refl refl, of 0, folded u4_def, simplified]
  have "slot u3 0 = Some i" using m3(2) [of 0] m2(2) [of 0] m1(2) [of 0] assms(3) by simp
  then have u4: "slot u4 0 = None" "slot u4 1 = Some i" "files_ok u4" "al_writer u4 = None" "al_files u4 = al_files s"
    using m4(2) [of 0] m4(2) [of 1] m4(1,3,4) m3(3,4) m2(3,4) m1(3,4) assms(2) by simp_all
  let ?new = "written_text f (print (audit_event_json event))" and ?j = "length (al_files s)"
  let ?rest = "[Rename (log_name 0) (log_name 1), RemoveFile ''audit.5.jsonl'', ResetWriter]"
  have repeat: "(f ^^ 4) x = f (f (f (f x)))" "(f ^^ 3) x = f (f (f x))" for f :: "'b \<Rightarrow> 'b" and x
    by (simp_all add: numeral_eq_Suc)
  have suc: "Suc 3 = 4" "Suc 2 = 3" "Suc 1 = 2" "Suc 0 = 1" by simp_all
  have s2: "s2 = u4\<lparr>al_rotating := ?rest\<rparr>"
    unfolding assms(8) s1 repeat plan_of_five rotation_next_Cons u1_def u2_def u3_def u4_def suc ..
  have s3: "s3 = u4\<lparr>al_writer := Some ?j, al_dir := (al_dir u4)(log_name 0 \<mapsto> ?j), al_files := al_files s @ [?new],
      al_rotating := ?rest\<rparr>"
    using u4(1,4,5) assms(4) by (simp add: assms(9) s2 audit_write_def open_writer_def slot_def slot_names Let_def)
  have s4: "al_dir s4 = (al_dir u4)(log_name 0 := None, log_name 1 \<mapsto> ?j, ''audit.5.jsonl'' := None)"
    "al_files s4 = al_files s @ [?new]"
    by (simp_all add: assms(10) s3 repeat rotation_next_Cons)
  show "file_text s4 1 = ?new" by (simp add: file_text_def s4)
  have "name = log_name 1" if "al_dir u4 name = Some i" for name
    using u4(2,3) that by (auto simp: files_ok_def slot_def)
  moreover have "i < ?j" using assms(1,3) by (auto simp: files_ok_def slot_def)
  ultimately show "\<forall>name. al_dir s4 name \<noteq> Some i" by (auto simp: s4)
  have "al_rotating s1 = rotation_plan 5" by (simp add: s1)
  then have "audit_run print False s1 [] s2" unfolding assms(8) by (intro rotation_run) (simp add: plan_of_five)
  moreover have "audit_run print False s [] s1"
    using audit_run.go [OF audit_run.stop audit_step.start [OF assms(5,7)], of print False] by simp
  ultimately have "audit_run print False s [] s2" using audit_run_trans by fastforce
  then have "audit_run print False s (audit_text print f event s2) s3"
    using audit_run.go [OF _ audit_step.put, of print False s "[]" s2 f event] by (simp add: assms(9))
  moreover have "audit_run print False s3 [] s4" unfolding assms(10) by (intro rotation_run) (simp add: s3)
  ultimately show "audit_run print False s (audit_text print f event s2) s4" using audit_run_trans by fastforce
qed

section \<open>Witnesses\<close>

definition demo_files :: "string \<Rightarrow> nat option" where
  "demo_files = [''audit.jsonl'' \<mapsto> 0]"

definition demo_audit_event :: audit_event where
  "demo_audit_event = ToolExec ''0.000'' ''bash'' ''ls'' ''strict'' ''ok''"

definition demo_log :: audit_log where
  "demo_log = audit_new demo_files [replicate (10 * 1024 * 1024) CHR ''a'']"

lemma demo_log_ok: "files_ok demo_log"
  by (auto simp: files_ok_def demo_log_def audit_new_def demo_files_def split: if_splits)


theorem rotation_race_loses_a_file_witness:
  "\<exists>s1 s2 s3 s4. start_rotation demo_log = Some s1 \<and> s2 = (rotation_next ^^ 4) s1 \<and>
     s3 = audit_write (\<lambda>_. ''{}'') \<lparr>wf_opens = True, wf_line = 2, wf_newline = True\<rparr> demo_audit_event s2 \<and>
     s4 = (rotation_next ^^ 3) s3 \<and> file_text s4 1 = ''{}'' @ [newline] \<and> (\<forall>name. al_dir s4 name \<noteq> Some 0)"
proof -
  let ?f = "\<lparr>wf_opens = True, wf_line = 2, wf_newline = True\<rparr>"
  have start: "start_rotation demo_log = Some (demo_log\<lparr>al_rotating := rotation_plan 5\<rparr>)"
    by (simp add: start_rotation_def demo_log_def audit_new_def demo_files_def slot_names)
  have parts: "al_writer demo_log = None" "slot demo_log 0 = Some 0" "al_rotating demo_log = []" "al_max_files demo_log = 5"
    by (simp_all add: demo_log_def audit_new_def demo_files_def slot_def)
  note lost = rotation_race_loses_a_file [where f = ?f and event = demo_audit_event and print = "\<lambda>_. ''{}''",
      OF demo_log_ok parts(1,2) _ parts(3,4) start refl refl refl]
  show ?thesis using start lost(2,3) by (auto simp: written_text_def)
qed

end
