(* ===== verification/Audited.thy ===== *)
theory Audited
  imports Agent Sandbox Audit_Log
begin

text \<open>
  What the sandbox (\<open>tools/sandbox.rs\<close>) and the agent (\<open>agent/mod.rs\<close>) hand to the audit log: the outcome of every
  checked command and every switch of the behaviour mode. The decisions themselves are those of \<open>Sandbox\<close> and \<open>Agent\<close>.
  The clock reads seconds and milliseconds from the world; whether a Tokio runtime is active is an argument.
\<close>

section \<open>Commands\<close>

text \<open>\<open>if let Some(ref audit) = ...\<close>: nothing happens without a log.\<close>

definition audit_to :: "bool \<Rightarrow> audit_event \<Rightarrow> audit_log option \<Rightarrow> audit_log option" where
  "audit_to has_runtime event trail = map_option (log_sync has_runtime event) trail"

definition hook_message :: "hook_deny_reason \<Rightarrow> string" where
  "hook_message reason =
     ''Sandbox: command blocked by HookChain: ['' @ hd_hook reason @ ''] '' @ hd_reason reason
       @ '' (severity='' @ show_severity (hd_severity reason) @ '')''"

definition audited_check_command ::
  "('w \<Rightarrow> nat \<times> nat) \<Rightarrow> bool \<Rightarrow> 'w sandbox_config \<Rightarrow> audit_log option \<Rightarrow> 'w \<Rightarrow> string \<Rightarrow>
     'w \<times> audit_log option \<times> (string, unit) res" where
  "audited_check_command now has_runtime sb trail w raw =
     (let cmd = trim raw;
          hooked = (case sb_hook_chain sb of
            Some chain \<Rightarrow> run_pre_execute chain w ''bash'' cmd
          | None \<Rightarrow> (w, Inr cmd))
      in case hooked of
           (w1, Inl reason) \<Rightarrow>
             (w1,
              audit_to has_runtime
                (hook_deny (fst (now w1)) (snd (now w1)) (hd_hook reason) ''bash'' cmd (hd_reason reason)
                  (show_severity (hd_severity reason))) trail,
              Inl (hook_message reason))
         | (w1, Inr modified) \<Rightarrow>
             (let outcome = check_command_inner sb modified;
                  word = (case outcome of Inr _ \<Rightarrow> ''ok'' | Inl _ \<Rightarrow> ''denied'')
              in (w1, audit_to has_runtime (tool_exec (fst (now w1)) (snd (now w1)) ''bash'' modified (sb_label sb) word) trail, outcome)))"

section \<open>Behaviour modes\<close>

text \<open>The \<open>Debug\<close> form of a mode; that of a number in double precision is an argument.\<close>

definition debug_option :: "string option \<Rightarrow> string" where
  "debug_option x = (case x of None \<Rightarrow> ''None'' | Some s \<Rightarrow> ''Some('' @ debug_str s @ '')'')"

fun debug_policy :: "yolo_sandbox_policy \<Rightarrow> string" where
  "debug_policy EnforceCommandAllowlist = ''EnforceCommandAllowlist''"
| "debug_policy NoBash = ''NoBash''"
| "debug_policy (CustomSandbox commands) = ''Custom { allowed_commands: '' @ debug_strs commands @ '' }''"

fun debug_mode :: "(f64 \<Rightarrow> string) \<Rightarrow> behavior_mode \<Rightarrow> string" where
  "debug_mode show_f64 (Strict threshold retries escalate) =
     ''Strict { confidence_threshold: '' @ show_f64 threshold @ '', max_retries: '' @ show_nat (unat retries)
       @ '', escalate_to: '' @ debug_option escalate @ '' }''"
| "debug_mode show_f64 (Yolo policy) = ''Yolo { enforce_sandbox: '' @ debug_policy policy @ '' }''"

record audit_env =
  ad_now :: "nat \<times> nat"
  ad_runtime :: bool
  ad_show_f64 :: "f64 \<Rightarrow> string"

definition switch_event :: "audit_env \<Rightarrow> behavior_mode \<Rightarrow> behavior_mode \<Rightarrow> string \<Rightarrow> audit_event" where
  "switch_event env old new trigger =
     behavior_switch (fst (ad_now env)) (snd (ad_now env)) (debug_mode (ad_show_f64 env) old) (debug_mode (ad_show_f64 env) new) trigger"

definition set_behavior :: "audit_env \<Rightarrow> behavior_mode \<Rightarrow> agent \<Rightarrow> audit_log option \<Rightarrow> agent \<times> audit_log option" where
  "set_behavior env mode ag trail =
     (ag\<lparr>ag_behavior := mode\<rparr>, audit_to (ad_runtime env) (switch_event env (ag_behavior ag) mode ''user_request'') trail)"

text \<open>
  \<open>with_permissive\<close> up to the call of \<open>f\<close> and after it. \<open>f\<close> cannot reach the agent, but it may use the log, which is
  shared, and time passes while it runs.
\<close>

definition permissive_enter :: "audit_env \<Rightarrow> agent \<Rightarrow> audit_log option \<Rightarrow> agent \<times> audit_log option" where
  "permissive_enter env ag trail =
     (ag\<lparr>ag_behavior := Yolo EnforceCommandAllowlist\<rparr>,
      audit_to (ad_runtime env) (switch_event env (ag_behavior ag) (Yolo EnforceCommandAllowlist) ''permissive_scope'') trail)"

definition permissive_leave :: "audit_env \<Rightarrow> behavior_mode \<Rightarrow> agent \<Rightarrow> audit_log option \<Rightarrow> agent \<times> audit_log option" where
  "permissive_leave env saved ag trail =
     (ag\<lparr>ag_behavior := saved\<rparr>,
      audit_to (ad_runtime env) (switch_event env (ag_behavior ag) saved ''permissive_scope'') trail)"

definition audited_with_permissive ::
  "audit_env \<Rightarrow> audit_env \<Rightarrow> agent \<Rightarrow> audit_log option \<Rightarrow>
     (audit_log option \<Rightarrow> audit_log option \<times> (lattice_error, 'a) res) \<Rightarrow> agent \<times> audit_log option \<times> (lattice_error, 'a) res" where
  "audited_with_permissive before after ag trail f =
     (let (ag1, log1) = permissive_enter before ag trail;
          (log2, result) = f log1;
          (ag3, log3) = permissive_leave after (ag_behavior ag) ag1 log2
      in (ag3, log3, result))"

section \<open>What is recorded\<close>

lemma audit_to_simps [simp]:
  "audit_to has_runtime e None = None" "audit_to has_runtime e (Some l) = Some (log_sync has_runtime e l)"
  by (simp_all add: audit_to_def)

text \<open>Whether an event says that a command was allowed, and whether it comes from a hook.\<close>

fun says_allowed :: "audit_event \<Rightarrow> bool" where
  "says_allowed (ToolExec ts tool command sandbox outcome) = (outcome = ''ok'')"
| "says_allowed _ = False"

fun says_hook :: "audit_event \<Rightarrow> bool" where
  "says_hook (HookDeny ts hook tool command reason severity) = True"
| "says_hook _ = False"

definition hook_denies :: "'w sandbox_config \<Rightarrow> 'w \<Rightarrow> string \<Rightarrow> bool" where
  "hook_denies sb w raw \<longleftrightarrow>
     (case sb_hook_chain sb of
        None \<Rightarrow> False
      | Some chain \<Rightarrow> (case run_pre_execute chain w ''bash'' (trim raw) of (w1, Inl _) \<Rightarrow> True | _ \<Rightarrow> False))"

lemma audited_check_event:
  "\<exists>e. audited_check_command now has_runtime sb trail w raw =
      (fst (check_command sb w raw), audit_to has_runtime e trail, snd (check_command sb w raw)) \<and>
     (says_allowed e \<longleftrightarrow> snd (check_command sb w raw) = Inr ()) \<and> (says_hook e \<longleftrightarrow> hook_denies sb w raw)"
proof (cases "sb_hook_chain sb")
  case None
  then show ?thesis
    by (cases "check_command_inner sb (trim raw)")
      (auto simp: audited_check_command_def check_command_def hook_denies_def tool_exec_def Let_def
        intro!: exI [of _ "tool_exec (fst (now w)) (snd (now w)) ''bash'' (trim raw) (sb_label sb)
          (case check_command_inner sb (trim raw) of Inr _ \<Rightarrow> ''ok'' | Inl _ \<Rightarrow> ''denied'')"])
next
  case (Some chain)
  obtain w1 r where run: "run_pre_execute chain w ''bash'' (trim raw) = (w1, r)" by fastforce
  show ?thesis
  proof (cases r)
    case (Inl reason)
    then show ?thesis using Some run
      by (auto simp: audited_check_command_def check_command_def hook_denies_def hook_deny_def hook_message_def Let_def
        intro!: exI [of _ "hook_deny (fst (now w1)) (snd (now w1)) (hd_hook reason) ''bash'' (trim raw) (hd_reason reason)
          (show_severity (hd_severity reason))"])
  next
    case (Inr modified)
    then show ?thesis using Some run
      by (cases "check_command_inner sb modified")
        (auto simp: audited_check_command_def check_command_def hook_denies_def tool_exec_def Let_def
          intro!: exI [of _ "tool_exec (fst (now w1)) (snd (now w1)) ''bash'' modified (sb_label sb)
            (case check_command_inner sb modified of Inr _ \<Rightarrow> ''ok'' | Inl _ \<Rightarrow> ''denied'')"])
  qed
qed

lemma history_pending [simp]: "history (s\<lparr>al_pending := ps\<rparr>) = history s"
proof -
  have "file_text (s\<lparr>al_pending := ps\<rparr>) k = file_text s k" for k by (simp add: file_text_def split: option.split)
  then show ?thesis by (simp add: history_def)
qed

lemma rotation_ok_pending [simp]: "rotation_ok (s\<lparr>al_pending := ps\<rparr>) = rotation_ok s"
  by (simp add: rotation_ok_def files_ok_def phase_ok_def slot_def)

text \<open>The background task of an event puts its line at the end of the log.\<close>

lemma background_line:
  assumes "rotation_ok l" and "al_writer l = None \<Longrightarrow> al_rotating l = []"
    and "wf_opens f" and "wf_newline f" and "length (print (audit_event_json e)) \<le> wf_line f"
  shows "history (run_pending print f (length (al_pending l)) (log_sync True e l)) = history l @ print (audit_event_json e) @ [newline]"
proof -
  let ?s = "log_sync True e l"
  have s: "?s = l\<lparr>al_pending := al_pending l @ [(e, False)]\<rparr>" by (simp add: log_sync_def)
  have "rotation_ok ?s" using assms(1) by (simp add: s)
  then have "history (audit_write print f e ?s) = history ?s @ audit_text print f e ?s"
    by (rule conjunct2 [OF audit_write_ok]) (use assms(2) in \<open>simp add: s\<close>)
  then show ?thesis using assms(3-5) by (simp add: run_pending_def s audit_text_def written_text_def)
qed



section \<open>Permissive scopes\<close>

text \<open>Without a log, the agent and the result are those of the plain operation.\<close>

lemma audited_with_permissive_plain:
  "audited_with_permissive before after ag None f =
     (fst (with_permissive ag (\<lambda>_. snd (f None))),
      audit_to (ad_runtime after) (switch_event after (Yolo EnforceCommandAllowlist) (ag_behavior ag) ''permissive_scope'') (fst (f None)),
      snd (with_permissive ag (\<lambda>_. snd (f None))))"
  by (simp add: audited_with_permissive_def permissive_enter_def permissive_leave_def with_permissive_def Let_def split: prod.splits)

text \<open>
  A permissive scope is on record: whatever runs inside it, and whether that succeeds or not, the agent leaves the scope
  as it entered it, and the log is handed the switch to the permissive mode before and the switch back to the mode of
  the agent after it.
\<close>

theorem permissive_scope_recorded:
  assumes "audited_with_permissive before after ag (Some l) f = (ag1, trail, r)"
    and "ad_runtime before" and "ad_runtime after" and "\<And>x. fst (f (Some x)) \<noteq> None"
  shows "ag1 = ag \<and>
    (\<exists>l2. f (Some (log_sync True (switch_event before (ag_behavior ag) (Yolo EnforceCommandAllowlist) ''permissive_scope'') l)) = (Some l2, r) \<and>
       trail = Some (log_sync True (switch_event after (Yolo EnforceCommandAllowlist) (ag_behavior ag) ''permissive_scope'') l2))"
proof -
  let ?l1 = "log_sync True (switch_event before (ag_behavior ag) (Yolo EnforceCommandAllowlist) ''permissive_scope'') l"
  obtain l2 where "f (Some ?l1) = (Some l2, snd (f (Some ?l1)))" using assms(4) [of ?l1] by (metis not_None_eq prod.collapse)
  then show ?thesis
    using assms(1-3) by (auto simp: audited_with_permissive_def permissive_enter_def permissive_leave_def Let_def split: prod.splits)
qed

end
