(* ===== verification/Serving.thy ===== *)
theory Serving
  imports Pipeline
begin

text \<open>
  \<open>bus/ws.rs\<close> and \<open>bus/watcher.rs\<close>: who may watch the events of a pipeline through a web socket and what the
  socket is sent, and the thread that reloads the registry of agents when files change. The socket, the
  channel, the file notifications and JSON text are parameters; environment variables are arguments.
\<close>

section \<open>The handshake\<close>

definition DEFAULT_ALLOWED_ORIGINS :: "string list" where
  "DEFAULT_ALLOWED_ORIGINS =
     [''http://localhost:3000'', ''http://localhost:5173'', ''http://127.0.0.1:3000'', ''http://127.0.0.1:5173'']"

definition allowed_origins :: "string option \<Rightarrow> string list" where
  "allowed_origins raw =
     (let origins = (case raw of
          None \<Rightarrow> []
        | Some r \<Rightarrow> filter (\<lambda>origin. origin \<noteq> []) (map trim (str_split CHR '','' r)))
      in if origins = [] then DEFAULT_ALLOWED_ORIGINS else origins)"

text \<open>Every request is upgraded; a rejected one gets a message and nothing else.\<close>

datatype ws_outcome = RejectWith string | HandleSocket

record ws_request =
  wr_token :: "string option"
  wr_origin :: "string option"

text \<open>
  The environment: \<open>WS_SECRET\<close>, \<open>WS_ALLOWED_ORIGINS\<close>, and reading a header as text, which \<open>HeaderValue::to_str\<close>
  refuses to do for some bytes.
\<close>

record ws_env =
  we_secret :: "string option"
  we_origins :: "string option"
  we_to_str :: "string \<Rightarrow> string option"

definition ws_secret :: "ws_env \<Rightarrow> string option" where
  "ws_secret env = (case we_secret env of Some s \<Rightarrow> if s = [] then None else Some s | None \<Rightarrow> None)"

definition origin_str :: "ws_env \<Rightarrow> ws_request \<Rightarrow> string" where
  "origin_str env q = unwrap_or (Option.bind (wr_origin q) (we_to_str env)) []"

definition ws_handler :: "ws_env \<Rightarrow> ws_request \<Rightarrow> ws_outcome" where
  "ws_handler env q =
     (case ws_secret env of
        None \<Rightarrow> HandleSocket
      | Some secret \<Rightarrow>
          (if unwrap_or (wr_token q) [] \<noteq> secret
           then RejectWith ''{\"error\":\"authentication failed: invalid token\"}''
           else if \<not> (list_ex (\<lambda>a. a = origin_str env q) (allowed_origins (we_origins env)) \<or> origin_str env q = [])
           then RejectWith ''{\"error\":\"origin not allowed\"}''
           else HandleSocket))"

section \<open>The socket\<close>

text \<open>An event as \<open>derive(Serialize)\<close> writes it, tagged with its type, its fields in their order.\<close>

definition count_json :: "nat \<Rightarrow> json" where
  "count_json n = JNum (PosInt (of_nat n))"

fun event_json :: "pipeline_event \<Rightarrow> json" where
  "event_json (AgentStarted agent input) =
     JObj [(''type'', JStr ''agent_started''), (''agent'', JStr agent), (''input_size'', count_json input)]"
| "event_json (AgentCompleted agent preview target duration) =
     JObj [(''type'', JStr ''agent_completed''), (''agent'', JStr agent), (''output_preview'', JStr preview),
       (''next'', case target of None \<Rightarrow> JNull | Some t \<Rightarrow> target_serialize t), (''duration_ms'', JNum (PosInt duration))]"
| "event_json (HandoffEvent from_agent target) =
     JObj [(''type'', JStr ''handoff''), (''from'', JStr from_agent), (''to'', target_serialize target)]"
| "event_json (ForkEvent from_agent branches) =
     JObj [(''type'', JStr ''fork''), (''from'', JStr from_agent), (''branches'', JArr (map JStr branches))]"
| "event_json (PipelineCompleted agents duration) =
     JObj [(''type'', JStr ''pipeline_completed''), (''total_agents'', count_json agents), (''duration_ms'', JNum (PosInt duration))]"
| "event_json (PipelineError agent message skippable) =
     JObj [(''type'', JStr ''pipeline_error''), (''agent'', JStr agent), (''message'', JStr message), (''skippable'', JBool skippable)]"

text \<open>What a receiver of the channel yields.\<close>

datatype recv_result = Received pipeline_event | Lagged nat | Closed

text \<open>
  The forwarding task over what its receiver yields until it is aborted, which happens when the client closes its side.
  A send gives back the world and whether it succeeded; the texts that were sent are the result.
\<close>

fun forward_events ::
  "(json \<Rightarrow> string option) \<Rightarrow> ('w \<Rightarrow> string \<Rightarrow> 'w \<times> bool) \<Rightarrow> recv_result list \<Rightarrow> 'w \<Rightarrow> 'w \<times> string list" where
  "forward_events print send [] w = (w, [])"
| "forward_events print send (Received event # feed) w =
     (let json_text = unwrap_or (print (event_json event)) []
      in case send w json_text of
           (w1, False) \<Rightarrow> (w1, [])
         | (w1, True) \<Rightarrow> (case forward_events print send feed w1 of (w2, sent) \<Rightarrow> (w2, json_text # sent)))"
| "forward_events print send (Lagged n # feed) w = forward_events print send feed w"
| "forward_events print send (Closed # feed) w = (w, [])"

text \<open>
  What \<open>tokio::sync::broadcast\<close> documents of a receiver: it yields the events sent since it subscribed, in
  order, except that after \<open>Lagged(n)\<close> the next \<open>n\<close> of them are gone; \<open>Closed\<close> comes when nothing is left.
\<close>

fun feed_of :: "pipeline_event list \<Rightarrow> recv_result list \<Rightarrow> bool" where
  "feed_of published [] = True"
| "feed_of published (Received event # feed) =
     (case published of [] \<Rightarrow> False | e # rest \<Rightarrow> e = event \<and> feed_of rest feed)"
| "feed_of published (Lagged n # feed) \<longleftrightarrow> n \<le> length published \<and> feed_of (drop n published) feed"
| "feed_of published (Closed # feed) \<longleftrightarrow> published = [] \<and> feed = []"

fun lagged_by :: "recv_result list \<Rightarrow> nat" where
  "lagged_by [] = 0"
| "lagged_by (Lagged n # feed) = n + lagged_by feed"
| "lagged_by (_ # feed) = lagged_by feed"

section \<open>The watcher of agents\<close>

datatype event_kind = CreateEvent | ModifyEvent | RemoveEvent | OtherEvent

record notify_event =
  ne_kind :: event_kind
  ne_paths :: "string list"

definition is_relevant :: "string \<Rightarrow> bool" where
  "is_relevant p \<longleftrightarrow> (case file_name p of Some n \<Rightarrow> n = ''agent.toml'' \<or> n = ''agent.toml.sha256'' | None \<Rightarrow> False)"

text \<open>Whether the callback wakes the thread.\<close>

definition notifies :: "notify_event \<Rightarrow> bool" where
  "notifies e \<longleftrightarrow> list_ex is_relevant (ne_paths e) \<and> ne_kind e \<noteq> OtherEvent"

text \<open>One round of the thread. The lock is poisoned when a writer has panicked.\<close>

definition hot_reload :: "'w profile_env \<Rightarrow> string \<Rightarrow> bool \<Rightarrow> 'w \<times> agent_registry \<Rightarrow> 'w \<times> agent_registry" where
  "hot_reload env dir poisoned s =
     (case registry_load_dir env (fst s) dir of
        (w1, Inr updated) \<Rightarrow> (w1, if poisoned then snd s else updated)
      | (w1, Inl e) \<Rightarrow> (w1, snd s))"

text \<open>
  The callback and the thread: files change outside, the callback may add a message to the channel, the thread takes one and
  reloads.
\<close>

record 'w watcher =
  wa_world :: 'w
  wa_registry :: agent_registry
  wa_messages :: nat

inductive watcher_step :: "'w profile_env \<Rightarrow> string \<Rightarrow> 'w watcher \<Rightarrow> 'w watcher \<Rightarrow> bool" for env dir where
  notice: "watcher_step env dir s
    (s\<lparr>wa_world := w1, wa_messages := (if notifies e then Suc (wa_messages s) else wa_messages s)\<rparr>)"
| reload: "wa_messages s = Suc n \<Longrightarrow> hot_reload env dir poisoned (wa_world s, wa_registry s) = (w1, reg1) \<Longrightarrow>
    watcher_step env dir s (s\<lparr>wa_world := w1, wa_registry := reg1, wa_messages := n\<rparr>)"

section \<open>The directory of agents\<close>

text \<open>\<open>LATTICE_AGENTS_DIR\<close>, \<open>HOME\<close> and \<open>canonicalize\<close> are arguments.\<close>

definition dirs_override :: "string option \<Rightarrow> string" where
  "dirs_override home =
     (case home of
        Some h \<Rightarrow> path_join (path_join h ''.lattice'') ''agents''
      | None \<Rightarrow> ''.lattice/agents'')"

definition default_agents_dir :: "string option \<Rightarrow> string option \<Rightarrow> (string \<Rightarrow> string option) \<Rightarrow> string" where
  "default_agents_dir override home canonicalize =
     (case override of
        Some dir \<Rightarrow>
          (let canonical = unwrap_or (canonicalize dir) dir
           in if (case home of Some base \<Rightarrow> path_starts_with canonical base | None \<Rightarrow> False) then dir
              else dirs_override home)
      | None \<Rightarrow> dirs_override home)"

section \<open>File names\<close>

lemma file_name_append:
  assumes "pre = [] \<or> last pre = slash" and "slash \<notin> set name" and "seg_component name = Some (Normal s)"
  shows "file_name (pre @ name) = Some s"
proof (cases "pre = []")
  case True
  then have "name \<noteq> []" using assms by auto
  then show ?thesis using True assms by (auto simp: file_name_def components_def str_split_id List.map_filter_def)
next
  case False
  then obtain a where "pre = a @ [slash]" using assms(1) by (metis append_butlast_last_id)
  then have "str_split slash (pre @ name) = str_split slash a @ [name]"
    using assms(2) by (simp add: str_split_append_delim str_split_id)
  then show ?thesis using assms(3) by (simp add: file_name_def components_def List.map_filter_def)
qed

lemma map_filter_snoc:
  "List.map_filter f (xs @ [x]) = List.map_filter f xs @ (case f x of None \<Rightarrow> [] | Some c \<Rightarrow> [c])"
  by (simp add: List.map_filter_def split: option.splits)

lemma file_name_no_segs: "file_name q = Some name \<Longrightarrow> List.map_filter seg_component (str_split slash q) \<noteq> []"
  by (auto simp: file_name_def components_def split: if_splits)

lemma nth_prefixes: "i \<le> length xs \<Longrightarrow> prefixes xs ! i = take i xs"
proof (induction xs arbitrary: i)
  case (Cons x xs)
  then show ?case by (cases i) auto
qed simp

text \<open>A path without trailing separators and dots ends with its file name.\<close>

lemma file_name_last_seg:
  assumes "file_name q = Some name" and "seg_component (last (str_split slash q)) \<noteq> None"
  shows "\<exists>pre. q = pre @ name \<and> (pre = [] \<or> last pre = slash)"
proof -
  let ?segs = "str_split slash q"
  obtain c where c: "seg_component (last ?segs) = Some c" using assms(2) by auto
  have split: "?segs = butlast ?segs @ [last ?segs]" by simp
  have "List.map_filter seg_component ?segs = List.map_filter seg_component (butlast ?segs) @ [c]"
    using map_filter_snoc [of seg_component "butlast ?segs" "last ?segs"] c by simp
  then have "c = Normal name" using assms(1) by (auto simp: file_name_def components_def split: component.splits)
  then have name: "last ?segs = name" using c by (auto simp: seg_component_def split: if_splits)
  have joined: "str_join [slash] (butlast ?segs @ [name]) = q" using name split by (metis str_join_split)
  show ?thesis
  proof (cases "butlast ?segs = []")
    case False
    have "q = str_join [slash] (butlast ?segs) @ [slash] @ name"
      using joined str_join_snoc [OF False, of "[slash]" name] by simp
    then show ?thesis by (metis append.assoc last_snoc)
  qed (use joined in simp)
qed

text \<open>The text that \<^const>\<open>with_extension\<close> starts from is the shortest one with the components of the path.\<close>

lemma shortest_ends_with_name:
  assumes "find (\<lambda>q. components q = components path) (prefixes path) = Some q" and "file_name path = Some name"
  shows "\<exists>pre. q = pre @ name \<and> (pre = [] \<or> last pre = slash)"
proof (rule file_name_last_seg)
  obtain i where i: "i < length (prefixes path)" "prefixes path ! i = q" "components q = components path"
    "\<And>j. j < i \<Longrightarrow> components (prefixes path ! j) \<noteq> components path"
    using assms(1) by (auto simp: find_Some_iff)
  show "file_name q = Some name" using assms(2) i(3) by (simp add: file_name_def)
  show "seg_component (last (str_split slash q)) \<noteq> None"
  proof
    assume none: "seg_component (last (str_split slash q)) = None"
    define l where "l = last (str_split slash q)"
    define p where "p = str_join [slash] (butlast (str_split slash q))"
    have split: "str_split slash q = butlast (str_split slash q) @ [l]" by (simp add: l_def)
    have kept: "List.map_filter seg_component (butlast (str_split slash q)) \<noteq> []"
      using file_name_no_segs [OF \<open>file_name q = Some name\<close>] map_filter_snoc [of seg_component "butlast (str_split slash q)" l]
        none split by (simp flip: l_def)
    then have many: "butlast (str_split slash q) \<noteq> []" by (auto simp: List.map_filter_def)
    have q: "q = p @ slash # l"
      using str_join_snoc [OF many, of "[slash]" l] split str_join_split [of slash q] by (simp add: p_def)
    have "l \<in> set (str_split slash q)" by (simp add: l_def)
    then have "slash \<notin> set l" by (rule str_split_no_delim)
    then have segs: "str_split slash q = str_split slash p @ [l]" by (simp add: q str_split_append_delim str_split_id)
    then have p: "List.map_filter seg_component (str_split slash p) \<noteq> []" using kept by simp
    then have "p \<noteq> []" by (auto simp: List.map_filter_def)
    then have "is_absolute q = is_absolute p" "hd (str_split slash q) = hd (str_split slash p)"
      using q segs by (simp_all add: is_absolute_def)
    moreover have "List.map_filter seg_component (str_split slash q) = List.map_filter seg_component (str_split slash p)"
      using none segs by (simp add: map_filter_snoc)
    ultimately have "components p = components q" by (simp add: components_def)
    then have "components p = components path" using i(3) by simp
    moreover have taken: "q = take i path" using i(1,2) nth_prefixes [of i path] by simp
    then have "length q = i" using i(1) by simp
    then have "length p < i" using q by simp
    moreover have "prefixes path ! length p = p"
    proof -
      have "p = take (length p) q" by (simp add: q)
      then have "p = take (length p) path" using taken \<open>length p < i\<close> by (metis min.strict_order_iff take_take)
      then show ?thesis using nth_prefixes [of "length p" path] \<open>length p < i\<close> i(1) by simp
    qed
    ultimately show False using i(4) by metis
  qed
qed

lemma file_stem_agent: "file_stem ''agent.toml'' = ''agent''" by code_simp

lemma sidecar_name:
  assumes "file_name path = Some ''agent.toml''"
  shows "file_name (with_extension path ''toml.hash'') = Some ''agent.toml.hash''"
proof -
  have "find (\<lambda>q. components q = components path) (prefixes path) \<noteq> None" by (auto simp: find_None_iff)
  then obtain q where q: "find (\<lambda>q. components q = components path) (prefixes path) = Some q" by auto
  obtain pre where pre: "q = pre @ ''agent.toml''" "pre = [] \<or> last pre = slash"
    using shortest_ends_with_name [OF q assms] by auto
  have "with_extension path ''toml.hash'' = pre @ ''agent.toml.hash''"
    using assms q pre by (simp add: with_extension_def Let_def file_stem_agent)
  then show ?thesis
    using file_name_append [OF pre(2), of "''agent.toml.hash''"] by (simp add: slash_def seg_component_def)
qed

lemma agent_toml_name: "file_name (path_join dir ''agent.toml'') = Some ''agent.toml''"
proof -
  obtain pre where "path_join dir ''agent.toml'' = pre @ ''agent.toml''" "pre = [] \<or> last pre = slash"
    by (cases "dir = [] \<or> last dir = slash") (auto simp: path_join_def is_absolute_def slash_def intro: that [of "dir @ [slash]"] that)
  then show ?thesis using file_name_append [of pre "''agent.toml''"] by (simp add: slash_def seg_component_def)
qed

section \<open>Who is served\<close>

lemma ws_secret_nonempty: "ws_secret env = Some s \<Longrightarrow> s \<noteq> []"
  by (auto simp: ws_secret_def split: option.splits if_splits)

text \<open>The origins that are compared with are non-empty, trimmed and free of commas.\<close>

lemma allowed_origins_wf:
  assumes "a \<in> set (allowed_origins raw)"
  shows "a \<noteq> [] \<and> trimmed a \<and> CHR '','' \<notin> set a"
proof (cases "allowed_origins raw = DEFAULT_ALLOWED_ORIGINS")
  case True
  then have "a \<in> set DEFAULT_ALLOWED_ORIGINS" using assms by simp
  moreover have "trimmed ''http://localhost:3000''" "trimmed ''http://localhost:5173''" "trimmed ''http://127.0.0.1:3000''"
    "trimmed ''http://127.0.0.1:5173''"
    by (rule trimmed_ascii; simp add: is_ascii_def ascii_ws_def byte_def)+
  ultimately show ?thesis by (auto simp: DEFAULT_ALLOWED_ORIGINS_def)
next
  case False
  then obtain r o1 where "o1 \<in> set (str_split CHR '','' r)" "a = trim o1" "a \<noteq> []"
    using assms by (auto simp: allowed_origins_def Let_def split: if_splits option.splits)
  then show ?thesis using str_split_no_delim [of o1 "CHR '',''" r] set_trim_subset [of o1] by auto
qed

lemma allowed_origins_some: "allowed_origins raw \<noteq> []"
  by (simp add: allowed_origins_def DEFAULT_ALLOWED_ORIGINS_def Let_def)

text \<open>
  Where a secret is configured, a client gets the events of the pipeline exactly when its token is the secret and its
  origin is on the list, which is never empty, or counts as empty. An origin counts as empty when the header is
  missing, is empty, or cannot be read as text. Without a secret, or with an empty one, everyone gets them.
\<close>

theorem ws_needs_the_secret:
  "ws_handler env q = HandleSocket \<longleftrightarrow>
     ws_secret env = None \<or>
     wr_token q = ws_secret env \<and>
       (Option.bind (wr_origin q) (we_to_str env) \<in> {None, Some []} \<or>
        (\<exists>a \<in> set (allowed_origins (we_origins env)). Option.bind (wr_origin q) (we_to_str env) = Some a))"
proof (cases "ws_secret env")
  case (Some secret)
  have token: "unwrap_or (wr_token q) [] = secret \<longleftrightarrow> wr_token q = Some secret"
    using ws_secret_nonempty [OF Some] by (cases "wr_token q") auto
  show ?thesis
    by (cases "Option.bind (wr_origin q) (we_to_str env)") (auto simp: ws_handler_def Some token origin_str_def list_ex_iff)
qed (simp add: ws_handler_def)

section \<open>What a client sees\<close>

definition event_text :: "(json \<Rightarrow> string option) \<Rightarrow> pipeline_event \<Rightarrow> string" where
  "event_text print e = unwrap_or (print (event_json e)) []"

lemma forward_subseq:
  "feed_of published feed \<Longrightarrow> subseq (snd (forward_events print send feed w)) (map (event_text print) published)"
proof (induction print send feed w arbitrary: published rule: forward_events.induct)
  case (2 print send event feed w)
  then obtain rest where rest: "published = event # rest" "feed_of rest feed" by (auto split: list.splits)
  obtain w1 ok where sent: "send w (unwrap_or (print (event_json event)) []) = (w1, ok)" by fastforce
  show ?case
  proof (cases ok)
    case True
    then show ?thesis using 2(1) rest sent by (auto simp: Let_def event_text_def split: prod.splits)
  qed (use sent in \<open>simp add: Let_def\<close>)
next
  case (3 print send n feed w)
  then have "subseq (snd (forward_events print send feed w)) (drop n (map (event_text print) published))"
    by (simp add: drop_map)
  then have "subseq (snd (forward_events print send feed w)) (map (event_text print) published)"
    using suffix_imp_subseq [OF suffix_drop] by (rule subseq_order.trans)
  then show ?case by simp
qed simp_all

lemma forward_complete:
  assumes "feed_of published feed" and "feed \<noteq> []" and "last feed = Closed" and "\<forall>w t. snd (send w t)"
  shows "length (snd (forward_events print send feed w)) + lagged_by feed = length published"
  using assms
proof (induction print send feed w arbitrary: published rule: forward_events.induct)
  case (2 print send event feed w)
  then obtain rest where rest: "published = event # rest" "feed_of rest feed" by (auto split: list.splits)
  obtain w1 where sent: "send w (unwrap_or (print (event_json event)) []) = (w1, True)" using 2(5) by (metis prod.collapse)
  have "feed \<noteq> []" "last feed = Closed" using 2(4) by (auto split: if_splits)
  then show ?case using 2(1) [OF refl sent [symmetric]] 2(5) rest sent by (auto simp: Let_def split: prod.splits)
next
  case (3 print send n feed w)
  have "feed \<noteq> []" "last feed = Closed" using 3(4) by (auto split: if_splits)
  then show ?case using 3 by fastforce
qed simp_all

text \<open>
  C22: A client of the web socket is sent the events of the pipeline in the order in which they happened, each at most
  once and nothing else; and when every send succeeds until the channel is closed, the only events it misses are
  those it was told it lagged behind by.
\<close>

theorem socket_shows_published:
  assumes "feed_of published feed"
  shows "subseq (snd (forward_events print send feed w)) (map (event_text print) published) \<and>
    (feed \<noteq> [] \<and> last feed = Closed \<and> (\<forall>w t. snd (send w t)) \<longrightarrow>
       length (snd (forward_events print send feed w)) + lagged_by feed = length published)"
proof (intro conjI impI)
  show "subseq (snd (forward_events print send feed w)) (map (event_text print) published)"
    using assms by (rule forward_subseq)
qed (simp add: forward_complete [OF assms])

text \<open>Three events, of which the receiver loses one.\<close>

theorem socket_shows_published_witness:
  "snd (forward_events (\<lambda>_. None) (\<lambda>w t. (w, True)) [Lagged 1, Received (PipelineCompleted 1 0), Received (PipelineCompleted 2 0), Closed] ()) =
     [[], []]"
proof -
  let ?feed = "[Lagged 1, Received (PipelineCompleted 1 0), Received (PipelineCompleted 2 0), Closed]"
    and ?published = "[AgentStarted ''a'' 3, PipelineCompleted 1 0, PipelineCompleted 2 0]"
  have "feed_of ?published ?feed" by simp
  from socket_shows_published [OF this, of "\<lambda>_. None" "\<lambda>w t. (w, True)" "()"] show ?thesis by simp
qed

section \<open>Hot reload\<close>

text \<open>The environment with a record of the paths that are written to.\<close>

definition recording :: "'w profile_env \<Rightarrow> ('w \<times> string list) profile_env" where
  "recording env =
     \<lparr>pv_read = (\<lambda>s. pv_read env (fst s)),
      pv_write = (\<lambda>s p text. case pv_write env (fst s) p text of (w1, r) \<Rightarrow> ((w1, snd s @ [p]), r)),
      pv_exists = (\<lambda>s. pv_exists env (fst s)), pv_read_dir = (\<lambda>s. pv_read_dir env (fst s)),
      pv_canonicalize = (\<lambda>s. pv_canonicalize env (fst s)), pv_current_dir = (\<lambda>s. pv_current_dir env (fst s)),
      pv_toml = pv_toml env, pv_shape_error = pv_shape_error env, pv_hash = pv_hash env,
      pv_hex_encode = pv_hex_encode env, pv_hex_decode = pv_hex_decode env\<rparr>"

lemma recording_simps [simp]:
  "pv_read (recording env) = (\<lambda>s. pv_read env (fst s))"
  "pv_write (recording env) s p text = (case pv_write env (fst s) p text of (w1, r) \<Rightarrow> ((w1, snd s @ [p]), r))"
  "pv_exists (recording env) = (\<lambda>s. pv_exists env (fst s))" "pv_read_dir (recording env) = (\<lambda>s. pv_read_dir env (fst s))"
  "pv_hash (recording env) = pv_hash env" "pv_hex_encode (recording env) = pv_hex_encode env"
  "pv_hex_decode (recording env) = pv_hex_decode env"
  "from_toml (recording env) shape content = from_toml env shape content"
  by (simp_all add: recording_def from_toml_def split: sum.split option.split)

definition only_sidecars :: "string list \<Rightarrow> bool" where
  "only_sidecars ps \<longleftrightarrow> list_all (\<lambda>p. file_name p = Some ''agent.toml.hash'') ps"

text \<open>What a recorded operation does: the same, and what it writes are hash files.\<close>

definition recorded :: "'w \<times> 'a \<Rightarrow> string list \<Rightarrow> ('w \<times> string list) \<times> 'a \<Rightarrow> bool" where
  "recorded plain ps r \<longleftrightarrow> (\<exists>qs. r = ((fst plain, ps @ qs), snd plain) \<and> only_sidecars qs)"

lemma recorded_none: "recorded (w, a) ps ((w, ps), a)"
  by (simp add: recorded_def only_sidecars_def)

lemma recorded_one: "file_name p = Some ''agent.toml.hash'' \<Longrightarrow> recorded (w, a) ps ((w, ps @ [p]), a)"
  by (simp add: recorded_def only_sidecars_def)

lemma recorded_profile:
  assumes "file_name path = Some ''agent.toml''"
  shows "recorded (load_profile_verified env w path) ps (load_profile_verified (recording env) (w, ps) path)"
proof (cases "pv_write env w (with_extension path ''toml.hash'') (pv_hex_encode env (pv_hash env (the (ok_of (pv_read env w path)))))")
  case (Pair w1 r)
  then show ?thesis
    using sidecar_name [OF assms]
    by (auto simp: load_profile_verified_def Let_def split: sum.splits option.splits intro!: recorded_none recorded_one)
qed

lemma recorded_agent_dir:
  "recorded (load_agent_dir env dir w reg) ps (load_agent_dir (recording env) dir (w, ps) reg)"
proof -
  let ?path = "path_join dir ''agent.toml''"
  obtain w1 r where plain: "load_profile_verified env w ?path = (w1, r)" by fastforce
  with recorded_profile [OF agent_toml_name, of env w dir ps] obtain qs where
    "load_profile_verified (recording env) (w, ps) ?path = ((w1, ps @ qs), r)" "only_sidecars qs"
    by (auto simp: recorded_def)
  with plain show ?thesis
    by (cases "pv_exists env w ?path"; cases r)
      (auto simp: load_agent_dir_def recorded_def only_sidecars_def)
qed

lemma recorded_entries:
  "recorded (load_agent_entries env es w reg) ps (load_agent_entries (recording env) es (w, ps) reg)"
proof (induction es arbitrary: w reg ps)
  case (Cons e es)
  show ?case
  proof (cases e)
    case (AgentDir dir)
    obtain w1 reg1 where plain: "load_agent_dir env dir w reg = (w1, reg1)" by fastforce
    with recorded_agent_dir [of env dir w reg ps] obtain qs where
      step: "load_agent_dir (recording env) dir (w, ps) reg = ((w1, ps @ qs), reg1)" "only_sidecars qs"
      by (auto simp: recorded_def)
    obtain rs where "load_agent_entries (recording env) es (w1, ps @ qs) reg1 =
        ((fst (load_agent_entries env es w1 reg1), (ps @ qs) @ rs), snd (load_agent_entries env es w1 reg1))" "only_sidecars rs"
      using Cons [of w1 reg1 "ps @ qs"] by (auto simp: recorded_def)
    with step plain AgentDir show ?thesis
      by (auto simp: recorded_def only_sidecars_def intro!: exI [of _ "qs @ rs"])
  qed (use Cons in \<open>simp_all add: recorded_none\<close>)
qed (simp add: recorded_none)

lemma sidecar_irrelevant: "file_name p = Some ''agent.toml.hash'' \<Longrightarrow> \<not> is_relevant p"
  by (simp add: is_relevant_def)

text \<open>
  C25: A reload does not wake the watcher again: whatever the directory holds, the only files that a load of the registry
  writes are hash files, and a notification about those is ignored. For the same reason a change of the hash file
  that guards a profile is never noticed by the watcher, which looks for another name.
\<close>

theorem reload_wakes_nobody:
  "(\<exists>ps. registry_load_dir (recording env) (w, []) dir =
       ((fst (registry_load_dir env w dir), ps), snd (registry_load_dir env w dir)) \<and>
     \<not> notifies \<lparr>ne_kind = kind, ne_paths = ps\<rparr>) \<and>
   \<not> notifies \<lparr>ne_kind = kind, ne_paths = [with_extension (path_join agent_dir ''agent.toml'') ''toml.hash'']\<rparr>"
proof
  have "recorded (registry_load_dir env w dir) [] (registry_load_dir (recording env) (w, []) dir)"
    using recorded_entries by (auto simp: registry_load_dir_def recorded_none split: sum.splits)
  then obtain ps where ps: "registry_load_dir (recording env) (w, []) dir =
      ((fst (registry_load_dir env w dir), ps), snd (registry_load_dir env w dir))" "only_sidecars ps"
    by (auto simp: recorded_def)
  then have "\<not> notifies \<lparr>ne_kind = kind, ne_paths = ps\<rparr>"
    using sidecar_irrelevant by (auto simp: notifies_def list_ex_iff only_sidecars_def list_all_iff)
  with ps show "\<exists>ps. registry_load_dir (recording env) (w, []) dir =
       ((fst (registry_load_dir env w dir), ps), snd (registry_load_dir env w dir)) \<and>
     \<not> notifies \<lparr>ne_kind = kind, ne_paths = ps\<rparr>" by blast
  show "\<not> notifies \<lparr>ne_kind = kind, ne_paths = [with_extension (path_join agent_dir ''agent.toml'') ''toml.hash'']\<rparr>"
    using sidecar_irrelevant [OF sidecar_name [OF agent_toml_name]] by (simp add: notifies_def)
qed

inductive_cases watcher_stepE: "watcher_step env dir s t"

definition loaded_from :: "'w profile_env \<Rightarrow> string \<Rightarrow> agent_registry \<Rightarrow> bool" where
  "loaded_from env dir reg \<longleftrightarrow> (\<exists>w w1. registry_load_dir env w dir = (w1, Inr reg))"

lemma watcher_step_registry:
  assumes "watcher_step env dir s t"
  shows "wa_registry t = wa_registry s \<or> loaded_from env dir (wa_registry t)"
  using assms
proof cases
  case (reload n poisoned w1 reg1)
  then show ?thesis
    by (auto simp: hot_reload_def loaded_from_def split: prod.splits sum.splits if_splits)
qed simp

text \<open>
  However files change and reloads interleave with the changes, whoever reads the registry under the watcher finds
  the one it was started with or one complete load of the directory, never a part of one; so a registry that was
  well typed stays so, and a load that fails keeps the agents there were.
\<close>

theorem readers_see_whole_loads:
  assumes "(watcher_step env dir)\<^sup>*\<^sup>* s t"
  shows "(wa_registry t = wa_registry s \<or> loaded_from env dir (wa_registry t)) \<and>
    (registry_ok (wa_registry s) \<longrightarrow> registry_ok (wa_registry t))"
proof -
  have "wa_registry t = wa_registry s \<or> loaded_from env dir (wa_registry t)"
    using assms by (induction rule: rtranclp_induct) (auto dest: watcher_step_registry)
  then show ?thesis by (auto simp: loaded_from_def dest: loaded_registry_ok)
qed

text \<open>The profile of the demonstration disk is touched, and loaded.\<close>

theorem readers_see_whole_loads_witness:
  "\<exists>t. (watcher_step demo_disk ''d'')\<^sup>*\<^sup>* \<lparr>wa_world = [], wa_registry = registry_empty, wa_messages = 0\<rparr> t \<and>
     registry_get (wa_registry t) ''rev'' = Some demo_reviewer \<and> registry_ok (wa_registry t)"
proof -
  let ?s = "\<lparr>wa_world = [], wa_registry = registry_empty, wa_messages = 0\<rparr>"
    and ?e = "\<lparr>ne_kind = CreateEvent, ne_paths = [''d/rev/agent.toml'']\<rparr>"
  let ?s1 = "\<lparr>wa_world = demo_files, wa_registry = registry_empty, wa_messages = Suc 0\<rparr>"
  let ?reg = "\<lparr>rg_agents = [(''rev'', demo_reviewer)], rg_failed_loads = []\<rparr>"
  let ?t = "\<lparr>wa_world = demo_files @ [(''d/rev/agent.toml.hash'', ''good'')], wa_registry = ?reg, wa_messages = 0\<rparr>"
  have "notifies ?e" by code_simp
  then have "watcher_step demo_disk ''d'' ?s ?s1"
    using watcher_step.notice [where s = ?s and ?w1.0 = demo_files and e = ?e and env = demo_disk and dir = "''d''"] by simp
  moreover have "watcher_step demo_disk ''d'' ?s1 ?t"
    using watcher_step.reload [where s = ?s1 and n = 0 and env = demo_disk and dir = "''d''" and poisoned = False] demo_load
    by (simp add: hot_reload_def)
  ultimately have run: "(watcher_step demo_disk ''d'')\<^sup>*\<^sup>* ?s ?t" by auto
  have "registry_ok registry_empty" by (simp add: registry_ok_def registry_empty_def registry_get_def)
  then have "registry_ok ?reg" using readers_see_whole_loads [OF run] by simp
  with run show ?thesis by (auto simp: registry_get_def)
qed

section \<open>Where agents are looked for\<close>

text \<open>
  An override whose path can be resolved is used only when it resolves to below the home directory; otherwise the
  directory is the default one, which is below it too.
\<close>

theorem agents_dir_confined:
  assumes "canonicalize dir = Some canonical" and "default_agents_dir (Some dir) (Some base) canonicalize = found"
  shows "found = dir \<and> path_starts_with canonical base \<or> found = path_join (path_join base ''.lattice'') ''agents''"
  using assms by (auto simp: default_agents_dir_def dirs_override_def Let_def split: if_splits)

theorem agents_dir_confined_witness:
  "default_agents_dir (Some ''/tmp/x'') (Some ''/home/u'') Some = ''/home/u/.lattice/agents''"
proof -
  have "\<not> path_starts_with ''/tmp/x'' ''/home/u''" "path_join (path_join ''/home/u'' ''.lattice'') ''agents'' = ''/home/u/.lattice/agents''"
    by code_simp+
  then show ?thesis using agents_dir_confined [of Some "''/tmp/x''" "''/tmp/x''" "''/home/u''"] by auto
qed

text \<open>
  An override that does not exist yet cannot be resolved, and is then compared as it is written: one that climbs out of the
  home directory is accepted, whatever follows.
\<close>

theorem unresolved_override_escapes:
  assumes "canonicalize (base @ ''/../'' @ rest) = None" and "base \<noteq> []"
  shows "default_agents_dir (Some (base @ ''/../'' @ rest)) (Some base) canonicalize = base @ ''/../'' @ rest"
proof -
  have "str_split slash (''../'' @ rest) = ''..'' # str_split slash rest"
    using str_split_append [of slash "''..''" rest] by (simp add: slash_def)
  then have "components (base @ slash # (''../'' @ rest)) = components base @ components (''../'' @ rest)"
    using assms(2) by (intro components_append_slash) (auto simp: is_absolute_def slash_def)
  then have "path_starts_with (base @ ''/../'' @ rest) base" by (simp add: path_starts_with_def slash_def)
  then show ?thesis using assms(1) by (simp add: default_agents_dir_def)
qed

theorem unresolved_override_escapes_witness:
  "default_agents_dir (Some ''/home/u/../../srv/x'') (Some ''/home/u'') (\<lambda>_. None) = ''/home/u/../../srv/x''"
  using unresolved_override_escapes [of "\<lambda>_. None" "''/home/u''" "''../srv/x''"] by simp

end
