(* ===== verification/Spec2Isabelle.thy ===== *)
theory Spec2Isabelle
  imports Sse_OpenAI Sse_Anthropic Sse_Gemini Retry Manifest Runtime Sqlite_Memory Blob Audited Serving
begin

text \<open>
  \<^bold>\<open>Lattice runtime: a verification development.\<close>

  The repository is a Rust runtime for language-model agents (\<open>lattice/src\<close>). A model name is resolved to a
  provider with its endpoint and credential; a conversation is sent in the wire format of that provider and the
  answer read back as a stream of events; an agent repeats this, executing the tools the model asks for; plugins,
  pipelines and a bus let agents work together; a runtime object owns the shared parts.

  \<^bold>\<open>Conventions.\<close> A \<open>Result\<close> is a sum with the error on the left, an \<open>Option\<close> an option; a function that can panic
  has an option around its result, and \<^const>\<open>None\<close> is the panic. Integers keep their width as words where they can
  wrap; a \<open>usize\<close> that only counts is a natural number; a \<open>Duration\<close> is its nanoseconds; an \<open>f64\<close> is the rational it
  denotes, or one of the special values, and each operation rounds (\<open>Rust_Num\<close>, \<open>Rust_Float\<close>). A \<open>String\<close> is the
  list of its UTF-8 bytes (\<open>Rust_Str\<close>, \<open>Rust_Path\<close>). An \<open>IndexMap\<close>, and a \<open>HashMap\<close> whose order nobody sees, is an
  insertion-ordered association list (\<open>Prelude\<close>); where the order of a \<open>HashMap\<close> is seen it is a parameter. JSON values
  are \<open>Json\<close>. Definitions keep the names of the source; record fields have a prefix per record.

  What is not in the repository is a parameter, gathered in one environment record per component (\<open>agent_env\<close>,
  \<open>http_env\<close>, \<open>profile_env\<close>, \<open>pipeline_env\<close>, \<open>sql_engine\<close> and so on): the text of JSON and TOML, regular expressions,
  URLs and DNS, the HTTP client, files, the shell, hashes, token encoders, SQL full-text search, the clock, random
  numbers. The type variable \<open>'w\<close> is the world these act on. Theorems that need a property of a parameter state it as
  a hypothesis and have a witness with a concrete instance.

  \<^bold>\<open>Core (\<open>core/\<close>).\<close>
  \<open>Core_Types\<close>: messages, tool calls, behaviour modes, memory partitions and their access lists, protocols, the catalog.
  \<open>Errors\<close>: the error type and the classifier of provider errors. \<open>Retry\<close>: jittered back-off in double precision,
  with the bounds of every delay. \<open>Security\<close>: private addresses and base URLs. \<open>Tokens\<close>: token estimates.
  \<open>Handoff\<close>: targets with their text form, conditions, operators and the rule table; the properties are the round
  trip of targets and the meaning of conditions. \<open>Router\<close>: names, aliases, priorities, the credential cache; resolution
  is shown to implement the best-provider specification, and what it returns is usable.
  \<open>Sse\<close>: framing of the byte stream and the driver over a parser; framing does not depend on how the bytes are cut into
  chunks. \<open>Sse_OpenAI\<close>, \<open>Sse_Anthropic\<close>, \<open>Sse_Gemini\<close>: the three parsers, each an interpretation of the locale
  \<open>sse_parser\<close>, from which follows that tool calls are opened, continued and closed in order.
  \<open>Transport\<close>, \<open>Transport_Anthropic\<close>, \<open>Transport_Gemini\<close>: requests and whole responses, the trait as a record of
  functions, the dispatcher; each format interprets the locale \<open>wire_format\<close>. \<open>Invocation\<close>: headers, URLs, sending,
  \<open>chat\<close> and \<open>chat_complete\<close>; a turn survives the wire, requests go only to vetted hosts with vetted headers.

  \<^bold>\<open>Agents (\<open>agent/\<close>, \<open>tools/\<close>).\<close>
  \<open>Prompt\<close>: sections, budgets, compiler and templates; a compiled prompt keeps its budget. \<open>Agent_Memory\<close>: the in-memory
  store, interpreting the locale \<open>memory_store\<close> that its client in the prompt relies on. \<open>Agent_State\<close>: the conversation
  and its trimming, which never separates tool results from their call. \<open>Hook\<close>, \<open>Sandbox\<close>: what a tool may touch.
  \<open>Tools\<close>, \<open>Executor\<close>: the registry and the built-in tools; writes stay below the project. \<open>Agent\<close>: the request loop
  with its retries; it returns, within a bound on requests, and stores what the stream said. \<open>Sqlite_Memory\<close>: the
  store on SQLite, its search, its shared interface as an interpretation of the locale \<open>partitioned_store\<close>. \<open>Blob\<close>:
  large payloads, the provider of bus events and the tool that fetches a payload back. \<open>Audit_Log\<close>: the audit log over its files, with rotation one file
  operation at a time, interleaved with writers. \<open>Audited\<close>: what the sandbox and the agent hand to it; the verdict on
  every command reaches the end of the log, and the log changes no verdict.

  \<^bold>\<open>Plugins (\<open>plugin/\<close>).\<close> \<open>Plugin\<close> and \<open>Plugin_Run\<close>: the loop of a plugin; the locale \<open>request_budget\<close>, interpreted on the
  agent, bounds its requests. \<open>Plugin_Dag\<close>: the graph of plugin slots; a run is a path of it. \<open>Manifest\<close>: declared plugins,
  loading and hot reload; files are read below the plugin's directory only.

  \<^bold>\<open>Bus and pipelines (\<open>bus/\<close>).\<close> \<open>Bus\<close>: the in-memory bus as a step relation, every await a step; an invariant places
  each request in one channel, and the properties say that a call reaches its target and that the permits bound the
  calls. \<open>Micro_Agent\<close>: an agent behind a channel of the bus; it only takes steps of that relation. \<open>Profile\<close>: profiles in
  TOML, the verifying loader, the registry of a directory. \<open>Runner\<close>: an agent assembled from a profile and its schema
  rounds; the locale \<open>one_shot\<close> bounds them. \<open>Pipeline\<close> and \<open>Pipeline_Run\<close>: handoffs, forks, fallbacks, the dry run and
  what it promises about every run. \<open>Serving\<close>: who may watch the events through the web socket and what a client is
  sent, the watcher that reloads the registry, as a step relation, and where agents are looked for.

  \<^bold>\<open>Runtime (\<open>runtime/mod.rs\<close>).\<close> \<open>Runtime\<close>: construction and wiring. It is where components meet: loading a directory, the dry
  run and the run. This theory adds what spans the micro agents and the store on SQLite.

  \<^bold>\<open>Bounds and fuel.\<close> Loops of the source are recursive functions on what they consume: the list they walk, the
  attempts or turns they have left, which are the limits in the code (\<open>max_turns\<close>, \<open>max_retries\<close>, \<open>max_iterations\<close>). The
  search for a way back to an agent in the dry run, which the code bounds by its visited set, has the number of agents
  plus two as fuel: a path without repetition is no longer than that. Path components, JSON depth, response sizes
  and the like are the constants of the source.

  \<^bold>\<open>Concurrency.\<close> Tasks are step relations where their interleaving matters: the bus, the audit log, the watcher. The branches
  of a fork are evaluated one by one, each on a world that a parameter gives it. Locks that are held for a whole
  operation make it one step.

  \<^bold>\<open>Not modelled.\<close> Log output and the set-up of logging (\<open>core/logging.rs\<close>); the kernel side of the sandbox (Landlock,
  resource limits); what the notify and socket crates do around \<open>Serving\<close>; serde's derives, except where their
  defaults, tags and aliases decide what a text means; accessors and the setters of single fields of plain records, which are the fields;
  \<open>core/catalog/data.json\<close>, which is an argument; tests, benches and examples.
\<close>

section \<open>Micro agents on the store of SQLite\<close>

lemma save_partitions_stuck:
  assumes "mc_now_ms env = (\<lambda>w. (w, ms))" and "mc_save_shared env = save_shared_sync en"
    and "\<And>index rows i. i \<in> rw_rowid ` set rows \<Longrightarrow> \<not> set fts_columns \<subseteq> set memory_columns \<Longrightarrow>
      \<exists>msg. en_index_delete en index rows i = Inl msg"
    and "me_id (answer_entry t ''-shared-'' '': shared output'' content ms) \<in> rw_id ` set (sq_rows db)"
  shows "save_partitions env t content ps db = db"
proof (induction ps)
  case (Cons p ps)
  let ?e = "answer_entry t ''-shared-'' '': shared output'' content ms"
  have "fst (save_shared_sync en db ?e p (mk_access t)) = db"
  proof (cases "can_write (mk_access t) p")
    case True
    then show ?thesis using second_insert_fails(2) [OF assms(3,4) True] by auto
  qed (simp add: save_shared_sync_def)
  then show ?case using Cons assms(1,2) by (cases "save_shared_sync en db ?e p (mk_access t)") simp
qed simp

text \<open>
  C37: A micro agent that stores an answer in several partitions within one millisecond gives all of the entries the
  same id, and the store of SQLite keeps only one entry of an id: the first partition has the answer, the others
  never get it, and the agent only logs the failures.
\<close>

theorem one_partition_per_millisecond:
  assumes "mc_now_ms env = (\<lambda>w. (w, ms))" and "mc_save_shared env = save_shared_sync en"
    and "\<And>index rows i. i \<in> rw_rowid ` set rows \<Longrightarrow> \<not> set fts_columns \<subseteq> set memory_columns \<Longrightarrow>
      \<exists>msg. en_index_delete en index rows i = Inl msg"
    and "save_shared_sync en db (answer_entry t ''-shared-'' '': shared output'' content ms) p (mk_access t) = (db1, Inr u)"
  shows "save_partitions env t content (p # ps) db = db1"
proof -
  let ?e = "answer_entry t ''-shared-'' '': shared output'' content ms"
  have "me_id ?e \<in> rw_id ` set (sq_rows db1)"
    using save_shared_Inr(2) [OF assms(4)] by (simp add: replace_row_def entry_row_def)
  then have "save_partitions env t content ps db1 = db1" using save_partitions_stuck [OF assms(1,2) assms(3)] by blast
  then show ?thesis using assms(1,2,4) by simp
qed

text \<open>An agent that may write to two partitions, on the engine of the store's witnesses.\<close>

definition silent_env :: "'w agent_env" where
  "silent_env =
     \<lparr>ae_chat = (\<lambda>w m ms tools effort. (w, Inr [])), ae_execute = (\<lambda>w call. (w, [])), ae_random = (\<lambda>w. (w, Fin 0)),
      ae_sleep = (\<lambda>w d. w), ae_order = (\<lambda>m. m), ae_bpe = (\<lambda>_ s. length s), ae_cwd = None, ae_lattice_model = None\<rparr>"

definition demo_store_env :: "unit sqlite micro_env" where
  "demo_store_env =
     \<lparr>mc_assembly = \<lparr>as_files = no_files, as_http_client = Inr (), as_agent_env = (\<lambda>_. silent_env), as_tool_order = (\<lambda>ts. ts),
        as_recall = (\<lambda>_ _ _. [])\<rparr>,
      mc_runner = demo_runner_env, mc_router_ext = sample_ext,
      mc_catalog = \<lparr>cat_models = [], cat_aliases = [], cat_provider_defaults = []\<rparr>,
      mc_print = (\<lambda>_. ''x''), mc_now_ms = (\<lambda>w. (w, 7)), mc_save = (\<lambda>db e. save_private_sql demo_engine db e),
      mc_save_shared = save_shared_sync demo_engine\<rparr>"

definition demo_store_task :: "unit sqlite micro_task" where
  "demo_store_task =
     \<lparr>mk_id = ''dev'', mk_channel = 0, mk_runner = demo_profile_runner None, mk_executor = executor_new ''.'' None,
      mk_max_turns = 10, mk_profile = demo_profile ''dev'' None, mk_memory = True, mk_shared_memory = True,
      mk_access = \<lparr>pa_read = [], pa_write = [Named ''a'', Named ''b'']\<rparr>\<rparr>"

lemma demo_first_insert:
  "insert_entry demo_engine demo_sql e (Some p) = (\<lparr>sq_rows = [entry_row demo_engine [] e (Some p)], sq_index = ()\<rparr>, Inr ())"
  by (simp add: insert_entry_def demo_sql_def demo_engine_def replace_row_def Let_def)

theorem one_partition_per_millisecond_witness:
  "\<exists>db. save_partitions demo_store_env demo_store_task ''out'' [Named ''a'', Named ''b''] demo_sql = db \<and>
     map rw_partition (sq_rows db) = [''a'']"
proof -
  let ?e = "answer_entry demo_store_task ''-shared-'' '': shared output'' ''out'' 7"
  have allowed: "can_write (mk_access demo_store_task) (Named ''a'')" by (simp add: demo_store_task_def can_write_def)
  define db1 where "db1 = \<lparr>sq_rows = [entry_row demo_engine [] ?e (Some ''a'')], sq_index = ()\<rparr>"
  have saved: "save_shared_sync demo_engine demo_sql ?e (Named ''a'') (mk_access demo_store_task) = (db1, Inr ())"
    unfolding save_shared_sync_def partition_str_def shared_partition.case demo_first_insert db1_def using allowed by simp
  have "save_partitions demo_store_env demo_store_task ''out'' [Named ''a'', Named ''b''] demo_sql = db1"
    by (rule one_partition_per_millisecond [OF _ _ _ saved]) (simp_all add: demo_store_env_def demo_engine_def)
  moreover have "map rw_partition (sq_rows db1) = [''a'']" by (simp add: db1_def entry_row_def)
  ultimately show ?thesis by simp
qed

end
